(* ===== verification/Gy_Prelude.thy ===== *)
theory Gy_Prelude
  imports Complex_Main "HOL-Library.Word" "HOL-Library.AList" "HOL-Library.Char_ord" "HOL-Library.List_Lexorder"
    "HOL-Library.Product_Lexorder" "HOL-Library.Monad_Syntax" "HOL-Library.Multiset"
begin

text \<open>
  Shared vocabulary of the development: the types every component uses for times and
  identifiers, the collections the component proofs draw on, and generic lemmas on keyed
  tables (association lists, the model of a database table with a primary key) and on
  Python's \<open>sorted(set(xs))\<close>.
\<close>

section \<open>Names of types\<close>

text \<open>
  Instants and durations are integers counting microseconds (the resolution of Python's
  \<open>datetime\<close> and \<open>timedelta\<close>); an instant is naive UTC, as the repository stores it.
\<close>

type_synonym instant = int
type_synonym duration = int
type_synonym target_id = int
type_synonym collector_id = string

abbreviation seconds :: "int \<Rightarrow> duration" where
  "seconds s \<equiv> s * 1000000"

section \<open>Collections\<close>

named_theorems table_simps \<open>lookups in updated and filtered tables\<close>
named_theorems field_defs \<open>bit-field extractions\<close>

section \<open>Python's sorted(set(xs))\<close>

definition sorted_set :: "'a::linorder list \<Rightarrow> 'a list" where
  "sorted_set xs = sort (remdups xs)"

lemma set_sorted_set [simp]: "set (sorted_set xs) = set xs"
  by (simp add: sorted_set_def)

lemma distinct_sorted_set [simp]: "distinct (sorted_set xs)"
  by (simp add: sorted_set_def)

lemma sorted_sorted_set [simp]: "sorted (sorted_set xs)"
  by (simp add: sorted_set_def)

lemma length_sorted_set [simp]: "length (sorted_set xs) = card (set xs)"
  by (metis distinct_card distinct_sorted_set set_sorted_set)

lemma sorted_set_empty [simp]: "sorted_set xs = [] \<longleftrightarrow> xs = []"
  by (metis set_empty set_sorted_set)

lemma sorted_set_cong: "set xs = set ys \<Longrightarrow> sorted_set xs = sorted_set ys"
  by (rule sorted_distinct_set_unique) auto

lemma sorted_set_id: "sorted xs \<Longrightarrow> distinct xs \<Longrightarrow> sorted_set xs = xs"
  by (simp add: sorted_set_def distinct_remdups_id sorted_sort_id)

section \<open>Tables with a primary key\<close>

text \<open>
  A table is an association list from its primary key to the row; \<open>unique_key\<close> is the
  primary-key constraint. \<open>AList.update\<close> inserts or replaces, \<open>filter\<close> on the rows
  models \<open>DELETE ... WHERE\<close>.
\<close>

type_synonym ('k, 'v) db_table = "('k \<times> 'v) list"

abbreviation unique_key :: "('k, 'v) db_table \<Rightarrow> bool" where
  "unique_key t \<equiv> distinct (map fst t)"

definition rows_where :: "('k \<Rightarrow> 'v \<Rightarrow> bool) \<Rightarrow> ('k, 'v) db_table \<Rightarrow> ('k, 'v) db_table" where
  "rows_where P t = filter (\<lambda>(k, v). P k v) t"

definition count_where :: "('k \<Rightarrow> 'v \<Rightarrow> bool) \<Rightarrow> ('k, 'v) db_table \<Rightarrow> nat" where
  "count_where P t = length (rows_where P t)"

definition map_rows :: "('k \<Rightarrow> 'v \<Rightarrow> 'v) \<Rightarrow> ('k, 'v) db_table \<Rightarrow> ('k, 'v) db_table" where
  "map_rows f t = map (\<lambda>(k, v). (k, f k v)) t"

lemma map_of_rows_where [table_simps]:
  "unique_key t \<Longrightarrow> map_of (rows_where P t) k =
     (case map_of t k of None \<Rightarrow> None | Some v \<Rightarrow> if P k v then Some v else None)"
proof (induction t)
  case Nil
  then show ?case by (simp add: rows_where_def)
next
  case (Cons r t)
  obtain j v where r: "r = (j, v)" by (cases r)
  have "map_of (rows_where P t) j = None" if "j \<notin> fst ` set t"
    using that by (auto simp: rows_where_def map_of_eq_None_iff image_iff)
  with Cons r show ?case
    by (auto simp: rows_where_def)
qed

lemma unique_key_rows_where [simp]: "unique_key t \<Longrightarrow> unique_key (rows_where P t)"
  by (induction t) (auto simp: rows_where_def)

lemma set_rows_where: "set (rows_where P t) = {(k, v) \<in> set t. P k v}"
  by (auto simp: rows_where_def)

lemma map_of_map_rows [table_simps]:
  "map_of (map_rows f t) k = map_option (f k) (map_of t k)"
  by (induction t) (auto simp: map_rows_def)

lemma fst_map_rows [simp]: "map fst (map_rows f t) = map fst t"
  by (induction t) (auto simp: map_rows_def)

lemma unique_key_update [simp]: "unique_key t \<Longrightarrow> unique_key (AList.update k v t)"
  by (rule distinct_update)

lemma map_of_update [table_simps]:
  "map_of (AList.update k v t) j = (if j = k then Some v else map_of t j)"
  by (simp add: update_conv')

lemma count_where_card:
  assumes "unique_key t"
  shows "count_where P t = card {k. \<exists>v. map_of t k = Some v \<and> P k v}"
proof -
  have u: "unique_key (rows_where P t)" using assms by simp
  have "count_where P t = card (set (map fst (rows_where P t)))"
    using distinct_card [OF u] by (simp add: count_where_def)
  also have "set (map fst (rows_where P t)) = {k. \<exists>v. map_of t k = Some v \<and> P k v}"
    using assms by (force simp: set_rows_where image_iff)
  finally show ?thesis .
qed

lemma count_where_map_rows [table_simps]:
  "count_where P (map_rows f t) = count_where (\<lambda>k v. P k (f k v)) t"
  by (induction t) (auto simp: count_where_def rows_where_def map_rows_def)

lemma finite_map_of_dom [simp]: "finite {k. \<exists>v. map_of t k = Some v \<and> P k v}"
  by (rule finite_subset [OF _ finite_dom_map_of [of t]]) auto

text \<open>Rows are looked up by key; membership of the pair in the list is not the normal form.\<close>

declare map_of_eq_Some_iff [simp del]

section \<open>Lists and options\<close>

text \<open>Where a separator cannot occur in the fields, the first field can be read back.\<close>

lemma split_at_separator:
  assumes "x \<notin> set u" "x \<notin> set v" "u @ x # s = v @ x # t"
  shows "u = v \<and> s = t"
  using assms
proof (induction u arbitrary: v)
  case Nil
  then show ?case by (cases v) auto
next
  case (Cons a u)
  then show ?case by (cases v) auto
qed

lemma find_SomeD: "find P xs = Some x \<Longrightarrow> x \<in> set xs \<and> P x"
  by (induction xs) (auto split: if_splits)

lemma reflclp_into_rtranclp: "R\<^sup>=\<^sup>= x y \<Longrightarrow> R\<^sup>*\<^sup>* x y"
  by auto

lemma take_filter_subset: "set (take n (filter P xs)) \<subseteq> {x \<in> set xs. P x}"
  using set_take_subset by fastforce

lemma fold_invariant:
  assumes "I s" and "\<And>x s. x \<in> set xs \<Longrightarrow> I s \<Longrightarrow> I (f x s)"
  shows "I (fold f xs s)"
  using assms by (induction xs arbitrary: s) auto

lemma card_le_sum_length:
  assumes "finite S" and "S \<subseteq> (\<Union>c \<in> C. set (f c))" and "finite C"
  shows "card S \<le> (\<Sum>c \<in> C. length (f c))"
proof -
  have "card S \<le> card (\<Union>c \<in> C. set (f c))"
    using assms by (intro card_mono) auto
  also have "\<dots> \<le> (\<Sum>c \<in> C. card (set (f c)))"
    using assms(3) by (rule card_UN_le)
  also have "\<dots> \<le> (\<Sum>c \<in> C. length (f c))"
    by (intro sum_mono card_length)
  finally show ?thesis .
qed

end
