(* ===== verification/Py_Text.thy ===== *)
theory Py_Text
  imports Gy_Prelude
begin

text \<open>
  The part of Python's \<open>str\<close> and number formatting that the modelled code uses. A text is a
  \<open>string\<close> of bytes (UTF-8), so a non-ASCII character of the source is several \<open>char\<close>s;
  case mapping and white space are those of ASCII. Numbers are rendered as
  \<open>f"{n:0wx}"\<close> and \<open>str(n)\<close> render them, and read back as \<open>int(s, 16)\<close> reads them.
\<close>

section \<open>Digits\<close>

fun digits_of :: "nat \<Rightarrow> nat \<Rightarrow> nat list" where
  "digits_of b n = (if b \<le> 1 \<or> n < b then [n] else digits_of b (n div b) @ [n mod b])"

declare digits_of.simps [simp del]

definition digit_char :: "nat \<Rightarrow> char" where
  "digit_char d = (if d < 10 then char_of (48 + d) else char_of (87 + d))"

definition digit_value :: "char \<Rightarrow> nat option" where
  "digit_value c =
     (let n = (of_char c :: nat) in
      if 48 \<le> n \<and> n \<le> 57 then Some (n - 48)
      else if 97 \<le> n \<and> n \<le> 102 then Some (n - 87)
      else if 65 \<le> n \<and> n \<le> 70 then Some (n - 55)
      else None)"

definition digits_value :: "nat \<Rightarrow> nat list \<Rightarrow> nat" where
  "digits_value b ds = foldl (\<lambda>acc d. acc * b + d) 0 ds"

text \<open>Decimal: \<open>str(n)\<close>. Hexadecimal: \<open>f"{n:0wx}"\<close>, padded with zeros to width \<open>w\<close>.\<close>

definition dec_of_nat :: "nat \<Rightarrow> string" where
  "dec_of_nat n = map digit_char (digits_of 10 n)"

definition py_str_int :: "int \<Rightarrow> string" where
  "py_str_int i = (if i < 0 then ''-'' @ dec_of_nat (nat (- i)) else dec_of_nat (nat i))"

definition hex_of_nat :: "nat \<Rightarrow> string" where
  "hex_of_nat n = map digit_char (digits_of 16 n)"

definition hex_pad :: "nat \<Rightarrow> nat \<Rightarrow> string" where
  "hex_pad w n = (let s = hex_of_nat n in replicate (w - length s) (CHR ''0'') @ s)"

definition hex0x :: "nat \<Rightarrow> nat \<Rightarrow> string" where
  "hex0x w n = ''0x'' @ hex_pad w n"

section \<open>Case, white space, substrings\<close>

definition lower_char :: "char \<Rightarrow> char" where
  "lower_char c = (let n = (of_char c :: nat) in if 65 \<le> n \<and> n \<le> 90 then char_of (n + 32) else c)"

definition py_lower :: "string \<Rightarrow> string" where
  "py_lower s = map lower_char s"

definition upper_char :: "char \<Rightarrow> char" where
  "upper_char c = (let n = (of_char c :: nat) in if 97 \<le> n \<and> n \<le> 122 then char_of (n - 32) else c)"

definition py_upper :: "string \<Rightarrow> string" where
  "py_upper s = map upper_char s"

definition is_space :: "char \<Rightarrow> bool" where
  "is_space c = (let n = (of_char c :: nat) in 9 \<le> n \<and> n \<le> 13 \<or> 28 \<le> n \<and> n \<le> 32)"

definition py_lstrip :: "string \<Rightarrow> string" where
  "py_lstrip s = dropWhile is_space s"

definition py_rstrip :: "string \<Rightarrow> string" where
  "py_rstrip s = rev (dropWhile is_space (rev s))"

definition py_strip :: "string \<Rightarrow> string" where
  "py_strip s = py_rstrip (py_lstrip s)"

definition rstrip_char :: "char \<Rightarrow> string \<Rightarrow> string" where
  "rstrip_char c s = rev (dropWhile (\<lambda>x. x = c) (rev s))"

fun starts_with :: "string \<Rightarrow> string \<Rightarrow> bool" where
  "starts_with s [] = True"
| "starts_with [] (p # ps) = False"
| "starts_with (c # s) (p # ps) = (c = p \<and> starts_with s ps)"

fun contains :: "string \<Rightarrow> string \<Rightarrow> bool" where
  "contains [] p = starts_with [] p"
| "contains (c # s) p = (starts_with (c # s) p \<or> contains s p)"

definition ends_with :: "string \<Rightarrow> string \<Rightarrow> bool" where
  "ends_with s p = starts_with (rev s) (rev p)"

fun py_join :: "string \<Rightarrow> string list \<Rightarrow> string" where
  "py_join sep [] = []"
| "py_join sep [x] = x"
| "py_join sep (x # y # xs) = x @ sep @ py_join sep (y # xs)"

text \<open>\<open>s.split(c)\<close> on one character: the parts, never an empty list.\<close>

fun split_char :: "char \<Rightarrow> string \<Rightarrow> string list" where
  "split_char c [] = [[]]"
| "split_char c (x # s) =
     (if x = c then [] # split_char c s
      else (case split_char c s of [] \<Rightarrow> [[x]] | p # ps \<Rightarrow> (x # p) # ps))"

section \<open>Reading hexadecimal\<close>

text \<open>
  \<open>int(s, 16)\<close>: surrounding white space, an optional sign, an optional \<open>0x\<close> prefix, then
  digits with single underscores between them (or right after the prefix).
\<close>

fun hex_digits_value :: "bool \<Rightarrow> nat \<Rightarrow> string \<Rightarrow> nat option" where
  "hex_digits_value us acc [] = (if us then None else Some acc)"
| "hex_digits_value us acc (c # s) =
     (if c = CHR ''_'' then (if us then None else hex_digits_value True acc s)
      else (case digit_value c of None \<Rightarrow> None
            | Some d \<Rightarrow> hex_digits_value False (acc * 16 + d) s))"

definition hex_body :: "string \<Rightarrow> nat option" where
  "hex_body s =
     (if starts_with (py_lower s) ''0x'' then
        (case drop 2 s of [] \<Rightarrow> None
         | c # r \<Rightarrow> if c = CHR ''_'' then (if r = [] then None else hex_digits_value True 0 r)
                     else hex_digits_value False 0 (c # r))
      else (case s of [] \<Rightarrow> None
            | c # r \<Rightarrow> if c = CHR ''_'' then None else hex_digits_value False 0 (c # r)))"

definition py_int16 :: "string \<Rightarrow> int option" where
  "py_int16 s =
     (let t = py_strip s in
      case t of [] \<Rightarrow> None
      | c # r \<Rightarrow> if c = CHR ''-'' then map_option (\<lambda>n. - int n) (hex_body r)
                  else if c = CHR ''+'' then map_option int (hex_body r)
                  else map_option int (hex_body t))"

section \<open>Lemmas on digits\<close>

lemma digits_of_less: "1 < b \<Longrightarrow> d \<in> set (digits_of b n) \<Longrightarrow> d < b"
proof (induction b n rule: digits_of.induct)
  case (1 b n)
  then show ?case
    by (cases "n < b") (auto simp: digits_of.simps [of b n])
qed

lemma digits_of_nonempty [simp]: "digits_of b n \<noteq> []"
  by (subst digits_of.simps) simp

lemma digits_value_snoc: "digits_value b (ds @ [d]) = digits_value b ds * b + d"
  by (simp add: digits_value_def)

lemma digits_value_digits_of: "1 < b \<Longrightarrow> digits_value b (digits_of b n) = n"
proof (induction b n rule: digits_of.induct)
  case (1 b n)
  show ?case
  proof (cases "n < b")
    case True
    then show ?thesis by (simp add: digits_of.simps [of b n] digits_value_def)
  next
    case False
    with 1 have "digits_value b (digits_of b (n div b)) = n div b" by simp
    with False 1 show ?thesis
      by (simp add: digits_of.simps [of b n] digits_value_snoc)
  qed
qed

lemma length_digits_of:
  "1 < b \<Longrightarrow> n < b ^ w \<Longrightarrow> 0 < w \<Longrightarrow> length (digits_of b n) \<le> w"
proof (induction b n arbitrary: w rule: digits_of.induct)
  case (1 b n)
  show ?case
  proof (cases "n < b")
    case True
    with 1 show ?thesis by (simp add: digits_of.simps [of b n])
  next
    case False
    from False 1 have "w \<noteq> 1" by auto
    with 1 obtain v where w: "w = Suc v" "0 < v" by (cases w) auto
    have "n div b < b ^ v"
      using 1 w by (simp add: less_mult_imp_div_less mult.commute)
    with 1 False w have "length (digits_of b (n div b)) \<le> v" by simp
    with False 1 w show ?thesis by (simp add: digits_of.simps [of b n])
  qed
qed

lemma digit_value_digit_char: "d < 16 \<Longrightarrow> digit_value (digit_char d) = Some d"
  by (auto simp: digit_value_def digit_char_def Let_def)

lemma digit_char_neq:
  assumes "d < 16"
  shows "digit_char d \<noteq> CHR ''_''" "digit_char d \<noteq> CHR ''x''" "digit_char d \<noteq> CHR ''-''"
    "digit_char d \<noteq> CHR ''+''"
proof -
  have "digit_value (digit_char d) \<noteq> None" using digit_value_digit_char [OF assms] by simp
  then show "digit_char d \<noteq> CHR ''_''" "digit_char d \<noteq> CHR ''x''" "digit_char d \<noteq> CHR ''-''"
    "digit_char d \<noteq> CHR ''+''"
    by (auto simp: digit_value_def)
qed

lemma hex_digits_value_map:
  "\<forall>d \<in> set ds. d < 16 \<Longrightarrow>
     hex_digits_value False acc (map digit_char ds) = Some (foldl (\<lambda>a d. a * 16 + d) acc ds)"
  by (induction ds arbitrary: acc) (auto simp: digit_value_digit_char digit_char_neq)

lemma foldl_replicate_zero: "foldl (\<lambda>a d. a * 16 + d) 0 (replicate k (0::nat)) = 0"
  by (induction k) auto

text \<open>The padded rendering is a rendering of the digits with leading zeros.\<close>

definition hex_digits :: "nat \<Rightarrow> nat \<Rightarrow> nat list" where
  "hex_digits w n = replicate (w - length (digits_of 16 n)) 0 @ digits_of 16 n"

lemma digit_char_0: "digit_char 0 = CHR ''0''"
  by code_simp

lemma hex_pad_digits: "hex_pad w n = map digit_char (hex_digits w n)"
  by (simp add: hex_pad_def hex_digits_def hex_of_nat_def Let_def digit_char_0)

lemma hex_digits_less: "d \<in> set (hex_digits w n) \<Longrightarrow> d < 16"
  by (auto simp: hex_digits_def dest: digits_of_less [rotated])

lemma hex_digits_value_hex_pad: "hex_digits_value False 0 (hex_pad w n) = Some n"
proof -
  have "hex_digits_value False 0 (hex_pad w n) = Some (foldl (\<lambda>a d. a * 16 + d) 0 (hex_digits w n))"
    unfolding hex_pad_digits by (rule hex_digits_value_map) (auto dest: hex_digits_less)
  also have "foldl (\<lambda>a d. a * 16 + d) 0 (hex_digits w n) = digits_value 16 (digits_of 16 n)"
    by (simp add: hex_digits_def foldl_replicate_zero digits_value_def)
  finally show ?thesis by (simp add: digits_value_digits_of)
qed

lemma length_hex_pad: "n < 16 ^ w \<Longrightarrow> 0 < w \<Longrightarrow> length (hex_pad w n) = w"
  using length_digits_of [of 16 n w] by (simp add: hex_pad_digits hex_digits_def)

lemma hex_pad_nonempty [simp]: "hex_pad w n \<noteq> []"
  by (simp add: hex_pad_digits hex_digits_def)

lemma is_space_digit_char: "d < 16 \<Longrightarrow> \<not> is_space (digit_char d)"
  by (auto simp: is_space_def digit_char_def Let_def)

lemma py_strip_id:
  "s \<noteq> [] \<Longrightarrow> \<not> is_space (hd s) \<Longrightarrow> \<not> is_space (last s) \<Longrightarrow> py_strip s = s"
proof -
  assume s: "s \<noteq> []" "\<not> is_space (hd s)" "\<not> is_space (last s)"
  have keep: "dropWhile is_space t = t" if "t \<noteq> []" "\<not> is_space (hd t)" for t
    using that by (cases t) auto
  show "py_strip s = s"
    using s by (simp add: py_strip_def py_lstrip_def py_rstrip_def keep hd_rev)
qed

lemma py_strip_idem [simp]: "py_strip (py_strip s) = py_strip s"
proof -
  have drop: "t = [] \<or> \<not> is_space (hd t)" if "t = dropWhile is_space u" for t u
    using that hd_dropWhile [of is_space u] by (cases "dropWhile is_space u = []") auto
  let ?u = "dropWhile is_space (rev (dropWhile is_space s))"
  have r: "py_strip s = rev ?u" by (simp add: py_strip_def py_lstrip_def py_rstrip_def)
  show ?thesis
  proof (cases "py_strip s = []")
    case True
    then show ?thesis by (simp only: True) (simp add: py_strip_def py_lstrip_def py_rstrip_def)
  next
    case False
    then have ne: "?u \<noteq> []" by (simp only: r rev_is_Nil_conv not_False_eq_True)
    have "\<not> is_space (last (rev ?u))" using drop [of ?u] ne by (auto simp only: last_rev)
    moreover have "hd (rev ?u) = hd (dropWhile is_space s)"
    proof -
      obtain w where "rev (dropWhile is_space s) = w @ ?u" by (metis takeWhile_dropWhile_id)
      then have "dropWhile is_space s = rev ?u @ rev w" by (metis rev_append rev_rev_ident)
      then show ?thesis using ne by (metis Nil_is_rev_conv hd_append2)
    qed
    moreover have "dropWhile is_space s \<noteq> []" using ne by (metis dropWhile.simps(1) rev.simps(1))
    then have "\<not> is_space (hd (dropWhile is_space s))" using hd_dropWhile by blast
    ultimately show ?thesis using ne unfolding r by (intro py_strip_id) simp_all
  qed
qed

lemma last_hex_pad: "last (hex_pad w n) = digit_char (last (digits_of 16 n))"
  by (simp add: hex_pad_digits hex_digits_def last_map)

text \<open>Rendering with \<open>f"0x{n:0wx}"\<close> and reading back with \<open>int(s, 16)\<close> is the identity.\<close>

lemma py_int16_hex0x [simp]: "py_int16 (hex0x w n) = Some (int n)"
proof -
  have "\<not> is_space (last (hex0x w n))"
    using digits_of_less [of 16 "last (digits_of 16 n)" n]
    by (simp add: hex0x_def last_hex_pad is_space_digit_char)
  then have strip: "py_strip (hex0x w n) = hex0x w n"
    by (intro py_strip_id) (auto simp: hex0x_def is_space_def)
  obtain d ds where ds: "hex_digits w n = d # ds"
    by (cases "hex_digits w n") (auto simp: hex_digits_def)
  have "digit_char d \<noteq> CHR ''_''"
    using hex_digits_less [of d w n] ds by (simp add: digit_char_neq)
  then have "hex_body (hex0x w n) = Some n"
    using hex_digits_value_hex_pad [of w n]
    by (simp add: hex_body_def hex0x_def hex_pad_digits ds py_lower_def lower_char_def)
  then show ?thesis
    unfolding py_int16_def Let_def strip by (simp add: hex0x_def)
qed

lemma hex0x_inject: "hex0x w m = hex0x w n \<longleftrightarrow> m = n"
  by (metis int_int_eq option.inject py_int16_hex0x)

section \<open>Lemmas on substrings and joins\<close>

lemma starts_with_iff: "starts_with s p \<longleftrightarrow> (\<exists>t. s = p @ t)"
  by (induction s p rule: starts_with.induct) auto

lemma contains_iff: "contains s p \<longleftrightarrow> (\<exists>u v. s = u @ p @ v)"
proof (induction s)
  case Nil
  then show ?case by (auto simp: starts_with_iff)
next
  case (Cons c s)
  have "(\<exists>u v. c # s = u @ p @ v) \<longleftrightarrow> (\<exists>v. c # s = p @ v) \<or> (\<exists>u v. s = u @ p @ v)"
    by (auto simp: Cons_eq_append_conv)
  with Cons show ?case by (simp add: starts_with_iff)
qed

lemma digits_of_inject: "1 < b \<Longrightarrow> digits_of b m = digits_of b n \<longleftrightarrow> m = n"
  by (metis digits_value_digits_of)

lemma digit_char_inject: "d < 16 \<Longrightarrow> e < 16 \<Longrightarrow> digit_char d = digit_char e \<longleftrightarrow> d = e"
  by (metis digit_value_digit_char option.inject)

lemma digits_of_dec: "map (\<lambda>c. the (digit_value c)) (dec_of_nat n) = digits_of 10 n"
  by (auto intro!: map_idI simp: dec_of_nat_def comp_def dest!: digits_of_less [rotated]
      simp: digit_value_digit_char)

lemma dec_of_nat_inject [simp]: "dec_of_nat m = dec_of_nat n \<longleftrightarrow> m = n"
  by (metis digits_of_dec digits_of_inject one_less_numeral_iff semiring_norm(76))

lemma digit_of_dec: "c \<in> set (dec_of_nat n) \<Longrightarrow> \<exists>d < 10. c = digit_char d"
  by (auto simp: dec_of_nat_def dest!: digits_of_less [rotated])

lemma py_str_int_inject [simp]: "py_str_int i = py_str_int j \<longleftrightarrow> i = j"
proof -
  have no_minus: "CHR ''-'' \<notin> set (dec_of_nat n)" for n
  proof
    assume "CHR ''-'' \<in> set (dec_of_nat n)"
    then obtain d where "d < 10" "CHR ''-'' = digit_char d" using digit_of_dec by blast
    then show False using digit_char_neq(3) [of d] by simp
  qed
  show ?thesis
    using no_minus by (auto simp: py_str_int_def split: if_splits) (metis list.set_intros(1))+
qed

lemma split_char_nonempty [simp]: "split_char c s \<noteq> []"
  by (cases s) (auto split: list.splits)

end
