(* ===== verification/Shard_Alloc.thy ===== *)
theory Shard_Alloc
  imports Sha256
begin

text \<open>
  \<open>collector/src/shard_alloc.py\<close>: rendezvous (highest random weight) allocation of targets
  to live collectors. \<open>score\<close> is the real SHA-256 weight; the loop \<open>alloc_loop\<close> is stated
  for any preference order, and the locale \<open>preference\<close> collects what the allocator needs of
  that order. \<open>allocate\<close> is the code's function, with the weights' order plugged in.
\<close>

section \<open>Definitions\<close>

definition SCORE_BYTES :: nat where
  "SCORE_BYTES = 8"

definition SEP :: string where
  "SEP = [CHR 0x1F]"

definition score :: "target_id \<Rightarrow> collector_id \<Rightarrow> nat" where
  "score tid cid = be_nat (take SCORE_BYTES (sha256 (utf8_encode (py_str_int tid @ SEP @ cid))))"

text \<open>
  \<open>math.ceil(a / b)\<close>: Python divides as a float, which is exact enough for the ceiling
  whenever \<open>a < 2 ^ 53\<close>; the counts here are numbers of rows.
\<close>

definition ceil_div :: "int \<Rightarrow> int \<Rightarrow> int" where
  "ceil_div a b = - ((- a) div b)"

definition effective_cap :: "int \<Rightarrow> int \<Rightarrow> int \<Rightarrow> int" where
  "effective_cap n_targets n_live max_per_shard =
     (if n_live \<le> 0 then max_per_shard
      else min max_per_shard (ceil_div n_targets n_live))"

type_synonym assignment = "collector_id \<rightharpoonup> target_id list"

definition held :: "assignment \<Rightarrow> collector_id \<Rightarrow> target_id list" where
  "held A c = (case A c of None \<Rightarrow> [] | Some xs \<Rightarrow> xs)"

text \<open>\<open>sorted(live, key=lambda c: (-score(tid, c), c))\<close>.\<close>

definition hrw_order :: "target_id \<Rightarrow> collector_id list \<Rightarrow> collector_id list" where
  "hrw_order tid live = sort_key (\<lambda>c. (- int (score tid c), c)) live"

text \<open>The inner loop: the first collector with room takes the target, then \<open>break\<close>.\<close>

fun place_target :: "int \<Rightarrow> target_id \<Rightarrow> collector_id list \<Rightarrow> assignment \<Rightarrow> assignment" where
  "place_target cap tid [] A = A"
| "place_target cap tid (cid # cids) A =
     (if int (length (held A cid)) < cap then A(cid \<mapsto> held A cid @ [tid])
      else place_target cap tid cids A)"

definition alloc_loop ::
  "(target_id \<Rightarrow> collector_id list \<Rightarrow> collector_id list) \<Rightarrow> int \<Rightarrow> collector_id list
    \<Rightarrow> target_id list \<Rightarrow> assignment \<Rightarrow> assignment" where
  "alloc_loop ord cap live tids A = fold (\<lambda>tid. place_target cap tid (ord tid live)) tids A"

definition empty_slots :: "collector_id list \<Rightarrow> assignment" where
  "empty_slots live = (\<lambda>c. if c \<in> set live then Some [] else None)"

definition allocate :: "target_id list \<Rightarrow> collector_id list \<Rightarrow> int \<Rightarrow> assignment" where
  "allocate target_ids live0 cap =
     (let live = sorted_set live0; assigned = empty_slots live in
      if live = [] \<or> cap \<le> 0 then assigned
      else alloc_loop hrw_order cap live (sorted_set target_ids) assigned)"

section \<open>One placement\<close>

definition full :: "int \<Rightarrow> assignment \<Rightarrow> collector_id \<Rightarrow> bool" where
  "full cap A c \<longleftrightarrow> cap \<le> int (length (held A c))"

lemma held_upd [simp]: "held (A(c \<mapsto> xs)) d = (if d = c then xs else held A d)"
  by (simp add: held_def)

lemma place_target_cases:
  obtains (spilled) "\<forall>c \<in> set cs. full cap A c" "place_target cap t cs A = A"
  | (placed) pre c post where "cs = pre @ c # post" "\<forall>d \<in> set pre. full cap A d"
      "\<not> full cap A c" "place_target cap t cs A = A(c \<mapsto> held A c @ [t])"
proof (induction cs arbitrary: thesis)
  case Nil
  then show ?case by simp
next
  case (Cons c cs)
  show ?case
  proof (cases "full cap A c")
    case False
    then show ?thesis using Cons.prems(2) [of "[]" c cs] by (simp add: full_def)
  next
    case True
    then have step: "place_target cap t (c # cs) A = place_target cap t cs A"
      by (simp add: full_def)
    show ?thesis
    proof (rule Cons.IH)
      assume "\<forall>c \<in> set cs. full cap A c" "place_target cap t cs A = A"
      then show ?thesis using Cons.prems(1) True step by simp
    next
      fix pre d post
      assume "cs = pre @ d # post" "\<forall>e \<in> set pre. full cap A e" "\<not> full cap A d"
        "place_target cap t cs A = A(d \<mapsto> held A d @ [t])"
      then show ?thesis using True step
        by (intro Cons.prems(2) [of "c # pre" d post]) (auto simp del: place_target.simps)
    qed
  qed
qed

section \<open>The allocation loop under any preference order\<close>

text \<open>What every intermediate assignment satisfies after the targets \<open>Done\<close> were tried.\<close>

definition alloc_inv :: "collector_id list \<Rightarrow> int \<Rightarrow> target_id set \<Rightarrow> assignment \<Rightarrow> bool" where
  "alloc_inv live cap Done A \<longleftrightarrow>
     dom A = set live \<and>
     (\<forall>c. distinct (held A c) \<and> set (held A c) \<subseteq> Done \<and> int (length (held A c)) \<le> cap) \<and>
     (\<forall>c d. c \<noteq> d \<longrightarrow> set (held A c) \<inter> set (held A d) = {}) \<and>
     (\<forall>t \<in> Done. (\<exists>c \<in> set live. t \<in> set (held A c)) \<or> (\<forall>c \<in> set live. full cap A c))"

locale preference =
  fixes ord :: "target_id \<Rightarrow> collector_id list \<Rightarrow> collector_id list"
  assumes ord_set: "set (ord t L) = set L"
begin

lemma alloc_inv_place:
  assumes inv: "alloc_inv live cap Done A" and new: "t \<notin> Done"
  shows "alloc_inv live cap (insert t Done) (place_target cap t (ord t live) A)"
proof (cases rule: place_target_cases [of "ord t live" cap A t])
  case spilled
  then show ?thesis using inv by (auto simp: alloc_inv_def ord_set)
next
  case (placed pre c post)
  have c: "c \<in> set live" using placed(1) ord_set [of t live] by auto
  have fresh: "t \<notin> set (held A d)" for d using inv new by (auto simp: alloc_inv_def)
  have old: "\<exists>e \<in> set live. u \<in> set (held A e)" if "u \<in> Done" for u
    using inv that placed(3) c by (auto simp: alloc_inv_def)
  have bounds: "distinct (held A d)" "set (held A d) \<subseteq> Done" "int (length (held A d)) \<le> cap" for d
    using inv by (simp_all add: alloc_inv_def)
  have disj: "d \<noteq> e \<Longrightarrow> set (held A d) \<inter> set (held A e) = {}" for d e
    using inv by (simp add: alloc_inv_def)
  show ?thesis
    unfolding placed(4) alloc_inv_def
  proof (intro conjI)
    show "dom (A(c \<mapsto> held A c @ [t])) = set live"
      using inv c by (auto simp: alloc_inv_def)
    show "\<forall>d. distinct (held (A(c \<mapsto> held A c @ [t])) d) \<and>
        set (held (A(c \<mapsto> held A c @ [t])) d) \<subseteq> insert t Done \<and>
        int (length (held (A(c \<mapsto> held A c @ [t])) d)) \<le> cap"
      using placed(3) bounds fresh by (auto simp: full_def simp del: fun_upd_apply)
    show "\<forall>d e. d \<noteq> e \<longrightarrow>
        set (held (A(c \<mapsto> held A c @ [t])) d) \<inter> set (held (A(c \<mapsto> held A c @ [t])) e) = {}"
      using fresh disj by (simp del: fun_upd_apply)
    show "\<forall>u \<in> insert t Done. (\<exists>e \<in> set live. u \<in> set (held (A(c \<mapsto> held A c @ [t])) e)) \<or>
        (\<forall>e \<in> set live. full cap (A(c \<mapsto> held A c @ [t])) e)"
      using c old by (fastforce simp del: fun_upd_apply)
  qed
qed

lemma alloc_inv_loop:
  assumes "alloc_inv live cap Done A" "distinct ts" "set ts \<inter> Done = {}"
  shows "alloc_inv live cap (Done \<union> set ts) (alloc_loop ord cap live ts A)"
  using assms
proof (induction ts arbitrary: Done A)
  case Nil
  then show ?case by (simp add: alloc_loop_def)
next
  case (Cons t ts)
  then have "alloc_inv live cap (insert t Done \<union> set ts)
      (alloc_loop ord cap live ts (place_target cap t (ord t live) A))"
    by (intro Cons.IH alloc_inv_place) auto
  then show ?case by (simp add: alloc_loop_def)
qed

lemma alloc_inv_start: "0 < cap \<Longrightarrow> alloc_inv live cap {} (empty_slots live)"
  by (auto simp: alloc_inv_def empty_slots_def held_def split: if_splits)

lemma alloc_inv_result:
  "0 < cap \<Longrightarrow> distinct ts \<Longrightarrow> alloc_inv live cap (set ts) (alloc_loop ord cap live ts (empty_slots live))"
  using alloc_inv_loop [OF alloc_inv_start] by fastforce

text \<open>With capacity for every target, no target is left out: otherwise every collector is full.\<close>

lemma alloc_loop_covers:
  assumes cap: "0 < cap" and d: "distinct ts" "distinct live"
    and room: "int (length ts) \<le> cap * int (length live)" and t: "t \<in> set ts"
  shows "\<exists>c \<in> set live. t \<in> set (held (alloc_loop ord cap live ts (empty_slots live)) c)"
proof (rule ccontr)
  let ?A = "alloc_loop ord cap live ts (empty_slots live)"
  assume no: "\<not> ?thesis"
  have inv: "alloc_inv live cap (set ts) ?A" by (rule alloc_inv_result [OF cap d(1)])
  have dist: "distinct (held ?A c)" and le: "int (length (held ?A c)) \<le> cap" for c
    using inv by (simp_all add: alloc_inv_def)
  have "\<forall>c \<in> set live. full cap ?A c" using inv no t by (auto simp: alloc_inv_def)
  then have "int (length (held ?A c)) = cap" if "c \<in> set live" for c
    using that le [of c] unfolding full_def by (meson order_antisym)
  then have card_held: "card (set (held ?A c)) = nat cap" if "c \<in> set live" for c
    using that distinct_card [OF dist [of c]] by (metis nat_int)
  have disj: "\<forall>c \<in> set live. \<forall>e \<in> set live. c \<noteq> e \<longrightarrow> set (held ?A c) \<inter> set (held ?A e) = {}"
    using inv by (auto simp: alloc_inv_def)
  have "card (\<Union>c \<in> set live. set (held ?A c)) = (\<Sum>c \<in> set live. card (set (held ?A c)))"
    using disj by (intro card_UN_disjoint) auto
  also have "\<dots> = (\<Sum>c \<in> set live. nat cap)"
    using card_held by simp
  finally have "card (\<Union>c \<in> set live. set (held ?A c)) = length live * nat cap"
    by (simp add: distinct_card d(2))
  moreover have "card (\<Union>c \<in> set live. set (held ?A c)) \<le> card (set ts - {t})"
    using inv no by (intro card_mono) (auto simp: alloc_inv_def)
  moreover have "card (set ts - {t}) < length ts"
    using card_Diff1_less [of "set ts" t] t d(1) by (simp add: distinct_card)
  ultimately have "int (length live * nat cap) < int (length ts)" by linarith
  then show False using room cap by (simp add: mult.commute)
qed

text \<open>Without cap pressure every target goes to the head of its preference order.\<close>

lemma alloc_loop_uncapped:
  assumes "int (length ts) + int (\<Sum>c \<in> set live. length (held A c)) \<le> cap" "live \<noteq> []"
  shows "held (alloc_loop ord cap live ts A) c =
    held A c @ filter (\<lambda>t. hd (ord t live) = c) ts"
  using assms
proof (induction ts arbitrary: A)
  case Nil
  then show ?case by (simp add: alloc_loop_def)
next
  case (Cons t ts)
  have ne: "ord t live \<noteq> []" using Cons.prems(2) ord_set [of t live] by (metis set_empty)
  let ?h = "hd (ord t live)"
  have h: "?h \<in> set live" using ne ord_set [of t live] hd_in_set by blast
  have "int (length (held A ?h)) \<le> (\<Sum>c \<in> set live. int (length (held A c)))"
    using h by (intro member_le_sum) auto
  then have "\<not> full cap A ?h" using Cons.prems(1) by (simp add: full_def)
  with ne have p: "place_target cap t (ord t live) A = A(?h \<mapsto> held A ?h @ [t])"
    by (cases "ord t live") (auto simp: full_def)
  have "(\<Sum>c \<in> set live. length (held (A(?h \<mapsto> held A ?h @ [t])) c)) =
      Suc (\<Sum>c \<in> set live. length (held A c))"
    using h by (simp add: sum.remove [of _ ?h])
  then have "int (length ts) + int (\<Sum>c \<in> set live. length (held (A(?h \<mapsto> held A ?h @ [t])) c)) \<le> cap"
    using Cons.prems(1) by (simp only: list.size of_nat_Suc of_nat_add)
  then have "held (alloc_loop ord cap live ts (A(?h \<mapsto> held A ?h @ [t]))) c =
      held (A(?h \<mapsto> held A ?h @ [t])) c @ filter (\<lambda>t. hd (ord t live) = c) ts"
    using Cons.prems(2) by (rule Cons.IH)
  then show ?case by (auto simp: alloc_loop_def p)
qed

end

text \<open>
  A rendezvous order ranks the collectors independently of each other: leaving some out does
  not reorder the rest.
\<close>

locale rendezvous = preference +
  assumes ord_filter: "ord t (filter P L) = filter P (ord t L)"
begin

lemma hd_ord_remove:
  assumes "hd (ord t L) \<noteq> d" "L \<noteq> []"
  shows "hd (ord t (filter (\<lambda>x. x \<noteq> d) L)) = hd (ord t L)"
proof -
  have "ord t L \<noteq> []" using assms(2) ord_set [of t L] by (metis set_empty)
  then show ?thesis using assms(1) by (cases "ord t L") (auto simp: ord_filter)
qed

end

interpretation hrw: rendezvous hrw_order
  by unfold_locales (simp_all add: hrw_order_def filter_sort)

section \<open>The code's allocator\<close>

lemma allocate_active:
  "live \<noteq> [] \<Longrightarrow> 0 < cap \<Longrightarrow>
     allocate ts live cap =
       alloc_loop hrw_order cap (sorted_set live) (sorted_set ts) (empty_slots (sorted_set live))"
  by (simp add: allocate_def Let_def)

lemma allocate_inactive:
  "live = [] \<or> cap \<le> 0 \<Longrightarrow> allocate ts live cap = empty_slots (sorted_set live)"
  by (auto simp: allocate_def Let_def)

lemma allocate_inv: "live \<noteq> [] \<Longrightarrow> 0 < cap \<Longrightarrow>
    alloc_inv (sorted_set live) cap (set ts) (allocate ts live cap)"
  using hrw.alloc_inv_result [of cap "sorted_set ts" "sorted_set live"] by (simp add: allocate_active)

lemma held_empty_slots [simp]: "held (empty_slots live) c = []"
  by (simp add: held_def empty_slots_def)

lemma dom_empty_slots [simp]: "dom (empty_slots live) = set live"
  by (auto simp: empty_slots_def split: if_splits)

lemma ceil_div_ge: "0 < b \<Longrightarrow> a \<le> ceil_div a b * b"
proof -
  assume "0 < b"
  then have "0 \<le> (- a) mod b" by simp
  then have "(- a) div b * b \<le> - a" by (simp flip: minus_mod_eq_div_mult)
  then show ?thesis by (simp add: ceil_div_def)
qed

lemma ceil_div_pos: "0 < a \<Longrightarrow> 0 < b \<Longrightarrow> 0 < ceil_div a b"
  using ceil_div_ge [of b a] by (metis less_le_trans zero_less_mult_pos2)

lemma ceil_div_least: "0 < b \<Longrightarrow> a \<le> k * b \<Longrightarrow> ceil_div a b \<le> k"
proof -
  assume b: "0 < b" and "a \<le> k * b"
  then have "(- k * b) div b \<le> (- a) div b" by (intro zdiv_mono1) auto
  moreover have "(- k * b) div b = - k" using b by (intro nonzero_mult_div_cancel_right) simp
  ultimately show ?thesis by (simp add: ceil_div_def)
qed

lemma allocate_owner:
  assumes "0 < cap" and "int (card (set ts)) \<le> cap * int (card (set live))" and "t \<in> set ts"
  shows "\<exists>!c. c \<in> set live \<and> t \<in> set (held (allocate ts live cap) c)"
proof -
  have ne: "live \<noteq> []"
    using assms by (auto simp: card_gt_0_iff)
  have "\<exists>c \<in> set (sorted_set live). t \<in> set (held (allocate ts live cap) c)"
    unfolding allocate_active [OF ne assms(1)] using assms by (intro hrw.alloc_loop_covers) auto
  moreover have "c = d" if "t \<in> set (held (allocate ts live cap) c)" "t \<in> set (held (allocate ts live cap) d)" for c d
    using allocate_inv [OF ne assms(1), of ts] that unfolding alloc_inv_def by (metis disjoint_iff)
  ultimately show ?thesis by auto
qed

text \<open>
  (C1) \<open>allocate\<close> partitions: every live collector (and nobody else) gets a list; the lists
  hold each target at most once, only requested targets, at most \<open>cap\<close> of them, and no
  target is given to two collectors.
\<close>

theorem allocate_partition:
  "dom (allocate ts live cap) = set live \<and>
   (\<forall>c. distinct (held (allocate ts live cap) c) \<and> set (held (allocate ts live cap) c) \<subseteq> set ts \<and>
        int (length (held (allocate ts live cap) c)) \<le> max 0 cap) \<and>
   (\<forall>c d. c = d \<or> set (held (allocate ts live cap) c) \<inter> set (held (allocate ts live cap) d) = {})"
proof (cases "live = [] \<or> cap \<le> 0")
  case True
  then show ?thesis
    by (simp add: allocate_inactive)
next
  case False
  then have "alloc_inv (sorted_set live) cap (set ts) (allocate ts live cap)"
    by (intro allocate_inv) auto
  then have "dom (allocate ts live cap) = set live" and
    "\<forall>c. distinct (held (allocate ts live cap) c) \<and> set (held (allocate ts live cap) c) \<subseteq> set ts \<and>
        int (length (held (allocate ts live cap) c)) \<le> cap" and
    "\<forall>c d. c \<noteq> d \<longrightarrow> set (held (allocate ts live cap) c) \<inter> set (held (allocate ts live cap) d) = {}"
    by (simp_all add: alloc_inv_def)
  with False show ?thesis by (metis max.coboundedI2)
qed

text \<open>
  Coverage: when the fleet fits (\<open>replicas x cap >= targets\<close>), every target has exactly
  one owner among the live collectors.
\<close>

lemma allocate_covers:
  assumes "0 < cap" and "int (card (set ts)) \<le> cap * int (card (set live))" and "t \<in> set ts"
  shows "\<exists>!c. c \<in> set live \<and> t \<in> set (held (allocate ts live cap) c)"
  using assms by (rule allocate_owner)

lemma allocate_covers_witness:
  "\<exists>!c. c \<in> set [''collector-0'', ''collector-1''] \<and>
     3 \<in> set (held (allocate [1, 2, 3] [''collector-0'', ''collector-1''] 2) c)"
  by (rule allocate_covers) simp_all

text \<open>
  The result depends only on the set of targets and the set of live collectors, so
  collectors that agree on membership compute the same assignment whatever order the
  database returned the rows in.
\<close>

lemma allocate_order_independent:
  assumes "set ts = set ts'" and "set live = set live'"
  shows "allocate ts live cap = allocate ts' live' cap"
  using sorted_set_cong [OF assms(1)] sorted_set_cong [OF assms(2)] by (simp only: allocate_def)

lemma allocate_order_independent_witness:
  "allocate [3, 1, 2, 1] [''b'', ''a''] 2 = allocate [1, 2, 3] [''a'', ''b'', ''a''] 2"
  by (rule allocate_order_independent) auto

lemma effective_cap_fits:
  assumes "0 < k" "n \<le> max_per_shard * k"
  shows "effective_cap n k max_per_shard = ceil_div n k"
  using ceil_div_least [OF assms] assms(1) by (simp add: effective_cap_def)

lemma effective_cap_owner:
  assumes "live \<noteq> []" and "int (card (set ts)) \<le> max_per_shard * int (card (set live))" and "t \<in> set ts"
  shows "\<exists>!c. c \<in> set live \<and> t \<in> set (held (allocate ts live
    (effective_cap (int (card (set ts))) (int (card (set live))) max_per_shard)) c)"
proof -
  have k: "0 < int (card (set live))" using assms(1) by (simp add: card_gt_0_iff)
  have n: "0 < int (card (set ts))" using assms(3) by (auto simp: card_gt_0_iff)
  show ?thesis
    unfolding effective_cap_fits [OF k assms(2)]
    using assms(3) ceil_div_ge [OF k, of "int (card (set ts))"] ceil_div_pos [OF n k]
    by (intro allocate_owner) auto
qed

text \<open>
  The cap of one allocation pass, \<open>effective_cap\<close>, never starves a fleet that fits the
  safety ceiling: allocating \<open>n\<close> targets over the live collectors with it leaves no target
  unassigned, and it is the smallest such cap (any bound that fits the fleet is at least it).
\<close>

lemma effective_cap_covers:
  assumes "live \<noteq> []" and "int (card (set ts)) \<le> max_per_shard * int (card (set live))" and "t \<in> set ts"
  shows "(\<exists>!c. c \<in> set live \<and>
            t \<in> set (held (allocate ts live
                      (effective_cap (int (card (set ts))) (int (card (set live))) max_per_shard)) c)) \<and>
         (\<forall>k. int (card (set ts)) \<le> k * int (card (set live)) \<longrightarrow>
            effective_cap (int (card (set ts))) (int (card (set live))) max_per_shard \<le> k)"
  using effective_cap_owner [OF assms] assms(1, 2) by (simp add: effective_cap_fits ceil_div_least card_gt_0_iff)

lemma effective_cap_covers_witness:
  "(\<exists>!c. c \<in> set [''a'', ''b''] \<and>
      5 \<in> set (held (allocate [5, 6, 7] [''a'', ''b'']
              (effective_cap (int (card (set [5, 6, 7 :: int]))) (int (card (set [''a'', ''b'']))) 200)) c)) \<and>
   effective_cap (int (card (set [5, 6, 7 :: int]))) (int (card (set [''a'', ''b'']))) 200 \<le> 2"
  using effective_cap_covers [of "[''a'', ''b'']" "[5, 6, 7]" 200 5] by simp

lemma held_allocate_uncapped:
  assumes "int (card (set ts)) \<le> cap" "0 < cap" "live \<noteq> []"
  shows "held (allocate ts live cap) c =
    filter (\<lambda>t. hd (hrw_order t (sorted_set live)) = c) (sorted_set ts)"
proof -
  show ?thesis
    using assms hrw.alloc_loop_uncapped
      [of "sorted_set ts" "empty_slots (sorted_set live)" "sorted_set live" cap c]
    by (simp add: allocate_active)
qed

lemma hd_hrw_order_max:
  assumes "L \<noteq> []" "d \<in> set L"
  shows "hd (hrw_order t L) \<in> set L \<and> score t d \<le> score t (hd (hrw_order t L))"
proof -
  let ?k = "\<lambda>c. (- int (score t c), c)"
  have ne: "hrw_order t L \<noteq> []" using assms(1) hrw.ord_set [of t L] by (metis set_empty)
  then obtain c cs where cs: "hrw_order t L = c # cs" by (cases "hrw_order t L") auto
  have srt: "sorted (map ?k (hrw_order t L))" by (simp add: hrw_order_def)
  have "set (hrw_order t L) = set L" by (simp add: hrw.ord_set)
  with assms(2) cs srt have "c \<in> set L" "?k c \<le> ?k d" by auto
  then show ?thesis using cs by (auto simp: less_eq_prod_def)
qed

text \<open>
  (C2) Rendezvous stability: while the cap does not bind, a target sits on the collector of
  highest weight, and a collector's departure moves only the targets it held; every other
  target stays where it was.
\<close>

theorem allocate_minimal_movement:
  assumes fits: "int (card (set ts)) \<le> cap" and own: "t \<in> set (held (allocate ts live cap) c)"
  shows "(\<forall>d. d \<notin> set live \<or> score t d \<le> score t c) \<and>
    (\<forall>d. d = c \<or> t \<in> set (held (allocate ts (filter (\<lambda>x. x \<noteq> d) live) cap) c))"
proof -
  have pos: "0 < cap" and ne: "live \<noteq> []"
    using own allocate_inactive [of live cap ts] by (force simp: not_le)+
  have own': "t \<in> set ts" "hd (hrw_order t (sorted_set live)) = c"
    using own by (auto simp: held_allocate_uncapped [OF fits pos ne])
  have sne: "sorted_set live \<noteq> []" using ne by simp
  have "score t d \<le> score t c" if "d \<in> set live" for d
    using hd_hrw_order_max [OF sne, of d t] that own' by simp
  moreover have "t \<in> set (held (allocate ts (filter (\<lambda>x. x \<noteq> d) live) cap) c)" if "d \<noteq> c" for d
  proof -
    have "c \<in> set live"
      using hd_hrw_order_max [OF sne hd_in_set [OF sne], of t] own' by simp
    with that have ne': "filter (\<lambda>x. x \<noteq> d) live \<noteq> []" by (auto simp: filter_empty_conv)
    have "sorted_set (filter (\<lambda>x. x \<noteq> d) live) = filter (\<lambda>x. x \<noteq> d) (sorted_set live)"
      by (rule sorted_distinct_set_unique) (auto simp: sorted_wrt_filter)
    then have "hd (hrw_order t (sorted_set (filter (\<lambda>x. x \<noteq> d) live))) = c"
      using hrw.hd_ord_remove [of t "sorted_set live" d] own' that sne by simp
    then show ?thesis using own' by (simp add: held_allocate_uncapped [OF fits pos ne'])
  qed
  ultimately show ?thesis by blast
qed

lemma allocate_single: "t \<in> set (held (allocate [t] [c] 5) c)"
proof -
  have "\<exists>!d. d \<in> set [c] \<and> t \<in> set (held (allocate [t] [c] 5) d)"
    by (rule allocate_owner) simp_all
  then show ?thesis by auto
qed

theorem allocate_minimal_movement_witness:
  "score 7 ''a'' \<le> score 7 ''a'' \<and>
   7 \<in> set (held (allocate [7] (filter (\<lambda>x. x \<noteq> ''b'') [''a'']) 5) ''a'')"
proof -
  have "7 \<in> set (held (allocate [7] [''a''] 5) ''a'')" by (rule allocate_single)
  then show ?thesis using allocate_minimal_movement [of "[7]" 5 7 "[''a'']" "''a''"] by simp
qed

end
