(* ===== verification/Py_Float.thy ===== *)
theory Py_Float
  imports Py_Text
begin

text \<open>
  Python's \<open>float\<close>: IEEE 754 double precision, each finite number as the rational it denotes
  (negative zero is zero here). Rounding of a rational to the nearest double, \<open>float(i)\<close> of an
  integer, \<open>float(s)\<close> of a text and \<open>repr\<close>, the shortest decimal that reads back.
\<close>

section \<open>Rounding\<close>

datatype py_float = Finite rat | Infinite bool | NaN

fun is_finite :: "py_float \<Rightarrow> bool" where
  "is_finite (Finite _) = True"
| "is_finite _ = False"

fun bit_len :: "nat \<Rightarrow> nat" where
  "bit_len n = (if n = 0 then 0 else Suc (bit_len (n div 2)))"

declare bit_len.simps [simp del]

definition pow_int :: "nat \<Rightarrow> int \<Rightarrow> rat" where
  "pow_int b k = (if 0 \<le> k then of_nat b ^ nat k else 1 / of_nat b ^ nat (- k))"

text \<open>The exponent \<open>e\<close> with \<open>2^e \<le> abs x < 2^(e+1)\<close>.\<close>

definition binary_exponent :: "rat \<Rightarrow> int" where
  "binary_exponent x =
     (let (n, d) = quotient_of \<bar>x\<bar>;
          k = int (bit_len (nat n)) - int (bit_len (nat d))
      in if \<bar>x\<bar> < pow_int 2 k then k - 1 else k)"

definition round_half_even :: "rat \<Rightarrow> int" where
  "round_half_even x =
     (let f = \<lfloor>x\<rfloor>; d = x - of_int f
      in if d < 1/2 \<or> d = 1/2 \<and> even f then f else f + 1)"

text \<open>The spacing of the doubles around \<open>x\<close>, and the double nearest to \<open>x\<close>, if not too large.\<close>

definition ulp :: "rat \<Rightarrow> rat" where
  "ulp x = pow_int 2 (max (binary_exponent x) (- 1022) - 52)"

definition round_double :: "rat \<Rightarrow> rat option" where
  "round_double x =
     (if x = 0 then Some 0
      else let y = of_int (round_half_even (x / ulp x)) * ulp x
           in if 2 ^ 1024 \<le> \<bar>y\<bar> then None else Some y)"

text \<open>\<open>float(i)\<close>: too large an integer raises \<open>OverflowError\<close>.\<close>

definition float_of_int :: "int \<Rightarrow> rat option" where
  "float_of_int i = round_double (of_int i)"

section \<open>Reading a text\<close>

definition dec_digit :: "char \<Rightarrow> bool" where
  "dec_digit c \<longleftrightarrow> (let n = (of_char c :: nat) in 48 \<le> n \<and> n \<le> 57)"

definition dec_value :: "string \<Rightarrow> nat" where
  "dec_value s = digits_value 10 (map (\<lambda>c. of_char c - 48) s)"

text \<open>An underscore stands between two digits.\<close>

fun good_underscores :: "bool \<Rightarrow> string \<Rightarrow> bool" where
  "good_underscores prev [] = True"
| "good_underscores prev (c # s) =
     (if c = CHR ''_'' then prev \<and> s \<noteq> [] \<and> dec_digit (hd s) \<and> good_underscores False s
      else good_underscores (dec_digit c) s)"

fun read_sign :: "string \<Rightarrow> bool \<times> string" where
  "read_sign (c # s) = (if c = CHR ''-'' then (True, s) else if c = CHR ''+'' then (False, s) else (False, c # s))"
| "read_sign [] = (False, [])"

fun read_exponent :: "string \<Rightarrow> int option" where
  "read_exponent [] = Some 0"
| "read_exponent (c # s) =
     (if lower_char c = CHR ''e''
      then (let (neg, ds) = read_sign s
            in if ds \<noteq> [] \<and> list_all dec_digit ds then Some (if neg then - int (dec_value ds) else int (dec_value ds)) else None)
      else None)"

definition read_decimal :: "string \<Rightarrow> rat option" where
  "read_decimal s =
     (let whole = takeWhile dec_digit s;
          r = dropWhile dec_digit s;
          (part, r2) = (case r of c # t \<Rightarrow> if c = CHR ''.'' then (takeWhile dec_digit t, dropWhile dec_digit t) else ([], r)
                        | [] \<Rightarrow> ([], []))
      in if whole @ part = [] then None
         else map_option (\<lambda>e. of_nat (dec_value (whole @ part)) * pow_int 10 (e - int (length part))) (read_exponent r2))"

text \<open>\<open>float(s)\<close>: \<open>None\<close> when it raises \<open>ValueError\<close>; a number too large is infinite.\<close>

definition float_of_text :: "string \<Rightarrow> py_float option" where
  "float_of_text t =
     (let s = py_strip t;
          (neg, body) = read_sign (filter (\<lambda>c. c \<noteq> CHR ''_'') s);
          word = py_lower body
      in if \<not> good_underscores False s then None
         else if word = ''inf'' \<or> word = ''infinity'' then Some (Infinite neg)
         else if word = ''nan'' then Some NaN
         else map_option (\<lambda>x. case round_double (if neg then - x else x) of None \<Rightarrow> Infinite neg | Some y \<Rightarrow> Finite y) (read_decimal body))"

section \<open>Printing\<close>

text \<open>
  The shortest digits that read back as \<open>x > 0\<close>: with \<open>n\<close> digits, the neighbour of \<open>x\<close> that
  does, the nearer one if both do. Seventeen digits are enough for every double.
\<close>

definition decimal_exponent :: "rat \<Rightarrow> int" where
  "decimal_exponent x =
     (let (n, d) = quotient_of x;
          k = int (length (digits_of 10 (nat n))) - int (length (digits_of 10 (nat d)))
      in if x < pow_int 10 k then k - 1 else k)"

definition decimal_neighbour :: "rat \<Rightarrow> nat \<Rightarrow> (nat \<times> int) option" where
  "decimal_neighbour x n =
     (let e = decimal_exponent x - int n + 1;
          unit = pow_int 10 e;
          lo = nat \<lfloor>x / unit\<rfloor>;
          reads = (\<lambda>q. round_double (of_nat q * unit) = Some x);
          nearer = (x / unit - of_nat lo \<le> of_nat (lo + 1) - x / unit)
      in if reads lo \<and> (nearer \<or> \<not> reads (lo + 1)) then Some (lo, e)
         else if reads (lo + 1) then Some (lo + 1, e) else None)"

fun first_some :: "('a \<Rightarrow> 'b option) \<Rightarrow> 'a list \<Rightarrow> 'b option" where
  "first_some f [] = None"
| "first_some f (x # xs) = (case f x of None \<Rightarrow> first_some f xs | Some y \<Rightarrow> Some y)"

definition shortest_decimal :: "rat \<Rightarrow> nat \<times> int" where
  "shortest_decimal x = (case first_some (decimal_neighbour x) [1..<18] of None \<Rightarrow> (0, 0) | Some qe \<Rightarrow> qe)"

definition show_exponent :: "int \<Rightarrow> string" where
  "show_exponent e =
     ''e'' @ (if e < 0 then ''-'' else ''+'') @ (let s = dec_of_nat (nat \<bar>e\<bar>) in if length s < 2 then ''0'' @ s else s)"

text \<open>Scientific notation below \<open>1e-4\<close> and from \<open>1e16\<close> on.\<close>

definition show_positive :: "rat \<Rightarrow> string" where
  "show_positive x =
     (let (q, e) = shortest_decimal x;
          ds = rstrip_char CHR ''0'' (dec_of_nat q);
          p = int (length (dec_of_nat q)) + e
      in if p \<le> - 4 \<or> 16 < p
         then (case ds of [] \<Rightarrow> [] | d # r \<Rightarrow> [d] @ (if r = [] then [] else ''.'' @ r) @ show_exponent (p - 1))
         else if p \<le> 0 then ''0.'' @ replicate (nat (- p)) CHR ''0'' @ ds
         else if int (length ds) \<le> p then ds @ replicate (nat p - length ds) CHR ''0'' @ ''.0''
         else take (nat p) ds @ ''.'' @ drop (nat p) ds)"

fun repr_float :: "py_float \<Rightarrow> string" where
  "repr_float (Finite r) = (if r = 0 then ''0.0'' else if r < 0 then ''-'' @ show_positive (- r) else show_positive r)"
| "repr_float (Infinite neg) = (if neg then ''-inf'' else ''inf'')"
| "repr_float NaN = ''nan''"

section \<open>Exactness\<close>

lemma bit_len_bounds: "0 < n \<Longrightarrow> 2 ^ (bit_len n - 1) \<le> n \<and> n < 2 ^ bit_len n \<and> 0 < bit_len n"
proof (induction n rule: bit_len.induct)
  case (1 n)
  show ?case
  proof (cases "n div 2 = 0")
    case True
    then have "n = 1" using 1(2) by simp
    then show ?thesis by (simp add: bit_len.simps)
  next
    case False
    then have ih: "2 ^ (bit_len (n div 2) - 1) \<le> n div 2" "n div 2 < 2 ^ bit_len (n div 2)" "0 < bit_len (n div 2)"
      using 1 by auto
    obtain k where k: "bit_len (n div 2) = Suc k" using ih(3) gr0_implies_Suc by blast
    have "bit_len n = Suc (bit_len (n div 2))" using 1(2) by (simp add: bit_len.simps)
    then show ?thesis using ih k by auto
  qed
qed

lemma round_half_even_int [simp]: "round_half_even (of_int i) = i"
  by (simp add: round_half_even_def)

lemma pow_int_nat: "pow_int b (int k) = of_nat b ^ k"
  by (simp add: pow_int_def)

lemma pow_int_minus: "pow_int b (- int k) = 1 / of_nat b ^ k"
  by (cases "k = 0") (simp_all add: pow_int_def)

lemma binary_exponent_int:
  assumes "i \<noteq> 0"
  shows "binary_exponent (of_int i) = int (bit_len (nat \<bar>i\<bar>)) - 1"
proof -
  let ?n = "nat \<bar>i\<bar>"
  have b: "2 ^ (bit_len ?n - 1) \<le> ?n" "0 < bit_len ?n" using bit_len_bounds [of ?n] assms by auto
  have one: "bit_len 1 = 1" by (simp add: bit_len.simps)
  have "quotient_of \<bar>of_int i\<bar> = (\<bar>i\<bar>, 1)"
    using quotient_of_int [of "\<bar>i\<bar>"] by (simp add: Rat.of_int_def)
  moreover have "(2 :: rat) ^ (bit_len ?n - 1) \<le> of_nat ?n" using b(1) by (metis of_nat_le_iff of_nat_numeral of_nat_power)
  then have "\<not> \<bar>of_int i :: rat\<bar> < pow_int 2 (int (bit_len ?n) - 1)"
    using b(2) pow_int_nat [of 2 "bit_len ?n - 1"] by (simp add: of_nat_diff)
  ultimately show ?thesis using one by (simp add: binary_exponent_def)
qed

text \<open>\<open>float(i)\<close> is exact up to \<open>2^53\<close>.\<close>

lemma float_of_int_exact:
  assumes "\<bar>i\<bar> \<le> 2 ^ 53"
  shows "float_of_int i = Some (of_int i)"
proof (cases "i = 0")
  case True
  then show ?thesis by (simp add: float_of_int_def round_double_def)
next
  case False
  let ?k = "bit_len (nat \<bar>i\<bar>) - 1"
  have b: "2 ^ ?k \<le> nat \<bar>i\<bar>" "nat \<bar>i\<bar> < 2 ^ Suc ?k" "0 < bit_len (nat \<bar>i\<bar>)"
    using bit_len_bounds [of "nat \<bar>i\<bar>"] False by auto
  have e: "ulp (of_int i) = pow_int 2 (int ?k - 52)"
    using binary_exponent_int [OF False] b(3) by (simp add: ulp_def of_nat_diff max_def)
  have "nat \<bar>i\<bar> \<le> 2 ^ 53" using assms by (simp add: nat_le_iff)
  then have "(2 :: nat) ^ ?k \<le> 2 ^ 53" using b(1) order_trans by blast
  then have k: "?k \<le> 53" by (rule power_le_imp_le_exp [rotated]) simp
  have "\<exists>m. of_int i / ulp (of_int i) = (of_int m :: rat)"
  proof (cases "?k \<le> 52")
    case True
    then have "int ?k - 52 = - int (52 - ?k)" by linarith
    then have u: "ulp (of_int i) = 1 / 2 ^ (52 - ?k)" using e pow_int_minus [of 2 "52 - ?k"] by (simp only: of_nat_numeral)
    have "of_int i / ulp (of_int i) = (of_int (i * 2 ^ (52 - ?k)) :: rat)" unfolding u by simp
    then show ?thesis by blast
  next
    case False
    then have "?k = 53" using k by simp
    then have "i = 2 ^ 53 \<or> i = - (2 ^ 53)" using b(1) assms by auto
    moreover have "ulp (of_int i) = 2" unfolding e \<open>?k = 53\<close> by (simp add: pow_int_def)
    ultimately have "of_int i / ulp (of_int i) = (of_int (2 ^ 52) :: rat) \<or> of_int i / ulp (of_int i) = (of_int (- (2 ^ 52)) :: rat)" by auto
    then show ?thesis by blast
  qed
  then obtain m where m: "of_int i / ulp (of_int i) = (of_int m :: rat)" by blast
  have pos: "ulp (of_int i) \<noteq> 0" by (simp add: e pow_int_def)
  have y: "of_int (round_half_even (of_int i / ulp (of_int i))) * ulp (of_int i) = (of_int i :: rat)"
    unfolding m round_half_even_int using m pos by (metis nonzero_divide_eq_eq)
  have "\<bar>of_int i :: rat\<bar> = of_int \<bar>i\<bar>" by simp
  also have "\<dots> \<le> of_int (2 ^ 53)" using assms by (simp only: of_int_le_iff)
  also have "\<dots> < 2 ^ 1024" by simp
  finally show ?thesis using y False by (simp add: float_of_int_def round_double_def Let_def)
qed

end
