(* ===== verification/Py_Time.thy ===== *)
theory Py_Time
  imports Py_Text
begin

text \<open>
  What the code uses of \<open>datetime\<close>: the proleptic Gregorian calendar of
  \<open>date.fromordinal\<close>, and \<open>isoformat\<close> of naive UTC instants. An instant counts microseconds
  from 0001-01-01T00:00:00, so that day \<open>n\<close> of the instant is ordinal \<open>n + 1\<close>.
  \<open>isoformat\<close> is injective, which the alert deduplication key rests on.
\<close>

section \<open>Calendar\<close>

definition is_leap :: "nat \<Rightarrow> bool" where
  "is_leap y \<longleftrightarrow> y mod 4 = 0 \<and> (y mod 100 \<noteq> 0 \<or> y mod 400 = 0)"

definition days_before_year :: "nat \<Rightarrow> nat" where
  "days_before_year y = (let p = y - 1 in p * 365 + p div 4 - p div 100 + p div 400)"

definition days_before_month :: "nat \<Rightarrow> nat \<Rightarrow> nat" where
  "days_before_month y m =
     [0, 0, 31, 59, 90, 120, 151, 181, 212, 243, 273, 304, 334] ! m
       + (if 2 < m \<and> is_leap y then 1 else 0)"

text \<open>The day number (from 0) of a calendar date.\<close>

definition days_of_ymd :: "nat \<Rightarrow> nat \<Rightarrow> nat \<Rightarrow> nat" where
  "days_of_ymd y m d = days_before_year y + days_before_month y m + (d - 1)"

text \<open>\<open>_ord2ymd\<close>: the month is estimated from above and corrected by one at most.\<close>

definition ymd_of_days :: "nat \<Rightarrow> nat \<times> nat \<times> nat" where
  "ymd_of_days n0 =
     (let n400 = n0 div 146097; n = n0 mod 146097;
          n100 = n div 36524; n = n mod 36524;
          n4 = n div 1461; n = n mod 1461;
          n1 = n div 365; n = n mod 365;
          y = n400 * 400 + n100 * 100 + n4 * 4 + n1 + 1
      in if n1 = 4 \<or> n100 = 4 then (y - 1, 12, 31)
         else
           (let m = (n + 50) div 32;
                m = (if n < days_before_month y m then m - 1 else m)
            in (y, m, n - days_before_month y m + 1)))"

section \<open>Instants\<close>

text \<open>\<open>datetime.isoformat()\<close> of a naive instant: microseconds appear only when non-zero.\<close>

definition pad_dec :: "nat \<Rightarrow> nat \<Rightarrow> string" where
  "pad_dec w n = (let s = dec_of_nat n in replicate (w - length s) CHR ''0'' @ s)"

definition day_us :: nat where
  "day_us = 86400000000"

definition iso_time :: "nat \<Rightarrow> string" where
  "iso_time u =
     pad_dec 2 (u div 3600000000) @ '':'' @ pad_dec 2 (u div 60000000 mod 60) @ '':''
       @ pad_dec 2 (u div 1000000 mod 60)
       @ (if u mod 1000000 = 0 then [] else ''.'' @ pad_dec 6 (u mod 1000000))"

definition isoformat_nat :: "nat \<Rightarrow> string" where
  "isoformat_nat t =
     (let (y, mo, d) = ymd_of_days (t div day_us)
      in pad_dec 4 y @ ''-'' @ pad_dec 2 mo @ ''-'' @ pad_dec 2 d @ ''T'' @ iso_time (t mod day_us))"

text \<open>Instants before year 1 do not exist in Python; \<open>isoformat\<close> is used on valid ones.\<close>

definition isoformat :: "instant \<Rightarrow> string" where
  "isoformat t = isoformat_nat (nat t)"

section \<open>The calendar round trip\<close>

lemma div_via: "q * k \<le> n \<Longrightarrow> n < (q + 1) * k \<Longrightarrow> n div k = (q::nat)"
  by (rule div_nat_eqI) (simp_all add: algebra_simps)

lemma days_before_year_parts:
  assumes "b \<le> 3" "c \<le> 24" "d \<le> 3"
  shows "days_before_year (a * 400 + b * 100 + c * 4 + d + 1) =
    a * 146097 + b * 36524 + c * 1461 + d * 365"
proof -
  let ?p = "a * 400 + b * 100 + c * 4 + d"
  have "?p div 4 = a * 100 + b * 25 + c" using assms by (intro div_via) simp_all
  moreover have "?p div 100 = a * 4 + b" using assms by (intro div_via) simp_all
  moreover have "?p div 400 = a" using assms by (intro div_via) simp_all
  ultimately show ?thesis by (simp add: days_before_year_def algebra_simps)
qed

lemma is_leap_parts:
  assumes "b \<le> 3" "c \<le> 24" "d \<le> 3"
  shows "is_leap (a * 400 + b * 100 + c * 4 + d + 1) \<longleftrightarrow> d = 3 \<and> (c \<noteq> 24 \<or> b = 3)"
proof -
  let ?r = "c * 4 + d + 1"
  let ?y = "a * 400 + b * 100 + c * 4 + d + 1"
  have y: "?y = ?r + (a * 4 + b) * 100" "?y = (b * 100 + ?r) + a * 400" by simp_all
  have le: "?r \<le> 100" and le': "b * 100 + ?r \<le> 400" using assms by simp_all
  have "?y mod 4 = (d + 1) mod 4"
    using mod_mult_self1 [of "d + 1" "a * 100 + b * 25 + c" 4] by (simp add: algebra_simps)
  moreover have "(d + 1) mod 4 = 0 \<longleftrightarrow> d = 3" using assms(3) by presburger
  moreover have "?y mod 100 = 0 \<longleftrightarrow> ?r = 100"
    unfolding y(1) mod_mult_self1 using le by (cases "?r = 100") simp_all
  moreover have "?r = 100 \<longleftrightarrow> c = 24 \<and> d = 3"
    using assms by (cases "c = 24") auto
  moreover have "?y mod 400 = 0 \<longleftrightarrow> b * 100 + ?r = 400"
    unfolding y(2) mod_mult_self1 using le' by (cases "b * 100 + ?r = 400") simp_all
  moreover have "b * 100 + ?r = 400 \<longleftrightarrow> b = 3 \<and> c = 24 \<and> d = 3"
    using assms by (cases "b = 3"; cases "c = 24") auto
  ultimately show ?thesis by (auto simp: is_leap_def)
qed

text \<open>The estimated month, after its correction, starts at or before day \<open>n\<close> of the year.\<close>

lemma month_correct:
  assumes "n < 365 \<or> is_leap y \<and> n < 366"
    and "m = (n + 50) div 32" and "m' = (if n < days_before_month y m then m - 1 else m)"
  shows "days_before_month y m' \<le> n \<and> 1 \<le> m' \<and> m' \<le> 12 \<and> n < days_before_month y m' + 31"
proof -
  have m32: "m * 32 \<le> n + 50" "n + 50 < m * 32 + 32"
    unfolding assms(2) by (rule div_times_less_eq_dividend) (simp add: dividend_less_div_times)
  have "1 \<le> m" "m \<le> 12" using m32 assms(1) by auto
  then have "m \<in> {1, 2, 3, 4, 5, 6, 7, 8, 9, 10, 11, 12}"
    unfolding insert_iff empty_iff by presburger
  with m32 show ?thesis
    using assms(1, 3) by (elim insertE emptyE) (auto simp: days_before_month_def)
qed

lemma days_of_ymd_of_days:
  assumes "ymd_of_days n = (y, m, d)"
  shows "days_of_ymd y m d = n"
proof -
  define a where "a = n div 146097"
  define b where "b = n mod 146097 div 36524"
  define c where "c = n mod 146097 mod 36524 div 1461"
  define e where "e = n mod 146097 mod 36524 mod 1461 div 365"
  define r where "r = n mod 146097 mod 36524 mod 1461 mod 365"
  have n: "n = a * 146097 + b * 36524 + c * 1461 + e * 365 + r"
    unfolding a_def b_def c_def e_def r_def by (simp add: algebra_simps)
  have r: "r < 365" by (simp add: r_def)
  have b: "b \<le> 4" unfolding b_def
    by (rule div_le_mono [of "n mod 146097" 146096 36524, simplified]) (simp add: less_Suc_eq_le [symmetric])
  have e: "e \<le> 4" unfolding e_def
    by (rule div_le_mono [of "n mod 146097 mod 36524 mod 1461" 1460 365, simplified])
      (simp add: less_Suc_eq_le [symmetric])
  have c: "c \<le> 24" unfolding c_def
    by (rule div_le_mono [of "n mod 146097 mod 36524" 36523 1461, simplified]) (simp add: less_Suc_eq_le [symmetric])
  define Y where "Y = a * 400 + b * 100 + c * 4 + e + 1"
  have bounds: "c * 1461 + e * 365 + r < 36524" "e * 365 + r < 1461"
    using mod_less_divisor [of 36524 "n mod 146097"] mod_less_divisor [of 1461 "n mod 146097 mod 36524"]
    unfolding c_def e_def r_def by simp_all
  have bound: "b * 36524 + c * 1461 + e * 365 + r < 146097"
    using mod_less_divisor [of 146097 n] unfolding b_def c_def e_def r_def by simp
  note fold_parts = ymd_of_days_def Let_def a_def [symmetric] b_def [symmetric] c_def [symmetric]
    e_def [symmetric] r_def [symmetric] Y_def [symmetric]
  show ?thesis
  proof (cases "e = 4 \<or> b = 4")
    case False
    then have y: "days_before_year Y = a * 146097 + b * 36524 + c * 1461 + e * 365"
      using b c e unfolding Y_def by (intro days_before_year_parts) simp_all
    have "ymd_of_days n = (Y, m, r - days_before_month Y m + 1) \<and> days_before_month Y m \<le> r"
      using False assms month_correct [of r Y "(r + 50) div 32", OF _ refl refl] r
      unfolding fold_parts by (auto split: if_splits)
    then have "days_of_ymd y m d = days_before_year Y + r"
      using assms by (auto simp: days_of_ymd_def simp del: add_Suc_right)
    then show ?thesis using n y by simp
  next
    case True
    then have "ymd_of_days n = (Y - 1, 12, 31)"
      unfolding fold_parts by (simp only: if_True)
    then have out: "y = Y - 1" "m = 12" "d = 31" using assms by simp_all
    obtain b' c' where y: "y = a * 400 + b' * 100 + c' * 4 + 3 + 1" and "b' \<le> 3" "c' \<le> 24"
      and lp: "c' \<noteq> 24 \<or> b' = 3" and n': "n = a * 146097 + b' * 36524 + c' * 1461 + 3 * 365 + 365"
    proof (cases "b = 4")
      case True
      then have "c = 0" "e = 0" "r = 0" using bound by simp_all
      then show thesis using that [of 3 24] out True n by (simp add: Y_def)
    next
      case False
      with True have "e = 4" by simp
      then have "c \<le> 23" "r = 0" using bounds by simp_all
      then show thesis using that [of b c] out False b n \<open>e = 4\<close> by (simp add: Y_def)
    qed
    then show ?thesis
      using out days_before_year_parts [of b' c' 3 a] is_leap_parts [of b' c' 3 a]
      by (simp add: days_of_ymd_def days_before_month_def)
  qed
qed

lemma ymd_of_days_inject: "ymd_of_days m = ymd_of_days n \<longleftrightarrow> m = n"
  by (metis days_of_ymd_of_days prod_cases3)

lemma ymd_of_days_bounds:
  assumes "ymd_of_days n = (y, m, d)"
  shows "m \<le> 12 \<and> d \<le> 31"
proof -
  define r where "r = n mod 146097 mod 36524 mod 1461 mod 365"
  define Y where "Y = n div 146097 * 400 + n mod 146097 div 36524 * 100 +
    n mod 146097 mod 36524 div 1461 * 4 + n mod 146097 mod 36524 mod 1461 div 365 + 1"
  define M where "M = (if r < days_before_month Y ((r + 50) div 32) then (r + 50) div 32 - 1
    else (r + 50) div 32)"
  have "r < 365 \<or> is_leap Y \<and> r < 366" by (simp add: r_def)
  from month_correct [OF this refl M_def] have "M \<le> 12" "r < days_before_month Y M + 31" by simp_all
  moreover have "ymd_of_days n \<in> {(Y - 1, 12, 31), (Y, M, r - days_before_month Y M + 1)}"
    unfolding ymd_of_days_def Let_def r_def [symmetric] Y_def [symmetric] M_def [symmetric]
    by (split if_split) blast
  ultimately show ?thesis using assms by auto
qed

section \<open>isoformat is injective\<close>

lemma length_pad_dec: "n < 10 ^ w \<Longrightarrow> 0 < w \<Longrightarrow> length (pad_dec w n) = w"
  using length_digits_of [of 10 n w] by (simp add: pad_dec_def dec_of_nat_def)

lemma digits_value_replicate_0 [simp]:
  "digits_value b (replicate k 0 @ ds) = digits_value b ds"
  by (induction k) (simp_all add: digits_value_def)

lemma digits_value_pad_dec: "digits_value 10 (map (\<lambda>c. the (digit_value c)) (pad_dec w n)) = n"
proof -
  have "the (digit_value CHR ''0'') = 0" by (simp add: digit_value_def)
  then show ?thesis by (simp add: pad_dec_def Let_def digits_of_dec digits_value_digits_of)
qed

lemma pad_dec_inject: "pad_dec w m = pad_dec w n \<longleftrightarrow> m = n"
  by (metis digits_value_pad_dec)

text \<open>The year has at least four digits and no dash, so the first dash ends it.\<close>

lemma dash_free_pad_dec: "CHR ''-'' \<notin> set (pad_dec w n)"
proof
  assume "CHR ''-'' \<in> set (pad_dec w n)"
  then have "CHR ''-'' \<in> set (dec_of_nat n)" by (auto simp: pad_dec_def Let_def)
  then obtain d where "d < 10" "CHR ''-'' = digit_char d" using digit_of_dec by blast
  then show False using digit_char_neq(3) [of d] by simp
qed

lemma time_of_day_eq:
  fixes u v :: nat
  assumes "u div 3600000000 = v div 3600000000" "u div 60000000 mod 60 = v div 60000000 mod 60"
    "u div 1000000 mod 60 = v div 1000000 mod 60" "u mod 1000000 = v mod 1000000"
  shows "u = v"
proof -
  have step: "a = b" if "a div k = b div k" "a mod k = b mod k" for a b k :: nat
    using that by (metis div_mult_mod_eq)
  have "u div 60000000 div 60 = v div 60000000 div 60"
    using assms(1) by (simp add: div_mult2_eq [symmetric])
  then have "u div 60000000 = v div 60000000" using assms(2) by (rule step)
  then have "u div 1000000 div 60 = v div 1000000 div 60" by (simp add: div_mult2_eq [symmetric])
  then have "u div 1000000 = v div 1000000" using assms(3) by (rule step)
  then show ?thesis by (rule step [OF _ assms(4)])
qed

lemma clock_text_inject:
  assumes "pad_dec 2 h @ '':'' @ pad_dec 2 m @ '':'' @ pad_dec 2 s @ (if u = 0 then [] else ''.'' @ pad_dec 6 u) =
      pad_dec 2 h' @ '':'' @ pad_dec 2 m' @ '':'' @ pad_dec 2 s' @ (if u' = 0 then [] else ''.'' @ pad_dec 6 u')"
    and "h < 100" "h' < 100" "m < 100" "m' < 100" "s < 100" "s' < 100" "u < 1000000" "u' < 1000000"
  shows "h = h' \<and> m = m' \<and> s = s' \<and> u = u'"
  using assms by (simp add: length_pad_dec pad_dec_inject split: if_splits)

lemma iso_time_inject:
  assumes "u < day_us" "v < day_us" "iso_time u = iso_time v"
  shows "u = v"
proof -
  have h: "k div 3600000000 < 100" if "k < day_us" for k
    using that by (simp add: day_us_def div_less_iff_less_mult)
  have m: "k mod 60 < 100" for k :: nat
    using mod_less_divisor [of 60 k] by linarith
  note parts = clock_text_inject [OF assms(3) [unfolded iso_time_def] h [OF assms(1)] h [OF assms(2)]
      m m m m mod_less_divisor mod_less_divisor]
  show ?thesis by (rule time_of_day_eq) (use parts in simp_all)
qed

lemma isoformat_nat_inject: "isoformat_nat s = isoformat_nat t \<longleftrightarrow> s = t"
proof
  assume eq: "isoformat_nat s = isoformat_nat t"
  obtain y mo d where a: "ymd_of_days (s div day_us) = (y, mo, d)" by (cases rule: prod_cases3)
  obtain y' mo' d' where b: "ymd_of_days (t div day_us) = (y', mo', d')" by (cases rule: prod_cases3)
  have len: "length (pad_dec 2 mo) = 2" "length (pad_dec 2 d) = 2" "length (pad_dec 2 mo') = 2"
    "length (pad_dec 2 d') = 2"
    using ymd_of_days_bounds [OF a] ymd_of_days_bounds [OF b] by (simp_all add: length_pad_dec)
  have "pad_dec 4 y @ CHR ''-'' # (pad_dec 2 mo @ ''-'' @ pad_dec 2 d @ ''T'' @ iso_time (s mod day_us)) =
      pad_dec 4 y' @ CHR ''-'' # (pad_dec 2 mo' @ ''-'' @ pad_dec 2 d' @ ''T'' @ iso_time (t mod day_us))"
    using eq a b by (simp add: isoformat_nat_def)
  from split_at_separator [OF dash_free_pad_dec dash_free_pad_dec this]
  have "y = y' \<and> mo = mo' \<and> d = d' \<and> iso_time (s mod day_us) = iso_time (t mod day_us)"
    by (simp add: len pad_dec_inject)
  then have "s div day_us = t div day_us" "s mod day_us = t mod day_us"
    using a b ymd_of_days_inject [of "s div day_us" "t div day_us"]
    by (simp_all add: iso_time_inject day_us_def)
  then show "s = t" by (metis div_mult_mod_eq)
qed simp

lemma isoformat_inject: "0 \<le> s \<Longrightarrow> 0 \<le> t \<Longrightarrow> isoformat s = isoformat t \<longleftrightarrow> s = t"
  by (simp add: isoformat_def isoformat_nat_inject nat_eq_iff)

text \<open>No character of an ISO timestamp is a control character.\<close>

lemma isoformat_chars: "c \<in> set (isoformat t) \<Longrightarrow> (\<exists>d < 10. c = digit_char d) \<or> c \<in> set ''-T:.''"
proof -
  have "c \<in> set (pad_dec w n) \<Longrightarrow> \<exists>d < 10. c = digit_char d" for w n
  proof -
    have "CHR ''0'' = digit_char 0" by code_simp
    then show "c \<in> set (pad_dec w n) \<Longrightarrow> \<exists>d < 10. c = digit_char d"
      using digit_of_dec [of c n] by (auto simp: pad_dec_def Let_def intro: exI [of _ "0::nat"])
  qed
  then show "c \<in> set (isoformat t) \<Longrightarrow> (\<exists>d < 10. c = digit_char d) \<or> c \<in> set ''-T:.''"
    by (auto simp: isoformat_def isoformat_nat_def iso_time_def split: prod.splits if_splits)
qed

end
