(* ===== verification/Shard_Leases.thy ===== *)
theory Shard_Leases
  imports Py_Json Py_Time
begin

text \<open>
  The sharding tables of \<open>collector/src/database/repository.py\<close> and the operations on them:
  leases (which collector polls a target), collector slots (stable ordinals), and the
  membership rows of \<open>collector_stats\<close>. Every operation is one serialized transaction, so it
  is a function from the tables to the tables; the instants it reads from the clock are
  arguments. The locale \<open>lease_pass\<close> is the contract both claim passes promise.
\<close>

section \<open>Tables\<close>

record target_row =
  target_name :: string
  target_enabled :: bool

record lease =
  lease_collector :: collector_id
  lease_updated :: instant

record slot =
  slot_token :: string
  slot_updated :: instant

text \<open>
  The \<open>data\<close> column holds JSON text: \<open>Some d\<close> is text that \<open>json.loads\<close> reads as the dictionary
  \<open>d\<close>, \<open>None\<close> is text it rejects.
\<close>

record stats_row =
  stats_data :: "json dict option"
  stats_owned :: int
  stats_updated :: instant

record heatmap_row =
  heat_data :: "json dict option"
  heat_updated :: instant

record shard_db =
  targets :: "(target_id, target_row) db_table"
  shard_leases :: "(target_id, lease) db_table"
  collector_slots :: "(int, slot) db_table"
  collector_stats :: "(collector_id, stats_row) db_table"
  heatmap_snapshots :: "(collector_id \<times> string, heatmap_row) db_table"

type_synonym lease_table = "(target_id, lease) db_table"

datatype db_error = IntegrityError

section \<open>Leases\<close>

definition get_enabled_target_ids :: "shard_db \<Rightarrow> target_id list" where
  "get_enabled_target_ids db = map fst (rows_where (\<lambda>_ r. target_enabled r) (targets db))"

text \<open>\<open>DELETE FROM shard_leases WHERE target_id NOT IN (SELECT id FROM targets WHERE enabled = 1)\<close>.\<close>

definition sweep_leases :: "target_id list \<Rightarrow> lease_table \<Rightarrow> lease_table" where
  "sweep_leases en T = rows_where (\<lambda>t _. t \<in> set en) T"

text \<open>
  \<open>INSERT INTO shard_leases ... ON CONFLICT(target_id) DO UPDATE ... WHERE guard\<close>: the guard
  reads the row already stored.
\<close>

definition claim_upsert :: "(lease \<Rightarrow> bool) \<Rightarrow> lease \<Rightarrow> target_id \<Rightarrow> lease_table \<Rightarrow> lease_table" where
  "claim_upsert guard new tid T =
     (case map_of T tid of
        None \<Rightarrow> AList.update tid new T
      | Some old \<Rightarrow> if guard old then AList.update tid new T else T)"

text \<open>\<open>SELECT t.id ... LEFT JOIN shard_leases ... ORDER BY t.id LIMIT :cap\<close>.\<close>

definition claimable_ids :: "target_id list \<Rightarrow> instant \<Rightarrow> int \<Rightarrow> lease_table \<Rightarrow> target_id list" where
  "claimable_ids en stale cap T =
     take (nat cap)
       (sort (filter (\<lambda>t. case map_of T t of None \<Rightarrow> True | Some l \<Rightarrow> lease_updated l < stale) en))"

definition count_owned :: "collector_id \<Rightarrow> lease_table \<Rightarrow> int" where
  "count_owned cid T = int (count_where (\<lambda>_ l. lease_collector l = cid) T)"

definition count_fresh_owned :: "collector_id \<Rightarrow> instant \<Rightarrow> lease_table \<Rightarrow> int" where
  "count_fresh_owned cid stale T =
     int (count_where (\<lambda>_ l. lease_collector l = cid \<and> stale \<le> lease_updated l) T)"

text \<open>
  The static pass. The code reads the clock twice, \<open>now\<close> for the stamps and \<open>now2\<close> for the
  stale cutoff.
\<close>

definition claim_shard_targets ::
  "instant \<Rightarrow> instant \<Rightarrow> collector_id \<Rightarrow> int \<Rightarrow> duration \<Rightarrow> shard_db \<Rightarrow> int \<times> shard_db" where
  "claim_shard_targets now now2 cid max_targets ttl db =
     (let stale = now2 - ttl;
          en = get_enabled_target_ids db;
          swept = sweep_leases en (shard_leases db);
          beat = map_rows (\<lambda>_ l. if lease_collector l = cid then l\<lparr>lease_updated := now\<rparr> else l) swept;
          capacity = max_targets - count_owned cid beat;
          claimed =
            (if 0 < capacity
             then fold (claim_upsert (\<lambda>l. lease_updated l < stale)
                          \<lparr>lease_collector = cid, lease_updated = now\<rparr>)
                    (claimable_ids en stale capacity beat) beat
             else beat)
      in (count_owned cid claimed, db\<lparr>shard_leases := claimed\<rparr>))"

text \<open>The \<open>IN (...)\<close> lookups of \<open>reconcile_shard_leases\<close>, 500 ids at a time.\<close>

fun chunks :: "nat \<Rightarrow> 'a list \<Rightarrow> 'a list list" where
  "chunks n [] = []"
| "chunks n (x # xs) = take (Suc n) (x # xs) # chunks n (drop n xs)"

definition enabled_of :: "target_id list \<Rightarrow> target_id list \<Rightarrow> target_id list" where
  "enabled_of en ids = concat (map (\<lambda>chunk. filter (\<lambda>t. t \<in> set chunk) en) (chunks 499 ids))"

text \<open>The dynamic pass: claim my slice, then adopt orphans while below the cap.\<close>

definition reconcile_shard_leases ::
  "instant \<Rightarrow> collector_id \<Rightarrow> target_id list \<Rightarrow> int \<Rightarrow> duration \<Rightarrow> shard_db \<Rightarrow> int \<times> shard_db" where
  "reconcile_shard_leases now cid mine_ids cap ttl db =
     (let en = get_enabled_target_ids db;
          swept = sweep_leases en (shard_leases db);
          stale = now - ttl;
          claim = claim_upsert (\<lambda>l. lease_collector l = cid \<or> lease_updated l < stale)
                    \<lparr>lease_collector = cid, lease_updated = now\<rparr>;
          enabled_mine = enabled_of en (sorted_set mine_ids);
          sliced = fold claim enabled_mine swept;
          capacity = cap - count_fresh_owned cid stale sliced;
          adopted =
            (if 0 < capacity then fold claim (claimable_ids en stale capacity sliced) sliced
             else sliced)
      in (count_fresh_owned cid stale adopted, db\<lparr>shard_leases := adopted\<rparr>))"

definition count_all_shard_leases :: "instant \<Rightarrow> duration \<Rightarrow> shard_db \<Rightarrow> int" where
  "count_all_shard_leases now ttl db =
     int (count_where (\<lambda>_ l. now - ttl \<le> lease_updated l) (shard_leases db))"

definition get_owned_targets ::
  "instant \<Rightarrow> collector_id \<Rightarrow> duration \<Rightarrow> bool \<Rightarrow> shard_db \<Rightarrow> target_id list" where
  "get_owned_targets now cid ttl enabled_only db =
     map fst (rows_where
       (\<lambda>t r. (case map_of (shard_leases db) t of
                None \<Rightarrow> False
              | Some l \<Rightarrow> lease_collector l = cid \<and> now - ttl \<le> lease_updated l)
            \<and> (enabled_only \<longrightarrow> target_enabled r)) (targets db))"

text \<open>\<open>get_all_targets\<close>: the ids in the order of the target names.\<close>

definition get_all_targets :: "bool \<Rightarrow> shard_db \<Rightarrow> target_id list" where
  "get_all_targets enabled_only db =
     map fst (sort_key (\<lambda>(_, r). target_name r)
       (rows_where (\<lambda>_ r. enabled_only \<longrightarrow> target_enabled r) (targets db)))"

text \<open>
  The shard context that \<open>set_shard_context\<close> stores in the repository, and the targets a
  process collects from.
\<close>

type_synonym shard_context = "(collector_id \<times> duration) option"

definition set_shard_context :: "collector_id \<Rightarrow> duration \<Rightarrow> shard_context \<Rightarrow> shard_context" where
  "set_shard_context cid ttl ctx = Some (cid, ttl)"

definition get_active_targets :: "instant \<Rightarrow> shard_context \<Rightarrow> shard_db \<Rightarrow> target_id list" where
  "get_active_targets now ctx db =
     (case ctx of
        Some (cid, ttl) \<Rightarrow> get_owned_targets now cid ttl True db
      | None \<Rightarrow> get_all_targets True db)"

definition release_shard_leases :: "collector_id \<Rightarrow> shard_db \<Rightarrow> shard_db" where
  "release_shard_leases cid db =
     db\<lparr>shard_leases := rows_where (\<lambda>_ l. lease_collector l \<noteq> cid) (shard_leases db),
        collector_stats := rows_where (\<lambda>c _. c \<noteq> cid) (collector_stats db),
        heatmap_snapshots := rows_where (\<lambda>k _. fst k \<noteq> cid) (heatmap_snapshots db)\<rparr>"

section \<open>Collector slots\<close>

definition reap_slots :: "instant \<Rightarrow> (int, slot) db_table \<Rightarrow> (int, slot) db_table" where
  "reap_slots stale S = rows_where (\<lambda>_ s. \<not> slot_updated s < stale) S"

text \<open>\<open>while ordinal in taken: ordinal += 1\<close>.\<close>

function free_ordinal :: "int list \<Rightarrow> int \<Rightarrow> int" where
  "free_ordinal taken n = (if n \<in> set taken then free_ordinal taken (n + 1) else n)"
  by pat_completeness auto
termination
proof (relation "measure (\<lambda>(taken, n). card {m \<in> set taken. n \<le> m})", goal_cases)
  case (2 taken n)
  then have "n \<in> {m \<in> set taken. n \<le> m}" "n \<notin> {m \<in> set taken. n + 1 \<le> m}" by simp_all
  then have "{m \<in> set taken. n + 1 \<le> m} \<noteq> {m \<in> set taken. n \<le> m}" by metis
  moreover have "{m \<in> set taken. n + 1 \<le> m} \<subseteq> {m \<in> set taken. n \<le> m}" by auto
  ultimately show ?case by (simp add: psubset_card_mono psubset_eq)
qed simp

declare free_ordinal.simps [simp del]

text \<open>
  \<open>SELECT ... WHERE token = :token\<close> (\<open>token\<close> is a unique column).
\<close>

definition slot_of_token :: "string \<Rightarrow> (int, slot) db_table \<Rightarrow> (int \<times> slot) option" where
  "slot_of_token token S = find (\<lambda>(_, s). slot_token s = token) S"

definition claim_collector_slot ::
  "instant \<Rightarrow> instant \<Rightarrow> string \<Rightarrow> duration \<Rightarrow> shard_db \<Rightarrow> int \<times> shard_db" where
  "claim_collector_slot now now2 token ttl db =
     (let S = reap_slots (now2 - ttl) (collector_slots db) in
      case slot_of_token token S of
        Some (n, s) \<Rightarrow> (n, db\<lparr>collector_slots := AList.update n (s\<lparr>slot_updated := now\<rparr>) S\<rparr>)
      | None \<Rightarrow>
          (let n = free_ordinal (map fst S) 0
           in (n, db\<lparr>collector_slots := AList.update n \<lparr>slot_token = token, slot_updated = now\<rparr> S\<rparr>)))"

text \<open>
  Re-inserting an ordinal violates the unique \<open>token\<close> column when the token sits on another
  ordinal; the exception leaves the tables unchanged (the transaction is rolled back).
\<close>

definition renew_collector_slot ::
  "instant \<Rightarrow> instant \<Rightarrow> string \<Rightarrow> int \<Rightarrow> duration \<Rightarrow> shard_db \<Rightarrow> db_error + (bool \<times> shard_db)" where
  "renew_collector_slot now now2 token ordinal ttl db =
     (let S = reap_slots (now2 - ttl) (collector_slots db) in
      case map_of S ordinal of
        None \<Rightarrow>
          (if slot_of_token token S \<noteq> None then Inl IntegrityError
           else Inr (True, db\<lparr>collector_slots :=
                  AList.update ordinal \<lparr>slot_token = token, slot_updated = now\<rparr> S\<rparr>))
      | Some s \<Rightarrow>
          (if slot_token s = token
           then Inr (True, db\<lparr>collector_slots := AList.update ordinal (s\<lparr>slot_updated := now\<rparr>) S\<rparr>)
           else Inr (False, db\<lparr>collector_slots := S\<rparr>)))"

definition release_collector_slot :: "string \<Rightarrow> shard_db \<Rightarrow> shard_db" where
  "release_collector_slot token db =
     db\<lparr>collector_slots := rows_where (\<lambda>_ s. slot_token s \<noteq> token) (collector_slots db)\<rparr>"

section \<open>Membership rows\<close>

definition upsert_collector_stats ::
  "instant \<Rightarrow> collector_id \<Rightarrow> json dict \<Rightarrow> int \<Rightarrow> shard_db \<Rightarrow> shard_db" where
  "upsert_collector_stats now cid data owned db =
     db\<lparr>collector_stats := AList.update cid
          \<lparr>stats_data = Some data, stats_owned = owned, stats_updated = now\<rparr> (collector_stats db)\<rparr>"

text \<open>
  One dictionary per fresh row: the three columns, then the entries of the published
  dictionary (empty when its text does not parse), which win on a common key.
\<close>

definition stats_view :: "collector_id \<Rightarrow> stats_row \<Rightarrow> json dict" where
  "stats_view cid r =
     dict_update [(''collector_id'', JStr cid), (''owned_targets'', JInt (stats_owned r)),
                  (''updated_at'', JStr (isoformat (stats_updated r)))]
       (case stats_data r of None \<Rightarrow> [] | Some d \<Rightarrow> d)"

definition get_collector_stats :: "instant \<Rightarrow> duration \<Rightarrow> shard_db \<Rightarrow> json dict list" where
  "get_collector_stats now max_age db =
     map (\<lambda>(c, r). stats_view c r)
       (rows_where (\<lambda>_ r. now - max_age \<le> stats_updated r) (collector_stats db))"

section \<open>Rows after a claim\<close>

definition unleased :: "instant \<Rightarrow> lease_table \<Rightarrow> target_id \<Rightarrow> bool" where
  "unleased stale T t = (case map_of T t of None \<Rightarrow> True | Some l \<Rightarrow> lease_updated l < stale)"

lemma not_unleased: "\<not> unleased stale T t \<longleftrightarrow> (\<exists>l. map_of T t = Some l \<and> stale \<le> lease_updated l)"
  by (auto simp: unleased_def not_less split: option.split)

lemma unique_key_claim [simp]: "unique_key T \<Longrightarrow> unique_key (claim_upsert g new t T)"
  by (simp add: claim_upsert_def split: option.split)

lemma unique_key_fold_claim [simp]: "unique_key T \<Longrightarrow> unique_key (fold (claim_upsert g new) ts T)"
  by (rule fold_invariant) simp_all

lemma map_of_claim:
  "map_of (claim_upsert g new t T) u =
     (if u = t \<and> (case map_of T t of None \<Rightarrow> True | Some l \<Rightarrow> g l) then Some new else map_of T u)"
  by (auto simp: claim_upsert_def table_simps split: option.split)

lemma map_of_fold_claim:
  "map_of (fold (claim_upsert g new) ts T) u =
     (if u \<in> set ts \<and> (case map_of T u of None \<Rightarrow> True | Some l \<Rightarrow> g l) then Some new
      else map_of T u)"
proof (induction ts arbitrary: T)
  case (Cons t ts)
  then show ?case by (auto simp: map_of_claim split: option.splits)
qed simp

lemma unique_key_sweep [simp]: "unique_key T \<Longrightarrow> unique_key (sweep_leases en T)"
  by (simp add: sweep_leases_def)

lemma map_of_sweep [table_simps]:
  "unique_key T \<Longrightarrow> map_of (sweep_leases en T) t = (if t \<in> set en then map_of T t else None)"
  by (simp add: sweep_leases_def table_simps split: option.split)

lemma claimable_ids_subset: "t \<in> set (claimable_ids en stale cap T) \<Longrightarrow> t \<in> set en \<and> unleased stale T t"
  using set_take_subset [of "nat cap"] by (auto simp: claimable_ids_def unleased_def dest!: in_set_takeD)

lemma distinct_claimable: "distinct en \<Longrightarrow> distinct (claimable_ids en stale cap T)"
  by (simp add: claimable_ids_def)

text \<open>Either the limit was reached, or every claimable target is in the result.\<close>

lemma claimable_ids_complete:
  "int (length (claimable_ids en stale cap T)) < cap \<Longrightarrow> t \<in> set en \<Longrightarrow> unleased stale T t \<Longrightarrow>
     t \<in> set (claimable_ids en stale cap T)"
  by (simp add: claimable_ids_def unleased_def split: if_splits)

lemma length_claimable_le: "int (length (claimable_ids en stale cap T)) \<le> max 0 cap"
  by (simp add: claimable_ids_def)

lemma chunks_concat: "set (concat (chunks n xs)) = set xs"
proof (induction n xs rule: chunks.induct)
  case (2 n x xs)
  then show ?case using set_append [of "take n xs" "drop n xs"] by simp
qed simp

lemma set_enabled_of: "set (enabled_of en ids) = set en \<inter> set ids"
  using chunks_concat [of 499 ids] by (auto simp: enabled_of_def)

lemma fresh_count_card:
  "unique_key T \<Longrightarrow> count_fresh_owned cid stale T =
     int (card {t. \<exists>l. map_of T t = Some l \<and> lease_collector l = cid \<and> stale \<le> lease_updated l})"
  by (simp add: count_fresh_owned_def count_where_card)

lemma fresh_count_claims:
  assumes "unique_key T" "distinct ts" "\<forall>t \<in> set ts. unleased stale T t" "stale \<le> lease_updated new"
    "lease_collector new = cid" "\<And>l. lease_updated l < stale \<Longrightarrow> g l"
  shows "count_fresh_owned cid stale (fold (claim_upsert g new) ts T) =
    count_fresh_owned cid stale T + int (length ts)"
proof -
  let ?F = "\<lambda>T. {t. \<exists>l. map_of T t = Some l \<and> lease_collector l = cid \<and> stale \<le> lease_updated l}"
  have claimed: "case map_of T t of None \<Rightarrow> True | Some l \<Rightarrow> g l" if "t \<in> set ts" for t
    using that assms(3, 6) by (auto simp: unleased_def split: option.splits)
  have "?F (fold (claim_upsert g new) ts T) = ?F T \<union> set ts"
    using assms(4, 5) claimed by (auto simp: map_of_fold_claim)
  moreover have "?F T \<inter> set ts = {}" using assms(3) by (auto simp: unleased_def)
  ultimately show ?thesis
    using assms(1, 2) by (simp add: fresh_count_card card_Un_disjoint distinct_card)
qed

section \<open>The contract of a claim pass\<close>

definition lease_wf :: "shard_db \<Rightarrow> bool" where
  "lease_wf db \<longleftrightarrow> unique_key (shard_leases db) \<and> unique_key (targets db)"

abbreviation enabled_targets :: "shard_db \<Rightarrow> target_id set" where
  "enabled_targets db \<equiv> set (get_enabled_target_ids db)"

abbreviation lease_of :: "shard_db \<Rightarrow> target_id \<Rightarrow> lease option" where
  "lease_of db t \<equiv> map_of (shard_leases db) t"

locale lease_pass =
  fixes pass :: "shard_db \<Rightarrow> int \<times> shard_db"
    and me :: collector_id and cap :: int and stamp stale :: instant
  assumes frame: "targets (snd (pass db)) = targets db"
      "collector_slots (snd (pass db)) = collector_slots db"
      "collector_stats (snd (pass db)) = collector_stats db"
    and keys: "lease_wf db \<Longrightarrow> lease_wf (snd (pass db))"
    and swept: "lease_wf db \<Longrightarrow> lease_of (snd (pass db)) t = Some l \<Longrightarrow> t \<in> enabled_targets db"
    and untouched: "lease_wf db \<Longrightarrow> t \<in> enabled_targets db \<Longrightarrow> lease_of db t = Some l \<Longrightarrow>
      lease_collector l \<noteq> me \<Longrightarrow> stale \<le> lease_updated l \<Longrightarrow> lease_of (snd (pass db)) t = Some l"
    and origin: "lease_wf db \<Longrightarrow> lease_of (snd (pass db)) t = Some l \<Longrightarrow>
      l = \<lparr>lease_collector = me, lease_updated = stamp\<rparr> \<or> lease_of db t = Some l"
    and kept: "lease_wf db \<Longrightarrow> t \<in> enabled_targets db \<Longrightarrow> lease_of db t = Some l \<Longrightarrow>
      lease_of (snd (pass db)) t \<noteq> None"
    and counted: "lease_wf db \<Longrightarrow> stale \<le> stamp \<Longrightarrow>
      fst (pass db) = count_fresh_owned me stale (shard_leases (snd (pass db)))"
    and sweeps_up: "lease_wf db \<Longrightarrow> stale \<le> stamp \<Longrightarrow> fst (pass db) < cap \<Longrightarrow>
      t \<in> enabled_targets db \<Longrightarrow> \<not> unleased stale (shard_leases (snd (pass db))) t"
begin

text \<open>A heartbeat that the pass cannot regard as stale survives it, whoever owns it.\<close>

lemma survives:
  assumes "lease_wf db" "t \<in> enabled_targets db" "lease_of db t = Some l"
    "stale \<le> lease_updated l" "\<tau> \<le> lease_updated l" "\<tau> \<le> stamp"
  shows "\<exists>l'. lease_of (snd (pass db)) t = Some l' \<and> lease_collector l' = lease_collector l \<and>
    \<tau> \<le> lease_updated l'"
proof (cases "lease_collector l = me")
  case True
  obtain l' where l': "lease_of (snd (pass db)) t = Some l'" using kept assms(1-3) by blast
  from origin [OF assms(1) l'] True assms(3, 5, 6) l' show ?thesis by auto
next
  case False
  then show ?thesis using untouched assms by blast
qed

text \<open>A target changes hands only when nobody held it or its owner's heartbeat was stale.\<close>

lemma handover:
  assumes "lease_wf db" "lease_of (snd (pass db)) t = Some l'" "lease_of db t = Some l"
    "lease_collector l' \<noteq> lease_collector l"
  shows "lease_collector l' = me \<and> lease_updated l < stale"
proof -
  have t: "t \<in> enabled_targets db" using swept assms(1, 2) by blast
  have "lease_collector l' = me" using origin [OF assms(1, 2)] assms(3, 4) by auto
  moreover have "lease_updated l < stale"
    using untouched [OF assms(1) t assms(3)] assms(2, 4) calculation by force
  ultimately show ?thesis by simp
qed

text \<open>A collector below its cap leaves no enabled target without a fresh owner.\<close>

lemma full_or_covered:
  assumes "lease_wf db" "stale \<le> stamp"
  shows "cap \<le> fst (pass db) \<or>
    (\<forall>t \<in> enabled_targets db. \<exists>l. lease_of (snd (pass db)) t = Some l \<and> stale \<le> lease_updated l)"
  using sweeps_up [OF assms] unfolding not_unleased by (meson not_le)

end

section \<open>Both passes keep the contract\<close>

lemma distinct_enabled: "lease_wf db \<Longrightarrow> distinct (get_enabled_target_ids db)"
  by (simp add: lease_wf_def get_enabled_target_ids_def)

definition own_beat :: "collector_id \<Rightarrow> instant \<Rightarrow> lease_table \<Rightarrow> lease_table" where
  "own_beat cid now = map_rows (\<lambda>_ l. if lease_collector l = cid then l\<lparr>lease_updated := now\<rparr> else l)"

text \<open>The common tail of both passes: adopt claimable targets while below the cap.\<close>

definition adopt :: "(lease \<Rightarrow> bool) \<Rightarrow> lease \<Rightarrow> target_id list \<Rightarrow> instant \<Rightarrow> int \<Rightarrow> lease_table \<Rightarrow> lease_table" where
  "adopt g new en stale capacity T =
     (if 0 < capacity then fold (claim_upsert g new) (claimable_ids en stale capacity T) T else T)"

lemma unique_key_adopt [simp]: "unique_key T \<Longrightarrow> unique_key (adopt g new en stale k T)"
  by (simp add: adopt_def)

lemma unique_key_own_beat [simp]: "unique_key T \<Longrightarrow> unique_key (own_beat cid now T)"
  by (simp add: own_beat_def)

lemma map_of_adopt:
  assumes "\<And>l. lease_updated l < stale \<Longrightarrow> g l"
  shows "map_of (adopt g new en stale k T) t =
    (if 0 < k \<and> t \<in> set (claimable_ids en stale k T) then Some new else map_of T t)"
  using assms claimable_ids_subset [of t en stale k T]
  by (auto simp: adopt_def map_of_fold_claim unleased_def split: option.splits)

lemma adopt_full_or_covered:
  assumes "unique_key T" "distinct en" "\<And>l. lease_updated l < stale \<Longrightarrow> g l"
    "stale \<le> lease_updated new" "lease_collector new = cid"
    "count_fresh_owned cid stale (adopt g new en stale (cap - count_fresh_owned cid stale T) T) < cap"
    "t \<in> set en"
  shows "\<not> unleased stale (adopt g new en stale (cap - count_fresh_owned cid stale T) T) t"
proof -
  define k where "k = cap - count_fresh_owned cid stale T"
  let ?c = "claimable_ids en stale k T"
  have k: "0 < k" using assms(6) by (auto simp: k_def adopt_def split: if_splits)
  have "count_fresh_owned cid stale (adopt g new en stale k T) =
      count_fresh_owned cid stale T + int (length ?c)"
    using k assms claimable_ids_subset [of _ en stale k T]
    by (simp add: adopt_def fresh_count_claims distinct_claimable)
  with assms(6) have "int (length ?c) < k" by (simp add: k_def)
  then have "t \<in> set ?c" if "unleased stale T t" using that assms(7) claimable_ids_complete by blast
  then show ?thesis
    using assms(3, 4) k claimable_ids_subset [of t en stale k T] unfolding k_def [symmetric]
    by (auto simp: unleased_def map_of_adopt split: option.splits)
qed

text \<open>The static pass, in terms of the shared steps.\<close>

lemma claim_shard_targets_eq:
  "claim_shard_targets now now2 cid cap ttl db =
     (let en = get_enabled_target_ids db; stale = now2 - ttl;
          T = own_beat cid now (sweep_leases en (shard_leases db));
          T' = adopt (\<lambda>l. lease_updated l < stale) \<lparr>lease_collector = cid, lease_updated = now\<rparr> en stale
                 (cap - count_owned cid T) T
      in (count_owned cid T', db\<lparr>shard_leases := T'\<rparr>))"
  by (simp add: claim_shard_targets_def own_beat_def adopt_def Let_def)

lemma count_owned_fresh:
  assumes "\<And>t l. map_of T t = Some l \<Longrightarrow> lease_collector l = cid \<Longrightarrow> stale \<le> lease_updated l" "unique_key T"
  shows "count_owned cid T = count_fresh_owned cid stale T"
proof -
  have "{t. \<exists>l. map_of T t = Some l \<and> lease_collector l = cid} =
      {t. \<exists>l. map_of T t = Some l \<and> lease_collector l = cid \<and> stale \<le> lease_updated l}"
    using assms(1) by blast
  then show ?thesis using assms(2) by (simp add: count_owned_def fresh_count_card count_where_card)
qed

lemma map_of_own_beat [table_simps]:
  "map_of (own_beat cid now T) t = map_option
     (\<lambda>l. if lease_collector l = cid then \<lparr>lease_collector = cid, lease_updated = now\<rparr> else l) (map_of T t)"
  by (cases "map_of T t") (simp_all add: own_beat_def table_simps)

interpretation static_pass:
  lease_pass "claim_shard_targets now now2 cid cap ttl" cid cap now "now2 - ttl" for now now2 cid cap ttl
proof
  fix db t l
  let ?en = "get_enabled_target_ids db" and ?stale = "now2 - ttl"
    and ?new = "\<lparr>lease_collector = cid, lease_updated = now\<rparr>"
  let ?T = "own_beat cid now (sweep_leases ?en (shard_leases db))"
  let ?g = "\<lambda>l. lease_updated l < now2 - ttl"
  let ?db' = "snd (claim_shard_targets now now2 cid cap ttl db)"
  show "targets ?db' = targets db" "collector_slots ?db' = collector_slots db"
    "collector_stats ?db' = collector_stats db"
    by (simp_all add: claim_shard_targets_eq Let_def)
  assume wf: "lease_wf db"
  then show "lease_wf ?db'" by (simp add: lease_wf_def claim_shard_targets_eq Let_def)
  have T: "map_of ?T u = (if u \<in> set ?en then map_option
      (\<lambda>l. if lease_collector l = cid then ?new else l) (lease_of db u) else None)" for u
    using wf by (simp add: lease_wf_def table_simps)
  have uT: "unique_key ?T" using wf by (simp add: lease_wf_def)
  have row: "lease_of ?db' u =
      (if 0 < cap - count_owned cid ?T \<and> u \<in> set (claimable_ids ?en ?stale (cap - count_owned cid ?T) ?T)
       then Some ?new else map_of ?T u)" for u
    by (simp add: claim_shard_targets_eq Let_def map_of_adopt)
  note inside = claimable_ids_subset [of _ ?en ?stale "cap - count_owned cid ?T" ?T]
  show "t \<in> set ?en" if "lease_of ?db' t = Some l"
    using that inside [of t] by (auto simp: row T split: if_splits)
  show "lease_of ?db' t = Some l"
    if "t \<in> set ?en" "lease_of db t = Some l" "lease_collector l \<noteq> cid" "?stale \<le> lease_updated l"
    using that inside [of t] by (auto simp: row T unleased_def)
  show "l = ?new \<or> lease_of db t = Some l" if "lease_of ?db' t = Some l"
    using that by (auto simp: row T split: if_splits)
  show "lease_of ?db' t \<noteq> None" if "t \<in> set ?en" "lease_of db t = Some l"
    using that by (auto simp: row T)
  assume le: "?stale \<le> now"
  have own: "?stale \<le> lease_updated l" if "map_of ?T t = Some l" "lease_collector l = cid" for t l
    using that le by (cases l) (auto simp: T split: if_splits)
  then have cT: "count_owned cid ?T = count_fresh_owned cid ?stale ?T" using uT by (intro count_owned_fresh)
  have "?stale \<le> lease_updated l" if "lease_of ?db' t = Some l" "lease_collector l = cid" for t l
    using that le own [of t l] by (cases l) (auto simp: row split: if_splits)
  then show cnt: "fst (claim_shard_targets now now2 cid cap ttl db) =
      count_fresh_owned cid ?stale (shard_leases ?db')"
    using wf uT by (simp add: claim_shard_targets_eq Let_def count_owned_fresh)
  show "\<not> unleased ?stale (shard_leases ?db') t"
    if "fst (claim_shard_targets now now2 cid cap ttl db) < cap" "t \<in> set ?en"
    using adopt_full_or_covered [of ?T ?en ?stale ?g ?new cid cap t] that uT le cnt cT distinct_enabled [OF wf]
    by (simp add: claim_shard_targets_eq Let_def)
qed

lemma count_owned_own_beat: "count_owned cid (own_beat cid now T) = count_owned cid T"
proof -
  have "lease_collector (if lease_collector l = cid then l\<lparr>lease_updated := now\<rparr> else l) = lease_collector l" for l
    by simp
  then show ?thesis by (simp add: count_owned_def own_beat_def table_simps)
qed

lemma adopt_count_le:
  assumes "unique_key T" "distinct en" "\<And>l. lease_updated l < stale \<Longrightarrow> g l"
    "stale \<le> lease_updated new" "lease_collector new = cid"
  shows "count_fresh_owned cid stale (adopt g new en stale (cap - count_fresh_owned cid stale T) T) \<le>
    max cap (count_fresh_owned cid stale T)"
proof (cases "0 < cap - count_fresh_owned cid stale T")
  case True
  let ?k = "cap - count_fresh_owned cid stale T"
  have "count_fresh_owned cid stale (adopt g new en stale ?k T) =
      count_fresh_owned cid stale T + int (length (claimable_ids en stale ?k T))"
    using True assms claimable_ids_subset [of _ en stale ?k T]
    by (simp add: adopt_def fresh_count_claims distinct_claimable)
  then show ?thesis using length_claimable_le [of en stale ?k T] True by linarith
qed (simp add: adopt_def)

text \<open>The dynamic pass, likewise.\<close>

lemma reconcile_shard_leases_eq:
  "reconcile_shard_leases now cid mine cap ttl db =
     (let en = get_enabled_target_ids db; stale = now - ttl;
          g = (\<lambda>l. lease_collector l = cid \<or> lease_updated l < stale);
          new = \<lparr>lease_collector = cid, lease_updated = now\<rparr>;
          T = fold (claim_upsert g new) (enabled_of en (sorted_set mine)) (sweep_leases en (shard_leases db));
          T' = adopt g new en stale (cap - count_fresh_owned cid stale T) T
      in (count_fresh_owned cid stale T', db\<lparr>shard_leases := T'\<rparr>))"
  by (simp add: reconcile_shard_leases_def adopt_def Let_def)

text \<open>What the dynamic pass leaves in the row of one target.\<close>

lemma reconcile_row:
  fixes db cid now ttl mine cap
  defines "en \<equiv> get_enabled_target_ids db" and "stale \<equiv> now - ttl"
    and "g \<equiv> (\<lambda>l. lease_collector l = cid \<or> lease_updated l < now - ttl)"
    and "new \<equiv> \<lparr>lease_collector = cid, lease_updated = now\<rparr>"
  assumes wf: "lease_wf db"
  shows "\<exists>claimed. lease_of (snd (reconcile_shard_leases now cid mine cap ttl db)) t =
      (if t \<notin> set en then None
       else if (t \<in> set mine \<or> claimed) \<and> (case lease_of db t of None \<Rightarrow> True | Some l \<Rightarrow> g l)
       then Some new else lease_of db t)"
proof -
  let ?T = "fold (claim_upsert g new) (enabled_of en (sorted_set mine)) (sweep_leases en (shard_leases db))"
  let ?k = "cap - count_fresh_owned cid stale ?T"
  have gs: "lease_updated l < stale \<Longrightarrow> g l" for l by (simp add: g_def stale_def)
  have T: "map_of ?T t = (if t \<notin> set en then None
      else if t \<in> set mine \<and> (case lease_of db t of None \<Rightarrow> True | Some l \<Rightarrow> g l) then Some new
      else lease_of db t)"
    using wf by (auto simp: map_of_fold_claim set_enabled_of lease_wf_def table_simps split: option.splits)
  have "lease_of (snd (reconcile_shard_leases now cid mine cap ttl db)) t =
      (if 0 < ?k \<and> t \<in> set (claimable_ids en stale ?k ?T) then Some new else map_of ?T t)"
    unfolding reconcile_shard_leases_eq Let_def en_def stale_def g_def new_def
    by (simp add: map_of_adopt)
  moreover have "t \<in> set en \<and> (case lease_of db t of None \<Rightarrow> True | Some l \<Rightarrow> g l)"
    if "t \<in> set (claimable_ids en stale ?k ?T)" "map_of ?T t \<noteq> Some new"
    using claimable_ids_subset [OF that(1)] that(2) gs
    by (auto simp: T unleased_def split: option.splits if_splits)
  ultimately have "lease_of (snd (reconcile_shard_leases now cid mine cap ttl db)) t =
      (if map_of ?T t \<noteq> Some new \<and> 0 < ?k \<and> t \<in> set (claimable_ids en stale ?k ?T) \<and> t \<in> set en \<and>
         (case lease_of db t of None \<Rightarrow> True | Some l \<Rightarrow> g l) then Some new else map_of ?T t)"
    by (cases "map_of ?T t = Some new") simp_all
  then show ?thesis
    by (intro exI [of _ "map_of ?T t \<noteq> Some new \<and> 0 < ?k \<and> t \<in> set (claimable_ids en stale ?k ?T)"])
      (auto simp: T)
qed

interpretation dynamic_pass:
  lease_pass "reconcile_shard_leases now cid mine cap ttl" cid cap now "now - ttl" for now cid mine cap ttl
proof
  fix db t l
  let ?en = "get_enabled_target_ids db" and ?stale = "now - ttl"
    and ?new = "\<lparr>lease_collector = cid, lease_updated = now\<rparr>"
  let ?g = "\<lambda>l. lease_collector l = cid \<or> lease_updated l < now - ttl"
  let ?T = "fold (claim_upsert ?g ?new) (enabled_of ?en (sorted_set mine))
    (sweep_leases ?en (shard_leases db))"
  let ?db' = "snd (reconcile_shard_leases now cid mine cap ttl db)"
  show "targets ?db' = targets db" "collector_slots ?db' = collector_slots db"
    "collector_stats ?db' = collector_stats db"
    by (simp_all add: reconcile_shard_leases_eq Let_def)
  show cnt: "fst (reconcile_shard_leases now cid mine cap ttl db) =
      count_fresh_owned cid ?stale (shard_leases ?db')"
    by (simp add: reconcile_shard_leases_eq Let_def)
  assume wf: "lease_wf db"
  then show "lease_wf ?db'" by (simp add: lease_wf_def reconcile_shard_leases_eq Let_def)
  obtain claimed where row: "lease_of ?db' t = (if t \<notin> set ?en then None
      else if (t \<in> set mine \<or> claimed) \<and> (case lease_of db t of None \<Rightarrow> True | Some l \<Rightarrow> ?g l)
      then Some ?new else lease_of db t)"
    using reconcile_row [OF wf] by blast
  show "t \<in> set ?en" if "lease_of ?db' t = Some l"
    using that by (auto simp: row split: if_splits)
  show "lease_of ?db' t = Some l"
    if "t \<in> set ?en" "lease_of db t = Some l" "lease_collector l \<noteq> cid" "?stale \<le> lease_updated l"
    using that by (auto simp: row)
  show "l = ?new \<or> lease_of db t = Some l" if "lease_of ?db' t = Some l"
    using that by (auto simp: row split: if_splits)
  show "lease_of ?db' t \<noteq> None" if "t \<in> set ?en" "lease_of db t = Some l"
    using that by (auto simp: row)
  have uT: "unique_key ?T" using wf by (simp add: lease_wf_def)
  assume "?stale \<le> now"
  then show "\<not> unleased ?stale (shard_leases ?db') t"
    if "fst (reconcile_shard_leases now cid mine cap ttl db) < cap" "t \<in> set ?en"
    using adopt_full_or_covered [of ?T ?en ?stale ?g ?new cid cap t] that uT cnt distinct_enabled [OF wf]
    by (simp add: reconcile_shard_leases_eq Let_def)
qed

text \<open>After a dynamic pass every enabled target of the slice is mine, or a fresh peer's.\<close>

lemma reconcile_slice:
  assumes wf: "lease_wf db" and t: "t \<in> set mine" "t \<in> enabled_targets db" and ttl: "0 \<le> ttl"
  shows "\<exists>l. lease_of (snd (reconcile_shard_leases now cid mine cap ttl db)) t = Some l \<and>
    now - ttl \<le> lease_updated l \<and>
    (l = \<lparr>lease_collector = cid, lease_updated = now\<rparr> \<or> lease_of db t = Some l)"
proof -
  obtain claimed where "lease_of (snd (reconcile_shard_leases now cid mine cap ttl db)) t =
      (if t \<notin> enabled_targets db then None
       else if (t \<in> set mine \<or> claimed) \<and>
         (case lease_of db t of None \<Rightarrow> True | Some l \<Rightarrow> lease_collector l = cid \<or> lease_updated l < now - ttl)
       then Some \<lparr>lease_collector = cid, lease_updated = now\<rparr> else lease_of db t)"
    using reconcile_row [OF wf] by blast
  with t ttl show ?thesis by (auto split: option.splits)
qed

section \<open>Slots: one ordinal per process\<close>

text \<open>The primary key and the unique \<open>token\<close> column.\<close>

definition slots_ok :: "(int, slot) db_table \<Rightarrow> bool" where
  "slots_ok S \<longleftrightarrow> unique_key S \<and>
     (\<forall>n m a b. map_of S n = Some a \<longrightarrow> map_of S m = Some b \<longrightarrow> slot_token a = slot_token b \<longrightarrow> n = m)"

lemma slots_ok_rows_where [simp]: "slots_ok S \<Longrightarrow> slots_ok (rows_where P S)"
  unfolding slots_ok_def by (auto simp: table_simps split: option.splits if_splits)

lemma slots_ok_reap [simp]: "slots_ok S \<Longrightarrow> slots_ok (reap_slots stale S)"
  by (simp add: reap_slots_def)

lemma map_of_reap [table_simps]:
  "slots_ok S \<Longrightarrow> map_of (reap_slots stale S) n =
     (case map_of S n of None \<Rightarrow> None | Some s \<Rightarrow> if slot_updated s < stale then None else Some s)"
  by (auto simp: reap_slots_def slots_ok_def table_simps split: option.split)

lemma slots_ok_update:
  assumes "slots_ok S" "\<And>m b. map_of S m = Some b \<Longrightarrow> slot_token b = slot_token s \<Longrightarrow> m = n"
  shows "slots_ok (AList.update n s S)"
  using assms unfolding slots_ok_def by (auto simp: table_simps split: if_splits)

lemma slot_of_token_Some:
  "slots_ok S \<Longrightarrow> slot_of_token token S = Some (n, s) \<longleftrightarrow> map_of S n = Some s \<and> slot_token s = token"
proof
  assume ok: "slots_ok S"
  show "map_of S n = Some s \<and> slot_token s = token" if "slot_of_token token S = Some (n, s)"
    using that ok by (auto simp: slot_of_token_def find_Some_iff slots_ok_def map_of_eq_Some_iff in_set_conv_nth)
  show "slot_of_token token S = Some (n, s)" if r: "map_of S n = Some s \<and> slot_token s = token"
  proof (cases "slot_of_token token S")
    case None
    then have "\<forall>a b. (a, b) \<in> set S \<longrightarrow> slot_token b \<noteq> token"
      by (auto simp: slot_of_token_def find_None_iff)
    with r show ?thesis using map_of_SomeD [of S n s] by force
  next
    case (Some p)
    obtain m b where p: "p = (m, b)" by (cases p)
    have "map_of S m = Some b \<and> slot_token b = token"
      using Some ok unfolding p
      by (auto simp: slot_of_token_def find_Some_iff slots_ok_def map_of_eq_Some_iff in_set_conv_nth)
    with r ok have "m = n" unfolding slots_ok_def by metis
    with Some p r \<open>map_of S m = Some b \<and> slot_token b = token\<close> show ?thesis by simp
  qed
qed

lemma slot_of_token_None:
  "slots_ok S \<Longrightarrow> slot_of_token token S = None \<longleftrightarrow> (\<forall>n s. map_of S n = Some s \<longrightarrow> slot_token s \<noteq> token)"
  by (metis slot_of_token_Some not_None_eq option.distinct(1) prod.exhaust)

lemma free_ordinal_spec:
  "free_ordinal taken n \<notin> set taken \<and> n \<le> free_ordinal taken n \<and>
   (\<forall>m. n \<le> m \<and> m < free_ordinal taken n \<longrightarrow> m \<in> set taken)"
proof (induction taken n rule: free_ordinal.induct)
  case (1 taken n)
  show ?case
  proof (cases "n \<in> set taken")
    case True
    then have eq: "free_ordinal taken n = free_ordinal taken (n + 1)" by (subst free_ordinal.simps) simp
    from 1 [OF True] True show ?thesis unfolding eq by (metis (full_types) add1_zle_eq le_less less_le_not_le)
  next
    case False
    then have "free_ordinal taken n = n" by (subst free_ordinal.simps) simp
    with False show ?thesis by auto
  qed
qed

text \<open>The row a claim leaves behind, and every other fresh row untouched.\<close>

lemma claim_collector_slot_spec:
  fixes now now2 ttl token db
  defines "S \<equiv> reap_slots (now2 - ttl) (collector_slots db)"
  defines "r \<equiv> claim_collector_slot now now2 token ttl db"
  assumes ok: "slots_ok (collector_slots db)"
  shows "slots_ok (collector_slots (snd r)) \<and>
    map_of (collector_slots (snd r)) (fst r) = Some \<lparr>slot_token = token, slot_updated = now\<rparr> \<and>
    (\<forall>m. m \<noteq> fst r \<longrightarrow> map_of (collector_slots (snd r)) m = map_of S m) \<and>
    ((\<exists>s. map_of S (fst r) = Some s \<and> slot_token s = token) \<or>
      (\<forall>m s. map_of S m = Some s \<longrightarrow> slot_token s \<noteq> token) \<and> map_of S (fst r) = None \<and> 0 \<le> fst r \<and>
        (\<forall>m. 0 \<le> m \<and> m < fst r \<longrightarrow> map_of S m \<noteq> None))"
proof -
  have okS: "slots_ok S" using ok by (simp add: S_def)
  show ?thesis
  proof (cases "slot_of_token token S")
    case None
    let ?n = "free_ordinal (map fst S) 0"
    have r: "r = (?n, db\<lparr>collector_slots := AList.update ?n \<lparr>slot_token = token, slot_updated = now\<rparr> S\<rparr>)"
      using None by (simp add: r_def claim_collector_slot_def S_def Let_def)
    have no: "\<forall>m s. map_of S m = Some s \<longrightarrow> slot_token s \<noteq> token" using None okS by (simp add: slot_of_token_None)
    have "slots_ok (AList.update ?n \<lparr>slot_token = token, slot_updated = now\<rparr> S)"
      using okS no by (intro slots_ok_update) auto
    moreover have "map_of S k = None \<longleftrightarrow> k \<notin> set (map fst S)" for k by (simp add: map_of_eq_None_iff)
    ultimately show ?thesis using free_ordinal_spec [of "map fst S" 0] no unfolding r by (simp add: table_simps)
  next
    case (Some p)
    obtain n s where p: "p = (n, s)" by (cases p)
    have ns: "map_of S n = Some s" "slot_token s = token" using Some okS by (simp_all add: p slot_of_token_Some)
    have r: "r = (n, db\<lparr>collector_slots := AList.update n (s\<lparr>slot_updated := now\<rparr>) S\<rparr>)"
      using Some p by (simp add: r_def claim_collector_slot_def S_def Let_def)
    have "slots_ok (AList.update n (s\<lparr>slot_updated := now\<rparr>) S)"
      using okS ns by (intro slots_ok_update) (auto simp: slots_ok_def)
    then show ?thesis using ns unfolding r by (simp add: table_simps)
  qed
qed

lemma renew_collector_slot_spec:
  fixes now now2 ttl token db n
  defines "S \<equiv> reap_slots (now2 - ttl) (collector_slots db)"
  assumes ok: "slots_ok (collector_slots db)"
  shows "case renew_collector_slot now now2 token n ttl db of
      Inl e \<Rightarrow> map_of S n = None \<and> (\<exists>m s. m \<noteq> n \<and> map_of S m = Some s \<and> slot_token s = token)
    | Inr (True, db') \<Rightarrow> slots_ok (collector_slots db') \<and>
        map_of (collector_slots db') n = Some \<lparr>slot_token = token, slot_updated = now\<rparr> \<and>
        (\<forall>m. m \<noteq> n \<longrightarrow> map_of (collector_slots db') m = map_of S m)
    | Inr (False, db') \<Rightarrow> slots_ok (collector_slots db') \<and>
        (\<exists>s. map_of S n = Some s \<and> slot_token s \<noteq> token) \<and> collector_slots db' = S"
proof -
  have okS: "slots_ok S" using ok by (simp add: S_def)
  show ?thesis
  proof (cases "map_of S n")
    case None
    show ?thesis
    proof (cases "slot_of_token token S")
      case None
      then have "slots_ok (AList.update n \<lparr>slot_token = token, slot_updated = now\<rparr> S)"
        using okS by (intro slots_ok_update) (auto simp: slot_of_token_None)
      then show ?thesis using None \<open>map_of S n = None\<close>
        by (simp add: renew_collector_slot_def S_def [symmetric] table_simps)
    next
      case (Some p)
      then have "map_of S (fst p) = Some (snd p) \<and> slot_token (snd p) = token"
        using okS slot_of_token_Some [of S token "fst p" "snd p"] by simp
      then show ?thesis using Some \<open>map_of S n = None\<close>
        by (auto simp: renew_collector_slot_def S_def [symmetric] intro!: exI [of _ "fst p"])
    qed
  next
    case (Some s)
    have "slots_ok (AList.update n (s\<lparr>slot_updated := now\<rparr>) S)" if "slot_token s = token"
      using okS Some that by (intro slots_ok_update) (auto simp: slots_ok_def)
    then show ?thesis using Some okS
      by (auto simp: renew_collector_slot_def S_def [symmetric] table_simps)
  qed
qed

end
