(* ===== verification/Shard_Manager.thy ===== *)
theory Shard_Manager
  imports Shard_Alloc Shard_Leases
begin

text \<open>
  \<open>collector/src/shard_manager.py\<close>, \<open>_init_sharding\<close> of \<open>collector/src/collector_main.py\<close> and
  \<open>ShardConfig\<close> of \<open>collector/src/config.py\<close>: one collector's claim pass over the shared tables,
  in both balancing modes, and the runs of a whole fleet as sequences of passes and other
  writes. Clock readings and failing database calls are arguments.
\<close>

section \<open>Configuration\<close>

datatype balance = Static | Dynamic

record shard_config =
  sc_enabled :: bool
  balance :: balance
  max_targets_per_shard :: int
  claim_interval :: duration
  lease_ttl :: duration
  membership_ttl :: duration

datatype config_error =
    NotPositive string
  | LeaseTtlBelowMargin
  | MembershipTtlBelowMargin
  | MembershipTtlAboveLease

text \<open>The \<open>gt=0\<close> field constraints, then \<open>_check_heartbeat_margin\<close>.\<close>

definition check_heartbeat_margin :: "shard_config \<Rightarrow> config_error + shard_config" where
  "check_heartbeat_margin cfg =
     (if lease_ttl cfg < 2 * claim_interval cfg then Inl LeaseTtlBelowMargin
      else if membership_ttl cfg < 2 * claim_interval cfg then Inl MembershipTtlBelowMargin
      else if lease_ttl cfg < membership_ttl cfg then Inl MembershipTtlAboveLease
      else Inr cfg)"

definition validate_shard_config :: "shard_config \<Rightarrow> config_error + shard_config" where
  "validate_shard_config cfg =
     (if max_targets_per_shard cfg \<le> 0 then Inl (NotPositive ''max_targets_per_shard'')
      else if claim_interval cfg \<le> 0 then Inl (NotPositive ''claim_interval_seconds'')
      else if lease_ttl cfg \<le> 0 then Inl (NotPositive ''lease_ttl_seconds'')
      else if membership_ttl cfg \<le> 0 then Inl (NotPositive ''membership_ttl_seconds'')
      else check_heartbeat_margin cfg)"

definition default_shard_config :: shard_config where
  "default_shard_config =
     \<lparr>sc_enabled = False, balance = Dynamic, max_targets_per_shard = 200,
      claim_interval = seconds 20, lease_ttl = seconds 75, membership_ttl = seconds 75\<rparr>"

section \<open>ShardManager\<close>

record shard_manager =
  sm_id :: collector_id
  sm_cfg :: shard_config
  sm_slot_token :: "string option"
  sm_slot_ordinal :: "int option"
  sm_owned :: int
  sm_under_provisioned :: bool

text \<open>
  What one pass reads from outside: the clock at each repository call, and whether a call
  raises (a locked or failing database).
\<close>

record pass_env =
  clk_renew :: instant
  clk_renew2 :: instant
  clk_stats :: instant
  clk_claim :: instant
  clk_claim2 :: instant
  renew_raises :: bool
  stats_raises :: bool
  ids_raises :: bool
  claim_raises :: bool

datatype pass_error =
    DatabaseError
  | TypeError
  | ProcessExit

datatype provision_log = LogUnderProvisioned int | LogRecovered

definition warn_if_under_provisioned ::
  "int \<Rightarrow> int \<Rightarrow> shard_manager \<Rightarrow> provision_log option \<times> shard_manager" where
  "warn_if_under_provisioned n_targets n_live sm =
     (let fair = ceil_div n_targets (max 1 n_live);
          cap = max_targets_per_shard (sm_cfg sm);
          under = cap < fair
      in ((if under \<and> \<not> sm_under_provisioned sm then Some (LogUnderProvisioned (n_targets - n_live * cap))
           else if \<not> under \<and> sm_under_provisioned sm then Some LogRecovered
           else None),
          sm\<lparr>sm_under_provisioned := under\<rparr>))"

text \<open>
  \<open>{r["collector_id"] for r in rows} | {self._id}\<close>: a published dictionary may override the
  id with any JSON value; a value that is not hashable raises here, and one that does not
  sort with strings raises in \<open>sorted(live)\<close>.
\<close>

definition live_set :: "json dict list \<Rightarrow> collector_id \<Rightarrow> json list option" where
  "live_set rows me =
     (let ids = map (\<lambda>r. dict_get r ''collector_id'') rows in
      if list_all json_hashable ids then Some (remdups (JStr me # map json_member ids)) else None)"

fun sorted_live :: "json list \<Rightarrow> collector_id list option" where
  "sorted_live [] = Some []"
| "sorted_live (JStr s # vs) = map_option (\<lambda>ids. sorted_set (s # ids)) (sorted_live vs)"
| "sorted_live (_ # vs) = None"

text \<open>
  Renewing the ordinal: an exception counts as still held, and only a clean \<open>False\<close> means
  the identity was lost.
\<close>

definition renew_slot :: "pass_env \<Rightarrow> shard_manager \<Rightarrow> shard_db \<Rightarrow> bool \<times> shard_db" where
  "renew_slot env sm db =
     (case (sm_slot_token sm, sm_slot_ordinal sm) of
        (Some token, Some n) \<Rightarrow>
          (if renew_raises env then (True, db)
           else case renew_collector_slot (clk_renew env) (clk_renew2 env) token n
                       (lease_ttl (sm_cfg sm)) db of
             Inl _ \<Rightarrow> (True, db)
           | Inr r \<Rightarrow> r)
      | _ \<Rightarrow> (True, db))"

definition slice_of :: "collector_id list \<Rightarrow> target_id list \<Rightarrow> int \<Rightarrow> collector_id \<Rightarrow> target_id list" where
  "slice_of live ids cap me = held (allocate ids live cap) me"

definition reconcile_dynamic ::
  "pass_env \<Rightarrow> shard_manager \<Rightarrow> shard_db
     \<Rightarrow> (pass_error + int \<times> provision_log option) \<times> shard_manager \<times> shard_db" where
  "reconcile_dynamic env sm db =
     (let cfg = sm_cfg sm; (still, db1) = renew_slot env sm db in
      if \<not> still then (Inl ProcessExit, sm, db1)
      else if stats_raises env then (Inl DatabaseError, sm, db1)
      else case live_set (get_collector_stats (clk_stats env) (membership_ttl cfg) db1) (sm_id sm) of
        None \<Rightarrow> (Inl TypeError, sm, db1)
      | Some live \<Rightarrow>
          if ids_raises env then (Inl DatabaseError, sm, db1)
          else
            (let target_ids = get_enabled_target_ids db1;
                 cap = effective_cap (int (length target_ids)) (int (length live))
                         (max_targets_per_shard cfg);
                 (lg, sm1) = warn_if_under_provisioned (int (length target_ids)) (int (length live)) sm
             in case sorted_live live of
                  None \<Rightarrow> (Inl TypeError, sm1, db1)
                | Some ids \<Rightarrow>
                    if claim_raises env then (Inl DatabaseError, sm1, db1)
                    else
                      (let (n, db2) = reconcile_shard_leases (clk_claim env) (sm_id sm)
                                        (slice_of ids target_ids cap (sm_id sm)) cap (lease_ttl cfg) db1
                       in (Inr (n, lg), sm1, db2))))"

definition claim_once ::
  "pass_env \<Rightarrow> shard_manager \<Rightarrow> shard_db
     \<Rightarrow> (pass_error + int \<times> provision_log option) \<times> shard_manager \<times> shard_db" where
  "claim_once env sm db =
     (case balance (sm_cfg sm) of
        Dynamic \<Rightarrow>
          (case reconcile_dynamic env sm db of
             (Inl e, sm1, db1) \<Rightarrow> (Inl e, sm1, db1)
           | (Inr (n, lg), sm1, db1) \<Rightarrow> (Inr (n, lg), sm1\<lparr>sm_owned := n\<rparr>, db1))
      | Static \<Rightarrow>
          (if claim_raises env then (Inl DatabaseError, sm, db)
           else
             (let (n, db1) = claim_shard_targets (clk_claim env) (clk_claim2 env) (sm_id sm)
                               (max_targets_per_shard (sm_cfg sm)) (lease_ttl (sm_cfg sm)) db
              in (Inr (n, None), sm\<lparr>sm_owned := n\<rparr>, db1))))"

text \<open>
  One iteration of \<open>run\<close>: the delay before the next iteration, \<open>None\<close> when the process
  exits. An exception skips the sleep.
\<close>

definition run_step ::
  "pass_env \<Rightarrow> shard_manager \<Rightarrow> shard_db \<Rightarrow> duration option \<times> shard_manager \<times> shard_db" where
  "run_step env sm db =
     (case claim_once env sm db of
        (Inl ProcessExit, sm1, db1) \<Rightarrow> (None, sm1, db1)
      | (Inl _, sm1, db1) \<Rightarrow> (Some 0, sm1, db1)
      | (Inr _, sm1, db1) \<Rightarrow> (Some (claim_interval (sm_cfg sm)), sm1, db1))"

text \<open>\<open>release\<close>: both calls are best effort.\<close>

definition release :: "bool \<Rightarrow> bool \<Rightarrow> shard_manager \<Rightarrow> shard_db \<Rightarrow> shard_db" where
  "release leases_raise slot_raises sm db =
     (let db1 = (if leases_raise then db else release_shard_leases (sm_id sm) db) in
      case sm_slot_token sm of
        None \<Rightarrow> db1
      | Some token \<Rightarrow> if slot_raises then db1 else release_collector_slot token db1)"

section \<open>Start-up\<close>

definition slot_collector_id :: "int \<Rightarrow> collector_id" where
  "slot_collector_id n = ''collector-'' @ py_str_int n"

text \<open>
  \<open>_init_sharding\<close>: pick the id the collector runs under (pinned, slot-claimed or the host
  name), enter the shard context, publish a membership row in dynamic mode, and make the
  first claim. \<open>pinned\<close> is the \<open>COLLECTOR_ID\<close> setting, empty when unset. The last component is
  the number of unpolled targets when the static start-up warning fires.
\<close>

record init_result =
  ir_manager :: shard_manager
  ir_id :: collector_id
  ir_context :: shard_context
  ir_unpolled :: "int option"

record init_env = pass_env +
  clk_slot :: instant
  clk_slot2 :: instant
  clk_publish :: instant
  clk_count :: instant
  publish_raises :: bool

definition init_sharding ::
  "init_env \<Rightarrow> shard_config \<Rightarrow> string \<Rightarrow> string \<Rightarrow> shard_db
     \<Rightarrow> (pass_error + init_result option) \<times> shard_db" where
  "init_sharding env cfg pinned host db =
     (if \<not> sc_enabled cfg then (Inr None, db)
      else
        (let dynamic = (balance cfg = Dynamic);
             (token, ordinal, me, db1) =
               (if pinned \<noteq> [] then (None, None, pinned, db)
                else if dynamic then
                  (let (n, db') = claim_collector_slot (clk_slot env) (clk_slot2 env) host (lease_ttl cfg) db
                   in (Some host, Some n, slot_collector_id n, db'))
                else (None, None, host, db));
             ctx = set_shard_context me (lease_ttl cfg) None;
             sm = \<lparr>sm_id = me, sm_cfg = cfg, sm_slot_token = token, sm_slot_ordinal = ordinal,
                   sm_owned = 0, sm_under_provisioned = False\<rparr>;
             db2 = (if dynamic \<and> \<not> publish_raises env
                    then upsert_collector_stats (clk_publish env) me [] 0 db1 else db1)
         in case claim_once (pass_env.truncate env) sm db2 of
              (Inl e, _, db3) \<Rightarrow> (Inl e, db3)
            | (Inr (owned, _), sm1, db3) \<Rightarrow>
                (let total = int (length (get_enabled_target_ids db3));
                     leased = count_all_shard_leases (clk_count env) (lease_ttl cfg) db3;
                     unpolled = (if \<not> dynamic \<and> max_targets_per_shard cfg \<le> owned \<and> leased < total
                                 then Some (total - leased) else None)
                 in (Inr (Some \<lparr>ir_manager = sm1, ir_id = me, ir_context = ctx, ir_unpolled = unpolled\<rparr>),
                     db3))))"

section \<open>Runs of a fleet\<close>

text \<open>
  The writes that reach the sharding tables, in any interleaving (SQLite serializes the
  transactions): claim passes of any collector, shut-downs, published statistics, slot
  operations, and edits of the target table by an operator.
\<close>

datatype fleet_event =
    StaticPass instant instant collector_id int
  | DynamicPass instant collector_id "target_id list" int
  | ReleaseLeases collector_id
  | PublishStats instant collector_id "json dict" int
  | ClaimSlot instant instant string
  | RenewSlot instant instant string int
  | ReleaseSlot string
  | EditTargets "(target_id, target_row) db_table"

fun apply_event :: "duration \<Rightarrow> fleet_event \<Rightarrow> shard_db \<Rightarrow> shard_db" where
  "apply_event ttl (StaticPass now now2 c cap) db = snd (claim_shard_targets now now2 c cap ttl db)"
| "apply_event ttl (DynamicPass now c mine cap) db = snd (reconcile_shard_leases now c mine cap ttl db)"
| "apply_event ttl (ReleaseLeases c) db = release_shard_leases c db"
| "apply_event ttl (PublishStats now c d n) db = upsert_collector_stats now c d n db"
| "apply_event ttl (ClaimSlot now now2 token) db = snd (claim_collector_slot now now2 token ttl db)"
| "apply_event ttl (RenewSlot now now2 token n) db =
     (case renew_collector_slot now now2 token n ttl db of Inl _ \<Rightarrow> db | Inr (_, db') \<Rightarrow> db')"
| "apply_event ttl (ReleaseSlot token) db = release_collector_slot token db"
| "apply_event ttl (EditTargets T) db = db\<lparr>targets := T\<rparr>"

text \<open>The latest clock reading of an event, and the stamp it writes.\<close>

fun event_clock :: "fleet_event \<Rightarrow> instant option" where
  "event_clock (StaticPass now now2 c cap) = Some (max now now2)"
| "event_clock (DynamicPass now c mine cap) = Some now"
| "event_clock (ClaimSlot now now2 token) = Some (max now now2)"
| "event_clock (RenewSlot now now2 token n) = Some (max now now2)"
| "event_clock (PublishStats now c d n) = Some now"
| "event_clock _ = None"

fun event_stamp :: "fleet_event \<Rightarrow> instant option" where
  "event_stamp (StaticPass now now2 c cap) = Some now"
| "event_stamp (DynamicPass now c mine cap) = Some now"
| "event_stamp _ = None"

fun keeps_target :: "target_id \<Rightarrow> fleet_event \<Rightarrow> bool" where
  "keeps_target t (EditTargets T) = (unique_key T \<and> (\<exists>r. map_of T t = Some r \<and> target_enabled r))"
| "keeps_target t _ = True"

fun wf_event :: "fleet_event \<Rightarrow> bool" where
  "wf_event (EditTargets T) = unique_key T"
| "wf_event _ = True"

definition run_events :: "duration \<Rightarrow> fleet_event list \<Rightarrow> shard_db \<Rightarrow> shard_db" where
  "run_events ttl evs db = fold (apply_event ttl) evs db"

definition fleet_wf :: "shard_db \<Rightarrow> bool" where
  "fleet_wf db \<longleftrightarrow> lease_wf db \<and> slots_ok (collector_slots db) \<and> unique_key (collector_stats db) \<and>
     unique_key (heatmap_snapshots db)"

section \<open>The tables stay well formed\<close>

lemma lease_wf_frame:
  "shard_leases db' = shard_leases db \<Longrightarrow> targets db' = targets db \<Longrightarrow> lease_wf db \<Longrightarrow> lease_wf db'"
  by (simp add: lease_wf_def)

lemma claim_frame [simp]:
  "heatmap_snapshots (snd (claim_shard_targets now now2 c cap ttl db)) = heatmap_snapshots db"
  by (simp add: claim_shard_targets_eq Let_def)

lemma reconcile_frame [simp]:
  "heatmap_snapshots (snd (reconcile_shard_leases now c mine cap ttl db)) = heatmap_snapshots db"
  by (simp add: reconcile_shard_leases_eq Let_def)

lemma claim_slot_frame [simp]:
  fixes now now2 token ttl db
  defines "db' \<equiv> snd (claim_collector_slot now now2 token ttl db)"
  shows "shard_leases db' = shard_leases db" "targets db' = targets db"
    "collector_stats db' = collector_stats db" "heatmap_snapshots db' = heatmap_snapshots db"
  by (simp_all add: db'_def claim_collector_slot_def Let_def split: option.split)

lemma renew_slot_frame:
  assumes "renew_collector_slot now now2 token n ttl db = Inr (b, db')"
  shows "shard_leases db' = shard_leases db" "targets db' = targets db"
    "collector_stats db' = collector_stats db" "heatmap_snapshots db' = heatmap_snapshots db"
  using assms by (auto simp: renew_collector_slot_def Let_def split: option.splits if_splits)

lemma renew_slot_ok:
  "slots_ok (collector_slots db) \<Longrightarrow> renew_collector_slot now now2 token n ttl db = Inr (b, db') \<Longrightarrow>
     slots_ok (collector_slots db')"
  using renew_collector_slot_spec [where now = now and ?now2.0 = now2 and token = token and n = n and ttl = ttl and db = db] by (cases b) auto

lemma fleet_wf_event:
  assumes "fleet_wf db" "wf_event ev"
  shows "fleet_wf (apply_event ttl ev db)"
proof (cases ev)
  case (StaticPass now now2 c cap)
  then show ?thesis using assms static_pass.keys static_pass.frame by (simp add: fleet_wf_def)
next
  case (DynamicPass now c mine cap)
  then show ?thesis using assms dynamic_pass.keys dynamic_pass.frame by (simp add: fleet_wf_def)
next
  case (ClaimSlot now now2 token)
  then show ?thesis
    using assms claim_collector_slot_spec [where now = now and ?now2.0 = now2 and token = token and ttl = ttl and db = db] by (simp add: fleet_wf_def lease_wf_def)
next
  case (RenewSlot now now2 token n)
  then show ?thesis
    using assms renew_slot_frame renew_slot_ok
    by (auto simp: fleet_wf_def lease_wf_def split: sum.split prod.split)
qed (use assms in \<open>simp_all add: fleet_wf_def lease_wf_def release_shard_leases_def
       upsert_collector_stats_def release_collector_slot_def\<close>)

lemma fleet_wf_run: "fleet_wf db \<Longrightarrow> list_all wf_event evs \<Longrightarrow> fleet_wf (run_events ttl evs db)"
  unfolding run_events_def by (rule fold_invariant) (auto simp: list_all_iff fleet_wf_event)

text \<open>Published dictionaries that do not hide the row's own id.\<close>

definition clean_stats :: "shard_db \<Rightarrow> bool" where
  "clean_stats db \<longleftrightarrow> (\<forall>(c, r) \<in> set (collector_stats db).
     case stats_data r of None \<Rightarrow> True | Some d \<Rightarrow> unique_key d \<and> ''collector_id'' \<notin> fst ` set d)"

text \<open>A small fleet for the concrete instances below: two targets, the first leased by \<open>a\<close>.\<close>

definition demo_db :: shard_db where
  "demo_db = \<lparr>targets = [(1, \<lparr>target_name = ''n1'', target_enabled = True\<rparr>),
                         (2, \<lparr>target_name = ''n2'', target_enabled = True\<rparr>)],
     shard_leases = [(1, \<lparr>lease_collector = ''a'', lease_updated = seconds 100\<rparr>)],
     collector_slots = [], collector_stats = [], heatmap_snapshots = []\<rparr>"

lemma demo_db_wf: "fleet_wf demo_db" "lease_wf demo_db" "clean_stats demo_db"
  "get_enabled_target_ids demo_db = [1, 2]"
  by (simp_all add: fleet_wf_def lease_wf_def slots_ok_def demo_db_def clean_stats_def
      get_enabled_target_ids_def rows_where_def)

section \<open>Leases are exclusive while they are fresh\<close>

definition holds_lease :: "collector_id \<Rightarrow> instant \<Rightarrow> target_id \<Rightarrow> shard_db \<Rightarrow> bool" where
  "holds_lease c \<tau> t db \<longleftrightarrow>
     (\<exists>l. lease_of db t = Some l \<and> lease_collector l = c \<and> \<tau> \<le> lease_updated l)"

text \<open>The events that cannot end \<open>c\<close>'s hold on \<open>t\<close>, dated from \<open>\<tau>\<close>.\<close>

definition harmless :: "duration \<Rightarrow> collector_id \<Rightarrow> instant \<Rightarrow> target_id \<Rightarrow> fleet_event \<Rightarrow> bool" where
  "harmless ttl c \<tau> t ev \<longleftrightarrow> keeps_target t ev \<and> ev \<noteq> ReleaseLeases c \<and>
     (case event_clock ev of None \<Rightarrow> True | Some now \<Rightarrow> now \<le> \<tau> + ttl) \<and>
     (case event_stamp ev of None \<Rightarrow> True | Some stamp \<Rightarrow> \<tau> \<le> stamp)"

lemma enabled_targets_iff:
  "lease_wf db \<Longrightarrow> t \<in> enabled_targets db \<longleftrightarrow> (\<exists>r. map_of (targets db) t = Some r \<and> target_enabled r)"
  by (force simp: lease_wf_def get_enabled_target_ids_def set_rows_where map_of_eq_Some_iff)

lemma enabled_targets_frame: "targets db' = targets db \<Longrightarrow> enabled_targets db' = enabled_targets db"
  by (simp add: get_enabled_target_ids_def)

lemma keeps_target_wf: "keeps_target t ev \<Longrightarrow> wf_event ev"
  by (cases ev) auto

lemma targets_event:
  "targets (apply_event ttl ev db) = (case ev of EditTargets T \<Rightarrow> T | _ \<Rightarrow> targets db)"
  using renew_slot_frame(2)
  by (cases ev) (auto simp: static_pass.frame dynamic_pass.frame release_shard_leases_def
      upsert_collector_stats_def release_collector_slot_def split: sum.split)

lemma keeps_target_enabled:
  assumes "fleet_wf db" "keeps_target t ev" "t \<in> enabled_targets db"
  shows "t \<in> enabled_targets (apply_event ttl ev db)"
  using assms fleet_wf_event [OF assms(1) keeps_target_wf [OF assms(2)], of ttl]
  by (cases ev) (simp_all add: enabled_targets_iff fleet_wf_def targets_event del: apply_event.simps)

lemma holds_lease_event:
  assumes wf: "fleet_wf db" and ev: "harmless ttl c \<tau> t ev" and t: "t \<in> enabled_targets db"
    and h: "holds_lease c \<tau> t db"
  shows "holds_lease c \<tau> t (apply_event ttl ev db)"
proof -
  obtain l where l: "lease_of db t = Some l" "lease_collector l = c" "\<tau> \<le> lease_updated l"
    using h by (auto simp: holds_lease_def)
  have lwf: "lease_wf db" using wf by (simp add: fleet_wf_def)
  show ?thesis
  proof (cases ev)
    case (StaticPass now now2 d cap)
    then show ?thesis
      using static_pass.survives [OF lwf t l(1), of now2 ttl \<tau> now d cap] l ev
      by (auto simp: holds_lease_def harmless_def)
  next
    case (DynamicPass now d mine cap)
    then show ?thesis
      using dynamic_pass.survives [OF lwf t l(1), of now ttl \<tau> d mine cap] l ev
      by (auto simp: holds_lease_def harmless_def)
  next
    case (ReleaseLeases d)
    then show ?thesis using l ev lwf
      by (auto simp: holds_lease_def harmless_def release_shard_leases_def lease_wf_def table_simps)
  next
    case (RenewSlot now now2 token n)
    then show ?thesis using h renew_slot_frame
      by (auto split: sum.split simp: holds_lease_def)
  qed (use h in \<open>simp_all add: holds_lease_def upsert_collector_stats_def release_collector_slot_def\<close>)
qed

lemma holds_lease_run:
  assumes "fleet_wf db" "list_all (harmless ttl c \<tau> t) evs" "t \<in> enabled_targets db" "holds_lease c \<tau> t db"
  shows "holds_lease c \<tau> t (run_events ttl evs db)"
proof -
  have "fleet_wf (run_events ttl evs db) \<and> t \<in> enabled_targets (run_events ttl evs db) \<and>
      holds_lease c \<tau> t (run_events ttl evs db)"
    unfolding run_events_def
  proof (rule fold_invariant [where I = "\<lambda>db. fleet_wf db \<and> t \<in> enabled_targets db \<and> holds_lease c \<tau> t db"])
    fix ev s assume ev: "ev \<in> set evs" and s: "fleet_wf s \<and> t \<in> enabled_targets s \<and> holds_lease c \<tau> t s"
    have h: "harmless ttl c \<tau> t ev" using assms(2) ev by (simp add: list_all_iff)
    then have "keeps_target t ev" by (simp add: harmless_def)
    then show "fleet_wf (apply_event ttl ev s) \<and> t \<in> enabled_targets (apply_event ttl ev s) \<and>
        holds_lease c \<tau> t (apply_event ttl ev s)"
      using s h fleet_wf_event keeps_target_wf keeps_target_enabled holds_lease_event by blast
  qed (use assms in simp)
  then show ?thesis by simp
qed

text \<open>
  (C3) Exclusive ownership: once a collector holds a lease, no interleaving of passes,
  publications, slot operations and target edits by the rest of the fleet takes the target
  from it while the clocks stay within one TTL of its heartbeat and the target stays enabled;
  only the owner's own release does.
\<close>

theorem lease_exclusive:
  assumes "fleet_wf db" and "t \<in> enabled_targets db" and "lease_of db t = Some l"
    and "list_all (harmless ttl (lease_collector l) (lease_updated l) t) evs"
  shows "\<exists>l'. lease_of (run_events ttl evs db) t = Some l' \<and>
    lease_collector l' = lease_collector l \<and> lease_updated l \<le> lease_updated l'"
proof -
  have "holds_lease (lease_collector l) (lease_updated l) t db"
    using assms(3) by (simp add: holds_lease_def)
  from holds_lease_run [OF assms(1, 4, 2) this] show ?thesis by (auto simp: holds_lease_def)
qed

theorem lease_exclusive_witness:
  "\<exists>l'. lease_of (run_events (seconds 75) [DynamicPass (seconds 110) ''b'' [1] 5, ReleaseLeases ''c'',
          StaticPass (seconds 170) (seconds 171) ''b'' 9] demo_db) 1 = Some l' \<and>
     lease_collector l' = lease_collector \<lparr>lease_collector = ''a'', lease_updated = seconds 100\<rparr> \<and>
     lease_updated \<lparr>lease_collector = ''a'', lease_updated = seconds 100\<rparr> \<le> lease_updated l'"
  by (rule lease_exclusive) (simp_all add: demo_db_wf, simp_all add: demo_db_def harmless_def)

section \<open>A round of passes covers the fleet\<close>

definition fresh_members :: "instant \<Rightarrow> duration \<Rightarrow> shard_db \<Rightarrow> collector_id set" where
  "fresh_members now max_age db = fst ` {(c, r) \<in> set (collector_stats db). now - max_age \<le> stats_updated r}"

lemma stats_view_id:
  assumes "clean_stats db" "(c, r) \<in> set (collector_stats db)"
  shows "dict_get (stats_view c r) ''collector_id'' = JStr c"
  using assms by (auto simp: clean_stats_def stats_view_def dict_get_update split: option.splits)

lemma collector_stats_ids:
  assumes "clean_stats db"
  shows "map (\<lambda>r. dict_get r ''collector_id'') (get_collector_stats now age db) =
    map (\<lambda>(c, r). JStr c) (rows_where (\<lambda>_ r. now - age \<le> stats_updated r) (collector_stats db))"
  using stats_view_id [OF assms] by (auto simp: get_collector_stats_def rows_where_def)

lemma sorted_live_strs: "sorted_live (map JStr xs) = Some (sorted_set xs)"
proof (induction xs)
  case (Cons x xs)
  have "sorted_set (x # sorted_set xs) = sorted_set (x # xs)" by (rule sorted_set_cong) simp
  with Cons show ?case by simp
qed (simp add: sorted_set_def)

lemma live_set_clean:
  assumes "clean_stats db"
  shows "\<exists>xs. live_set (get_collector_stats now age db) me = Some (map JStr xs) \<and> distinct xs \<and>
    set xs = insert me (fresh_members now age db)"
proof -
  let ?rows = "rows_where (\<lambda>_ r. now - age \<le> stats_updated r) (collector_stats db)"
  have "live_set (get_collector_stats now age db) me = Some (remdups (JStr me # map (JStr \<circ> fst) ?rows))"
    by (simp add: live_set_def Let_def collector_stats_ids [OF assms] list_all_iff comp_def case_prod_beta
        del: remdups.simps)
  also have "JStr me # map (JStr \<circ> fst) ?rows = map JStr (me # map fst ?rows)" by simp
  also have "remdups (map JStr (me # map fst ?rows)) = map JStr (remdups (me # map fst ?rows))"
    by (rule remdups_map_remdups [of JStr, symmetric, THEN trans]) (simp add: distinct_map inj_on_def distinct_remdups_id)
  finally show ?thesis
    by (intro exI [of _ "remdups (me # map fst ?rows)"])
      (auto simp: fresh_members_def set_rows_where)
qed

lemma renew_slot_keeps:
  assumes "renew_slot env sm db = (b, db1)"
  shows "shard_leases db1 = shard_leases db" "targets db1 = targets db" "collector_stats db1 = collector_stats db"
  using assms renew_slot_frame
  by (auto simp: renew_slot_def split: option.splits if_splits sum.splits prod.splits)

text \<open>What a successful dynamic pass did.\<close>

lemma claim_once_dynamic:
  assumes dyn: "balance (sm_cfg sm) = Dynamic" and ok: "claim_once env sm db = (Inr r, sm', db')"
    and clean: "clean_stats db"
  obtains db1 where "shard_leases db1 = shard_leases db" "targets db1 = targets db"
    "collector_stats db1 = collector_stats db"
    "let live = insert (sm_id sm) (fresh_members (clk_stats env) (membership_ttl (sm_cfg sm)) db);
         ids = get_enabled_target_ids db;
         cap = effective_cap (int (length ids)) (int (card live)) (max_targets_per_shard (sm_cfg sm))
     in db' = snd (reconcile_shard_leases (clk_claim env) (sm_id sm)
              (slice_of (sorted_list_of_set live) ids cap (sm_id sm)) cap (lease_ttl (sm_cfg sm)) db1)"
proof -
  let ?cfg = "sm_cfg sm"
  obtain b db1 where renew': "renew_slot env sm db = (b, db1)" by fastforce
  then have b using ok dyn by (cases b) (simp_all add: claim_once_def reconcile_dynamic_def)
  with renew' have renew: "renew_slot env sm db = (True, db1)" by simp
  note keep = renew_slot_keeps [OF renew]
  have clean1: "clean_stats db1" using clean keep by (simp add: clean_stats_def)
  obtain xs where xs: "live_set (get_collector_stats (clk_stats env) (membership_ttl ?cfg) db1) (sm_id sm)
      = Some (map JStr xs)" "distinct xs"
      "set xs = insert (sm_id sm) (fresh_members (clk_stats env) (membership_ttl ?cfg) db1)"
    using live_set_clean [OF clean1] by blast
  have same: "fresh_members (clk_stats env) (membership_ttl ?cfg) db1 =
      fresh_members (clk_stats env) (membership_ttl ?cfg) db" "get_enabled_target_ids db1 = get_enabled_target_ids db"
    using keep by (simp_all add: fresh_members_def get_enabled_target_ids_def)
  have len: "length xs = card (set xs)" using xs(2) by (simp add: distinct_card)
  have srt: "sorted_set xs = sorted_list_of_set (set xs)"
    by (simp add: sorted_set_def sorted_list_of_set_sort_remdups)
  show thesis
    using that [OF keep] ok dyn renew xs same
    by (auto simp: claim_once_def reconcile_dynamic_def Let_def sorted_live_strs len srt
        split: if_splits prod.splits)
qed

text \<open>A round: some collectors run one pass each, in any order; \<open>None\<close> when a pass fails.\<close>

fun run_round :: "(pass_env \<times> shard_manager) list \<Rightarrow> shard_db \<Rightarrow> shard_db option" where
  "run_round [] db = Some db"
| "run_round ((env, sm) # ps) db =
     (case claim_once env sm db of (Inl _, _) \<Rightarrow> None | (Inr _, _, db') \<Rightarrow> run_round ps db')"

text \<open>Every participant sees the membership \<open>C\<close>, shares the limits, and claims after \<open>T0\<close>.\<close>

definition participant ::
  "collector_id set \<Rightarrow> int \<Rightarrow> duration \<Rightarrow> instant \<Rightarrow> shard_db \<Rightarrow> pass_env \<times> shard_manager \<Rightarrow> bool" where
  "participant C max_targets ttl T0 db = (\<lambda>(env, sm).
     balance (sm_cfg sm) = Dynamic \<and> max_targets_per_shard (sm_cfg sm) = max_targets \<and>
     lease_ttl (sm_cfg sm) = ttl \<and> T0 \<le> clk_claim env \<and>
     insert (sm_id sm) (fresh_members (clk_stats env) (membership_ttl (sm_cfg sm)) db) = C)"

definition leased_since :: "instant \<Rightarrow> target_id \<Rightarrow> shard_db \<Rightarrow> bool" where
  "leased_since \<tau> t db \<longleftrightarrow> (\<exists>l. lease_of db t = Some l \<and> \<tau> \<le> lease_updated l)"

lemma participant_pass:
  assumes p: "participant C maxp ttl T0 db (env, sm)" and ok: "claim_once env sm db = (Inr r, sm', db')"
    and wf: "lease_wf db" "clean_stats db" and ttl: "0 \<le> ttl" and t: "t \<in> enabled_targets db"
  shows "targets db' = targets db \<and> collector_stats db' = collector_stats db \<and> lease_wf db' \<and>
    (leased_since (T0 - ttl) t db \<longrightarrow> leased_since (T0 - ttl) t db') \<and>
    (t \<in> set (held (allocate (get_enabled_target_ids db) (sorted_list_of_set C)
        (effective_cap (int (card (enabled_targets db))) (int (card C)) maxp)) (sm_id sm)) \<longrightarrow>
      leased_since (T0 - ttl) t db')"
proof -
  let ?ids = "get_enabled_target_ids db"
  let ?cap = "effective_cap (int (card (set ?ids))) (int (card C)) maxp"
  have len: "length ?ids = card (set ?ids)" using distinct_enabled [OF wf(1)] by (simp add: distinct_card)
  have dyn: "balance (sm_cfg sm) = Dynamic" "T0 \<le> clk_claim env" using p by (simp_all add: participant_def)
  obtain db1 where db1: "shard_leases db1 = shard_leases db" "targets db1 = targets db"
      "collector_stats db1 = collector_stats db"
    and out: "db' = snd (reconcile_shard_leases (clk_claim env) (sm_id sm)
        (slice_of (sorted_list_of_set C) ?ids ?cap (sm_id sm)) ?cap ttl db1)"
    using claim_once_dynamic [OF dyn(1) ok wf(2)] p len by (auto simp: participant_def Let_def)
  have wf1: "lease_wf db1" using wf(1) db1 by (simp add: lease_wf_def)
  have t1: "t \<in> enabled_targets db1" using t db1 by (simp add: get_enabled_target_ids_def)
  have "leased_since (T0 - ttl) t db'" if before: "leased_since (T0 - ttl) t db"
  proof -
    obtain l where l: "lease_of db1 t = Some l" "T0 - ttl \<le> lease_updated l"
      using before db1 by (auto simp: leased_since_def)
    obtain l' where l': "lease_of db' t = Some l'"
      using dynamic_pass.kept [OF wf1 t1 l(1)] unfolding out by blast
    then have "T0 - ttl \<le> lease_updated l'"
      using dynamic_pass.origin [OF wf1 l' [unfolded out]] l dyn(2) ttl by auto
    with l' show ?thesis by (simp add: leased_since_def)
  qed
  moreover have "leased_since (T0 - ttl) t db'"
    if "t \<in> set (slice_of (sorted_list_of_set C) ?ids ?cap (sm_id sm))"
    using reconcile_slice [OF wf1 that t1 ttl, of "clk_claim env" "sm_id sm" ?cap] dyn(2)
    unfolding out leased_since_def by fastforce
  ultimately show ?thesis
    using db1 dynamic_pass.frame dynamic_pass.keys [OF wf1] by (auto simp: out slice_of_def)
qed

lemma round_keeps:
  assumes "run_round ps db = Some db'" "list_all (participant C maxp ttl T0 db) ps"
    "lease_wf db" "clean_stats db" "0 \<le> ttl" "t \<in> enabled_targets db"
    and "leased_since (T0 - ttl) t db \<or> (\<exists>(env, sm) \<in> set ps.
      t \<in> set (held (allocate (get_enabled_target_ids db) (sorted_list_of_set C)
        (effective_cap (int (card (enabled_targets db))) (int (card C)) maxp)) (sm_id sm)))"
  shows "leased_since (T0 - ttl) t db'"
  using assms
proof (induction ps arbitrary: db)
  case Nil
  then show ?case by simp
next
  case (Cons p ps)
  obtain env sm where p: "p = (env, sm)" by (cases p)
  obtain r sm' db1 where ok: "claim_once env sm db = (Inr r, sm', db1)" and rest: "run_round ps db1 = Some db'"
    using Cons.prems(1) unfolding p by (auto split: sum.splits prod.splits)
  have part: "participant C maxp ttl T0 db (env, sm)" using Cons.prems(2) by (simp add: p)
  note step = participant_pass [OF part ok Cons.prems(3-6)]
  have same: "get_enabled_target_ids db1 = get_enabled_target_ids db" "clean_stats db1"
    "participant C maxp ttl T0 db1 = participant C maxp ttl T0 db"
    using step Cons.prems(4)
    by (simp_all add: get_enabled_target_ids_def clean_stats_def participant_def fresh_members_def)
  show ?case
  proof (rule Cons.IH [OF rest])
    show "leased_since (T0 - ttl) t db1 \<or> (\<exists>(env, sm) \<in> set ps.
      t \<in> set (held (allocate (get_enabled_target_ids db1) (sorted_list_of_set C)
        (effective_cap (int (card (enabled_targets db1))) (int (card C)) maxp)) (sm_id sm)))"
      using step Cons.prems(7) unfolding same(1) p by auto
  qed (use step same Cons.prems in auto)
qed

text \<open>
  (C4) Fleet coverage: when every collector of the membership \<open>C\<close> completes one dynamic pass
  (in any order, interleaved clocks) and the fleet fits \<open>C x max_targets_per_shard\<close>, every
  enabled target ends up leased, by a lease that was written in the round or was still fresh
  when the round began at \<open>T0\<close>.
\<close>

theorem dynamic_round_covers:
  assumes "lease_wf db" and "clean_stats db" and "0 \<le> ttl"
    and "list_all (participant C maxp ttl T0 db) ps" and "C = sm_id ` snd ` set ps" and "ps \<noteq> []"
    and "run_round ps db = Some db'"
    and "int (card (enabled_targets db)) \<le> maxp * int (card C)" and "t \<in> enabled_targets db"
  shows "\<exists>l. lease_of db' t = Some l \<and> T0 - ttl \<le> lease_updated l"
proof -
  have C: "finite C" "C \<noteq> {}" using assms(5, 6) by auto
  then have "sorted_list_of_set C \<noteq> []" by simp
  from effective_cap_owner [OF this, of "get_enabled_target_ids db" maxp t] C assms(8, 9)
  obtain c where "c \<in> C" "t \<in> set (held (allocate (get_enabled_target_ids db) (sorted_list_of_set C)
        (effective_cap (int (card (enabled_targets db))) (int (card C)) maxp)) c)"
    by auto
  then have "\<exists>(env, sm) \<in> set ps.
      t \<in> set (held (allocate (get_enabled_target_ids db) (sorted_list_of_set C)
        (effective_cap (int (card (enabled_targets db))) (int (card C)) maxp)) (sm_id sm))"
    unfolding assms(5) by force
  with round_keeps [OF assms(7, 4, 1, 2, 3, 9)] show ?thesis by (simp add: leased_since_def)
qed

definition demo_pass :: "pass_env \<times> shard_manager" where
  "demo_pass =
     (\<lparr>clk_renew = seconds 120, clk_renew2 = seconds 120, clk_stats = seconds 120, clk_claim = seconds 121,
       clk_claim2 = seconds 121, renew_raises = False, stats_raises = False, ids_raises = False,
       claim_raises = False\<rparr>,
      \<lparr>sm_id = ''b'', sm_cfg = default_shard_config, sm_slot_token = None, sm_slot_ordinal = None,
       sm_owned = 0, sm_under_provisioned = False\<rparr>)"

theorem dynamic_round_covers_witness:
  "\<exists>db'. run_round [demo_pass] demo_db = Some db' \<and>
     (\<exists>l. lease_of db' 2 = Some l \<and> seconds 120 - seconds 75 \<le> lease_updated l)"
proof -
  have "run_round [demo_pass] demo_db \<noteq> None"
    by (simp add: demo_pass_def claim_once_def reconcile_dynamic_def renew_slot_def default_shard_config_def
        get_collector_stats_def rows_where_def live_set_def Let_def demo_db_def split: prod.split)
  then obtain db' where db': "run_round [demo_pass] demo_db = Some db'" by blast
  have "\<exists>l. lease_of db' 2 = Some l \<and> seconds 120 - seconds 75 \<le> lease_updated l"
    by (rule dynamic_round_covers [where db = demo_db and C = "{''b''}" and maxp = 200 and ps = "[demo_pass]"])
      (simp_all add: demo_db_wf db', simp_all add: demo_pass_def participant_def default_shard_config_def
        fresh_members_def demo_db_def)
  with db' show ?thesis by blast
qed

section \<open>Slots are exclusive while they are fresh\<close>

definition holds_slot :: "string \<Rightarrow> instant \<Rightarrow> int \<Rightarrow> shard_db \<Rightarrow> bool" where
  "holds_slot token \<tau> n db \<longleftrightarrow>
     (\<exists>s. map_of (collector_slots db) n = Some s \<and> slot_token s = token \<and> \<tau> \<le> slot_updated s)"

fun slot_harmless :: "duration \<Rightarrow> string \<Rightarrow> instant \<Rightarrow> fleet_event \<Rightarrow> bool" where
  "slot_harmless ttl token \<tau> (ClaimSlot now now2 _) = (\<tau> \<le> now \<and> now2 \<le> \<tau> + ttl)"
| "slot_harmless ttl token \<tau> (RenewSlot now now2 _ _) = (\<tau> \<le> now \<and> now2 \<le> \<tau> + ttl)"
| "slot_harmless ttl token \<tau> (ReleaseSlot tk) = (tk \<noteq> token)"
| "slot_harmless ttl token \<tau> ev = wf_event ev"

lemma slot_harmless_wf: "slot_harmless ttl token \<tau> ev \<Longrightarrow> wf_event ev"
  by (cases ev) auto

lemma holds_slot_reaped:
  assumes "slots_ok (collector_slots db)" "holds_slot token \<tau> n db" "now2 \<le> \<tau> + ttl"
  shows "\<exists>s. map_of (reap_slots (now2 - ttl) (collector_slots db)) n = Some s \<and> slot_token s = token \<and>
    \<tau> \<le> slot_updated s"
  using assms by (auto simp: holds_slot_def table_simps)

lemma holds_slot_claim:
  assumes ok: "slots_ok (collector_slots db)" and h: "holds_slot token \<tau> n db" and le: "now2 \<le> \<tau> + ttl"
  shows "fst (claim_collector_slot now now2 tk ttl db) = n \<longleftrightarrow> tk = token"
    and "\<tau> \<le> now \<Longrightarrow> holds_slot token \<tau> n (snd (claim_collector_slot now now2 tk ttl db))"
proof -
  let ?S = "reap_slots (now2 - ttl) (collector_slots db)"
  obtain s where s: "map_of ?S n = Some s" "slot_token s = token" "\<tau> \<le> slot_updated s"
    using holds_slot_reaped [OF ok h le] by blast
  have okS: "slots_ok ?S" using ok by simp
  note spec = claim_collector_slot_spec [where now = now and ?now2.0 = now2 and token = tk and ttl = ttl and db = db, OF ok]
  show iff: "fst (claim_collector_slot now now2 tk ttl db) = n \<longleftrightarrow> tk = token"
    using spec s okS unfolding slots_ok_def by (metis option.distinct(1) option.inject)
  show "holds_slot token \<tau> n (snd (claim_collector_slot now now2 tk ttl db))" if "\<tau> \<le> now"
    using spec s that iff
    by (cases "fst (claim_collector_slot now now2 tk ttl db) = n") (auto simp: holds_slot_def)
qed

lemma holds_slot_renew:
  assumes ok: "slots_ok (collector_slots db)" and h: "holds_slot token \<tau> n db" and le: "now2 \<le> \<tau> + ttl"
    and now: "\<tau> \<le> now" and r: "renew_collector_slot now now2 tk m ttl db = Inr (b, db')"
  shows "holds_slot token \<tau> n db'"
proof -
  obtain s where s: "map_of (reap_slots (now2 - ttl) (collector_slots db)) n = Some s"
      "slot_token s = token" "\<tau> \<le> slot_updated s"
    using holds_slot_reaped [OF ok h le] by blast
  then show ?thesis
    using r now by (auto simp: renew_collector_slot_def Let_def holds_slot_def table_simps split: option.splits if_splits)
qed

lemma holds_slot_event:
  assumes wf: "fleet_wf db" and ev: "slot_harmless ttl token \<tau> ev" and h: "holds_slot token \<tau> n db"
  shows "holds_slot token \<tau> n (apply_event ttl ev db)"
proof -
  have ok: "slots_ok (collector_slots db)" using wf by (simp add: fleet_wf_def)
  show ?thesis
  proof (cases ev)
    case (ClaimSlot now now2 tk)
    then show ?thesis using holds_slot_claim(2) [OF ok h] ev by simp
  next
    case (RenewSlot now now2 tk m)
    then show ?thesis using holds_slot_renew [OF ok h] ev h by (auto split: sum.split)
  next
    case (ReleaseSlot tk)
    then show ?thesis using ev h ok
      by (auto simp: holds_slot_def release_collector_slot_def slots_ok_def table_simps)
  qed (use h in \<open>simp_all add: holds_slot_def static_pass.frame dynamic_pass.frame release_shard_leases_def
         upsert_collector_stats_def\<close>)
qed

lemma holds_slot_run:
  assumes "fleet_wf db" "list_all (slot_harmless ttl token \<tau>) evs" "holds_slot token \<tau> n db"
  shows "fleet_wf (run_events ttl evs db) \<and> holds_slot token \<tau> n (run_events ttl evs db)"
  unfolding run_events_def
  by (rule fold_invariant)
    (use assms in \<open>auto simp: list_all_iff intro: fleet_wf_event slot_harmless_wf holds_slot_event\<close>)

lemma slot_collector_id_inject: "slot_collector_id m = slot_collector_id n \<longleftrightarrow> m = n"
  by (simp add: slot_collector_id_def)

text \<open>
  (C5) Stable identities: a process that claimed an ordinal keeps it through any interleaving
  within one TTL of its heartbeat that does not release its slot, and another process that
  claims a slot in the meantime gets another ordinal, hence another collector id.
\<close>

theorem slot_exclusive:
  assumes "fleet_wf db" and "claim_collector_slot now now2 a ttl db = (n, db1)"
    and "list_all (slot_harmless ttl a now) evs" and "a \<noteq> b" and "then2 \<le> now + ttl"
  shows "holds_slot a now n (run_events ttl evs db1) \<and>
    slot_collector_id (fst (claim_collector_slot then1 then2 b ttl (run_events ttl evs db1))) \<noteq>
      slot_collector_id n"
proof -
  have "fleet_wf (apply_event ttl (ClaimSlot now now2 a) db)" using assms(1) by (rule fleet_wf_event) simp
  then have wf1: "fleet_wf db1" using assms(2) by simp
  have "holds_slot a now n db1"
    using claim_collector_slot_spec [where now = now and ?now2.0 = now2 and token = a and ttl = ttl and db = db]
      assms(1, 2) by (simp add: fleet_wf_def holds_slot_def)
  from holds_slot_run [OF wf1 assms(3) this]
  have run: "fleet_wf (run_events ttl evs db1)" "holds_slot a now n (run_events ttl evs db1)" by simp_all
  then show ?thesis
    using holds_slot_claim(1) [OF _ run(2) assms(5), of then1 b] assms(4)
    by (simp add: slot_collector_id_inject fleet_wf_def)
qed

theorem slot_exclusive_witness:
  "holds_slot ''host-a'' (seconds 5) 0 (run_events (seconds 75) [ReleaseSlot ''host-c'']
      (demo_db\<lparr>collector_slots := [(0, \<lparr>slot_token = ''host-a'', slot_updated = seconds 5\<rparr>)]\<rparr>)) \<and>
   slot_collector_id (fst (claim_collector_slot (seconds 70) (seconds 80) ''host-b'' (seconds 75)
      (run_events (seconds 75) [ReleaseSlot ''host-c'']
        (demo_db\<lparr>collector_slots := [(0, \<lparr>slot_token = ''host-a'', slot_updated = seconds 5\<rparr>)]\<rparr>))))
     \<noteq> slot_collector_id 0"
proof (rule slot_exclusive [where db = demo_db and ?now2.0 = "seconds 5" and now = "seconds 5" and a = "''host-a''"])
  show "claim_collector_slot (seconds 5) (seconds 5) ''host-a'' (seconds 75) demo_db =
      (0, demo_db\<lparr>collector_slots := [(0, \<lparr>slot_token = ''host-a'', slot_updated = seconds 5\<rparr>)]\<rparr>)"
    by (simp add: claim_collector_slot_def demo_db_def reap_slots_def rows_where_def slot_of_token_def
        free_ordinal.simps)
qed (simp_all add: demo_db_wf)

section \<open>Capacity of a pass\<close>

lemma static_pass_le_cap:
  assumes wf: "lease_wf db" and le: "now2 - ttl \<le> now"
  shows "fst (claim_shard_targets now now2 cid cap ttl db) \<le>
    max cap (count_owned cid (sweep_leases (get_enabled_target_ids db) (shard_leases db)))"
proof -
  let ?stale = "now2 - ttl" and ?en = "get_enabled_target_ids db"
  let ?T = "own_beat cid now (sweep_leases ?en (shard_leases db))"
  have uT: "unique_key ?T" using wf by (simp add: lease_wf_def)
  have "count_owned cid ?T = count_fresh_owned cid ?stale ?T"
  proof (rule count_owned_fresh [OF _ uT])
    show "?stale \<le> lease_updated l" if "map_of ?T t = Some l" "lease_collector l = cid" for t l
      using that le by (cases l) (auto simp: map_of_own_beat split: if_splits)
  qed
  then show ?thesis
    using static_pass.counted [OF wf le, of cid cap] count_owned_own_beat [of cid now]
      adopt_count_le [OF uT distinct_enabled [OF wf], of ?stale "\<lambda>l. lease_updated l < ?stale"
        "\<lparr>lease_collector = cid, lease_updated = now\<rparr>" cid cap] le
    by (simp add: claim_shard_targets_eq Let_def)
qed

text \<open>
  Capacity of the static pass: it never takes a collector above its cap (leases it
  already held are kept), and it stops below the cap only when every enabled target has an
  owner whose heartbeat is not stale.
\<close>

lemma static_pass_capacity:
  assumes "lease_wf db" and "now2 - ttl \<le> now"
  shows "fst (claim_shard_targets now now2 cid cap ttl db) \<le>
      max cap (count_owned cid (sweep_leases (get_enabled_target_ids db) (shard_leases db))) \<and>
    (cap \<le> fst (claim_shard_targets now now2 cid cap ttl db) \<or>
      (\<forall>t \<in> enabled_targets db. \<exists>l. lease_of (snd (claim_shard_targets now now2 cid cap ttl db)) t = Some l \<and>
         now2 - ttl \<le> lease_updated l))"
  using static_pass_le_cap [OF assms] static_pass.full_or_covered [OF assms] by simp

lemma static_pass_capacity_witness:
  "fst (claim_shard_targets (seconds 110) (seconds 110) ''b'' 5 (seconds 75) demo_db) \<le>
      max 5 (count_owned ''b'' (sweep_leases (get_enabled_target_ids demo_db) (shard_leases demo_db))) \<and>
    (5 \<le> fst (claim_shard_targets (seconds 110) (seconds 110) ''b'' 5 (seconds 75) demo_db) \<or>
      (\<exists>l. lease_of (snd (claim_shard_targets (seconds 110) (seconds 110) ''b'' 5 (seconds 75) demo_db)) 2 = Some l \<and>
         seconds 110 - seconds 75 \<le> lease_updated l))"
proof -
  have "2 \<in> enabled_targets demo_db" by (simp add: demo_db_wf)
  then show ?thesis
    using static_pass_capacity [OF demo_db_wf(2), of "seconds 110" "seconds 75" "seconds 110" "''b''" 5]
    by fastforce
qed

end
