(* ===== verification/Amd_Cper.thy ===== *)
theory Amd_Cper
  imports Sha256
begin

unbundle bit_operations_syntax

text \<open>
  \<open>collector/src/redfish/amd_cper_sections.py\<close>: decoding of the AMD vendor sections of a CPER
  record. Registers are Python integers (\<open>int\<close>), section bodies are byte lists; a decoded
  dictionary with fixed keys is a record, the dictionary of named registers an association
  list. Texts are UTF-8 bytes.
\<close>

section \<open>Constants\<close>

definition AMD_CRASHDUMP :: string where
  "AMD_CRASHDUMP = ''32ac0c78-2623-48f6-b0d0-7365725fd6ae''"

definition AMD_GPU_NONSTANDARD_ERROR :: string where
  "AMD_GPU_NONSTANDARD_ERROR = ''32ac0c78-2623-48f6-81a2-ac691780551d''"

definition HDR_LEN :: nat where "HDR_LEN = 128"

definition BOOT_LEN :: nat where "BOOT_LEN = 208"

definition FATAL_LEN :: nat where "FATAL_LEN = 176"

definition NONSTD_LEN :: nat where "NONSTD_LEN = 272"

definition FW_ID_OFF :: nat where "FW_ID_OFF = 16"

definition FW_ID_LEN :: nat where "FW_ID_LEN = 48"

definition CPER_ACA_REG_COUNT :: nat where "CPER_ACA_REG_COUNT = 32"

lemmas cper_consts = HDR_LEN_def BOOT_LEN_def FATAL_LEN_def NONSTD_LEN_def FW_ID_OFF_def FW_ID_LEN_def
  CPER_ACA_REG_COUNT_def

definition ACA_REG_NAMES :: "(nat \<times> string) list" where
  "ACA_REG_NAMES =
     [(0, ''CTL''), (1, ''STATUS''), (2, ''ADDR''), (3, ''MISC0''), (4, ''CONFIG''), (5, ''IPID''),
      (6, ''SYND''), (8, ''DESTAT''), (9, ''DEADDR''), (10, ''CTL_MASK'')]"

definition IPID_IP_BLOCK :: "((int \<times> int) \<times> string) list" where
  "IPID_IP_BLOCK =
     [((0x96, 0x0), ''UMC (HBM memory)''),
      ((0x01, 0x1), ''SMU (GFX/SDMA/MMHUB/VCN/JPEG family)''),
      ((0x01, 0x2), ''MP5''),
      ((0x50, 0x0), ''PCS_XGMI (xGMI link)'')]"

section \<open>Bit fields\<close>

definition field :: "int \<Rightarrow> nat \<Rightarrow> nat \<Rightarrow> int" where
  "field value hi lo = drop_bit lo value AND (push_bit (hi - lo + 1) 1 - 1)"

abbreviation flag :: "int \<Rightarrow> nat \<Rightarrow> bool" where
  "flag value i \<equiv> field value i i \<noteq> 0"

text \<open>\<open>f"0x{v:0wx}"\<close> of a non-negative integer.\<close>

abbreviation hexi :: "nat \<Rightarrow> int \<Rightarrow> string" where
  "hexi w v \<equiv> hex0x w (nat v)"

record mca_status =
  st_raw :: string
  st_val :: bool
  st_overflow :: bool
  st_uc :: bool
  st_en :: bool
  st_miscv :: bool
  st_addrv :: bool
  st_pcc :: bool
  st_errcoreid_valid :: bool
  st_tcc :: bool
  st_syndv :: bool
  st_cecc :: bool
  st_uecc :: bool
  st_deferred :: bool
  st_poison :: bool
  st_scrub :: bool
  st_errcoreid :: int
  st_addr_lsb :: int
  st_error_code :: int
  st_error_code_ext :: int

definition decode_mca_status :: "int \<Rightarrow> mca_status" where
  "decode_mca_status status =
     \<lparr>st_raw = hexi 16 status, st_val = flag status 63, st_overflow = flag status 62,
      st_uc = flag status 61, st_en = flag status 60, st_miscv = flag status 59,
      st_addrv = flag status 58, st_pcc = flag status 57, st_errcoreid_valid = flag status 56,
      st_tcc = flag status 55, st_syndv = flag status 53, st_cecc = flag status 46,
      st_uecc = flag status 45, st_deferred = flag status 44, st_poison = flag status 43,
      st_scrub = flag status 40, st_errcoreid = field status 37 32,
      st_addr_lsb = field status 29 24, st_error_code = field status 15 0,
      st_error_code_ext = field status 21 16\<rparr>"

record misc0_fields =
  m0_raw :: string
  m0_valid :: bool
  m0_overflow :: bool
  m0_error_count :: int

definition decode_misc0 :: "int \<Rightarrow> misc0_fields" where
  "decode_misc0 misc0 =
     \<lparr>m0_raw = hexi 16 misc0, m0_valid = flag misc0 63, m0_overflow = flag misc0 48,
      m0_error_count = field misc0 43 32\<rparr>"

record synd_fields =
  sy_raw :: string
  sy_error_information :: int

definition decode_synd :: "int \<Rightarrow> synd_fields" where
  "decode_synd synd = \<lparr>sy_raw = hexi 16 synd, sy_error_information = field synd 17 0\<rparr>"

record umc_location =
  umc_socket_id :: int
  umc_aid_die_id :: int
  umc_channel :: int
  umc_instance :: int
  umc_note :: string

definition decode_umc_location :: "int \<Rightarrow> umc_location" where
  "decode_umc_location ipid =
     (let inst_lo = field ipid 31 0; inst_hi = field ipid 47 44 in
      \<lparr>umc_socket_id = push_bit 2 (inst_lo AND 1) OR (inst_hi AND 3),
       umc_aid_die_id = drop_bit 2 inst_hi AND 3,
       umc_channel = (drop_bit 20 inst_lo AND 1) * 4 + (drop_bit 12 inst_lo AND 0xF),
       umc_instance = drop_bit 21 inst_lo AND 7,
       umc_note = ''bank/row/column require live SMU address translation (not in CPER)''\<rparr>)"

record mca_ipid =
  ip_raw :: string
  ip_mca_type :: string
  ip_instance_id_hi :: string
  ip_hardware_id :: string
  ip_instance_id_lo :: string
  ip_block :: "string option"
  ip_block_source :: "string option"
  ip_umc_location :: "umc_location option"

definition decode_mca_ipid :: "int \<Rightarrow> mca_ipid" where
  "decode_mca_ipid ipid =
     (let hwid = field ipid 43 32; mcatype = field ipid 63 48 in
      \<lparr>ip_raw = hexi 16 ipid, ip_mca_type = hexi 4 mcatype,
       ip_instance_id_hi = ''0x'' @ hex_of_nat (nat (field ipid 47 44)),
       ip_hardware_id = hexi 3 hwid, ip_instance_id_lo = hexi 8 (field ipid 31 0),
       ip_block = map_of IPID_IP_BLOCK (hwid, mcatype),
       ip_block_source = map_option (\<lambda>_. ''best-effort (MI300/smu_v13_0_6 mapping)'')
         (map_of IPID_IP_BLOCK (hwid, mcatype)),
       ip_umc_location = (if (hwid, mcatype) = (0x96, 0x0) then Some (decode_umc_location ipid) else None)\<rparr>)"

section \<open>Descriptions\<close>

text \<open>
  \<open>buf.split(b"\x00", 1)[0].decode("ascii", "replace").strip()\<close>: a byte outside ASCII becomes
  the replacement character (three bytes in UTF-8).
\<close>

definition char_of_byte :: "byte \<Rightarrow> char" where
  "char_of_byte b = char_of (unat b)"

definition ascii_replace :: "byte list \<Rightarrow> string" where
  "ascii_replace bs = concat (map (\<lambda>b. if unat b < 128 then [char_of_byte b]
     else [CHR 0xEF, CHR 0xBF, CHR 0xBD]) bs)"

definition cstr :: "byte list \<Rightarrow> string" where
  "cstr buf = py_strip (ascii_replace (takeWhile (\<lambda>b. b \<noteq> 0) buf))"

definition em_dash :: string where
  "em_dash = [CHR 0xE2, CHR 0x80, CHR 0x94]"

definition error_class :: "mca_status \<Rightarrow> string" where
  "error_class st =
     (if st_uc st \<or> st_uecc st then ''Uncorrectable''
      else if st_deferred st \<or> st_poison st then ''Deferred''
      else if st_cecc st then ''Corrected''
      else ''Informational'')"

definition error_lead :: "mca_status \<Rightarrow> string" where
  "error_lead st =
     (if st_uecc st then ''Uncorrectable ECC error''
      else if st_cecc st then ''Correctable ECC error''
      else if st_scrub st then error_class st @ '' scrub error''
      else error_class st @ '' error'')"

definition error_where :: "mca_ipid option \<Rightarrow> string" where
  "error_where ipid =
     (let name = (case ipid of
            None \<Rightarrow> ''IP hwid ?''
          | Some ip \<Rightarrow> (case ip_block ip of
                Some b \<Rightarrow> if b = [] then ''IP hwid '' @ ip_hardware_id ip else b
              | None \<Rightarrow> ''IP hwid '' @ ip_hardware_id ip))
      in case Option.bind ipid ip_umc_location of
           None \<Rightarrow> name
         | Some loc \<Rightarrow> name @ '' '' @ em_dash @ '' socket '' @ py_str_int (umc_socket_id loc)
             @ '', AID '' @ py_str_int (umc_aid_die_id loc) @ '', channel '' @ py_str_int (umc_channel loc)
             @ '', UMC instance '' @ py_str_int (umc_instance loc))"

definition error_extra :: "mca_status \<Rightarrow> string list" where
  "error_extra st =
     (if st_poison st then [''poisoned data''] else []) @
     (if st_deferred st then [''deferred''] else []) @
     (if st_pcc st then [''processor context corrupt''] else []) @
     (if st_overflow st then [''error-counter overflow''] else [])"

text \<open>
  An absent status or IPID stands for the empty dictionary the code falls back to. The
  result is the error class and the sentence.
\<close>

definition describe_error :: "mca_status option \<Rightarrow> mca_ipid option \<Rightarrow> string \<times> string" where
  "describe_error status ipid =
     (case status of
        None \<Rightarrow> (''Invalid'', ''No valid error logged.'')
      | Some st \<Rightarrow>
          if \<not> st_val st then (''Invalid'', ''No valid error logged.'')
          else
            (let lead = error_lead st @ '' on '' @ error_where ipid;
                 extra = error_extra st;
                 parts = (if extra = [] then [lead] else [lead, ''('' @ py_join '', '' extra @ '')''])
             in (error_class st, py_join '' '' parts @ ''.'')))"

record common_fields =
  cf_error_class :: string
  cf_description :: string
  cf_code_from_status :: int
  cf_code_from_synd :: "int option"
  cf_ext_meaning :: "string option"

definition common_error_fields :: "mca_status option \<Rightarrow> mca_ipid option \<Rightarrow> string \<Rightarrow> common_fields" where
  "common_error_fields status ipid synd_hex =
     (let (klass, desc) = describe_error status ipid;
          block = (case Option.bind ipid ip_block of None \<Rightarrow> [] | Some b \<Rightarrow> b)
      in \<lparr>cf_error_class = klass, cf_description = desc,
          cf_code_from_status = (case status of None \<Rightarrow> 0 | Some st \<Rightarrow> st_error_code st) AND 0xFF,
          cf_code_from_synd = map_option (\<lambda>synd. (synd AND (push_bit 18 1 - 1)) AND 0xFF) (py_int16 synd_hex),
          cf_ext_meaning =
            (if starts_with block ''UMC''
             then Option.bind status (\<lambda>st. map_of [(0, ''uncorrectable''), (9, ''uncorrectable''),
                     (6, ''correctable'')] (st_error_code_ext st))
             else None)\<rparr>)"

section \<open>GUIDs\<close>

definition le_int :: "byte list \<Rightarrow> int" where
  "le_int bs = foldr (\<lambda>b acc. uint b + 256 * acc) bs 0"

definition slice :: "nat \<Rightarrow> nat \<Rightarrow> 'a list \<Rightarrow> 'a list" where
  "slice off n xs = take n (drop off xs)"

definition bytes_hex :: "byte list \<Rightarrow> string" where
  "bytes_hex bs = concat (map (\<lambda>b. hex_pad 2 (unat b)) bs)"

definition guid_str :: "byte list \<Rightarrow> string" where
  "guid_str b =
     (if length b < 16 then []
      else hex_pad 8 (nat (le_int (slice 0 4 b))) @ ''-'' @ hex_pad 4 (nat (le_int (slice 4 2 b))) @ ''-''
        @ hex_pad 4 (nat (le_int (slice 6 2 b))) @ ''-'' @ bytes_hex (slice 8 2 b) @ ''-''
        @ bytes_hex (slice 10 6 b))"

text \<open>\<open>bytes.fromhex\<close>: ASCII white space is skipped between the digit pairs.\<close>

fun fromhex :: "string \<Rightarrow> nat list option" where
  "fromhex [] = Some []"
| "fromhex [c] = (if is_space c \<and> of_char c \<notin> {28::nat, 29, 30, 31} then Some [] else None)"
| "fromhex (c # d # s) =
     (if is_space c \<and> of_char c \<notin> {28::nat, 29, 30, 31} then fromhex (d # s)
      else case (digit_value c, digit_value d) of
        (Some h, Some l) \<Rightarrow> map_option ((#) (h * 16 + l)) (fromhex s)
      | _ \<Rightarrow> None)"

definition is_printable :: "nat \<Rightarrow> bool" where
  "is_printable c \<longleftrightarrow> 0x20 \<le> c \<and> c < 0x7F"

definition guid_as_ascii :: "string option \<Rightarrow> string option" where
  "guid_as_ascii guid =
     (case guid of
        None \<Rightarrow> None
      | Some g \<Rightarrow>
          if g = [] then None
          else case fromhex (filter (\<lambda>c. c \<noteq> CHR ''-'') g) of
            None \<Rightarrow> None
          | Some raw \<Rightarrow>
              if length (filter is_printable raw) < max 4 (length raw * 3 div 4) then None
              else
                (let text = py_strip (map char_of (filter is_printable raw))
                 in if text = [] then None else Some text))"

section \<open>Registers\<close>

text \<open>The values of the \<open>registers\<close> dictionary.\<close>

datatype reg_value =
    RStatus mca_status
  | RIpid mca_ipid
  | RMisc0 misc0_fields
  | RSynd synd_fields
  | RHex string
  | RAddr string bool "string option"

text \<open>\<open>int(regs[2 * idx]) | (int(regs[2 * idx + 1]) << 32)\<close>.\<close>

definition u64 :: "int list \<Rightarrow> nat \<Rightarrow> int" where
  "u64 regs idx = regs ! (2 * idx) OR push_bit 32 (regs ! (2 * idx + 1))"

definition decode_register :: "string \<Rightarrow> int \<Rightarrow> reg_value" where
  "decode_register name val =
     (if name = ''STATUS'' \<or> name = ''DESTAT'' then RStatus (decode_mca_status val)
      else if name = ''IPID'' then RIpid (decode_mca_ipid val)
      else if name = ''MISC0'' then RMisc0 (decode_misc0 val)
      else if name = ''SYND'' then RSynd (decode_synd val)
      else RHex (hexi 16 val))"

definition valid_address :: "int \<Rightarrow> int \<Rightarrow> int" where
  "valid_address raw lsb = raw AND NOT (push_bit (nat lsb) 1 - 1)"

definition annotate_one :: "string \<times> string \<Rightarrow> (string \<times> reg_value) list \<Rightarrow> (string \<times> reg_value) list" where
  "annotate_one = (\<lambda>(addr_reg, status_reg) registers.
     case (map_of registers addr_reg, map_of registers status_reg) of
       (Some (RHex raw_hex), Some (RStatus st)) \<Rightarrow>
         (case py_int16 raw_hex of
            None \<Rightarrow> registers
          | Some raw \<Rightarrow>
              AList.update addr_reg
                (RAddr raw_hex (st_addrv st)
                   (if st_addrv st then Some (hexi 16 (valid_address raw (st_addr_lsb st))) else None))
                registers)
     | _ \<Rightarrow> registers)"

definition annotate_addresses :: "(string \<times> reg_value) list \<Rightarrow> (string \<times> reg_value) list" where
  "annotate_addresses registers =
     annotate_one (''DEADDR'', ''DESTAT'') (annotate_one (''ADDR'', ''STATUS'') registers)"

definition decode_registers :: "int list \<Rightarrow> (string \<times> reg_value) list" where
  "decode_registers regs =
     annotate_addresses
       (map (\<lambda>(idx, name). (name, decode_register name (u64 regs idx)))
         (filter (\<lambda>(idx, _). idx < length regs div 2) ACA_REG_NAMES))"

section \<open>Sections\<close>

text \<open>\<open>struct.unpack_from\<close> of \<open>n\<close> little-endian integers of \<open>w\<close> bytes at an offset.\<close>

definition unpack :: "nat \<Rightarrow> nat \<Rightarrow> byte list \<Rightarrow> nat \<Rightarrow> int list" where
  "unpack w n raw off = map (\<lambda>i. le_int (slice (off + i * w) w raw)) [0..<n]"

record boot_section =
  bs_firmware_id :: string
  bs_reg_ctx_type :: int
  bs_reg_arr_size :: int
  bs_oam_messages :: "string list"

record fatal_section =
  fs_firmware_id :: string
  fs_common :: common_fields
  fs_registers :: "(string \<times> reg_value) list"

record ms_check =
  ms_err_type_valid :: bool
  ms_pcc_valid :: bool
  ms_uncorr_valid :: bool
  ms_precise_ip_valid :: bool
  ms_restartable_ip_valid :: bool
  ms_overflow_valid :: bool
  ms_err_type :: int
  ms_pcc :: bool
  ms_uncorrected :: bool
  ms_precise_ip :: bool
  ms_restartable_ip :: bool
  ms_overflow :: bool

record nonstd_section =
  ns_firmware_id :: string
  ns_common :: common_fields
  ns_error_type :: string
  ns_apic_id :: string
  ns_ms_check :: ms_check
  ns_registers :: "(string \<times> reg_value) list"
  ns_reg_ctx_type :: int
  ns_reg_arr_size :: int
  ns_msr_addr :: string
  ns_mm_reg_addr :: string
  ns_target_addr_id :: string
  ns_req_id :: string
  ns_resp_id :: string
  ns_instr_ptr :: string
  ns_valid_hdr :: string
  ns_valid_info :: string

datatype amd_section =
    DecodeError string
  | BootCrashdump boot_section
  | FatalCrashdump fatal_section
  | RuntimeNonstandard nonstd_section

definition firmware_id :: "byte list \<Rightarrow> string" where
  "firmware_id raw = cstr (slice FW_ID_OFF FW_ID_LEN raw)"

definition too_short :: "string \<Rightarrow> nat \<Rightarrow> nat \<Rightarrow> amd_section" where
  "too_short what n expected =
     DecodeError (what @ '' section '' @ dec_of_nat n @ ''B < expected '' @ dec_of_nat expected @ ''B'')"

definition decode_boot :: "byte list \<Rightarrow> amd_section" where
  "decode_boot raw =
     (if length raw < BOOT_LEN then too_short ''boot'' (length raw) BOOT_LEN
      else BootCrashdump
        \<lparr>bs_firmware_id = firmware_id raw,
         bs_reg_ctx_type = unpack 2 2 raw HDR_LEN ! 0,
         bs_reg_arr_size = unpack 2 2 raw HDR_LEN ! 1,
         bs_oam_messages = map (hexi 16) (filter (\<lambda>m. m \<noteq> 0) (unpack 8 8 raw 144))\<rparr>)"

definition decode_fatal :: "byte list \<Rightarrow> amd_section" where
  "decode_fatal raw =
     (if length raw < FATAL_LEN then too_short ''fatal'' (length raw) FATAL_LEN
      else
        (let ws = unpack 4 8 raw 144;
             status = u64 ws 0; addr = u64 ws 1; ipid = u64 ws 2; synd = u64 ws 3;
             status_d = decode_mca_status status;
             ipid_d = decode_mca_ipid ipid;
             registers = [(''STATUS'', RStatus status_d), (''ADDR'', RHex (hexi 16 addr)),
                          (''IPID'', RIpid ipid_d), (''SYND'', RSynd (decode_synd synd))]
         in FatalCrashdump
              \<lparr>fs_firmware_id = firmware_id raw,
               fs_common = common_error_fields (Some status_d) (Some ipid_d) (hexi 16 synd),
               fs_registers = annotate_addresses registers\<rparr>))"

definition decode_ms_check :: "int \<Rightarrow> ms_check" where
  "decode_ms_check ms_chk =
     \<lparr>ms_err_type_valid = flag ms_chk 0, ms_pcc_valid = flag ms_chk 1, ms_uncorr_valid = flag ms_chk 2,
      ms_precise_ip_valid = flag ms_chk 3, ms_restartable_ip_valid = flag ms_chk 4,
      ms_overflow_valid = flag ms_chk 5, ms_err_type = field ms_chk 17 16, ms_pcc = flag ms_chk 18,
      ms_uncorrected = flag ms_chk 19, ms_precise_ip = flag ms_chk 20,
      ms_restartable_ip = flag ms_chk 21, ms_overflow = flag ms_chk 22\<rparr>"

text \<open>\<open>registers.get(name) or {}\<close>, where the entry is a decoded register.\<close>

definition reg_status :: "(string \<times> reg_value) list \<Rightarrow> mca_status option" where
  "reg_status registers = (case map_of registers ''STATUS'' of Some (RStatus st) \<Rightarrow> Some st | _ \<Rightarrow> None)"

definition reg_ipid :: "(string \<times> reg_value) list \<Rightarrow> mca_ipid option" where
  "reg_ipid registers = (case map_of registers ''IPID'' of Some (RIpid ip) \<Rightarrow> Some ip | _ \<Rightarrow> None)"

definition decode_nonstd :: "byte list \<Rightarrow> amd_section" where
  "decode_nonstd raw =
     (if length raw < NONSTD_LEN then too_short ''nonstd'' (length raw) NONSTD_LEN
      else
        (let hdr = unpack 8 2 raw 0;
             info = unpack 8 6 raw 80;
             ctx = unpack 2 2 raw 128;
             registers = decode_registers (unpack 4 CPER_ACA_REG_COUNT raw 144);
             synd_hex = (case map_of registers ''SYND'' of Some (RSynd sy) \<Rightarrow> sy_raw sy
                         | _ \<Rightarrow> ''0x0000000000000000'')
         in RuntimeNonstandard
              \<lparr>ns_firmware_id = firmware_id raw,
               ns_common = common_error_fields (reg_status registers) (reg_ipid registers) synd_hex,
               ns_error_type = guid_str (slice 64 16 raw),
               ns_apic_id = hexi 16 (hdr ! 1),
               ns_ms_check = decode_ms_check (info ! 1),
               ns_registers = registers,
               ns_reg_ctx_type = ctx ! 0,
               ns_reg_arr_size = ctx ! 1,
               ns_msr_addr = hexi 8 (unpack 4 1 raw 132 ! 0),
               ns_mm_reg_addr = hexi 16 (unpack 8 1 raw 136 ! 0),
               ns_target_addr_id = hexi 16 (info ! 2),
               ns_req_id = hexi 16 (info ! 3),
               ns_resp_id = hexi 16 (info ! 4),
               ns_instr_ptr = hexi 16 (info ! 5),
               ns_valid_hdr = hexi 16 (hdr ! 0),
               ns_valid_info = hexi 16 (info ! 0)\<rparr>))"

definition is_amd_section :: "string \<Rightarrow> bool" where
  "is_amd_section guid \<longleftrightarrow>
     guid \<noteq> [] \<and> (py_lower guid = AMD_CRASHDUMP \<or> py_lower guid = AMD_GPU_NONSTANDARD_ERROR)"

definition decode_amd_section :: "string \<Rightarrow> byte list \<Rightarrow> amd_section option" where
  "decode_amd_section guid raw =
     (if \<not> is_amd_section guid \<or> raw = [] then None
      else if py_lower guid = AMD_GPU_NONSTANDARD_ERROR then Some (decode_nonstd raw)
      else if length raw = FATAL_LEN then Some (decode_fatal raw)
      else if BOOT_LEN \<le> length raw then Some (decode_boot raw)
      else Some (DecodeError (''crashdump section '' @ dec_of_nat (length raw) @ ''B matches no known layout'')))"

section \<open>Summaries\<close>

text \<open>\<open>addr_reg.get("valid_address") or addr_reg.get("raw")\<close>, or the raw text itself.\<close>

definition summary_addr :: "(string \<times> reg_value) list \<Rightarrow> string" where
  "summary_addr registers =
     (case map_of registers ''ADDR'' of
        Some (RAddr raw v (Some a)) \<Rightarrow> a
      | Some (RAddr raw v None) \<Rightarrow> raw
      | Some (RHex h) \<Rightarrow> h
      | _ \<Rightarrow> [])"

definition summary_bits :: "(string \<times> reg_value) list \<Rightarrow> string list" where
  "summary_bits registers =
     (let st = reg_status registers; addr = summary_addr registers in
      [''MCA_STATUS='' @ (case st of None \<Rightarrow> ''?'' | Some s \<Rightarrow> st_raw s)] @
      (case st of Some s \<Rightarrow> if st_error_code s \<noteq> 0
         then [''errcode=0x'' @ hex_of_nat (nat (st_error_code s))] else [] | None \<Rightarrow> []) @
      (case st of Some s \<Rightarrow> if st_error_code_ext s \<noteq> 0
         then [''ext=0x'' @ hex_of_nat (nat (st_error_code_ext s))] else [] | None \<Rightarrow> []) @
      (if addr \<noteq> [] \<and> addr \<noteq> ''0x0000000000000000'' then [''addr='' @ addr] else []) @
      (case Option.bind (reg_ipid registers) ip_umc_location of
         None \<Rightarrow> []
       | Some loc \<Rightarrow> [''loc=socket'' @ py_str_int (umc_socket_id loc) @ ''/AID'' @ py_str_int (umc_aid_die_id loc)
            @ ''/ch'' @ py_str_int (umc_channel loc) @ ''/umc'' @ py_str_int (umc_instance loc)]) @
      (case map_of registers ''MISC0'' of
         Some (RMisc0 m0) \<Rightarrow> if m0_error_count m0 \<noteq> 0 then [''errcnt='' @ py_str_int (m0_error_count m0)] else []
       | _ \<Rightarrow> []))"

definition summary_error :: "string \<Rightarrow> string \<Rightarrow> common_fields \<Rightarrow> (string \<times> reg_value) list \<Rightarrow> string" where
  "summary_error origin fw_bit common registers =
     ''AMD '' @ origin @ fw_bit @ '': ''
       @ (if cf_description common = [] then ''AMD error'' else cf_description common)
       @ '' ['' @ py_join '' '' (summary_bits registers) @ '']''"

definition fw_bit :: "string \<Rightarrow> string" where
  "fw_bit fw = (if fw = [] then [] else '' fw '' @ fw)"

definition summarize_amd_section :: "amd_section option \<Rightarrow> string" where
  "summarize_amd_section decoded =
     (case decoded of
        None \<Rightarrow> []
      | Some (DecodeError e) \<Rightarrow> ''AMD section (undecoded: '' @ e @ '')''
      | Some (BootCrashdump b) \<Rightarrow>
          ''AMD boot crashdump'' @ fw_bit (bs_firmware_id b) @ '': ''
            @ (if bs_oam_messages b = [] then ''no OAM messages''
               else ''OAM msgs '' @ py_join '', '' (bs_oam_messages b))
      | Some (FatalCrashdump f) \<Rightarrow>
          summary_error ''fatal crashdump'' (fw_bit (fs_firmware_id f)) (fs_common f) (fs_registers f)
      | Some (RuntimeNonstandard n) \<Rightarrow>
          summary_error ''runtime'' (fw_bit (ns_firmware_id n)) (ns_common n) (ns_registers n))"

section \<open>Arithmetic of the bit helpers\<close>

lemma push_bit_mask: "push_bit n (1::int) - 1 = mask n"
  by (simp add: mask_eq_exp_minus_1 push_bit_eq_mult)

lemma field_eq: "lo \<le> hi \<Longrightarrow> field v hi lo = v div 2 ^ lo mod 2 ^ (hi - lo + 1)"
  by (simp only: field_def push_bit_mask take_bit_eq_mask [symmetric] take_bit_eq_mod drop_bit_eq_div)

lemma field_bounds [field_defs]: "0 \<le> field v hi lo" "field v hi lo < 2 ^ (hi - lo + 1)"
  unfolding field_def push_bit_mask take_bit_eq_mask [symmetric]
  by (simp, rule take_bit_int_less_exp)

lemma flag_iff: "flag v i \<longleftrightarrow> bit v i"
  by (simp add: field_eq bit_iff_odd odd_iff_mod_2_eq_one)

lemma low_bits: "x AND (2 ^ n - 1) = x mod 2 ^ n" for x :: int
  by (metis take_bit_eq_mask mask_eq_exp_minus_1 take_bit_eq_mod)

lemma or_push_bit: "0 \<le> lo \<Longrightarrow> lo < 2 ^ n \<Longrightarrow> lo OR push_bit n hi = lo + hi * 2 ^ n" for lo hi :: int
  by (metis concat_bit_def concat_bit_eq push_bit_eq_mult take_bit_int_eq_self)

lemma valid_address_eq: "valid_address raw lsb = raw div 2 ^ nat lsb * 2 ^ nat lsb"
proof -
  have "raw AND NOT (mask (nat lsb)) = push_bit (nat lsb) (drop_bit (nat lsb) raw)"
    by (rule bit_eqI) (auto simp: bit_and_iff bit_not_iff bit_mask_iff bit_push_bit_iff bit_drop_bit_eq)
  then show ?thesis
    unfolding valid_address_def push_bit_mask by (simp add: push_bit_eq_mult drop_bit_eq_div)
qed

lemma valid_address_bounds:
  assumes "0 \<le> raw"
  shows "0 \<le> valid_address raw lsb" "valid_address raw lsb \<le> raw"
    "raw - valid_address raw lsb < 2 ^ nat lsb" "2 ^ nat lsb dvd valid_address raw lsb"
proof -
  let ?m = "2 ^ nat lsb :: int"
  have eq: "raw = raw div ?m * ?m + raw mod ?m" by (rule div_mult_mod_eq [symmetric])
  have "0 \<le> raw mod ?m" "raw mod ?m < ?m" "0 \<le> raw div ?m" using assms by (simp_all add: pos_imp_zdiv_nonneg_iff)
  then show "0 \<le> valid_address raw lsb" "valid_address raw lsb \<le> raw"
    "raw - valid_address raw lsb < ?m" "?m dvd valid_address raw lsb"
    using eq unfolding valid_address_eq by (simp, linarith, linarith, simp)
qed

section \<open>Little-endian integers\<close>

definition le_bytes :: "nat \<Rightarrow> int \<Rightarrow> byte list" where
  "le_bytes w v = map (\<lambda>i. word_of_int (v div 256 ^ i)) [0..<w]"

lemma le_int_Nil [simp]: "le_int [] = 0"
  by (simp add: le_int_def)

lemma le_int_Cons [simp]: "le_int (b # bs) = uint b + 256 * le_int bs"
  by (simp add: le_int_def)

lemma le_int_append: "le_int (xs @ ys) = le_int xs + 256 ^ length xs * le_int ys"
  by (induction xs) (simp_all add: algebra_simps)

lemma le_int_bounds: "0 \<le> le_int bs" "le_int bs < 256 ^ length bs"
proof -
  show "0 \<le> le_int bs" by (induction bs) simp_all
  show "le_int bs < 256 ^ length bs"
  proof (induction bs)
    case (Cons b bs)
    have "uint b < 256" using uint_lt2p [of b] by simp
    with Cons show ?case by simp
  qed simp
qed

lemma length_le_bytes [simp]: "length (le_bytes w v) = w"
  by (simp add: le_bytes_def)

lemma le_bytes_Suc: "le_bytes (Suc w) v = word_of_int v # le_bytes w (v div 256)"
proof -
  have "[0..<Suc w] = 0 # map Suc [0..<w]" by (simp only: map_Suc_upt upt_conv_Cons zero_less_Suc)
  then show ?thesis by (simp add: le_bytes_def comp_def zdiv_zmult2_eq del: upt_Suc)
qed

lemma le_int_le_bytes: "le_int (le_bytes w v) = v mod 256 ^ w"
proof (induction w arbitrary: v)
  case 0
  then show ?case by (simp add: le_bytes_def)
next
  case (Suc w)
  have "uint (word_of_int v :: byte) = v mod 256" by (simp add: uint_word_of_int)
  then show ?case by (simp add: le_bytes_Suc Suc zmod_zmult2_eq)
qed

lemma slice_append: "length pre = off \<Longrightarrow> slice (off + k) n (pre @ xs) = slice k n xs"
  by (simp add: slice_def)

lemma slice_slice: "m + k \<le> n \<Longrightarrow> slice m k (slice off n xs) = slice (off + m) k xs"
  by (simp add: slice_def drop_take take_take min_def add.commute)

lemma length_slice: "off + n \<le> length xs \<Longrightarrow> length (slice off n xs) = n"
  by (simp add: slice_def)

lemma slice_split: "slice off (m + n) xs = slice off m xs @ slice (off + m) n xs"
  by (simp add: slice_def take_add add.commute drop_drop)

text \<open>A 64-bit register is its two 32-bit words.\<close>

lemma u64_unpack:
  assumes "2 * k + 1 < n" "off + 8 * k + 8 \<le> length raw"
  shows "u64 (unpack 4 n raw off) k = le_int (slice (off + 8 * k) 8 raw)"
proof -
  let ?lo = "slice (off + 8 * k) 4 raw" and ?hi = "slice (off + 8 * k + 4) 4 raw"
  have len: "length ?lo = 4" using assms(2) by (intro length_slice) simp
  have "u64 (unpack 4 n raw off) k = le_int ?lo OR push_bit 32 (le_int ?hi)"
    using assms(1) by (simp add: u64_def unpack_def algebra_simps)
  also have "\<dots> = le_int ?lo + le_int ?hi * 2 ^ 32"
    using le_int_bounds [of ?lo] len by (intro or_push_bit) simp_all
  also have "\<dots> = le_int (?lo @ ?hi)" using len by (simp add: le_int_append)
  also have "?lo @ ?hi = slice (off + 8 * k) 8 raw" using slice_split [of "off + 8 * k" 4 4 raw] by simp
  finally show ?thesis .
qed

section \<open>Properties\<close>

text \<open>
  (C9) Reading back a fatal crashdump: whatever the 144 bytes before the register block hold,
  the four 64-bit registers written little-endian are the ones the decoder reports, and each
  printed value reads back as the register.
\<close>

theorem fatal_roundtrip:
  assumes "length pre = 144" and "py_lower guid = AMD_CRASHDUMP"
    and "0 \<le> status \<and> status < 2 ^ 64" and "0 \<le> addr \<and> addr < 2 ^ 64"
    and "0 \<le> ipid \<and> ipid < 2 ^ 64" and "0 \<le> synd \<and> synd < 2 ^ 64"
  shows "\<exists>f. decode_amd_section guid
        (pre @ le_bytes 8 status @ le_bytes 8 addr @ le_bytes 8 ipid @ le_bytes 8 synd) = Some (FatalCrashdump f) \<and>
     map_of (fs_registers f) ''STATUS'' = Some (RStatus (decode_mca_status status)) \<and>
     map_of (fs_registers f) ''IPID'' = Some (RIpid (decode_mca_ipid ipid)) \<and>
     map_of (fs_registers f) ''SYND'' = Some (RSynd (decode_synd synd)) \<and>
     (\<exists>v a. map_of (fs_registers f) ''ADDR'' = Some (RAddr (hexi 16 addr) v a)) \<and>
     py_int16 (st_raw (decode_mca_status status)) = Some status \<and>
     py_int16 (hexi 16 addr) = Some addr \<and>
     py_int16 (ip_raw (decode_mca_ipid ipid)) = Some ipid \<and>
     py_int16 (sy_raw (decode_synd synd)) = Some synd"
proof -
  let ?raw = "pre @ le_bytes 8 status @ le_bytes 8 addr @ le_bytes 8 ipid @ le_bytes 8 synd"
  have len: "length ?raw = 176" using assms(1) by simp
  have reads: "le_int (le_bytes 8 v) = v" if "0 \<le> v \<and> v < 2 ^ 64" for v
    using that by (simp add: le_int_le_bytes)
  have "slice (144 + 0) 8 ?raw = le_bytes 8 status" "slice (144 + 8) 8 ?raw = le_bytes 8 addr"
    "slice (144 + 16) 8 ?raw = le_bytes 8 ipid" "slice (144 + 24) 8 ?raw = le_bytes 8 synd"
    by (simp_all only: slice_append [OF assms(1)]) (simp_all add: slice_def)
  then have regs: "u64 (unpack 4 8 ?raw 144) 0 = status" "u64 (unpack 4 8 ?raw 144) 1 = addr"
    "u64 (unpack 4 8 ?raw 144) 2 = ipid" "u64 (unpack 4 8 ?raw 144) 3 = synd"
    using reads assms(3-6) len u64_unpack [of _ 8 144 ?raw] by simp_all
  have guid: "is_amd_section guid" "py_lower guid \<noteq> AMD_GPU_NONSTANDARD_ERROR"
    using assms(2) by (auto simp: is_amd_section_def AMD_CRASHDUMP_def AMD_GPU_NONSTANDARD_ERROR_def py_lower_def)
  have ne: "?raw \<noteq> []" using len by (metis list.size(3) zero_neq_numeral)
  have "decode_amd_section guid ?raw = Some (decode_fatal ?raw)"
    using guid ne len by (simp add: decode_amd_section_def cper_consts)
  then show ?thesis
    using len assms(3-6)
    by (simp add: decode_fatal_def cper_consts regs [simplified] Let_def annotate_addresses_def annotate_one_def
        decode_mca_status_def decode_mca_ipid_def decode_synd_def map_of_update)
qed

theorem fatal_roundtrip_witness:
  "\<exists>f. decode_amd_section AMD_CRASHDUMP
        (replicate 144 0 @ le_bytes 8 0xBC00000000000108 @ le_bytes 8 0x1234 @ le_bytes 8 0x9600000000 @ le_bytes 8 7)
        = Some (FatalCrashdump f) \<and>
     map_of (fs_registers f) ''STATUS'' = Some (RStatus (decode_mca_status 0xBC00000000000108)) \<and>
     map_of (fs_registers f) ''IPID'' = Some (RIpid (decode_mca_ipid 0x9600000000)) \<and>
     map_of (fs_registers f) ''SYND'' = Some (RSynd (decode_synd 7)) \<and>
     (\<exists>v a. map_of (fs_registers f) ''ADDR'' = Some (RAddr (hexi 16 0x1234) v a)) \<and>
     py_int16 (st_raw (decode_mca_status 0xBC00000000000108)) = Some 0xBC00000000000108 \<and>
     py_int16 (hexi 16 0x1234) = Some 0x1234 \<and>
     py_int16 (ip_raw (decode_mca_ipid 0x9600000000)) = Some 0x9600000000 \<and>
     py_int16 (sy_raw (decode_synd 7)) = Some 7"
  by (rule fatal_roundtrip) (simp, code_simp, simp_all)

lemma annotate_one_other: "r \<noteq> a \<Longrightarrow> map_of (annotate_one (a, st) registers) r = map_of registers r"
  by (auto simp: annotate_one_def map_of_update split: option.split reg_value.split)

lemma annotate_one_addr:
  assumes "map_of registers a = Some (RHex (hexi 16 raw))" "map_of registers s = Some (RStatus st)" "0 \<le> raw"
  shows "map_of (annotate_one (a, s) registers) a =
    Some (RAddr (hexi 16 raw) (st_addrv st)
      (if st_addrv st then Some (hexi 16 (valid_address raw (st_addr_lsb st))) else None))"
  using assms by (simp add: annotate_one_def map_of_update)

text \<open>
  Address annotation: when the status register marks the address valid, the reported
  valid address reads back as the raw address with exactly its low \<open>addr_lsb\<close> bits cleared;
  when it does not, no valid address is reported.
\<close>

lemma annotate_addresses_masks:
  assumes "map_of registers ''ADDR'' = Some (RHex (hexi 16 raw))" and "0 \<le> raw"
    and "map_of registers ''STATUS'' = Some (RStatus (decode_mca_status status))"
  shows "\<exists>a. map_of (annotate_addresses registers) ''ADDR'' = Some (RAddr (hexi 16 raw) (bit status 58) a) \<and>
     (if bit status 58
      then (\<exists>v t. a = Some t \<and> py_int16 t = Some v \<and> v \<le> raw \<and> raw - v < 2 ^ nat (status div 2 ^ 24 mod 64) \<and>
              2 ^ nat (status div 2 ^ 24 mod 64) dvd v)
      else a = None)"
proof -
  let ?st = "decode_mca_status status"
  let ?lsb = "status div 2 ^ 24 mod 64"
  have st: "st_addrv ?st = bit status 58" "st_addr_lsb ?st = ?lsb"
    by (simp add: decode_mca_status_def flag_iff) (simp add: decode_mca_status_def field_eq)
  have "map_of (annotate_addresses registers) ''ADDR'' = map_of (annotate_one (''ADDR'', ''STATUS'') registers) ''ADDR''"
    by (simp add: annotate_addresses_def annotate_one_other)
  also have "\<dots> = Some (RAddr (hexi 16 raw) (bit status 58)
      (if bit status 58 then Some (hexi 16 (valid_address raw ?lsb)) else None))"
    using annotate_one_addr [OF assms(1, 3, 2)] by (simp add: st)
  finally show ?thesis
    using valid_address_bounds [OF assms(2), of ?lsb] by simp
qed

lemma annotate_addresses_masks_witness:
  "\<exists>a. map_of (annotate_addresses [(''STATUS'', RStatus (decode_mca_status 0x0400000006000000)),
        (''ADDR'', RHex (hexi 16 0x12345))]) ''ADDR'' =
      Some (RAddr (hexi 16 0x12345) (bit (0x0400000006000000 :: int) 58) a) \<and>
     (if bit (0x0400000006000000 :: int) 58
      then (\<exists>v t. a = Some t \<and> py_int16 t = Some v \<and> v \<le> 0x12345 \<and>
              0x12345 - v < 2 ^ nat (0x0400000006000000 div 2 ^ 24 mod 64) \<and>
              2 ^ nat (0x0400000006000000 div 2 ^ 24 mod 64) dvd v)
      else a = None)"
  by (rule annotate_addresses_masks) simp_all

text \<open>
  The class of a section follows the architectural bits of its status
  register, most severe first. An error with the uncorrected bit is never reported as
  corrected, and a register without the valid bit is never reported as an error.
\<close>

lemma error_class_bits:
  "fst (describe_error (Some (decode_mca_status status)) ipid) =
     (if \<not> bit status 63 then ''Invalid''
      else if bit status 61 \<or> bit status 45 then ''Uncorrectable''
      else if bit status 44 \<or> bit status 43 then ''Deferred''
      else if bit status 46 then ''Corrected''
      else ''Informational'')"
  by (simp add: describe_error_def error_class_def decode_mca_status_def flag_iff Let_def)

lemma slice_take: "off + n \<le> k \<Longrightarrow> slice off n (take k xs) = slice off n xs"
  by (simp add: slice_def drop_take min_def)

lemma unpack_take: "off + n * w \<le> k \<Longrightarrow> unpack w n (take k raw) off = unpack w n raw off"
proof -
  assume k: "off + n * w \<le> k"
  have "slice (off + i * w) w (take k raw) = slice (off + i * w) w raw" if "i < n" for i
  proof (rule slice_take)
    have "(i + 1) * w \<le> n * w" using that by (intro mult_right_mono) simp_all
    then show "off + i * w + w \<le> k" using k by simp
  qed
  then show ?thesis by (simp add: unpack_def)
qed

lemma decode_nonstd_prefix: "NONSTD_LEN \<le> length raw \<Longrightarrow> decode_nonstd (take NONSTD_LEN raw) = decode_nonstd raw"
  by (simp add: decode_nonstd_def firmware_id_def cper_consts slice_take unpack_take)

lemma decode_boot_prefix: "BOOT_LEN \<le> length raw \<Longrightarrow> decode_boot (take BOOT_LEN raw) = decode_boot raw"
  by (simp add: decode_boot_def firmware_id_def cper_consts slice_take unpack_take)

text \<open>
  Dispatch by GUID and length: a section is decoded as exactly one layout, on a length
  that holds it, every other length of an AMD section gives a decode error, and bytes after
  the layout's end never change what is decoded.
\<close>

lemma decode_dispatch:
  "(case decode_amd_section guid raw of
      None \<Rightarrow> \<not> (py_lower guid \<in> {AMD_CRASHDUMP, AMD_GPU_NONSTANDARD_ERROR} \<and> raw \<noteq> [])
    | Some (DecodeError _) \<Rightarrow>
        (if py_lower guid = AMD_CRASHDUMP then length raw < BOOT_LEN \<and> length raw \<noteq> FATAL_LEN
         else py_lower guid = AMD_GPU_NONSTANDARD_ERROR \<and> length raw < NONSTD_LEN)
    | Some (FatalCrashdump f) \<Rightarrow> py_lower guid = AMD_CRASHDUMP \<and> length raw = FATAL_LEN
    | Some (BootCrashdump b) \<Rightarrow> py_lower guid = AMD_CRASHDUMP \<and> BOOT_LEN \<le> length raw \<and>
        decode_amd_section guid (take BOOT_LEN raw) = Some (BootCrashdump b)
    | Some (RuntimeNonstandard n) \<Rightarrow> py_lower guid = AMD_GPU_NONSTANDARD_ERROR \<and> NONSTD_LEN \<le> length raw \<and>
        decode_amd_section guid (take NONSTD_LEN raw) = Some (RuntimeNonstandard n))"
proof -
  have ne: "AMD_CRASHDUMP \<noteq> AMD_GPU_NONSTANDARD_ERROR" by (simp add: AMD_CRASHDUMP_def AMD_GPU_NONSTANDARD_ERROR_def)
  consider (none) "\<not> is_amd_section guid \<or> raw = []"
    | (nonstd) "is_amd_section guid" "raw \<noteq> []" "py_lower guid = AMD_GPU_NONSTANDARD_ERROR"
    | (crash) "is_amd_section guid" "raw \<noteq> []" "py_lower guid = AMD_CRASHDUMP"
    by (auto simp: is_amd_section_def)
  then show ?thesis
  proof cases
    case none
    have "py_lower [] = []" by (simp add: py_lower_def)
    with none show ?thesis
      by (auto simp: decode_amd_section_def is_amd_section_def AMD_CRASHDUMP_def AMD_GPU_NONSTANDARD_ERROR_def)
  next
    case nonstd
    then show ?thesis
      using decode_nonstd_prefix [of raw] ne
      by (auto simp: decode_amd_section_def decode_nonstd_def too_short_def Let_def cper_consts)
  next
    case crash
    then show ?thesis
      using decode_boot_prefix [of raw] ne
      by (auto simp: decode_amd_section_def decode_boot_def decode_fatal_def Let_def cper_consts)
  qed
qed

text \<open>
  HBM location fields stay in the ranges the hardware numbering allows.
\<close>

lemma umc_location_bounds:
  "0 \<le> umc_socket_id (decode_umc_location ipid) \<and> umc_socket_id (decode_umc_location ipid) < 8 \<and>
   0 \<le> umc_aid_die_id (decode_umc_location ipid) \<and> umc_aid_die_id (decode_umc_location ipid) < 4 \<and>
   0 \<le> umc_channel (decode_umc_location ipid) \<and> umc_channel (decode_umc_location ipid) < 20 \<and>
   0 \<le> umc_instance (decode_umc_location ipid) \<and> umc_instance (decode_umc_location ipid) < 8"
proof -
  have m: "0 \<le> x AND 1" "x AND 1 < 2" "0 \<le> x AND 3" "x AND 3 < 4" "0 \<le> x AND 7" "x AND 7 < 8"
    "0 \<le> x AND 15" "x AND 15 < 16" for x :: int
    using low_bits [of x 1] low_bits [of x 2] low_bits [of x 3] low_bits [of x 4] by simp_all
  let ?lo = "field ipid 31 0" and ?hi = "field ipid 47 44"
  have c1: "(?hi AND 3) + (?lo AND 1) * 4 < 8" using m(4) [of ?hi] m(2) [of ?lo] by linarith
  have c2: "(drop_bit 20 ?lo AND 1) * 4 + (drop_bit 12 ?lo AND 15) < 20"
    using m(2) [of "drop_bit 20 ?lo"] m(8) [of "drop_bit 12 ?lo"] by linarith
  have "push_bit 2 (?lo AND 1) OR (?hi AND 3) = (?hi AND 3) OR push_bit 2 (?lo AND 1)" by (simp add: or.commute)
  also have "\<dots> = (?hi AND 3) + (?lo AND 1) * 4"
    using m(3, 4) [of ?hi] or_push_bit [of "?hi AND 3" 2 "?lo AND 1"] by (simp del: push_bit_and)
  finally show ?thesis
    using c1 c2 m(4) [of "drop_bit 2 ?hi"] m(6) [of "drop_bit 21 ?lo"]
    by (simp add: decode_umc_location_def Let_def m del: push_bit_and)
qed

end
