(* ===== verification/Alert_Store.thy ===== *)
theory Alert_Store
  imports Amd_Cper Py_Json Py_Time
begin

text \<open>
  The alert tables of \<open>collector/src/database/repository.py\<close>: deduplicated ingestion
  (\<open>create_alerts_batch\<close> and the idempotency key), the queries and retention, the log
  cursors of the incremental pull, and the bookkeeping of CPER enrichment
  (\<open>cper_status\<close>, attempts). Each function is one transaction; a concurrent writer is an
  argument where the code guards against one.
\<close>

section \<open>Times\<close>

text \<open>
  A \<open>datetime\<close> is naive, or carries the offset of its zone; \<open>to_naive_utc\<close> is
  \<open>util/timeutil.py\<close>.
\<close>

datatype py_datetime = Naive instant | Aware instant duration

fun to_naive_utc :: "py_datetime \<Rightarrow> instant" where
  "to_naive_utc (Naive t) = t"
| "to_naive_utc (Aware t offset) = t - offset"

section \<open>Rows\<close>

datatype cper_status = Pending | Decoded | NoData | FetchFailed | DecodeFailed | Unavailable

text \<open>
  A decoded CPER record: the JSON of \<open>libcper\<close>, and the AMD decodes attached to its sections
  (the \<open>"amd"\<close> key of section \<open>i\<close> is the entry \<open>i\<close> of \<open>doc_amd\<close>).
\<close>

record cper_doc =
  doc_json :: json
  doc_amd :: "(nat \<times> amd_section) list"

record alert_event =
  ae_target_id :: target_id
  ae_target_name :: string
  ae_target_bmc :: string
  ae_severity :: string
  ae_message :: string
  ae_message_id :: "string option"
  ae_event_type :: string
  ae_origin :: "string option"
  ae_event_timestamp :: "py_datetime option"
  ae_received_at :: "py_datetime option"
  ae_raw :: "json dict option"
  ae_source_id :: "string option"

record alert_row =
  al_target_id :: target_id
  al_target_name :: string
  al_target_bmc :: string
  al_severity :: string
  al_message :: string
  al_message_id :: "string option"
  al_event_type :: string
  al_origin :: "string option"
  al_event_timestamp :: "instant option"
  al_received_at :: instant
  al_occurred_at :: instant
  al_dedup_key :: "string option"
  al_raw_data :: "json dict option"
  al_cper_status :: "cper_status option"
  al_refined_message :: "string option"
  al_cper_decoded :: "cper_doc option"
  al_cper_attempts :: int
  al_cper_attempted_at :: "instant option"

record log_cursor =
  lc_last_created :: "instant option"
  lc_updated_at :: instant

text \<open>\<open>next_id\<close> is the autoincrement counter of the primary key.\<close>

record alert_db =
  alerts :: "(int, alert_row) db_table"
  next_id :: int
  log_cursors :: "(target_id \<times> string, log_cursor) db_table"

section \<open>Ingestion\<close>

definition cper_eligible :: "json dict option \<Rightarrow> bool" where
  "cper_eligible raw =
     (case raw of
        None \<Rightarrow> False
      | Some d \<Rightarrow>
          json_truthy (dict_get d ''AdditionalDataURI'') \<and>
          (contains (py_lower (py_str (json_or (dict_get d ''DiagnosticDataType'') (JStr [])))) ''cper'' \<or>
           contains (py_lower (py_str (json_or (dict_get d ''Resolution'') (JStr [])))) ''cper''))"

definition or_empty :: "string option \<Rightarrow> string" where
  "or_empty s = (case s of None \<Rightarrow> [] | Some t \<Rightarrow> t)"

definition US :: string where
  "US = [CHR 0x1F]"

definition alert_dedup_basis ::
  "target_id \<Rightarrow> string option \<Rightarrow> string option \<Rightarrow> py_datetime option \<Rightarrow> py_datetime option \<Rightarrow> string option \<Rightarrow> string" where
  "alert_dedup_basis target_id message_id message event_timestamp received_at source_id =
     (case event_timestamp of
        Some ts \<Rightarrow> py_join US [py_str_int target_id, or_empty message_id, isoformat (to_naive_utc ts), or_empty message]
      | None \<Rightarrow>
          if or_empty source_id \<noteq> [] then py_join US [py_str_int target_id, ''src'', or_empty source_id]
          else py_join US [py_str_int target_id, or_empty message_id,
                 (case received_at of None \<Rightarrow> [] | Some r \<Rightarrow> isoformat (to_naive_utc r)), or_empty message])"

definition compute_alert_dedup_key ::
  "target_id \<Rightarrow> string option \<Rightarrow> string option \<Rightarrow> py_datetime option \<Rightarrow> py_datetime option \<Rightarrow> string option \<Rightarrow> string" where
  "compute_alert_dedup_key target_id message_id message event_timestamp received_at source_id =
     hexdigest (sha256 (utf8_encode (alert_dedup_basis target_id message_id message event_timestamp received_at source_id)))"

definition event_key :: "alert_event \<Rightarrow> string" where
  "event_key e = compute_alert_dedup_key (ae_target_id e) (ae_message_id e) (Some (ae_message e))
     (ae_event_timestamp e) (ae_received_at e) (ae_source_id e)"

definition row_of_event :: "instant \<Rightarrow> alert_event \<Rightarrow> alert_row" where
  "row_of_event now e =
     (let event_ts = map_option to_naive_utc (ae_event_timestamp e);
          received = (case ae_received_at e of None \<Rightarrow> now | Some r \<Rightarrow> to_naive_utc r);
          raw = (case ae_raw e of Some [] \<Rightarrow> None | r \<Rightarrow> r)
      in \<lparr>al_target_id = ae_target_id e, al_target_name = ae_target_name e, al_target_bmc = ae_target_bmc e,
          al_severity = ae_severity e, al_message = ae_message e, al_message_id = ae_message_id e,
          al_event_type = ae_event_type e, al_origin = ae_origin e, al_event_timestamp = event_ts,
          al_received_at = received,
          al_occurred_at = (case event_ts of None \<Rightarrow> received | Some t \<Rightarrow> t),
          al_dedup_key = Some (event_key e), al_raw_data = raw,
          al_cper_status = (if cper_eligible raw then Some Pending else None),
          al_refined_message = None, al_cper_decoded = None, al_cper_attempts = 0,
          al_cper_attempted_at = None\<rparr>)"

text \<open>Candidate rows, duplicates within the batch collapsed to the first.\<close>

fun candidate_rows :: "instant \<Rightarrow> string list \<Rightarrow> alert_event list \<Rightarrow> alert_row list" where
  "candidate_rows now seen [] = []"
| "candidate_rows now seen (e # es) =
     (if event_key e \<in> set seen then candidate_rows now seen es
      else row_of_event now e # candidate_rows now (event_key e # seen) es)"

definition stored_keys :: "alert_db \<Rightarrow> string set" where
  "stored_keys db = {k. \<exists>i r. (i, r) \<in> set (alerts db) \<and> al_dedup_key r = Some k}"

definition key_stored :: "alert_db \<Rightarrow> alert_row \<Rightarrow> bool" where
  "key_stored db r =
     (case al_dedup_key r of None \<Rightarrow> False | Some k \<Rightarrow> list_ex (\<lambda>(_, q). al_dedup_key q = Some k) (alerts db))"

definition insert_alert :: "alert_row \<Rightarrow> alert_db \<Rightarrow> alert_db" where
  "insert_alert r db = db\<lparr>alerts := alerts db @ [(next_id db, r)], next_id := next_id db + 1\<rparr>"

text \<open>Row by row after a lost race: the unique index rejects only the true collisions.\<close>

fun insert_each :: "alert_row list \<Rightarrow> alert_db \<Rightarrow> int \<times> alert_db" where
  "insert_each [] db = (0, db)"
| "insert_each (r # rs) db =
     (if key_stored db r then insert_each rs db
      else (let (n, db') = insert_each rs (insert_alert r db) in (n + 1, db')))"

text \<open>
  \<open>create_alerts_batch\<close>. \<open>race\<close> is what other writers commit between the existence check and
  the commit of the batch; a collision then raises and the rows are inserted one by one.
\<close>

definition create_alerts_batch ::
  "instant \<Rightarrow> (alert_db \<Rightarrow> alert_db) \<Rightarrow> alert_event list \<Rightarrow> alert_db \<Rightarrow> int \<times> alert_db" where
  "create_alerts_batch now race events db =
     (if events = [] then (0, db)
      else
        (let rows = candidate_rows now [] events;
             new_rows = filter (\<lambda>r. \<not> key_stored db r) rows
         in if new_rows = [] then (0, db)
            else
              (let db1 = race db in
               if list_ex (key_stored db1) new_rows then insert_each new_rows db1
               else (int (length new_rows), fold insert_alert new_rows db1))))"

definition alert_source_seen :: "target_id \<Rightarrow> string \<Rightarrow> alert_db \<Rightarrow> bool" where
  "alert_source_seen target_id source_id db =
     (let key = compute_alert_dedup_key target_id None None None None (Some source_id)
      in list_ex (\<lambda>(_, r). al_dedup_key r = Some key) (alerts db))"

section \<open>Queries and retention\<close>

record alert_filter =
  af_target_id :: "target_id option"
  af_severity :: "string option"
  af_since :: "py_datetime option"
  af_severity_in :: "string list"
  af_severity_not_in :: "string list"
  af_search :: string

text \<open>
  \<open>_alert_filters\<close>. An empty text or list is no filter. SQL's \<open>LIKE\<close> treats \<open>%\<close> and \<open>_\<close> in
  the search text as wildcards: \<open>like\<close> is its matcher.
\<close>

fun like :: "string \<Rightarrow> string \<Rightarrow> bool" where
  "like [] s = (s = [])"
| "like (p # ps) [] = (p = CHR ''%'' \<and> like ps [])"
| "like (p # ps) (c # s) =
     (if p = CHR ''%'' then like ps (c # s) \<or> like (p # ps) s
      else (p = CHR ''_'' \<or> p = c) \<and> like ps s)"

definition alert_filters :: "alert_filter \<Rightarrow> alert_row \<Rightarrow> bool" where
  "alert_filters f r \<longleftrightarrow>
     (case af_target_id f of None \<Rightarrow> True | Some t \<Rightarrow> al_target_id r = t) \<and>
     (case af_severity f of None \<Rightarrow> True | Some s \<Rightarrow> s = [] \<or> al_severity r = s) \<and>
     (af_severity_in f = [] \<or> al_severity r \<in> set (af_severity_in f)) \<and>
     (af_severity_not_in f = [] \<or> al_severity r \<notin> set (af_severity_not_in f)) \<and>
     (case af_since f of None \<Rightarrow> True | Some s \<Rightarrow> to_naive_utc s \<le> al_occurred_at r) \<and>
     (af_search f = [] \<or>
        (let pat = ''%'' @ py_lower (af_search f) @ ''%'' in
         like pat (py_lower (al_target_name r)) \<or> like pat (py_lower (al_target_bmc r)) \<or>
         like pat (py_lower (al_message r))))"

text \<open>\<open>ORDER BY occurred_at DESC, id DESC LIMIT ... OFFSET ...\<close>.\<close>

definition get_alerts :: "alert_filter \<Rightarrow> nat \<Rightarrow> nat \<Rightarrow> alert_db \<Rightarrow> (int \<times> alert_row) list" where
  "get_alerts f limit offset db =
     take limit (drop offset
       (sort_key (\<lambda>(i, r). (- al_occurred_at r, - i)) (rows_where (\<lambda>_ r. alert_filters f r) (alerts db))))"

definition count_alerts :: "alert_filter \<Rightarrow> alert_db \<Rightarrow> int" where
  "count_alerts f db = int (count_where (\<lambda>_ r. alert_filters f r) (alerts db))"

definition count_alerts_grouped_by_severity :: "alert_filter \<Rightarrow> alert_db \<Rightarrow> string \<rightharpoonup> int" where
  "count_alerts_grouped_by_severity f db =
     (\<lambda>s. let n = count_where (\<lambda>_ r. alert_filters f r \<and> al_severity r = s) (alerts db)
          in if n = 0 then None else Some (int n))"

definition count_alerts_by_target_severity :: "py_datetime option \<Rightarrow> alert_db \<Rightarrow> target_id \<times> string \<rightharpoonup> int" where
  "count_alerts_by_target_severity since db =
     (\<lambda>(t, s). let n = count_where (\<lambda>_ r. (case since of None \<Rightarrow> True | Some d \<Rightarrow> to_naive_utc d \<le> al_occurred_at r)
                     \<and> al_target_id r = t \<and> al_severity r = s) (alerts db)
          in if n = 0 then None else Some (int n))"

record alert_stats =
  as_total :: int
  as_critical :: int
  as_warning :: int
  as_ok :: int
  as_last_24h :: int

definition get_alert_stats :: "instant \<Rightarrow> alert_db \<Rightarrow> alert_stats" where
  "get_alert_stats now db =
     (let n = (\<lambda>P. int (count_where (\<lambda>_ r. P r) (alerts db))) in
      \<lparr>as_total = n (\<lambda>_. True), as_critical = n (\<lambda>r. al_severity r = ''Critical''),
       as_warning = n (\<lambda>r. al_severity r = ''Warning''), as_ok = n (\<lambda>r. al_severity r = ''OK''),
       as_last_24h = n (\<lambda>r. now - seconds 86400 \<le> al_occurred_at r)\<rparr>)"

text \<open>
  \<open>delete_alerts_before\<close>: bounded chunks until one is short. The loop ends because every
  full chunk removes rows.
\<close>

definition delete_ids :: "int list \<Rightarrow> alert_db \<Rightarrow> alert_db" where
  "delete_ids ids db = db\<lparr>alerts := rows_where (\<lambda>i _. i \<notin> set ids) (alerts db)\<rparr>"

definition expired_ids :: "nat \<Rightarrow> instant \<Rightarrow> alert_db \<Rightarrow> int list" where
  "expired_ids chunk cutoff db = take chunk (map fst (rows_where (\<lambda>_ r. al_received_at r < cutoff) (alerts db)))"

lemma delete_ids_shrinks:
  assumes "expired_ids chunk cutoff db \<noteq> []"
  shows "length (alerts (delete_ids (expired_ids chunk cutoff db) db)) < length (alerts db)"
proof -
  obtain i where i: "i \<in> set (expired_ids chunk cutoff db)" using assms by (meson list.set_sel(1))
  then have "i \<in> fst ` set (alerts db)"
    by (auto simp: expired_ids_def rows_where_def dest!: in_set_takeD)
  then obtain r where r: "(i, r) \<in> set (alerts db)" by auto
  have "length (filter (\<lambda>(j, _). j \<notin> set (expired_ids chunk cutoff db)) (alerts db)) < length (alerts db)"
    using r i by (intro length_filter_less [of "(i, r)"]) auto
  then show ?thesis by (simp add: delete_ids_def rows_where_def)
qed

function delete_expired :: "nat \<Rightarrow> instant \<Rightarrow> int \<Rightarrow> alert_db \<Rightarrow> int \<times> alert_db" where
  "delete_expired chunk cutoff tot db =
     (let ids = expired_ids chunk cutoff db in
      if ids = [] then (tot, db)
      else
        (let db' = delete_ids ids db; tot' = tot + int (length ids) in
         if length ids < chunk then (tot', db') else delete_expired chunk cutoff tot' db'))"
  by pat_completeness auto
termination
  by (relation "measure (\<lambda>(chunk, cutoff, tot, db). length (alerts db))") (auto simp: delete_ids_shrinks)

declare delete_expired.simps [simp del]

definition delete_alerts_before :: "py_datetime \<Rightarrow> alert_db \<Rightarrow> int \<times> alert_db" where
  "delete_alerts_before cutoff db = delete_expired 5000 (to_naive_utc cutoff) 0 db"

definition delete_alerts_by_target :: "target_id \<Rightarrow> alert_db \<Rightarrow> int \<times> alert_db" where
  "delete_alerts_by_target tid db =
     (int (count_where (\<lambda>_ r. al_target_id r = tid) (alerts db)),
      db\<lparr>alerts := rows_where (\<lambda>_ r. al_target_id r \<noteq> tid) (alerts db)\<rparr>)"

section \<open>Log cursors\<close>

definition get_log_cursor :: "target_id \<Rightarrow> string \<Rightarrow> alert_db \<Rightarrow> instant option" where
  "get_log_cursor tid uri db = Option.bind (map_of (log_cursors db) (tid, uri)) lc_last_created"

text \<open>The high-water mark moves forward only.\<close>

definition advance_cursor :: "instant \<Rightarrow> instant \<Rightarrow> log_cursor \<Rightarrow> log_cursor" where
  "advance_cursor now created c =
     (case lc_last_created c of
        None \<Rightarrow> \<lparr>lc_last_created = Some created, lc_updated_at = now\<rparr>
      | Some t \<Rightarrow> if t < created then \<lparr>lc_last_created = Some created, lc_updated_at = now\<rparr> else c)"

text \<open>
  \<open>race\<close> is what another worker commits before this one: when it inserted the same cursor,
  the unique index raises and the value is folded into that row.
\<close>

definition set_log_cursor ::
  "instant \<Rightarrow> (alert_db \<Rightarrow> alert_db) \<Rightarrow> target_id \<Rightarrow> string \<Rightarrow> py_datetime \<Rightarrow> alert_db \<Rightarrow> alert_db" where
  "set_log_cursor now race tid uri last_created db =
     (let created = to_naive_utc last_created in
      case map_of (log_cursors db) (tid, uri) of
        Some c \<Rightarrow> db\<lparr>log_cursors := AList.update (tid, uri) (advance_cursor now created c) (log_cursors db)\<rparr>
      | None \<Rightarrow>
          (let db1 = race db in
           case map_of (log_cursors db1) (tid, uri) of
             None \<Rightarrow> db1\<lparr>log_cursors := AList.update (tid, uri)
                      \<lparr>lc_last_created = Some created, lc_updated_at = now\<rparr> (log_cursors db1)\<rparr>
           | Some c \<Rightarrow> db1\<lparr>log_cursors := AList.update (tid, uri) (advance_cursor now created c) (log_cursors db1)\<rparr>))"

section \<open>CPER bookkeeping\<close>

record pending_cper =
  pc_id :: int
  pc_target_id :: target_id
  pc_uri :: "string option"
  pc_attempts :: int
  pc_has_decoded :: bool

text \<open>The \<open>AdditionalDataURI\<close> of the stored event, read as text.\<close>

definition uri_of_raw :: "json dict option \<Rightarrow> string option" where
  "uri_of_raw raw =
     (case raw of
        None \<Rightarrow> None
      | Some d \<Rightarrow> (case map_of d ''AdditionalDataURI'' of
            None \<Rightarrow> None
          | Some JNull \<Rightarrow> None
          | Some v \<Rightarrow> Some (py_str v)))"

definition is_pending :: "int \<Rightarrow> alert_row \<Rightarrow> bool" where
  "is_pending max_attempts r \<longleftrightarrow> al_cper_status r = Some Pending \<and> al_cper_attempts r < max_attempts"

definition cooled_down :: "instant \<Rightarrow> int \<Rightarrow> alert_row \<Rightarrow> bool" where
  "cooled_down now cooldown r \<longleftrightarrow> cooldown \<le> 0 \<or>
     (case al_cper_attempted_at r of None \<Rightarrow> True | Some t \<Rightarrow> t < now - seconds cooldown)"

definition get_pending_cper_alerts :: "instant \<Rightarrow> nat \<Rightarrow> int \<Rightarrow> int \<Rightarrow> alert_db \<Rightarrow> pending_cper list" where
  "get_pending_cper_alerts now limit max_attempts cooldown db =
     map (\<lambda>(i, r). \<lparr>pc_id = i, pc_target_id = al_target_id r, pc_uri = uri_of_raw (al_raw_data r),
                    pc_attempts = al_cper_attempts r, pc_has_decoded = (al_cper_decoded r \<noteq> None)\<rparr>)
       (take limit (sort_key (\<lambda>(i, r). al_occurred_at r)
         (rows_where (\<lambda>_ r. is_pending max_attempts r \<and> cooled_down now cooldown r) (alerts db))))"

record cper_result =
  cr_id :: int
  cr_status :: cper_status
  cr_refined :: "string option"
  cr_decoded :: "cper_doc option"
  cr_increment :: bool

definition apply_result :: "instant \<Rightarrow> cper_result \<Rightarrow> alert_row \<Rightarrow> alert_row" where
  "apply_result now r row =
     row\<lparr>al_cper_status := Some (cr_status r), al_cper_attempted_at := Some now,
         al_refined_message := (case cr_refined r of None \<Rightarrow> al_refined_message row | Some m \<Rightarrow> Some m),
         al_cper_decoded := (case cr_decoded r of None \<Rightarrow> al_cper_decoded row | Some d \<Rightarrow> Some d),
         al_cper_attempts := al_cper_attempts row + (if cr_increment r then 1 else 0)\<rparr>"

text \<open>
  One savepoint per row: \<open>fails\<close> tells which row writes raise; their changes are undone and
  the rest of the batch is kept.
\<close>

fun set_cper_results_batch ::
  "instant \<Rightarrow> (cper_result \<Rightarrow> bool) \<Rightarrow> cper_result list \<Rightarrow> alert_db \<Rightarrow> int \<times> alert_db" where
  "set_cper_results_batch now fails [] db = (0, db)"
| "set_cper_results_batch now fails (r # rs) db =
     (if fails r then set_cper_results_batch now fails rs db
      else
        (let (n, db') = set_cper_results_batch now fails rs
               (db\<lparr>alerts := map_rows (\<lambda>i row. if i = cr_id r then apply_result now r row else row) (alerts db)\<rparr>)
         in (n + 1, db')))"

definition set_cper_result :: "instant \<Rightarrow> cper_result \<Rightarrow> alert_db \<Rightarrow> alert_db" where
  "set_cper_result now r db =
     (case map_of (alerts db) (cr_id r) of
        None \<Rightarrow> db
      | Some row \<Rightarrow> db\<lparr>alerts := AList.update (cr_id r) (apply_result now r row) (alerts db)\<rparr>)"

definition count_cper_by_status :: "alert_db \<Rightarrow> cper_status \<rightharpoonup> int" where
  "count_cper_by_status db =
     (\<lambda>s. let n = count_where (\<lambda>_ r. al_cper_status r = Some s) (alerts db)
          in if n = 0 then None else Some (int n))"

definition finalize_exhausted_cper :: "int \<Rightarrow> alert_db \<Rightarrow> int \<times> alert_db" where
  "finalize_exhausted_cper max_attempts db =
     (let P = (\<lambda>r. al_cper_status r = Some Pending \<and> max_attempts \<le> al_cper_attempts r) in
      (int (count_where (\<lambda>_ r. P r) (alerts db)),
       db\<lparr>alerts := map_rows (\<lambda>_ r. if P r then r\<lparr>al_cper_status := Some FetchFailed\<rparr> else r) (alerts db)\<rparr>))"

definition requeueable :: "instant \<Rightarrow> int \<Rightarrow> alert_row \<Rightarrow> bool" where
  "requeueable now older_than_minutes r \<longleftrightarrow> al_cper_status r = Some FetchFailed \<and>
     (case al_cper_attempted_at r of None \<Rightarrow> True | Some t \<Rightarrow> t < now - seconds (60 * older_than_minutes))"

text \<open>\<open>ORDER BY cper_attempted_at ASC NULLS FIRST\<close>.\<close>

definition attempted_key :: "alert_row \<Rightarrow> bool \<times> instant" where
  "attempted_key r = (case al_cper_attempted_at r of None \<Rightarrow> (False, 0) | Some t \<Rightarrow> (True, t))"

definition requeue_failed_cper :: "instant \<Rightarrow> int \<Rightarrow> int \<Rightarrow> alert_db \<Rightarrow> int \<times> alert_db" where
  "requeue_failed_cper now older_than_minutes limit db =
     (let stale = rows_where (\<lambda>_ r. requeueable now older_than_minutes r) (alerts db);
          ids = (if 0 < limit then map fst (take (nat limit) (sort_key (\<lambda>(_, r). attempted_key r) stale))
                 else map fst stale)
      in if ids = [] then (0, db)
         else (int (length ids),
               db\<lparr>alerts := map_rows (\<lambda>i r. if i \<in> set ids
                    then r\<lparr>al_cper_status := Some Pending, al_cper_attempts := 0\<rparr> else r) (alerts db)\<rparr>))"

definition get_alert_cper :: "int \<Rightarrow> alert_db \<Rightarrow> cper_doc option" where
  "get_alert_cper i db = Option.bind (map_of (alerts db) i) al_cper_decoded"

text \<open>
  \<open>mark_eligible_cper_pending\<close>: id-ordered chunks of the rows not yet considered, until a
  chunk is short.
\<close>

definition unmarked_batch :: "nat \<Rightarrow> int \<Rightarrow> alert_db \<Rightarrow> (int \<times> alert_row) list" where
  "unmarked_batch chunk last_id db =
     take chunk (sort_key fst (rows_where
       (\<lambda>i r. al_cper_status r = None \<and> al_raw_data r \<noteq> None \<and> last_id < i) (alerts db)))"

lemma unmarked_batch_last:
  assumes "unmarked_batch chunk last_id db \<noteq> []"
  shows "last_id < fst (last (unmarked_batch chunk last_id db))"
    and "fst (last (unmarked_batch chunk last_id db)) \<in> fst ` set (alerts db)"
proof -
  have "last (unmarked_batch chunk last_id db) \<in> set (unmarked_batch chunk last_id db)"
    using assms by (rule last_in_set)
  then show "last_id < fst (last (unmarked_batch chunk last_id db))"
    "fst (last (unmarked_batch chunk last_id db)) \<in> fst ` set (alerts db)"
    by (auto simp: unmarked_batch_def rows_where_def dest!: in_set_takeD)
qed

definition mark_pending :: "int list \<Rightarrow> alert_db \<Rightarrow> alert_db" where
  "mark_pending ids db = db\<lparr>alerts :=
     map_rows (\<lambda>i r. if i \<in> set ids then r\<lparr>al_cper_status := Some Pending\<rparr> else r) (alerts db)\<rparr>"

lemma fst_mark_pending [simp]: "map fst (alerts (mark_pending ids db)) = map fst (alerts db)"
  by (simp add: mark_pending_def)

lemma set_fst_mark_pending [simp]: "fst ` set (alerts (mark_pending ids db)) = fst ` set (alerts db)"
  by (metis fst_mark_pending list.set_map)

function mark_eligible_loop :: "nat \<Rightarrow> int \<Rightarrow> int \<Rightarrow> alert_db \<Rightarrow> int \<times> alert_db" where
  "mark_eligible_loop chunk last_id marked db =
     (let batch = unmarked_batch chunk last_id db in
      if batch = [] then (marked, db)
      else
        (let ids = map fst (filter (\<lambda>(_, r). cper_eligible (al_raw_data r)) batch);
             db' = mark_pending ids db
         in if length batch < chunk then (marked + int (length ids), db')
            else mark_eligible_loop chunk (fst (last batch)) (marked + int (length ids)) db'))"
  by pat_completeness auto
termination
proof (relation "measure (\<lambda>(chunk, last_id, marked, db). card {i \<in> fst ` set (alerts db). last_id < i})", goal_cases)
  case (2 chunk last_id marked db batch ids db')
  then have b: "unmarked_batch chunk last_id db \<noteq> []" by simp
  let ?l = "fst (last (unmarked_batch chunk last_id db))"
  have "?l \<in> {i \<in> fst ` set (alerts db). last_id < i}" using unmarked_batch_last [OF b] by simp
  moreover have "?l \<notin> {i \<in> fst ` set (alerts db). ?l < i}" by simp
  moreover have "{i \<in> fst ` set (alerts db). ?l < i} \<subseteq> {i \<in> fst ` set (alerts db). last_id < i}"
    using unmarked_batch_last(1) [OF b] by auto
  ultimately have "{i \<in> fst ` set (alerts db). ?l < i} \<subset> {i \<in> fst ` set (alerts db). last_id < i}" by blast
  then show ?case using 2 by (simp add: psubset_card_mono)
qed simp

declare mark_eligible_loop.simps [simp del]

definition mark_eligible_cper_pending :: "alert_db \<Rightarrow> int \<times> alert_db" where
  "mark_eligible_cper_pending db = mark_eligible_loop 1000 0 0 db"

section \<open>Ingestion keeps the keys unique\<close>

definition key_list :: "alert_db \<Rightarrow> string list" where
  "key_list db = List.map_filter (\<lambda>(_, r). al_dedup_key r) (alerts db)"

text \<open>Primary key, unique index, and an autoincrement counter ahead of every row.\<close>

definition alerts_ok :: "alert_db \<Rightarrow> bool" where
  "alerts_ok db \<longleftrightarrow> unique_key (alerts db) \<and> (\<forall>i \<in> fst ` set (alerts db). i < next_id db) \<and> distinct (key_list db)"

lemma set_key_list: "set (key_list db) = stored_keys db"
  by (force simp: key_list_def stored_keys_def map_filter_def)

lemma key_stored_iff: "key_stored db r \<longleftrightarrow> (\<exists>k. al_dedup_key r = Some k \<and> k \<in> set (key_list db))"
  unfolding set_key_list by (force simp: key_stored_def stored_keys_def list_ex_iff split: option.splits)

lemma key_list_insert:
  "key_list (insert_alert r db) = key_list db @ (case al_dedup_key r of None \<Rightarrow> [] | Some k \<Rightarrow> [k])"
  by (simp add: key_list_def insert_alert_def map_filter_def split: option.split)

lemma alerts_ok_insert: "alerts_ok db \<Longrightarrow> \<not> key_stored db r \<Longrightarrow> alerts_ok (insert_alert r db)"
  by (auto simp: alerts_ok_def key_list_insert key_stored_iff split: option.splits)
    (auto simp: insert_alert_def)

lemma insert_each_ok: "alerts_ok db \<Longrightarrow> alerts_ok (snd (insert_each rs db))"
  by (induction rs db rule: insert_each.induct) (auto simp: alerts_ok_insert split: prod.splits)

lemma insert_each_keys:
  "set (key_list (snd (insert_each rs db))) = set (key_list db) \<union> {k. \<exists>r \<in> set rs. al_dedup_key r = Some k}"
proof (induction rs db rule: insert_each.induct)
  case (2 r rs db)
  show ?case
  proof (cases "key_stored db r")
    case True
    then show ?thesis using 2(1) by (auto simp: key_stored_iff)
  next
    case False
    then show ?thesis using 2(2) by (auto simp: key_list_insert split: prod.split option.splits)
  qed
qed simp

lemma insert_each_count:
  "fst (insert_each rs db) = int (length (alerts (snd (insert_each rs db)))) - int (length (alerts db))"
  by (induction rs db rule: insert_each.induct) (auto simp: insert_alert_def split: prod.splits)

text \<open>Without a collision, adding all rows is adding them one by one.\<close>

lemma insert_each_fold:
  assumes "distinct (map al_dedup_key rs)" "\<forall>r \<in> set rs. al_dedup_key r \<noteq> None \<and> \<not> key_stored db r"
  shows "insert_each rs db = (int (length rs), fold insert_alert rs db)"
  using assms
proof (induction rs arbitrary: db)
  case (Cons r rs)
  have "\<not> key_stored (insert_alert r db) q" if "q \<in> set rs" for q
    using Cons.prems that
    by (auto simp: key_stored_iff key_list_insert split: option.splits) (metis image_eqI)
  with Cons show ?case by simp
qed simp

lemma candidate_rows_keys:
  "distinct (map al_dedup_key (candidate_rows now seen es)) \<and>
   al_dedup_key ` set (candidate_rows now seen es) = Some ` (event_key ` set es - set seen)"
proof (induction now seen es rule: candidate_rows.induct)
  case (2 now seen e es)
  have "al_dedup_key (row_of_event now e) = Some (event_key e)" by (simp add: row_of_event_def Let_def)
  with 2 show ?case by (cases "event_key e \<in> set seen") (auto simp: image_iff)
qed simp

lemma create_batch_insert_each:
  "create_alerts_batch now race events db =
     (let new_rows = filter (\<lambda>r. \<not> key_stored db r) (candidate_rows now [] events) in
      if new_rows = [] then (0, db) else insert_each new_rows (race db))"
proof -
  let ?rows = "candidate_rows now [] events"
  let ?new = "filter (\<lambda>r. \<not> key_stored db r) ?rows"
  have d: "distinct (map al_dedup_key ?new)"
    using candidate_rows_keys [of now "[]" events] by (simp add: distinct_map inj_on_def)
  have k: "\<forall>r \<in> set ?new. al_dedup_key r \<noteq> None"
    using candidate_rows_keys [of now "[]" events] by (metis filter_is_subset imageE imageI option.distinct(1) subsetD)
  have "insert_each ?new (race db) = (int (length ?new), fold insert_alert ?new (race db))"
    if "\<not> list_ex (key_stored (race db)) ?new"
    using that k by (intro insert_each_fold [OF d]) (auto simp: list_ex_iff)
  then show ?thesis
    by (auto simp: create_alerts_batch_def Let_def)
qed

lemma create_batch_correct:
  assumes "alerts_ok db" and "alerts_ok (race db)" and "stored_keys db \<subseteq> stored_keys (race db)"
  shows "alerts_ok (snd (create_alerts_batch now race events db)) \<and>
    event_key ` set events \<subseteq> stored_keys (snd (create_alerts_batch now race events db)) \<and>
    (fst (create_alerts_batch now race events db) = 0 \<or>
     fst (create_alerts_batch now race events db) =
       int (length (alerts (snd (create_alerts_batch now race events db)))) - int (length (alerts (race db))))"
proof -
  let ?new = "filter (\<lambda>r. \<not> key_stored db r) (candidate_rows now [] events)"
  have keys: "event_key e \<in> stored_keys db \<or> (\<exists>r \<in> set ?new. al_dedup_key r = Some (event_key e))"
    if "e \<in> set events" for e
  proof -
    have "Some (event_key e) \<in> al_dedup_key ` set (candidate_rows now [] events)"
      using candidate_rows_keys [of now "[]" events] that by auto
    then show ?thesis by (auto simp: key_stored_iff set_key_list)
  qed
  show ?thesis
  proof (cases "?new = []")
    case True
    then show ?thesis using assms(1) keys
      by (auto simp: create_batch_insert_each filter_empty_conv key_stored_iff set_key_list)
  next
    case False
    have "event_key ` set events \<subseteq> stored_keys (snd (insert_each ?new (race db)))"
      using keys assms(3) insert_each_keys [of ?new "race db"] unfolding set_key_list by auto
    then show ?thesis
      using False insert_each_ok [OF assms(2), of ?new] insert_each_count [of ?new "race db"]
      by (simp add: create_batch_insert_each Let_def)
  qed
qed

lemma create_batch_keeps_keys:
  "stored_keys db \<subseteq> stored_keys (race db) \<Longrightarrow> stored_keys db \<subseteq> stored_keys (snd (create_alerts_batch now race events db))"
  using insert_each_keys [of _ "race db"] by (auto simp: create_batch_insert_each Let_def set_key_list)

text \<open>
  What a batch has to add, said without the code's loop: the events whose key is not in \<open>K\<close>
  and that no earlier event of the batch has, in the order of the batch.
\<close>

definition new_events :: "string set \<Rightarrow> alert_event list \<Rightarrow> alert_event list" where
  "new_events K es = map ((!) es) (filter
     (\<lambda>i. event_key (es ! i) \<notin> K \<and> (\<forall>j < i. event_key (es ! j) \<noteq> event_key (es ! i))) [0..<length es])"

lemma new_events_Nil [simp]: "new_events K [] = []"
  by (simp add: new_events_def)

lemma new_events_Cons [simp]:
  "new_events K (e # es) = (if event_key e \<in> K then [] else [e]) @ new_events (insert (event_key e) K) es"
proof -
  have "[0..<length (e # es)] = 0 # map Suc [0..<length es]" by (simp add: upt_conv_Cons map_Suc_upt del: upt_Suc)
  moreover have "(\<forall>j < Suc i. P j) \<longleftrightarrow> P 0 \<and> (\<forall>j < i. P (Suc j))" for P i
    by (auto simp: less_Suc_eq_0_disj)
  ultimately show ?thesis by (auto simp: new_events_def filter_map comp_def intro!: arg_cong [where f = "map ((!) es)"] filter_cong)
qed

lemma filter_new_events: "filter (\<lambda>e. event_key e \<notin> L) (new_events K es) = new_events (K \<union> L) es"
  by (induction es arbitrary: K) auto

lemma new_events_keys: "distinct (map event_key (new_events K es)) \<and>
    event_key ` set (new_events K es) = event_key ` set es - K"
  by (induction es arbitrary: K) (auto simp: image_iff)

lemma dedup_key_row_of_event [simp]: "al_dedup_key (row_of_event now e) = Some (event_key e)"
  by (simp add: row_of_event_def Let_def)

lemma candidate_rows_new_events:
  "candidate_rows now seen es = map (row_of_event now) (new_events (set seen) es)"
  by (induction now seen es rule: candidate_rows.induct) (auto simp: insert_absorb)

lemma key_stored_event [simp]: "key_stored db (row_of_event now e) \<longleftrightarrow> event_key e \<in> stored_keys db"
  by (simp add: key_stored_iff set_key_list)

lemma fold_insert_alert:
  "fold insert_alert rs db = db\<lparr>
     alerts := alerts db @ zip (map (\<lambda>n. next_id db + int n) [0..<length rs]) rs,
     next_id := next_id db + int (length rs)\<rparr>"
  by (induction rs rule: rev_induct) (simp_all add: insert_alert_def)

lemma insert_each_filter:
  assumes "distinct (map al_dedup_key rs)" "\<forall>r \<in> set rs. al_dedup_key r \<noteq> None"
  shows "insert_each rs db = insert_each (filter (\<lambda>r. \<not> key_stored db r) rs) db"
proof -
  have "insert_each rs db = insert_each (filter (\<lambda>r. r \<in> R \<or> \<not> key_stored db r) rs) db"
    if "\<forall>r \<in> set rs. r \<in> R \<longrightarrow> \<not> key_stored db r" for R
    using that assms
  proof (induction rs arbitrary: db R)
    case (Cons r rs)
    show ?case
    proof (cases "key_stored db r")
      case True
      with Cons.prems have "r \<notin> R" by auto
      with True Cons show ?thesis by auto
    next
      case False
      have same: "key_stored (insert_alert r db) q \<longleftrightarrow> key_stored db q" if "q \<in> set rs" for q
        using Cons.prems that
        by (auto simp: key_stored_iff key_list_insert split: option.splits) (metis image_eqI)+
      have "insert_each rs (insert_alert r db) =
          insert_each (filter (\<lambda>q. q \<in> R \<or> \<not> key_stored (insert_alert r db) q) rs) (insert_alert r db)"
        by (rule Cons.IH) (use Cons.prems same in auto)
      also have "filter (\<lambda>q. q \<in> R \<or> \<not> key_stored (insert_alert r db) q) rs =
          filter (\<lambda>q. q \<in> R \<or> \<not> key_stored db q) rs"
        by (rule filter_cong) (use same in auto)
      finally show ?thesis using False by simp
    qed
  qed simp
  from this [of "{}"] show ?thesis by simp
qed

text \<open>
  (C6) Deduplicated ingestion: whatever other writers commit in the middle of a batch (as long
  as they respect the unique index and delete nothing), the batch adds, behind the rows that are
  there and under consecutive ids, exactly the row of each event that is the first of the batch
  with its key and whose key nobody stored, the number returned is the number of rows added, no
  two stored alerts share an idempotency key afterwards and no event of the batch is lost. When
  every key is stored already nothing is written at all.
\<close>

theorem create_alerts_batch_dedup:
  assumes "alerts_ok db" and "alerts_ok (race db)" and "stored_keys db \<subseteq> stored_keys (race db)"
    and "base = (if event_key ` set events \<subseteq> stored_keys db then db else race db)"
    and "fresh = new_events (stored_keys base) events"
  shows "create_alerts_batch now race events db =
      (int (length fresh), base\<lparr>
         alerts := alerts base @ zip (map (\<lambda>n. next_id base + int n) [0..<length fresh]) (map (row_of_event now) fresh),
         next_id := next_id base + int (length fresh)\<rparr>) \<and>
    alerts_ok (snd (create_alerts_batch now race events db)) \<and>
    event_key ` set events \<subseteq> stored_keys (snd (create_alerts_batch now race events db))"
proof -
  let ?new = "map (row_of_event now) (new_events (stored_keys db) events)"
  have new: "filter (\<lambda>r. \<not> key_stored db r) (candidate_rows now [] events) = ?new"
    by (simp add: candidate_rows_new_events filter_map comp_def filter_new_events)
  have batch: "create_alerts_batch now race events db = (if ?new = [] then (0, db) else insert_each ?new (race db))"
    unfolding create_batch_insert_each new by (simp add: Let_def)
  have empty: "?new = [] \<longleftrightarrow> event_key ` set events \<subseteq> stored_keys db"
    using new_events_keys [of "stored_keys db" events] by (metis Diff_eq_empty_iff image_is_empty map_is_Nil_conv set_empty)
  have d: "distinct (map al_dedup_key (map (row_of_event now) (new_events K events)))" for K
    using new_events_keys [of K events] by (simp add: comp_def distinct_map inj_on_def)
  have "insert_each ?new (race db) =
      insert_each (map (row_of_event now) (new_events (stored_keys (race db)) events)) (race db)"
    by (subst insert_each_filter [OF d])
      (auto simp: filter_map comp_def filter_new_events Un_absorb1 [OF assms(3)])
  also have "\<dots> = (int (length (new_events (stored_keys (race db)) events)),
      fold insert_alert (map (row_of_event now) (new_events (stored_keys (race db)) events)) (race db))"
    by (subst insert_each_fold [OF d]) (use new_events_keys [of "stored_keys (race db)" events] in auto)
  finally have each: "insert_each ?new (race db) = \<dots>" .
  have "create_alerts_batch now race events db = (int (length fresh), fold insert_alert (map (row_of_event now) fresh) base)"
  proof (cases "event_key ` set events \<subseteq> stored_keys db")
    case True
    with empty show ?thesis unfolding batch assms(4, 5) by simp
  next
    case False
    with empty each show ?thesis unfolding batch assms(4, 5) by simp
  qed
  with create_batch_correct [of db race now events, OF assms(1-3)] show ?thesis
    by (simp add: fold_insert_alert del: fold_simps)
qed

text \<open>
  Idempotence: ingesting a batch again, in any order or split and mixed with events
  already stored, adds nothing and changes nothing.
\<close>

lemma create_alerts_batch_idempotent:
  assumes "event_key ` set events \<subseteq> stored_keys db"
  shows "create_alerts_batch now race events db = (0, db)"
proof -
  have "key_stored db r" if "r \<in> set (candidate_rows now [] events)" for r
  proof -
    have "al_dedup_key r \<in> Some ` event_key ` set events"
      using candidate_rows_keys [of now "[]" events] that by (metis Diff_empty empty_set imageI)
    then show ?thesis using assms by (auto simp: key_stored_iff set_key_list)
  qed
  then show ?thesis by (simp add: create_batch_insert_each Let_def filter_empty_conv)
qed

definition demo_event :: alert_event where
  "demo_event = \<lparr>ae_target_id = 7, ae_target_name = ''node7'', ae_target_bmc = ''10.0.0.7'', ae_severity = ''Critical'',
     ae_message = ''GPU fault'', ae_message_id = Some ''Gpu.1.0.Fault'', ae_event_type = ''Alert'', ae_origin = None,
     ae_event_timestamp = Some (Aware (seconds 7200) (seconds 3600)), ae_received_at = Some (Naive (seconds 9000)),
     ae_raw = None, ae_source_id = None\<rparr>"

definition empty_alert_db :: alert_db where
  "empty_alert_db = \<lparr>alerts = [], next_id = 1, log_cursors = []\<rparr>"

lemma empty_alert_db_ok: "alerts_ok empty_alert_db"
  by (simp add: alerts_ok_def empty_alert_db_def key_list_def map_filter_def)

theorem create_alerts_batch_dedup_witness:
  "create_alerts_batch 5 id [demo_event, demo_event] empty_alert_db =
     (1, \<lparr>alerts = [(1, row_of_event 5 demo_event)], next_id = 2, log_cursors = []\<rparr>)"
  using create_alerts_batch_dedup [of empty_alert_db id empty_alert_db "[demo_event, demo_event]" _ 5]
  by (simp add: empty_alert_db_ok) (simp add: empty_alert_db_def stored_keys_def)

lemma create_alerts_batch_idempotent_witness:
  "create_alerts_batch 5 id [demo_event, demo_event] (insert_alert (row_of_event 1 demo_event) empty_alert_db) =
     (0, insert_alert (row_of_event 1 demo_event) empty_alert_db)"
  by (rule create_alerts_batch_idempotent)
    (simp add: stored_keys_def insert_alert_def empty_alert_db_def row_of_event_def Let_def)

section \<open>What the idempotency key identifies\<close>

lemma US_not_digit: "d < 10 \<Longrightarrow> digit_char d \<noteq> CHR 0x1F"
proof
  assume "d < 10" "digit_char d = CHR 0x1F"
  moreover have "digit_value (CHR 0x1F) = None" by code_simp
  ultimately show False using digit_value_digit_char [of d] by simp
qed

lemma US_not_in_number: "CHR 0x1F \<notin> set (py_str_int i)"
proof -
  have "CHR 0x1F \<notin> set (dec_of_nat n)" for n using digit_of_dec US_not_digit by metis
  then show ?thesis by (simp add: py_str_int_def)
qed

lemma US_not_in_isoformat: "CHR 0x1F \<notin> set (isoformat t)"
  using isoformat_chars [of "CHR 0x1F" t] US_not_digit by fastforce

lemma join4_inject:
  assumes "py_join US [a, b, c, d] = py_join US [a', b', c', d']"
    and "CHR 0x1F \<notin> set a" "CHR 0x1F \<notin> set a'" "CHR 0x1F \<notin> set b" "CHR 0x1F \<notin> set b'"
      "CHR 0x1F \<notin> set c" "CHR 0x1F \<notin> set c'"
  shows "a = a' \<and> b = b' \<and> c = c' \<and> d = d'"
proof -
  have "a @ CHR 0x1F # (b @ CHR 0x1F # (c @ CHR 0x1F # d)) = a' @ CHR 0x1F # (b' @ CHR 0x1F # (c' @ CHR 0x1F # d'))"
    using assms(1) by (simp add: US_def)
  from split_at_separator [OF assms(2, 3) this] have a: "a = a'"
    and "b @ CHR 0x1F # (c @ CHR 0x1F # d) = b' @ CHR 0x1F # (c' @ CHR 0x1F # d')" by simp_all
  from split_at_separator [OF assms(4, 5) this(2)] have b: "b = b'"
    and "c @ CHR 0x1F # d = c' @ CHR 0x1F # d'" by simp_all
  from split_at_separator [OF assms(6, 7) this(2)] a b show ?thesis by simp
qed

text \<open>
  Convergent keys: for events that carry a timestamp, the text that is hashed is the same
  exactly when target, message id, message and the instant of occurrence (in UTC, whatever
  zone it was written in) are the same; how and when the event was received does not matter.
\<close>

lemma dedup_basis_identifies:
  assumes "0 \<le> to_naive_utc ts" and "0 \<le> to_naive_utc ts'"
    and "CHR 0x1F \<notin> set (or_empty mid)" and "CHR 0x1F \<notin> set (or_empty mid')"
  shows "alert_dedup_basis t mid msg (Some ts) rcv src = alert_dedup_basis t' mid' msg' (Some ts') rcv' src' \<longleftrightarrow>
    t = t' \<and> or_empty mid = or_empty mid' \<and> to_naive_utc ts = to_naive_utc ts' \<and> or_empty msg = or_empty msg'"
proof
  assume "alert_dedup_basis t mid msg (Some ts) rcv src = alert_dedup_basis t' mid' msg' (Some ts') rcv' src'"
  then have "py_join US [py_str_int t, or_empty mid, isoformat (to_naive_utc ts), or_empty msg] =
      py_join US [py_str_int t', or_empty mid', isoformat (to_naive_utc ts'), or_empty msg']"
    by (simp add: alert_dedup_basis_def)
  from join4_inject [OF this US_not_in_number US_not_in_number assms(3, 4) US_not_in_isoformat US_not_in_isoformat]
  show "t = t' \<and> or_empty mid = or_empty mid' \<and> to_naive_utc ts = to_naive_utc ts' \<and> or_empty msg = or_empty msg'"
    using isoformat_inject [OF assms(1, 2)] by simp
qed (simp add: alert_dedup_basis_def)

lemma dedup_basis_identifies_witness:
  "alert_dedup_basis 7 (Some ''Gpu.1.0'') (Some ''m'') (Some (Aware (seconds 7200) (seconds 3600))) None None =
   alert_dedup_basis 7 (Some ''Gpu.1.0'') (Some ''m'') (Some (Naive (seconds 3600))) (Some (Naive 5)) (Some ''x'')"
  using dedup_basis_identifies [of "Aware (seconds 7200) (seconds 3600)" "Naive (seconds 3600)"
      "Some ''Gpu.1.0''" "Some ''Gpu.1.0''" 7 "Some ''m''" None None 7 "Some ''m''" "Some (Naive 5)" "Some ''x''"]
  by (simp add: or_empty_def)

section \<open>Retention in chunks\<close>

lemma expired_idsD:
  assumes "unique_key (alerts db)" "i \<in> set (expired_ids chunk cutoff db)" "(i, r) \<in> set (alerts db)"
  shows "al_received_at r < cutoff"
proof -
  obtain q where "(i, q) \<in> set (alerts db)" "al_received_at q < cutoff"
    using assms(2) by (auto simp: expired_ids_def rows_where_def dest!: in_set_takeD)
  then show ?thesis using assms(1, 3) by (metis eq_key_imp_eq_value)
qed

lemma kept_after_chunk:
  assumes "unique_key (alerts db)"
  shows "rows_where (\<lambda>_ r. \<not> al_received_at r < cutoff) (alerts (delete_ids (expired_ids chunk cutoff db) db)) =
    rows_where (\<lambda>_ r. \<not> al_received_at r < cutoff) (alerts db)"
  using expired_idsD [OF assms, of _ chunk cutoff]
  by (auto simp: delete_ids_def rows_where_def intro!: filter_cong)

lemma count_after_chunk:
  assumes "unique_key (alerts db)"
  shows "count_where (\<lambda>_ r. al_received_at r < cutoff) (alerts (delete_ids (expired_ids chunk cutoff db) db)) +
      length (expired_ids chunk cutoff db) = count_where (\<lambda>_ r. al_received_at r < cutoff) (alerts db)"
proof -
  let ?ids = "expired_ids chunk cutoff db"
  let ?K = "\<lambda>T. {k. \<exists>v. map_of T k = Some v \<and> al_received_at v < cutoff}"
  have d: "distinct ?ids" using assms by (simp add: expired_ids_def)
  have sub: "set ?ids \<subseteq> ?K (alerts db)"
    using assms by (fastforce simp: expired_ids_def rows_where_def map_of_eq_Some_iff dest!: in_set_takeD)
  have "?K (alerts (delete_ids ?ids db)) = ?K (alerts db) - set ?ids"
    using assms by (auto simp: delete_ids_def table_simps split: option.splits if_splits)
  then have "card (?K (alerts (delete_ids ?ids db))) + length ?ids = card (?K (alerts db))"
    using sub d card_mono [OF _ sub] by (simp add: card_Diff_subset distinct_card)
  then show ?thesis using assms by (simp add: count_where_card delete_ids_def)
qed

lemma delete_expired_spec:
  assumes "0 < chunk" "unique_key (alerts db)"
  shows "delete_expired chunk cutoff tot db =
    (tot + int (count_where (\<lambda>_ r. al_received_at r < cutoff) (alerts db)),
     db\<lparr>alerts := rows_where (\<lambda>_ r. \<not> al_received_at r < cutoff) (alerts db)\<rparr>)"
  using assms
proof (induction chunk cutoff tot db rule: delete_expired.induct)
  case (1 chunk cutoff tot db)
  let ?ids = "expired_ids chunk cutoff db" and ?exp = "rows_where (\<lambda>_ r. al_received_at r < cutoff) (alerts db)"
  let ?db' = "delete_ids ?ids db"
  have u': "unique_key (alerts ?db')" using 1(3) by (simp add: delete_ids_def)
  have rec_eq: "?db'\<lparr>alerts := x\<rparr> = db\<lparr>alerts := x\<rparr>" for x by (simp add: delete_ids_def)
  note step = kept_after_chunk [OF 1(3), of cutoff chunk] count_after_chunk [OF 1(3), of cutoff chunk]
  consider (none) "?ids = []" | (short) "?ids \<noteq> []" "length ?ids < chunk" | (full) "?ids \<noteq> []" "\<not> length ?ids < chunk"
    by blast
  then show ?case
  proof cases
    case none
    then have "?exp = []" using 1(2) by (simp add: expired_ids_def)
    then have "rows_where (\<lambda>_ r. \<not> al_received_at r < cutoff) (alerts db) = alerts db"
      by (auto simp: rows_where_def filter_empty_conv intro!: filter_True)
    then show ?thesis using none \<open>?exp = []\<close> by (subst delete_expired.simps) (simp add: count_where_def)
  next
    case short
    then have ids: "?ids = map fst ?exp" by (simp add: expired_ids_def)
    then have "count_where (\<lambda>_ r. al_received_at r < cutoff) (alerts ?db') = 0"
      using step(2) by (simp add: count_where_def)
    then have "rows_where (\<lambda>_ r. \<not> al_received_at r < cutoff) (alerts ?db') = alerts ?db'"
      by (auto simp: count_where_def rows_where_def filter_empty_conv intro!: filter_True)
    then have "?db' = db\<lparr>alerts := rows_where (\<lambda>_ r. \<not> al_received_at r < cutoff) (alerts db)\<rparr>"
      using step(1) rec_eq [of "alerts ?db'"] by simp
    then show ?thesis using short ids by (subst delete_expired.simps) (simp add: count_where_def)
  next
    case full
    have "delete_expired chunk cutoff (tot + int (length ?ids)) ?db' =
        (tot + int (length ?ids) + int (count_where (\<lambda>_ r. al_received_at r < cutoff) (alerts ?db')),
         ?db'\<lparr>alerts := rows_where (\<lambda>_ r. \<not> al_received_at r < cutoff) (alerts ?db')\<rparr>)"
      by (rule 1(1)) (use full 1(2) u' in simp_all)
    also have "\<dots> = (tot + int (count_where (\<lambda>_ r. al_received_at r < cutoff) (alerts db)),
         db\<lparr>alerts := rows_where (\<lambda>_ r. \<not> al_received_at r < cutoff) (alerts db)\<rparr>)"
      using step(2) unfolding step(1) rec_eq by simp
    finally show ?thesis using full by (subst delete_expired.simps) (simp add: Let_def)
  qed
qed

text \<open>
  Retention: the chunked loop of \<open>delete_alerts_before\<close> ends, removes exactly the alerts
  received before the cutoff (by receipt, not by occurrence), keeps all others in place, and
  returns how many it removed.
\<close>

lemma delete_alerts_before_exact:
  assumes "alerts_ok db"
  shows "delete_alerts_before cutoff db =
    (int (count_where (\<lambda>_ r. al_received_at r < to_naive_utc cutoff) (alerts db)),
     db\<lparr>alerts := rows_where (\<lambda>_ r. \<not> al_received_at r < to_naive_utc cutoff) (alerts db)\<rparr>)"
  using delete_expired_spec [of 5000 db "to_naive_utc cutoff" 0] assms
  by (simp add: delete_alerts_before_def alerts_ok_def)

lemma delete_alerts_before_exact_witness:
  "delete_alerts_before (Naive 5) empty_alert_db =
    (int (count_where (\<lambda>_ r. al_received_at r < to_naive_utc (Naive 5)) (alerts empty_alert_db)),
     empty_alert_db\<lparr>alerts := rows_where (\<lambda>_ r. \<not> al_received_at r < to_naive_utc (Naive 5)) (alerts empty_alert_db)\<rparr>)"
  by (rule delete_alerts_before_exact) (rule empty_alert_db_ok)

end
