(* ===== verification/Cper_Decoder.thy ===== *)
theory Cper_Decoder
  imports Alert_Store
begin

text \<open>
  \<open>collector/src/redfish/cper_decoder.py\<close>: fetching an attachment, running \<open>cper-convert\<close>,
  attaching the AMD decodes to the \<open>libcper\<close> JSON, and the one-line summary. The BMC and the
  converter are arguments. Reading JSON of an unexpected shape raises in Python; such a
  function returns \<open>None\<close> where the code raises.
\<close>

section \<open>Fetching and converting\<close>

text \<open>What the HTTP client answers: a status with a body, or a transport error.\<close>

datatype http_reply = HttpReply int "byte list" | HttpFailed

datatype fetch_error = CperGone | TooLarge | Transient

text \<open>
  \<open>raise_for_status\<close> of the HTTP library raises for every status outside 200 to 299.
\<close>

definition attachment_url :: "string \<Rightarrow> string \<Rightarrow> string" where
  "attachment_url base_url uri = (if starts_with uri ''/'' then base_url @ uri else uri)"

definition fetch_cper_attachment ::
  "(string \<Rightarrow> http_reply) \<Rightarrow> string \<Rightarrow> string \<Rightarrow> nat \<Rightarrow> fetch_error + byte list" where
  "fetch_cper_attachment http base_url uri max_bytes =
     (case http (attachment_url base_url uri) of
        HttpFailed \<Rightarrow> Inl Transient
      | HttpReply status data \<Rightarrow>
          if status = 404 \<or> status = 410 then Inl CperGone
          else if status < 200 \<or> 300 \<le> status then Inl Transient
          else if max_bytes < length data then Inl TooLarge
          else Inr data)"

text \<open>One run of the converter; \<open>Exited\<close> carries its exit code and what its output parses to.\<close>

datatype convert_run = TempFileFailed | ToolMissing | TimedOut | Exited int "json option"

definition decode_cper :: "(byte list \<Rightarrow> convert_run) \<Rightarrow> byte list \<Rightarrow> json option" where
  "decode_cper convert data =
     (if data = [] then None
      else case convert data of
        TempFileFailed \<Rightarrow> None
      | ToolMissing \<Rightarrow> None
      | TimedOut \<Rightarrow> None
      | Exited code out \<Rightarrow>
          if code \<noteq> 0 then None
          else (case out of None \<Rightarrow> None | Some JNull \<Rightarrow> None | Some v \<Rightarrow> Some v))"

section \<open>Base64\<close>

text \<open>
  \<open>base64.b64decode(s, validate=False)\<close>: characters outside the alphabet are skipped, a
  complete padding ends the input, and an incomplete last group raises. \<open>q\<close> is the position
  in the group of four, \<open>p\<close> the padding seen, \<open>left\<close> the bits carried over.
\<close>

definition b64_value :: "char \<Rightarrow> nat option" where
  "b64_value c =
     (let n = (of_char c :: nat) in
      if 65 \<le> n \<and> n \<le> 90 then Some (n - 65)
      else if 97 \<le> n \<and> n \<le> 122 then Some (n - 71)
      else if 48 \<le> n \<and> n \<le> 57 then Some (n + 4)
      else if n = 43 then Some 62
      else if n = 47 then Some 63
      else None)"

fun b64_run :: "nat \<Rightarrow> nat \<Rightarrow> nat \<Rightarrow> string \<Rightarrow> byte list option" where
  "b64_run q p left [] = (if q = 0 then Some [] else None)"
| "b64_run q p left (c # s) =
     (if c = CHR ''='' then
        (if 2 \<le> q \<and> 4 \<le> q + (p + 1) then Some []
         else if 2 \<le> q then b64_run q (p + 1) left s else b64_run q p left s)
      else case b64_value c of
        None \<Rightarrow> b64_run q p left s
      | Some v \<Rightarrow>
          if q = 0 then b64_run 1 0 v s
          else if q = 1 then map_option ((#) (of_nat (left * 4 + v div 16))) (b64_run 2 0 (v mod 16) s)
          else if q = 2 then map_option ((#) (of_nat (left * 16 + v div 4))) (b64_run 3 0 (v mod 4) s)
          else map_option ((#) (of_nat (left * 64 + v))) (b64_run 0 0 0 s))"

text \<open>A text with a byte outside ASCII, and a value that is not a text, raise.\<close>

definition b64decode :: "json \<Rightarrow> byte list option" where
  "b64decode v =
     (case v of
        JStr s \<Rightarrow> if list_all (\<lambda>c. (of_char c :: nat) < 128) s then b64_run 0 0 0 s else None
      | _ \<Rightarrow> None)"

section \<open>Printable strings\<close>

text \<open>\<open>_ASCII_RUN.findall\<close>: the maximal runs of printable bytes, four or longer.\<close>

fun ascii_runs :: "byte list \<Rightarrow> byte list \<Rightarrow> byte list list" where
  "ascii_runs run [] = (if 4 \<le> length run then [run] else [])"
| "ascii_runs run (b # bs) =
     (if 0x20 \<le> unat b \<and> unat b \<le> 0x7E then ascii_runs (run @ [b]) bs
      else (if 4 \<le> length run then [run] else []) @ ascii_runs [] bs)"

fun collect_hints :: "nat \<Rightarrow> string list \<Rightarrow> string list \<Rightarrow> string list" where
  "collect_hints limit seen [] = seen"
| "collect_hints limit seen (r # rs) =
     (let s = py_strip r;
          seen' = (if s \<noteq> [] \<and> s \<notin> set seen then seen @ [s] else seen)
      in if limit \<le> length seen' then seen' else collect_hints limit seen' rs)"

definition ascii_hints :: "json \<Rightarrow> string list" where
  "ascii_hints b64 =
     (if \<not> json_truthy b64 then []
      else case b64decode b64 of
        None \<Rightarrow> []
      | Some blob \<Rightarrow> collect_hints 3 [] (map (map char_of_byte) (ascii_runs [] blob)))"

section \<open>Reading JSON\<close>

text \<open>\<open>v.get(key)\<close>, \<open>for x in v\<close>, \<open>v[i]\<close> and text methods: \<open>None\<close> where Python raises.\<close>

definition obj_get :: "json \<Rightarrow> string \<Rightarrow> json option" where
  "obj_get v k = (case v of JObj d \<Rightarrow> Some (dict_get d k) | _ \<Rightarrow> None)"

definition json_iter :: "json \<Rightarrow> json list option" where
  "json_iter v =
     (case v of
        JList xs \<Rightarrow> Some xs
      | JObj d \<Rightarrow> Some (map (\<lambda>(k, _). JStr k) d)
      | JStr s \<Rightarrow> Some (map (\<lambda>c. JStr [c]) s)
      | _ \<Rightarrow> None)"

definition json_index :: "json \<Rightarrow> nat \<Rightarrow> json option" where
  "json_index v i =
     (case v of
        JList xs \<Rightarrow> if i < length xs then Some (xs ! i) else None
      | JStr s \<Rightarrow> if i < length s then Some (JStr [s ! i]) else None
      | _ \<Rightarrow> None)"

definition as_text :: "json \<Rightarrow> string option" where
  "as_text v = (case v of JStr s \<Rightarrow> Some s | _ \<Rightarrow> None)"

abbreviation or_obj :: "json \<Rightarrow> json" where
  "or_obj v \<equiv> json_or v (JObj [])"

text \<open>\<open>descriptors[i] if i < len(descriptors) else {}\<close>.\<close>

definition descriptor_at :: "json \<Rightarrow> nat \<Rightarrow> json option" where
  "descriptor_at descriptors i =
     do { n \<leftarrow> map_option length (json_iter descriptors);
          if i < n then json_index descriptors i else Some (JObj []) }"

text \<open>\<open>next((sec[k] for k in sec if k not in ("message", "amd")), None)\<close>.\<close>

definition section_payload :: "json dict \<Rightarrow> json" where
  "section_payload sec =
     (case filter (\<lambda>(k, _). k \<noteq> ''message'' \<and> k \<noteq> ''amd'') sec of [] \<Rightarrow> JNull | (_, v) # _ \<Rightarrow> v)"

definition payload_data :: "json dict \<Rightarrow> json" where
  "payload_data sec = (case section_payload sec of JObj d \<Rightarrow> dict_get d ''data'' | _ \<Rightarrow> JNull)"

section \<open>Attaching the AMD decodes\<close>

text \<open>\<open>guid_as_ascii\<close> of a JSON value: a truthy value that is not a text raises.\<close>

definition guid_text :: "json \<Rightarrow> string option option" where
  "guid_text v = (if \<not> json_truthy v then Some None else map_option (\<lambda>s. guid_as_ascii (Some s)) (as_text v))"

definition add_ascii :: "string \<Rightarrow> string \<Rightarrow> json dict \<Rightarrow> json dict option" where
  "add_ascii key key_ascii d =
     do { t \<leftarrow> guid_text (dict_get d key);
          Some (case t of None \<Rightarrow> d | Some txt \<Rightarrow> AList.update key_ascii (JStr txt) d) }"

definition implausible_timestamp :: "string \<Rightarrow> bool" where
  "implausible_timestamp ts \<longleftrightarrow>
     take 2 ts \<in> {''15'', ''16'', ''17'', ''18'', ''19''} \<or> starts_with ts ''0''"

definition enrich_header :: "json \<Rightarrow> json option" where
  "enrich_header header =
     (case header of
        JObj d \<Rightarrow>
          do { d1 \<leftarrow> add_ascii ''platformID'' ''platformID_ascii'' d;
               d2 \<leftarrow> add_ascii ''creatorID'' ''creatorID_ascii'' d1;
               Some (JObj (if implausible_timestamp (py_str (json_or (dict_get d2 ''timestamp'') (JStr [])))
                 then AList.update ''timestamp_note''
                        (JStr ''unset/implausible (BMC did not populate a valid time)'') d2
                 else d2)) }
      | v \<Rightarrow> Some v)"

fun enrich_descriptors :: "json list \<Rightarrow> json list option" where
  "enrich_descriptors [] = Some []"
| "enrich_descriptors (JObj d # ds) =
     do { d' \<leftarrow> add_ascii ''fruID'' ''fruID_ascii'' d; ds' \<leftarrow> enrich_descriptors ds; Some (JObj d' # ds') }"
| "enrich_descriptors (v # ds) = map_option ((#) v) (enrich_descriptors ds)"

text \<open>The AMD decode of section \<open>i\<close>: \<open>Some None\<close> when there is nothing to attach.\<close>

definition section_amd :: "json \<Rightarrow> nat \<Rightarrow> json dict \<Rightarrow> amd_section option option" where
  "section_amd descriptors i sec =
     do { desc \<leftarrow> descriptor_at descriptors i;
          stype \<leftarrow> obj_get desc ''sectionType'';
          data \<leftarrow> obj_get (or_obj stype) ''data'';
          g \<leftarrow> as_text (json_or data (JStr []));
          let guid = py_lower g;
          let b64 = payload_data sec;
          if \<not> is_amd_section guid \<or> \<not> json_truthy b64 then Some None
          else Some (case b64decode b64 of None \<Rightarrow> None | Some raw \<Rightarrow> decode_amd_section guid raw) }"

fun enrich_sections :: "json \<Rightarrow> nat \<Rightarrow> json list \<Rightarrow> (nat \<times> amd_section) list \<Rightarrow> (nat \<times> amd_section) list option" where
  "enrich_sections descriptors i [] amd = Some amd"
| "enrich_sections descriptors i (JObj sec # secs) amd =
     do { a \<leftarrow> section_amd descriptors i sec;
          enrich_sections descriptors (i + 1) secs (case a of None \<Rightarrow> amd | Some x \<Rightarrow> AList.update i x amd) }"
| "enrich_sections descriptors i (_ # secs) amd = enrich_sections descriptors (i + 1) secs amd"

text \<open>Replacing the entry of a key that is present keeps its position, as item mutation does.\<close>

definition put_if_present :: "string \<Rightarrow> json \<Rightarrow> json dict \<Rightarrow> json dict" where
  "put_if_present k v d = (if k \<in> fst ` set d then AList.update k v d else d)"

definition enrich_amd_sections :: "cper_doc \<Rightarrow> cper_doc option" where
  "enrich_amd_sections doc =
     (case doc_json doc of
        JObj d \<Rightarrow>
          do { let descriptors = json_or (dict_get d ''sectionDescriptors'') (JList []);
               let sections = json_or (dict_get d ''sections'') (JList []);
               header \<leftarrow> enrich_header (dict_get d ''header'');
               descs \<leftarrow> json_iter descriptors;
               descs' \<leftarrow> enrich_descriptors descs;
               let descriptors' = (case descriptors of JList _ \<Rightarrow> JList descs' | v \<Rightarrow> v);
               secs \<leftarrow> json_iter sections;
               amd \<leftarrow> enrich_sections descriptors' 0 secs (doc_amd doc);
               Some \<lparr>doc_json = JObj (put_if_present ''sectionDescriptors''
                        (if json_truthy (dict_get d ''sectionDescriptors'') then descriptors'
                         else dict_get d ''sectionDescriptors'')
                        (put_if_present ''header'' header d)),
                     doc_amd = amd\<rparr> }
      | _ \<Rightarrow> Some doc)"

section \<open>The summary line\<close>

definition MAX_SUMMARY_CHARS :: nat where
  "MAX_SUMMARY_CHARS = 2000"

text \<open>The characters of a UTF-8 text: a continuation byte belongs to the character before it.\<close>

definition is_continuation :: "char \<Rightarrow> bool" where
  "is_continuation c \<longleftrightarrow> (of_char c :: nat) div 64 = 2"

fun utf8_chars :: "string \<Rightarrow> string list" where
  "utf8_chars [] = []"
| "utf8_chars (c # s) =
     (case utf8_chars s of
        [] \<Rightarrow> [[c]]
      | u # us \<Rightarrow> (case u of
            [] \<Rightarrow> [c] # us
          | d # _ \<Rightarrow> if is_continuation d then (c # u) # us else [c] # u # us))"

definition ellipsis :: string where
  "ellipsis = [CHR 0xE2, CHR 0x80, CHR 0xA6]"

definition clip_summary :: "string \<Rightarrow> string" where
  "clip_summary s =
     (if MAX_SUMMARY_CHARS < length (utf8_chars s)
      then concat (take (MAX_SUMMARY_CHARS - 1) (utf8_chars s)) @ ellipsis else s)"

text \<open>The fallback text of a section that neither decoder explains.\<close>

definition oem_text :: "json \<Rightarrow> json \<Rightarrow> json dict \<Rightarrow> string" where
  "oem_text guid len sec =
     (let hints = ascii_hints (payload_data sec);
          bits = (if json_truthy guid then [''type '' @ py_str guid] else []) @
                 (if json_truthy len then [py_str len @ '' bytes''] else []) @
                 (if hints \<noteq> [] then [''strings: '' @ py_join '', '' hints] else [])
      in if bits \<noteq> [] then ''OEM section ('' @ py_join ''; '' bits @ '')'' else ''undecoded OEM section'')"

definition section_message :: "amd_section option \<Rightarrow> json \<Rightarrow> json \<Rightarrow> json \<Rightarrow> string" where
  "section_message amd guid len sec =
     (case sec of
        JObj d \<Rightarrow>
          (case amd of
             Some a \<Rightarrow>
               (let msg = summarize_amd_section (Some a) in if msg = [] then oem_text guid len d else msg)
           | None \<Rightarrow>
               (let msg = dict_get d ''message'' in if json_truthy msg then py_str msg else oem_text guid len d))
      | _ \<Rightarrow> [])"

definition section_part :: "json \<Rightarrow> (nat \<times> amd_section) list \<Rightarrow> nat \<Rightarrow> json \<Rightarrow> string option" where
  "section_part descriptors amd i sec =
     do { desc \<leftarrow> descriptor_at descriptors i;
          stype_obj \<leftarrow> map_option or_obj (obj_get desc ''sectionType'');
          stype_raw \<leftarrow> obj_get stype_obj ''type'';
          let stype = json_or stype_raw (JStr ''Unknown section'');
          guid \<leftarrow> obj_get stype_obj ''data'';
          sev_obj \<leftarrow> obj_get desc ''severity'';
          ssev \<leftarrow> obj_get (or_obj sev_obj) ''name'';
          fru_raw \<leftarrow> obj_get desc ''fruText'';
          fru \<leftarrow> as_text (json_or fru_raw (JStr []));
          len \<leftarrow> obj_get desc ''sectionLength'';
          stype_text \<leftarrow> as_text stype;
          let label = (if stype_text = ''Unknown section'' then ''OEM'' else stype_text)
                @ (if json_truthy ssev then ''/'' @ py_str ssev else [])
                @ (if py_strip fru \<noteq> [] then '' '' @ py_strip fru else []);
          Some (py_strip (''['' @ label @ ''] '' @ section_message (map_of amd i) guid len sec)) }"

fun section_parts :: "json \<Rightarrow> (nat \<times> amd_section) list \<Rightarrow> nat \<Rightarrow> json list \<Rightarrow> string list option" where
  "section_parts descriptors amd i [] = Some []"
| "section_parts descriptors amd i (sec # secs) =
     do { p \<leftarrow> section_part descriptors amd i sec;
          ps \<leftarrow> section_parts descriptors amd (i + 1) secs;
          Some (p # ps) }"

definition summarize_cper :: "cper_doc \<Rightarrow> string option" where
  "summarize_cper doc =
     (case doc_json doc of
        JObj d \<Rightarrow>
          do { let header = or_obj (dict_get d ''header'');
               sev \<leftarrow> obj_get header ''severity'';
               name \<leftarrow> obj_get (or_obj sev) ''name'';
               nt \<leftarrow> obj_get header ''notificationType'';
               notif_raw \<leftarrow> obj_get (or_obj nt) ''type'';
               notif \<leftarrow> as_text (json_or notif_raw (JStr []));
               let descriptors = json_or (dict_get d ''sectionDescriptors'') (JList []);
               secs \<leftarrow> json_iter (json_or (dict_get d ''sections'') (JList []));
               parts \<leftarrow> section_parts descriptors (doc_amd doc) 0 secs;
               let shown = filter (\<lambda>p. p \<noteq> []) parts;
               let body = (if shown = [] then ''no decodable sections'' else py_join ''; '' shown);
               let head = ''CPER '' @ py_str (json_or name (JStr ''Unknown''))
                     @ (if notif \<noteq> [] \<and> py_lower notif \<noteq> ''unknown'' then '' ('' @ notif @ '')'' else []);
               Some (clip_summary (head @ '' '' @ em_dash @ '' '' @ dec_of_nat (length secs)
                       @ '' section(s): '' @ body)) }
      | _ \<Rightarrow> Some [])"

section \<open>The summary is bounded\<close>

lemma utf8_chars_Cons_head:
  "\<exists>r us. utf8_chars (c # s) = (c # r) # us"
  by (auto split: list.split)

lemma length_utf8_Cons:
  "length (utf8_chars (c # s)) =
     (case s of [] \<Rightarrow> 1 | d # _ \<Rightarrow> length (utf8_chars s) + (if is_continuation d then 0 else 1))"
proof (cases s)
  case (Cons d t)
  obtain r us where "utf8_chars (d # t) = (d # r) # us" using utf8_chars_Cons_head by blast
  then show ?thesis unfolding Cons by (subst utf8_chars.simps) simp
qed simp

lemma length_utf8_append: "length (utf8_chars (u @ v)) \<le> length (utf8_chars u) + length (utf8_chars v)"
proof (induction u)
  case (Cons c u)
  show ?case
  proof (cases u)
    case Nil
    then show ?thesis by (simp add: length_utf8_Cons [of c v] length_utf8_Cons [of c "[]"] split: list.split del: utf8_chars.simps(2))
  next
    case (Cons d t)
    then show ?thesis using Cons.IH
      by (simp add: length_utf8_Cons [of c "d # t @ v"] length_utf8_Cons [of c "d # t"] del: utf8_chars.simps(2))
  qed
qed simp

lemma utf8_char_single:
  assumes "u \<in> set (utf8_chars s)"
  shows "u \<noteq> [] \<and> list_all is_continuation (tl u)"
  using assms
proof (induction s arbitrary: u)
  case (Cons c s)
  then show ?case
    by (cases "utf8_chars s") (fastforce split: list.splits if_splits)+
qed simp

lemma length_utf8_char: "u \<noteq> [] \<Longrightarrow> list_all is_continuation (tl u) \<Longrightarrow> length (utf8_chars u) = 1"
proof (induction u)
  case (Cons c u)
  then show ?case by (cases u) (simp_all add: length_utf8_Cons del: utf8_chars.simps(2))
qed simp

lemma length_utf8_concat:
  "\<forall>u \<in> set us. u \<noteq> [] \<and> list_all is_continuation (tl u) \<Longrightarrow> length (utf8_chars (concat us)) \<le> length us"
proof (induction us)
  case (Cons u us)
  then show ?case using length_utf8_append [of u "concat us"] length_utf8_char [of u] by simp
qed simp

lemma clip_summary_bound: "length (utf8_chars (clip_summary s)) \<le> MAX_SUMMARY_CHARS"
proof (cases "MAX_SUMMARY_CHARS < length (utf8_chars s)")
  case True
  let ?cs = "take (MAX_SUMMARY_CHARS - 1) (utf8_chars s)"
  have "length (utf8_chars (concat ?cs)) \<le> length ?cs"
    by (rule length_utf8_concat) (auto dest!: in_set_takeD utf8_char_single)
  moreover have "length (utf8_chars ellipsis) = 1" by code_simp
  ultimately have "length (utf8_chars (concat ?cs @ ellipsis)) \<le> (MAX_SUMMARY_CHARS - 1) + 1"
    using length_utf8_append [of "concat ?cs" ellipsis] by simp
  then show ?thesis using True by (simp add: clip_summary_def MAX_SUMMARY_CHARS_def)
qed (simp add: clip_summary_def)

text \<open>
  The stored summary of a decoded record never exceeds 2000 characters, however large or
  odd the record is: either reading it raises, or the text fits the cap.
\<close>

lemma summarize_cper_bounded:
  "case summarize_cper doc of None \<Rightarrow> True | Some s \<Rightarrow> length (utf8_chars s) \<le> MAX_SUMMARY_CHARS"
proof (cases "summarize_cper doc")
  case (Some s)
  then have "s = [] \<or> (\<exists>x. s = clip_summary x)"
    by (auto simp: summarize_cper_def Let_def split: json.splits bind_splits)
  then show ?thesis using Some clip_summary_bound by auto
qed simp

end
