(* ===== verification/Cper_Worker.thy ===== *)
theory Cper_Worker
  imports Cper_Decoder
begin

text \<open>
  \<open>collector/src/cper_worker.py\<close>: the enrichment worker over the alert table. One cycle of its
  loop selects pending rows, decodes each (the BMC, the converter and the target table are
  arguments), and persists all outcomes in one batch; maintenance requeues failed rows and
  finalizes exhausted ones.
\<close>

section \<open>One row\<close>

record worker_config =
  wc_batch_size :: nat
  wc_max_attempts :: int
  wc_max_bytes :: nat
  wc_retry_failed_minutes :: int
  wc_cooldown_seconds :: int
  wc_poll_interval :: int
  wc_maintenance_every_cycles :: int

text \<open>
  What a cycle meets outside: the targets' base URLs, whether a stored password decrypts, the
  BMC, the converter, and which database writes of a result raise.
\<close>

record worker_env =
  we_target :: "target_id \<Rightarrow> string option"
  we_decrypts :: "target_id \<Rightarrow> bool"
  we_http :: "string \<Rightarrow> http_reply"
  we_convert :: "byte list \<Rightarrow> convert_run"
  we_write_fails :: "cper_result \<Rightarrow> bool"

definition outcome :: "int \<Rightarrow> cper_status \<Rightarrow> cper_result" where
  "outcome i st = \<lparr>cr_id = i, cr_status = st, cr_refined = None, cr_decoded = None, cr_increment = False\<rparr>"

text \<open>A failed attempt counts; the last allowed one is terminal with status \<open>final\<close>.\<close>

definition failed_attempt :: "int \<Rightarrow> pending_cper \<Rightarrow> cper_status \<Rightarrow> cper_result" where
  "failed_attempt max_attempts row final =
     \<lparr>cr_id = pc_id row, cr_status = (if max_attempts \<le> pc_attempts row + 1 then final else Pending),
      cr_refined = None, cr_decoded = None, cr_increment = True\<rparr>"

definition success :: "int \<Rightarrow> cper_doc \<Rightarrow> cper_result option" where
  "success i doc =
     do { doc' \<leftarrow> enrich_amd_sections doc;
          refined \<leftarrow> summarize_cper doc';
          Some \<lparr>cr_id = i, cr_status = Decoded, cr_refined = Some refined, cr_decoded = Some doc',
                cr_increment = False\<rparr> }"

definition fetch_and_decode :: "worker_config \<Rightarrow> worker_env \<Rightarrow> pending_cper \<Rightarrow> cper_result option" where
  "fetch_and_decode cfg env row =
     (case pc_uri row of
        None \<Rightarrow> Some (outcome (pc_id row) NoData)
      | Some uri \<Rightarrow>
          if uri = [] then Some (outcome (pc_id row) NoData)
          else case we_target env (pc_target_id row) of
            None \<Rightarrow> Some (outcome (pc_id row) Unavailable)
          | Some base_url \<Rightarrow>
              (case (if we_decrypts env (pc_target_id row)
                     then fetch_cper_attachment (we_http env) base_url uri (wc_max_bytes cfg)
                     else Inl Transient) of
                 Inl CperGone \<Rightarrow> Some (outcome (pc_id row) Unavailable)
               | Inl _ \<Rightarrow> Some (failed_attempt (wc_max_attempts cfg) row FetchFailed)
               | Inr data \<Rightarrow>
                   (case decode_cper (we_convert env) data of
                      None \<Rightarrow> Some (failed_attempt (wc_max_attempts cfg) row DecodeFailed)
                    | Some decoded \<Rightarrow> success (pc_id row) \<lparr>doc_json = decoded, doc_amd = []\<rparr>)))"

text \<open>\<open>_enrich_one\<close>; \<open>None\<close> when it raises.\<close>

definition enrich_one :: "worker_config \<Rightarrow> worker_env \<Rightarrow> alert_db \<Rightarrow> pending_cper \<Rightarrow> cper_result option" where
  "enrich_one cfg env db row =
     (if pc_has_decoded row then
        (case get_alert_cper (pc_id row) db of
           Some doc \<Rightarrow> if json_truthy (doc_json doc) then success (pc_id row) doc else fetch_and_decode cfg env row
         | None \<Rightarrow> fetch_and_decode cfg env row)
      else fetch_and_decode cfg env row)"

text \<open>\<open>_guarded\<close>: an unexpected failure still counts as an attempt.\<close>

definition guarded :: "worker_config \<Rightarrow> worker_env \<Rightarrow> alert_db \<Rightarrow> pending_cper \<Rightarrow> cper_result" where
  "guarded cfg env db row =
     (case enrich_one cfg env db row of
        None \<Rightarrow> failed_attempt (wc_max_attempts cfg) row DecodeFailed
      | Some r \<Rightarrow> r)"

section \<open>One cycle\<close>

definition maintenance :: "instant \<Rightarrow> worker_config \<Rightarrow> alert_db \<Rightarrow> alert_db" where
  "maintenance now cfg db =
     (let db1 = (if wc_retry_failed_minutes cfg \<noteq> 0
                 then snd (requeue_failed_cper now (wc_retry_failed_minutes cfg) (int (wc_batch_size cfg)) db)
                 else db)
      in snd (finalize_exhausted_cper (wc_max_attempts cfg) db1))"

definition enrich_batch :: "instant \<Rightarrow> instant \<Rightarrow> worker_config \<Rightarrow> worker_env \<Rightarrow> alert_db \<Rightarrow> nat \<times> alert_db" where
  "enrich_batch now now2 cfg env db =
     (let rows = get_pending_cper_alerts now (wc_batch_size cfg) (wc_max_attempts cfg)
                   (wc_cooldown_seconds cfg) db;
          results = map (guarded cfg env db) rows
      in (length results, snd (set_cper_results_batch now2 (we_write_fails env) results db)))"

text \<open>
  An iteration of \<open>_loop\<close>: maintenance on its wall-clock cadence (\<open>clk\<close> is the monotonic
  clock, \<open>last\<close> the last maintenance), then a batch; the delay until the next iteration is
  0.1 s after a full batch.
\<close>

definition maintenance_interval :: "worker_config \<Rightarrow> duration" where
  "maintenance_interval cfg = seconds (max 1 (wc_maintenance_every_cycles cfg) * max 1 (wc_poll_interval cfg))"

definition loop_step ::
  "instant \<Rightarrow> instant \<Rightarrow> instant \<Rightarrow> worker_config \<Rightarrow> worker_env \<Rightarrow> instant \<times> alert_db \<Rightarrow> duration \<times> instant \<times> alert_db" where
  "loop_step clk now now2 cfg env = (\<lambda>(last_maint, db).
     let due = maintenance_interval cfg \<le> clk - last_maint;
         db1 = (if due then maintenance now cfg db else db);
         (n, db2) = enrich_batch now now2 cfg env db1
     in (if wc_batch_size cfg \<le> n then 100000 else seconds (wc_poll_interval cfg),
         if due then clk else last_maint, db2))"

section \<open>The status machine\<close>

type_synonym cper_state = "cper_status option \<times> int"

definition cper_state :: "alert_row \<Rightarrow> cper_state" where
  "cper_state r = (al_cper_status r, al_cper_attempts r)"

text \<open>The transitions the worker may make on one row.\<close>

inductive cper_trans :: "int \<Rightarrow> cper_state \<Rightarrow> cper_state \<Rightarrow> bool" for max_attempts where
  resolve: "n < max_attempts \<Longrightarrow> s \<in> {Decoded, NoData, Unavailable} \<Longrightarrow>
    cper_trans max_attempts (Some Pending, n) (Some s, n)"
| retry: "n + 1 < max_attempts \<Longrightarrow> cper_trans max_attempts (Some Pending, n) (Some Pending, n + 1)"
| give_up: "n + 1 = max_attempts \<Longrightarrow> s \<in> {FetchFailed, DecodeFailed} \<Longrightarrow>
    cper_trans max_attempts (Some Pending, n) (Some s, n + 1)"
| exhaust: "max_attempts \<le> n \<Longrightarrow> cper_trans max_attempts (Some Pending, n) (Some FetchFailed, n)"
| requeue: "cper_trans max_attempts (Some FetchFailed, n) (Some Pending, 0)"

inductive_cases cper_trans_elim: "cper_trans max_attempts s s'"

inductive_simps cper_trans_from: "cper_trans max_attempts (st, n) s'"

lemma success_outcome: "success i doc = Some r \<Longrightarrow> cr_id r = i \<and> cr_status r = Decoded \<and> \<not> cr_increment r"
  by (auto simp: success_def split: bind_splits)

lemma fetch_outcome:
  assumes "fetch_and_decode cfg env row = Some r" "pc_attempts row < wc_max_attempts cfg"
  shows "cr_id r = pc_id row \<and>
    cper_trans (wc_max_attempts cfg) (Some Pending, pc_attempts row)
      (Some (cr_status r), pc_attempts row + (if cr_increment r then 1 else 0))"
  using assms success_outcome
  by (fastforce simp: fetch_and_decode_def outcome_def failed_attempt_def cper_trans_from
      split: option.splits if_splits sum.splits fetch_error.splits)

lemma guarded_outcome:
  assumes "pc_attempts row < wc_max_attempts cfg"
  shows "cr_id (guarded cfg env db row) = pc_id row \<and>
    cper_trans (wc_max_attempts cfg) (Some Pending, pc_attempts row)
      (Some (cr_status (guarded cfg env db row)),
       pc_attempts row + (if cr_increment (guarded cfg env db row) then 1 else 0))"
proof (cases "enrich_one cfg env db row")
  case None
  then show ?thesis using assms by (auto simp: guarded_def failed_attempt_def cper_trans_from)
next
  case (Some r)
  then consider (fetched) "fetch_and_decode cfg env row = Some r" | (stored) "\<exists>doc. success (pc_id row) doc = Some r"
    by (auto simp: enrich_one_def split: if_splits option.splits)
  then show ?thesis
  proof cases
    case fetched
    then show ?thesis using fetch_outcome [OF _ assms] Some by (simp add: guarded_def)
  next
    case stored
    then show ?thesis using success_outcome assms Some by (auto simp: guarded_def cper_trans_from)
  qed
qed

section \<open>A cycle follows the machine\<close>

definition write_result :: "instant \<Rightarrow> cper_result \<Rightarrow> alert_db \<Rightarrow> alert_db" where
  "write_result now r db =
     db\<lparr>alerts := map_rows (\<lambda>i row. if i = cr_id r then apply_result now r row else row) (alerts db)\<rparr>"

lemma batch_fold:
  "snd (set_cper_results_batch now fails rs db) = fold (write_result now) (filter (\<lambda>r. \<not> fails r) rs) db"
  by (induction now fails rs db rule: set_cper_results_batch.induct)
    (auto simp: write_result_def split: prod.split)

lemma write_result_keys [simp]: "map fst (alerts (write_result now r db)) = map fst (alerts db)"
  by (simp add: write_result_def)

lemma write_results_keys [simp]: "map fst (alerts (fold (write_result now) rs db)) = map fst (alerts db)"
  by (induction rs arbitrary: db) simp_all

lemma map_of_write_result:
  "map_of (alerts (write_result now r db)) i =
     (if i = cr_id r then map_option (apply_result now r) (map_of (alerts db) i) else map_of (alerts db) i)"
  by (cases "map_of (alerts db) i") (auto simp: write_result_def table_simps)

lemma map_of_write_results:
  assumes "distinct (map cr_id rs)"
  shows "map_of (alerts (fold (write_result now) rs db)) i =
    (case find (\<lambda>r. cr_id r = i) rs of
       None \<Rightarrow> map_of (alerts db) i
     | Some r \<Rightarrow> map_option (apply_result now r) (map_of (alerts db) i))"
  using assms
proof (induction rs arbitrary: db)
  case (Cons q rs)
  have "find (\<lambda>r. cr_id r = cr_id q) rs = None" 
    using Cons.prems by (auto simp: find_None_iff) (metis image_eqI)
  with Cons show ?case by (auto simp: map_of_write_result split: option.split)
qed simp

lemma pending_rows:
  fixes now limit max_attempts cooldown db
  assumes "unique_key (alerts db)"
  defines "rows \<equiv> get_pending_cper_alerts now limit max_attempts cooldown db"
  shows "distinct (map pc_id rows)"
    and "row \<in> set rows \<Longrightarrow> \<exists>r. map_of (alerts db) (pc_id row) = Some r \<and> is_pending max_attempts r \<and>
      pc_attempts row = al_cper_attempts r"
proof -
  let ?sel = "rows_where (\<lambda>_ r. is_pending max_attempts r \<and> cooled_down now cooldown r) (alerts db)"
  let ?srt = "sort_key (\<lambda>(i, r). al_occurred_at r) ?sel"
  have "distinct (map fst ?sel)" using assms(1) by simp
  then have "distinct (map fst ?srt)"
    unfolding distinct_map by simp
  then have "distinct (map fst (take limit ?srt))" by (metis distinct_take take_map)
  then show "distinct (map pc_id rows)"
    by (simp add: rows_def get_pending_cper_alerts_def comp_def case_prod_beta)
  show "\<exists>r. map_of (alerts db) (pc_id row) = Some r \<and> is_pending max_attempts r \<and>
      pc_attempts row = al_cper_attempts r" if "row \<in> set rows"
    using that assms(1)
    by (fastforce simp: rows_def get_pending_cper_alerts_def rows_where_def map_of_eq_Some_iff dest!: in_set_takeD)
qed

text \<open>Row \<open>i\<close> is attempted in a batch: it is selected, and the write of its result does not raise.\<close>

definition attempt_written :: "instant \<Rightarrow> worker_config \<Rightarrow> worker_env \<Rightarrow> int \<Rightarrow> alert_db \<Rightarrow> bool" where
  "attempt_written now cfg env i db \<longleftrightarrow>
     list_ex (\<lambda>row. pc_id row = i \<and> \<not> we_write_fails env (guarded cfg env db row))
       (get_pending_cper_alerts now (wc_batch_size cfg) (wc_max_attempts cfg) (wc_cooldown_seconds cfg) db)"

text \<open>
  A batch of the worker moves an attempted row, which is pending with an attempt left, by one
  transition, and leaves every other row alone.
\<close>

lemma enrich_batch_row:
  assumes u: "unique_key (alerts db)" and r: "map_of (alerts db) i = Some r"
  shows "\<exists>r'. map_of (alerts (snd (enrich_batch now now2 cfg env db))) i = Some r' \<and>
    al_dedup_key r' = al_dedup_key r \<and>
    (if attempt_written now cfg env i db
     then is_pending (wc_max_attempts cfg) r \<and> cper_trans (wc_max_attempts cfg) (cper_state r) (cper_state r')
     else r' = r)"
proof -
  let ?rows = "get_pending_cper_alerts now (wc_batch_size cfg) (wc_max_attempts cfg) (wc_cooldown_seconds cfg) db"
  let ?rs = "filter (\<lambda>r. \<not> we_write_fails env r) (map (guarded cfg env db) ?rows)"
  have row: "\<exists>r. map_of (alerts db) (pc_id row) = Some r \<and> is_pending (wc_max_attempts cfg) r \<and>
      pc_attempts row = al_cper_attempts r" if "row \<in> set ?rows" for row
    using pending_rows(2) [OF u that] .
  then have lt: "pc_attempts row < wc_max_attempts cfg" if "row \<in> set ?rows" for row
    using that by (fastforce simp: is_pending_def)
  have ids: "map (\<lambda>x. cr_id (guarded cfg env db x)) ?rows = map pc_id ?rows"
    using guarded_outcome lt by (intro map_cong) auto
  then have "distinct (map cr_id (map (guarded cfg env db) ?rows))"
    unfolding map_map comp_def by (simp only: pending_rows(1) [OF u])
  then have d: "distinct (map cr_id ?rs)" by (rule distinct_map_filter)
  have eq: "map_of (alerts (snd (enrich_batch now now2 cfg env db))) i =
      (case find (\<lambda>r. cr_id r = i) ?rs of None \<Rightarrow> Some r | Some q \<Rightarrow> Some (apply_result now2 q r))"
    using map_of_write_results [OF d, of now2 db i] r
    by (simp add: enrich_batch_def Let_def batch_fold split: option.splits)
  have "cr_id (guarded cfg env db row) = pc_id row" if "row \<in> set ?rows" for row
    using guarded_outcome [OF lt [OF that]] by simp
  then have attempted: "attempt_written now cfg env i db \<longleftrightarrow> find (\<lambda>r. cr_id r = i) ?rs \<noteq> None"
    by (auto simp: attempt_written_def list_ex_iff find_None_iff)
  show ?thesis
  proof (cases "find (\<lambda>r. cr_id r = i) ?rs")
    case None
    then show ?thesis using eq attempted by simp
  next
    case (Some q)
    then have q: "q \<in> set ?rs" "cr_id q = i" using find_SomeD [OF Some] by blast+
    then obtain row where row': "row \<in> set ?rows" "q = guarded cfg env db row" by auto
    have id: "pc_id row = i" using guarded_outcome [OF lt [OF row'(1)]] row'(2) q(2) by simp
    have st: "is_pending (wc_max_attempts cfg) r" "cper_state r = (Some Pending, pc_attempts row)"
      using row [OF row'(1)] r id by (auto simp: cper_state_def is_pending_def)
    have "cper_trans (wc_max_attempts cfg) (cper_state r) (cper_state (apply_result now2 q r))"
      using guarded_outcome [OF lt [OF row'(1)], of env db] row'(2) st
      by (simp add: cper_state_def apply_result_def)
    then show ?thesis using eq Some attempted st(1) by (simp add: apply_result_def)
  qed
qed

lemma enrich_batch_trans:
  assumes "unique_key (alerts db)" and "map_of (alerts db) i = Some r"
  shows "\<exists>r'. map_of (alerts (snd (enrich_batch now now2 cfg env db))) i = Some r' \<and>
    al_dedup_key r' = al_dedup_key r \<and>
    (cper_trans (wc_max_attempts cfg))\<^sup>=\<^sup>= (cper_state r) (cper_state r')"
  using enrich_batch_row [OF assms, of now now2 cfg env] by (auto split: if_splits)

text \<open>Maintenance moves a row only by a requeue of a failed fetch or by finalizing an exhausted row.\<close>

lemma requeue_row:
  assumes "unique_key (alerts db)" "map_of (alerts db) i = Some r"
  shows "map_of (alerts (snd (requeue_failed_cper now mins limit db))) i = Some r \<or>
    al_cper_status r = Some FetchFailed \<and>
    map_of (alerts (snd (requeue_failed_cper now mins limit db))) i =
      Some (r\<lparr>al_cper_status := Some Pending, al_cper_attempts := 0\<rparr>)"
proof -
  let ?stale = "rows_where (\<lambda>_ r. requeueable now mins r) (alerts db)"
  let ?ids = "if 0 < limit then map fst (take (nat limit) (sort_key (\<lambda>(_, r). attempted_key r) ?stale)) else map fst ?stale"
  have "requeueable now mins r" if i: "i \<in> set ?ids"
  proof -
    obtain q where "(i, q) \<in> set ?stale" using i by (auto split: if_splits dest!: in_set_takeD)
    then show ?thesis using assms by (auto simp: rows_where_def map_of_eq_Some_iff dest: eq_key_imp_eq_value)
  qed
  then have st: "al_cper_status r = Some FetchFailed" if "i \<in> set ?ids" using that by (simp add: requeueable_def)
  have row: "map_of (alerts (snd (requeue_failed_cper now mins limit db))) i =
      Some (if i \<in> set ?ids then r\<lparr>al_cper_status := Some Pending, al_cper_attempts := 0\<rparr> else r)"
    using assms(2) by (simp add: requeue_failed_cper_def Let_def table_simps)
  show ?thesis by (cases "i \<in> set ?ids") (use row st in simp_all)
qed

lemma requeue_trans:
  assumes "unique_key (alerts db)" "map_of (alerts db) i = Some r"
  shows "\<exists>r'. map_of (alerts (snd (requeue_failed_cper now mins limit db))) i = Some r' \<and>
    al_dedup_key r' = al_dedup_key r \<and> (cper_trans m)\<^sup>=\<^sup>= (cper_state r) (cper_state r')"
  using requeue_row [OF assms, of now mins limit] by (auto simp: cper_state_def requeue)

lemma requeue_keys: "map fst (alerts (snd (requeue_failed_cper now mins limit db))) = map fst (alerts db)"
  by (simp add: requeue_failed_cper_def Let_def)

lemma finalize_row:
  assumes "map_of (alerts db) i = Some r"
  shows "map_of (alerts (snd (finalize_exhausted_cper m db))) i =
    Some (if al_cper_status r = Some Pending \<and> m \<le> al_cper_attempts r
          then r\<lparr>al_cper_status := Some FetchFailed\<rparr> else r)"
  using assms by (simp add: finalize_exhausted_cper_def Let_def table_simps)

lemma finalize_trans:
  assumes "map_of (alerts db) i = Some r"
  shows "\<exists>r'. map_of (alerts (snd (finalize_exhausted_cper m db))) i = Some r' \<and>
    al_dedup_key r' = al_dedup_key r \<and> (cper_trans m)\<^sup>=\<^sup>= (cper_state r) (cper_state r')"
  using finalize_row [OF assms, of m] by (auto simp: cper_state_def cper_trans_from)

lemma finalize_keys: "map fst (alerts (snd (finalize_exhausted_cper m db))) = map fst (alerts db)"
  by (simp add: finalize_exhausted_cper_def Let_def)

lemma maintenance_keys [simp]: "map fst (alerts (maintenance now cfg db)) = map fst (alerts db)"
  by (simp add: maintenance_def Let_def finalize_keys requeue_keys)

lemma maintenance_trans:
  assumes u: "unique_key (alerts db)" and r: "map_of (alerts db) i = Some r"
  shows "\<exists>r'. map_of (alerts (maintenance now cfg db)) i = Some r' \<and> al_dedup_key r' = al_dedup_key r \<and>
    (cper_trans (wc_max_attempts cfg))\<^sup>*\<^sup>* (cper_state r) (cper_state r')"
proof -
  let ?db1 = "if wc_retry_failed_minutes cfg \<noteq> 0
    then snd (requeue_failed_cper now (wc_retry_failed_minutes cfg) (int (wc_batch_size cfg)) db) else db"
  obtain r1 where r1: "map_of (alerts ?db1) i = Some r1" "al_dedup_key r1 = al_dedup_key r"
      "(cper_trans (wc_max_attempts cfg))\<^sup>=\<^sup>= (cper_state r) (cper_state r1)"
    using requeue_trans [OF u r, of now "wc_retry_failed_minutes cfg" "int (wc_batch_size cfg)" "wc_max_attempts cfg"] r
    by (cases "wc_retry_failed_minutes cfg \<noteq> 0") auto
  obtain r2 where "map_of (alerts (maintenance now cfg db)) i = Some r2" "al_dedup_key r2 = al_dedup_key r"
      "(cper_trans (wc_max_attempts cfg))\<^sup>=\<^sup>= (cper_state r1) (cper_state r2)"
    using finalize_trans [OF r1(1), of "wc_max_attempts cfg"] r1(2) by (auto simp: maintenance_def Let_def)
  then show ?thesis using r1(3) by (meson reflclp_into_rtranclp rtranclp_trans)
qed

text \<open>
  (C7) The enrichment loop implements the status machine: one iteration of the worker keeps
  every alert, leaves its idempotency key alone, and moves its CPER status only along the
  transitions of \<open>cper_trans\<close>, whatever the BMC, the converter and the database do.
\<close>

theorem loop_step_refines_machine:
  assumes "alerts_ok db" and "map_of (alerts db) i = Some r"
    and "loop_step clk now now2 cfg env (last_maint, db) = (delay, last_maint', db')"
  shows "\<exists>r'. map_of (alerts db') i = Some r' \<and> al_dedup_key r' = al_dedup_key r \<and>
    (cper_trans (wc_max_attempts cfg))\<^sup>*\<^sup>* (cper_state r) (cper_state r')"
proof -
  let ?db1 = "if maintenance_interval cfg \<le> clk - last_maint then maintenance now cfg db else db"
  have u: "unique_key (alerts db)" using assms(1) by (simp add: alerts_ok_def)
  obtain r1 where r1: "map_of (alerts ?db1) i = Some r1" "al_dedup_key r1 = al_dedup_key r"
      "(cper_trans (wc_max_attempts cfg))\<^sup>*\<^sup>* (cper_state r) (cper_state r1)"
    using maintenance_trans [OF u assms(2), of now cfg] assms(2)
    by (cases "maintenance_interval cfg \<le> clk - last_maint") auto
  have u1: "unique_key (alerts ?db1)" using u by simp
  have "db' = snd (enrich_batch now now2 cfg env ?db1)"
    using assms(3) by (auto simp: loop_step_def Let_def split: prod.splits)
  then obtain r' where "map_of (alerts db') i = Some r'" "al_dedup_key r' = al_dedup_key r"
      "(cper_trans (wc_max_attempts cfg))\<^sup>=\<^sup>= (cper_state r1) (cper_state r')"
    using enrich_batch_trans [OF u1 r1(1), of now now2 cfg env] r1(2) by auto
  then show ?thesis using r1(3) by (meson reflclp_into_rtranclp rtranclp_trans)
qed

definition demo_cfg :: worker_config where
  "demo_cfg = \<lparr>wc_batch_size = 20, wc_max_attempts = 3, wc_max_bytes = 8388608, wc_retry_failed_minutes = 360,
     wc_cooldown_seconds = 60, wc_poll_interval = 30, wc_maintenance_every_cycles = 10\<rparr>"

definition demo_env :: worker_env where
  "demo_env = \<lparr>we_target = (\<lambda>_. Some ''https://bmc''), we_decrypts = (\<lambda>_. True), we_http = (\<lambda>_. HttpFailed),
     we_convert = (\<lambda>_. ToolMissing), we_write_fails = (\<lambda>_. False)\<rparr>"

theorem loop_step_refines_machine_witness:
  "\<exists>r'. map_of (alerts (snd (snd (loop_step 0 (seconds 900) (seconds 901) demo_cfg demo_env
        (0, insert_alert (row_of_event 1 demo_event) empty_alert_db))))) 1 = Some r' \<and>
     al_dedup_key r' = al_dedup_key (row_of_event 1 demo_event) \<and>
     (cper_trans (wc_max_attempts demo_cfg))\<^sup>*\<^sup>* (cper_state (row_of_event 1 demo_event)) (cper_state r')"
proof -
  let ?db = "insert_alert (row_of_event 1 demo_event) empty_alert_db"
  let ?step = "loop_step 0 (seconds 900) (seconds 901) demo_cfg demo_env (0, ?db)"
  have "alerts_ok ?db"
    by (rule alerts_ok_insert [OF empty_alert_db_ok]) (simp add: key_stored_def empty_alert_db_def split: option.split)
  then show ?thesis
    by (rule loop_step_refines_machine [where delay = "fst ?step" and last_maint' = "fst (snd ?step)"])
      (simp_all add: insert_alert_def empty_alert_db_def)
qed

section \<open>Attempts over a whole run of the worker\<close>

text \<open>The database the batch of an iteration starts from.\<close>

definition maintained :: "instant \<Rightarrow> instant \<Rightarrow> worker_config \<Rightarrow> instant \<times> alert_db \<Rightarrow> alert_db" where
  "maintained clk now cfg = (\<lambda>(last_maint, db).
     if maintenance_interval cfg \<le> clk - last_maint then maintenance now cfg db else db)"

definition status_of :: "int \<Rightarrow> alert_db \<Rightarrow> cper_status option" where
  "status_of i db = Option.bind (map_of (alerts db) i) al_cper_status"

text \<open>
  Runs of the worker with the attempts written for row \<open>i\<close> and the times it was requeued after
  a failed fetch. Between two iterations other writers may change anything but this row.
\<close>

inductive cper_run ::
  "worker_config \<Rightarrow> int \<Rightarrow> instant \<times> alert_db \<Rightarrow> nat \<Rightarrow> nat \<Rightarrow> instant \<times> alert_db \<Rightarrow> bool"
  for cfg i s0 where
  run_start: "cper_run cfg i s0 0 0 s0"
| run_iteration: "cper_run cfg i s0 p q s \<Longrightarrow> loop_step clk now now2 cfg env s = (delay, s') \<Longrightarrow>
    p' = p + (if attempt_written now cfg env i (maintained clk now cfg s) then 1 else 0) \<Longrightarrow>
    q' = q + (if status_of i (snd s) = Some FetchFailed \<and>
                 status_of i (maintained clk now cfg s) = Some Pending then 1 else 0) \<Longrightarrow>
    cper_run cfg i s0 p' q' s'"
| run_others: "cper_run cfg i s0 p q (clk, db) \<Longrightarrow> unique_key (alerts db') \<Longrightarrow>
    map_of (alerts db') i = map_of (alerts db) i \<Longrightarrow> cper_run cfg i s0 p q (clk, db')"

definition attempts_ok :: "int \<Rightarrow> alert_row \<Rightarrow> bool" where
  "attempts_ok m r \<longleftrightarrow> 0 \<le> al_cper_attempts r \<and> al_cper_attempts r \<le> m \<and>
     (al_cper_status r = Some Pending \<longrightarrow> al_cper_attempts r < m)"

text \<open>The attempts a row can still cost before it is requeued.\<close>

definition attempts_left :: "int \<Rightarrow> alert_row \<Rightarrow> int" where
  "attempts_left m r = (if al_cper_status r = Some Pending then m - al_cper_attempts r else 0)"

lemma attempt_uses_one:
  assumes "is_pending m r" "cper_trans m (cper_state r) (cper_state r')" "attempts_ok m r"
  shows "attempts_ok m r' \<and> attempts_left m r' + 1 \<le> attempts_left m r"
  using assms by (auto simp: cper_state_def is_pending_def attempts_ok_def attempts_left_def cper_trans_from)

lemma maintained_row:
  assumes u: "unique_key (alerts (snd s))" and r: "map_of (alerts (snd s)) i = Some r"
    and ok: "attempts_ok (wc_max_attempts cfg) r" and m: "0 < wc_max_attempts cfg"
  shows "\<exists>r'. map_of (alerts (maintained clk now cfg s)) i = Some r' \<and>
    attempts_ok (wc_max_attempts cfg) r' \<and>
    attempts_left (wc_max_attempts cfg) r' \<le> attempts_left (wc_max_attempts cfg) r +
      (if status_of i (snd s) = Some FetchFailed \<and> status_of i (maintained clk now cfg s) = Some Pending
       then wc_max_attempts cfg else 0)"
proof (cases "maintenance_interval cfg \<le> clk - fst s")
  case True
  let ?m = "wc_max_attempts cfg"
  let ?db1 = "if wc_retry_failed_minutes cfg \<noteq> 0
    then snd (requeue_failed_cper now (wc_retry_failed_minutes cfg) (int (wc_batch_size cfg)) (snd s)) else snd s"
  let ?rq = "r\<lparr>al_cper_status := Some Pending, al_cper_attempts := 0\<rparr>"
  have eq: "maintained clk now cfg s = snd (finalize_exhausted_cper ?m ?db1)"
    using True by (simp add: maintained_def maintenance_def Let_def case_prod_beta)
  consider "map_of (alerts ?db1) i = Some r"
    | "al_cper_status r = Some FetchFailed" "map_of (alerts ?db1) i = Some ?rq"
    using requeue_row [OF u r, of now "wc_retry_failed_minutes cfg" "int (wc_batch_size cfg)"] r
    by (cases "wc_retry_failed_minutes cfg \<noteq> 0") auto
  then show ?thesis
  proof cases
    case 1
    have "\<not> (al_cper_status r = Some Pending \<and> ?m \<le> al_cper_attempts r)" using ok by (auto simp: attempts_ok_def)
    with 1 have "map_of (alerts (maintained clk now cfg s)) i = Some r"
      unfolding eq finalize_row [OF 1] by (simp only: if_False)
    then show ?thesis using ok m by simp
  next
    case 2
    then have "map_of (alerts (maintained clk now cfg s)) i = Some ?rq"
      using finalize_row [OF 2(2), of ?m] m unfolding eq by simp
    then show ?thesis using 2(1) m r by (simp add: attempts_ok_def attempts_left_def status_of_def)
  qed
next
  case False
  then show ?thesis using r ok m by (auto simp: maintained_def case_prod_beta)
qed

lemma maintained_keys [simp]: "map fst (alerts (maintained clk now cfg s)) = map fst (alerts (snd s))"
  by (simp add: maintained_def case_prod_beta)

lemma loop_step_db:
  "loop_step clk now now2 cfg env s = (delay, s') \<Longrightarrow> snd s' = snd (enrich_batch now now2 cfg env (maintained clk now cfg s))"
  by (auto simp: loop_step_def maintained_def Let_def split: prod.splits)

lemma enrich_batch_keys [simp]: "map fst (alerts (snd (enrich_batch now now2 cfg env db))) = map fst (alerts db)"
  by (simp add: enrich_batch_def Let_def batch_fold)

lemma cper_run_keys: "cper_run cfg i s0 p q s \<Longrightarrow> unique_key (alerts (snd s0)) \<Longrightarrow> unique_key (alerts (snd s))"
  by (induction rule: cper_run.induct) (simp_all add: loop_step_db)

lemma cper_run_attempts:
  assumes "cper_run cfg i s0 p q s" and "unique_key (alerts (snd s0))" and "map_of (alerts (snd s0)) i = Some r0"
    and "attempts_ok (wc_max_attempts cfg) r0" and "0 < wc_max_attempts cfg"
  shows "\<exists>r. map_of (alerts (snd s)) i = Some r \<and> attempts_ok (wc_max_attempts cfg) r \<and>
    int p + attempts_left (wc_max_attempts cfg) r \<le> attempts_left (wc_max_attempts cfg) r0 + wc_max_attempts cfg * int q"
  using assms
proof (induction rule: cper_run.induct)
  case (run_iteration p q s clk now now2 env delay s' p' q')
  let ?m = "wc_max_attempts cfg"
  let ?db1 = "maintained clk now cfg s"
  obtain r where r: "map_of (alerts (snd s)) i = Some r" "attempts_ok ?m r"
    "int p + attempts_left ?m r \<le> attempts_left ?m r0 + ?m * int q"
    using run_iteration.IH run_iteration.prems by blast
  have u: "unique_key (alerts (snd s))" using cper_run_keys [OF run_iteration.hyps(1)] run_iteration.prems(1) .
  obtain r1 where r1: "map_of (alerts ?db1) i = Some r1" "attempts_ok ?m r1"
    "attempts_left ?m r1 \<le> attempts_left ?m r + ?m * (int q' - int q)"
    using maintained_row [OF u r(1, 2) run_iteration.prems(4), of clk now] run_iteration.hyps(4)
    by (auto split: if_splits)
  obtain r2 where r2: "map_of (alerts (snd s')) i = Some r2"
    "if attempt_written now cfg env i ?db1 then is_pending ?m r1 \<and> cper_trans ?m (cper_state r1) (cper_state r2) else r2 = r1"
    using enrich_batch_row [OF _ r1(1), of now now2 cfg env] u loop_step_db [OF run_iteration.hyps(2)] by auto
  have "attempts_ok ?m r2 \<and> attempts_left ?m r2 + (int p' - int p) \<le> attempts_left ?m r1"
    using r2(2) r1(2) attempt_uses_one [of ?m r1 r2] run_iteration.hyps(3) by (auto split: if_splits)
  then show ?case using r2(1) r1(3) r(3) by (auto simp: algebra_simps)
qed auto


text \<open>A row on its last attempt whose BMC does not answer.\<close>

definition tired_row :: alert_row where
  "tired_row = \<lparr>al_target_id = 7, al_target_name = ''node7'', al_target_bmc = ''10.0.0.7'', al_severity = ''Critical'',
     al_message = ''m'', al_message_id = None, al_event_type = ''Alert'', al_origin = None, al_event_timestamp = None,
     al_received_at = 0, al_occurred_at = 0, al_dedup_key = Some ''k'',
     al_raw_data = Some [(''AdditionalDataURI'', JStr ''/d/1'')], al_cper_status = Some Pending,
     al_refined_message = None, al_cper_decoded = None, al_cper_attempts = 2, al_cper_attempted_at = None\<rparr>"

definition tired_db :: alert_db where
  "tired_db = \<lparr>alerts = [(1, tired_row)], next_id = 2, log_cursors = []\<rparr>"

definition tired_cfg :: worker_config where
  "tired_cfg = \<lparr>wc_batch_size = 2, wc_max_attempts = 3, wc_max_bytes = 64, wc_retry_failed_minutes = 360,
     wc_cooldown_seconds = 60, wc_poll_interval = 30, wc_maintenance_every_cycles = 10\<rparr>"

definition tired_step :: "duration \<times> instant \<times> alert_db" where
  "tired_step = loop_step 0 (seconds 900) (seconds 901) tired_cfg demo_env (0, tired_db)"

lemma tired_step_run: "cper_run tired_cfg 1 (0, tired_db) 1 0 (fst (snd tired_step), snd (snd tired_step))"
proof -
  have a: "attempt_written (seconds 900) tired_cfg demo_env 1 (maintained 0 (seconds 900) tired_cfg (0, tired_db))" by code_simp
  have "status_of 1 tired_db = Some Pending" by code_simp
  then show ?thesis
    using run_iteration [OF run_start, of 0 "seconds 900" "seconds 901" tired_cfg demo_env "(0, tired_db)" "fst tired_step" "snd tired_step" 1 1 0] a
    by (simp add: tired_step_def)
qed


end
