(* ===== verification/Heatmap.thy ===== *)
theory Heatmap
  imports Shard_Leases
begin

text \<open>
  \<open>collector/src/metrics_cache.py\<close> (the per-host hot cache) and the heatmap rows of
  \<open>repository.py\<close> that shards publish and the API merges. Values are finite floats, as
  rationals; times are microseconds.
\<close>

section \<open>The cache\<close>

text \<open>UI key, raw metric name, unit (the degree sign is two UTF-8 bytes), critical threshold.\<close>

definition HEATMAP_METRICS :: "(string \<times> string \<times> string \<times> rat option) list" where
  "HEATMAP_METRICS =
     [(''gpu_temp'', ''gpu_die_temp_celsius'', [CHR 0xC2, CHR 0xB0, CHR ''C''], Some 90),
      (''board_temp'', ''board_temp_celsius'', [CHR 0xC2, CHR 0xB0, CHR ''C''], Some 70),
      (''power'', ''board_power_watts'', ''W'', None)]"

definition CACHED_METRIC_NAMES :: "string list" where
  "CACHED_METRIC_NAMES = map (\<lambda>(_, name, _). name) HEATMAP_METRICS"

definition SAME_CYCLE_WINDOW :: duration where
  "SAME_CYCLE_WINDOW = seconds 90"

definition FRESH_FOR :: duration where
  "FRESH_FOR = seconds 600"

type_synonym heat_entry = "rat \<times> instant"
type_synonym heat_cache = "heat_entry dict dict"

definition entry_of :: "heat_cache \<Rightarrow> string \<Rightarrow> string \<Rightarrow> heat_entry option" where
  "entry_of d host name = Option.bind (map_of d host) (\<lambda>per_host. map_of per_host name)"

definition record_value :: "heat_entry option \<Rightarrow> rat \<Rightarrow> instant \<Rightarrow> heat_entry" where
  "record_value entry value now =
     (case entry of
        None \<Rightarrow> (value, now)
      | Some (v, t) \<Rightarrow>
          if SAME_CYCLE_WINDOW < now - t then (value, now)
          else (if v < value then value else v, now))"

definition heat_record :: "string option \<Rightarrow> string \<Rightarrow> rat \<Rightarrow> instant \<Rightarrow> heat_cache \<Rightarrow> heat_cache" where
  "heat_record host name value now d =
     (case host of
        None \<Rightarrow> d
      | Some h \<Rightarrow>
          if h = [] \<or> name \<notin> set CACHED_METRIC_NAMES then d
          else
            (let per_host = (case map_of d h of None \<Rightarrow> [] | Some m \<Rightarrow> m)
             in AList.update h (AList.update name (record_value (map_of per_host name) value now) per_host) d))"

definition heat_latest :: "string \<Rightarrow> instant \<Rightarrow> heat_cache \<Rightarrow> rat dict" where
  "heat_latest metric_key now d =
     (case map_of HEATMAP_METRICS metric_key of
        None \<Rightarrow> []
      | Some (name, _) \<Rightarrow>
          List.map_filter (\<lambda>(host, per_host).
            case map_of per_host name of
              None \<Rightarrow> None
            | Some (v, t) \<Rightarrow> if now - t \<le> FRESH_FOR then Some (host, v) else None) d)"

section \<open>Published rows\<close>

definition upsert_heatmap_snapshot ::
  "instant \<Rightarrow> string \<Rightarrow> json dict \<Rightarrow> collector_id \<Rightarrow> shard_db \<Rightarrow> shard_db" where
  "upsert_heatmap_snapshot now metric values cid db =
     db\<lparr>heatmap_snapshots := AList.update (cid, metric)
          \<lparr>heat_data = Some values, heat_updated = now\<rparr> (heatmap_snapshots db)\<rparr>"

text \<open>The fresh rows of a metric whose text parses, oldest first, merged in that order.\<close>

definition fresh_heat_rows :: "instant \<Rightarrow> string \<Rightarrow> duration \<Rightarrow> shard_db \<Rightarrow> (instant \<times> json dict) list" where
  "fresh_heat_rows now metric max_age db =
     List.map_filter (\<lambda>((c, m), r).
       if m = metric \<and> now - heat_updated r \<le> max_age
       then map_option (\<lambda>d. (heat_updated r, d)) (heat_data r) else None) (heatmap_snapshots db)"

definition get_heatmap_snapshot :: "instant \<Rightarrow> string \<Rightarrow> duration \<Rightarrow> shard_db \<Rightarrow> json dict option" where
  "get_heatmap_snapshot now metric max_age db =
     (let rows = fresh_heat_rows now metric max_age db in
      if rows = [] then None
      else Some (fold (\<lambda>(_, d) merged. dict_update merged d) (sort_key fst rows) []))"

section \<open>Properties\<close>

lemma map_of_heat_record:
  "entry_of (heat_record (Some h) n v now d) h' n' =
     (if h \<noteq> [] \<and> n \<in> set CACHED_METRIC_NAMES \<and> h' = h \<and> n' = n
      then Some (record_value (entry_of d h n) v now) else entry_of d h' n')"
  by (auto simp: heat_record_def Let_def entry_of_def table_simps split: option.splits)

fun record_burst :: "string \<Rightarrow> string \<Rightarrow> (rat \<times> instant) list \<Rightarrow> heat_cache \<Rightarrow> heat_cache" where
  "record_burst h n [] d = d"
| "record_burst h n ((v, t) # xs) d = record_burst h n xs (heat_record (Some h) n v t d)"

fun one_cycle :: "instant \<Rightarrow> (rat \<times> instant) list \<Rightarrow> bool" where
  "one_cycle t [] = True"
| "one_cycle t ((_, u) # xs) = (u - t \<le> SAME_CYCLE_WINDOW \<and> one_cycle u xs)"

lemma burst_continues:
  assumes "h \<noteq> []" "n \<in> set CACHED_METRIC_NAMES" "entry_of d h n = Some (m, t)" "one_cycle t xs"
  shows "\<exists>u. entry_of (record_burst h n xs d) h n = Some (Max (insert m (fst ` set xs)), u)"
  using assms
proof (induction h n xs d arbitrary: m t rule: record_burst.induct)
  case (2 h n v u xs d)
  have "entry_of (heat_record (Some h) n v u d) h n = Some (max m v, u)"
    using 2 by (auto simp: map_of_heat_record record_value_def max_def)
  then obtain w where "entry_of (record_burst h n xs (heat_record (Some h) n v u d)) h n =
      Some (Max (insert (max m v) (fst ` set xs)), w)"
    using 2 by fastforce
  moreover have "Max (insert (max m v) (fst ` set xs)) = Max (insert m (insert v (fst ` set xs)))"
    by (simp add: Max_insert2 max.assoc) (cases xs; simp add: max.assoc)
  ultimately show ?case by simp
qed simp

text \<open>
  Hotspot per cycle: recording the values of one burst (each within the window of the one
  before it) leaves the maximum of the burst, and the first value after the window starts a
  new cycle with that value alone.
\<close>

lemma heat_record_cycle_max:
  assumes "h \<noteq> []" and "n \<in> set CACHED_METRIC_NAMES" and "one_cycle t xs"
    and "case entry_of d h n of None \<Rightarrow> True | Some (_, t0) \<Rightarrow> SAME_CYCLE_WINDOW < t - t0"
  shows "\<exists>u. entry_of (record_burst h n ((v, t) # xs) d) h n = Some (Max (insert v (fst ` set xs)), u)"
proof -
  have "entry_of (heat_record (Some h) n v t d) h n = Some (v, t)"
    using assms by (auto simp: map_of_heat_record record_value_def split: option.splits)
  from burst_continues [OF assms(1, 2) this assms(3)] show ?thesis by simp
qed

lemma heat_record_cycle_max_witness:
  "\<exists>u. entry_of (record_burst ''node1'' ''board_power_watts'' [(70, 0), (95, seconds 1), (80, seconds 2)] [])
     ''node1'' ''board_power_watts'' = Some (Max (insert 70 (fst ` set [(95, seconds 1), (80, seconds 2)])), u)"
  by (rule heat_record_cycle_max)
    (simp_all add: CACHED_METRIC_NAMES_def HEATMAP_METRICS_def SAME_CYCLE_WINDOW_def entry_of_def)

lemma merge_rows_other:
  assumes "\<forall>(_, e) \<in> set rows. k \<notin> fst ` set e"
  shows "map_of (fold (\<lambda>(_, d) merged. dict_update merged d) rows m) k = map_of m k"
  using assms
proof (induction rows arbitrary: m)
  case (Cons r rows)
  obtain u e where r: "r = (u, e)" by (cases r)
  have "map_of (dict_update m e) k = map_of m k" if "k \<notin> fst ` set e" for m
    using that by (induction e arbitrary: m) (auto simp: update_conv')
  with Cons r show ?case by simp
qed simp

lemma merge_rows_newest:
  assumes "rows = pre @ (u, d) # post" "unique_key d" "map_of d k = Some v"
    "\<forall>(_, e) \<in> set post. k \<notin> fst ` set e"
  shows "map_of (fold (\<lambda>(_, d) merged. dict_update merged d) rows m) k = Some v"
  using assms by (simp add: merge_rows_other map_of_dict_update map_add_def)

text \<open>
  Newest shard wins: in the merged heatmap the value of a host is the one of the
  most recently published fresh row that reports the host, in whatever order the rows are
  stored.
\<close>

lemma heatmap_newest_wins:
  assumes "(u, d) \<in> set (fresh_heat_rows now metric max_age db)" and "unique_key d" and "map_of d k = Some v"
    and "\<forall>(w, e) \<in> set (fresh_heat_rows now metric max_age db). (w, e) = (u, d) \<or> w < u \<or> k \<notin> fst ` set e"
  shows "\<exists>merged. get_heatmap_snapshot now metric max_age db = Some merged \<and> map_of merged k = Some v"
proof -
  let ?rows = "fresh_heat_rows now metric max_age db"
  let ?srt = "sort_key fst ?rows"
  have "(u, d) \<in> set ?srt" using assms(1) by simp
  then obtain pre post where srt: "?srt = pre @ (u, d) # post" and last: "(u, d) \<notin> set post"
    by (meson split_list_last)
  have "k \<notin> fst ` set e" if "(w, e) \<in> set post" for w e
  proof -
    have "u \<le> w" using sorted_sort_key [of fst ?rows] that unfolding srt by (auto simp: sorted_append)
    moreover have "(w, e) \<noteq> (u, d)" using that last by blast
    moreover have "(w, e) \<in> set ?rows" using that srt by (metis Un_iff list.set_intros(2) set_append set_sort)
    ultimately show ?thesis using assms(4) by fastforce
  qed
  then have "map_of (fold (\<lambda>(_, d) merged. dict_update merged d) ?srt []) k = Some v"
    by (intro merge_rows_newest [OF srt assms(2, 3)]) auto
  moreover have "?rows \<noteq> []" using assms(1) by auto
  ultimately show ?thesis by (simp add: get_heatmap_snapshot_def Let_def)
qed

definition demo_heat :: shard_db where
  "demo_heat = \<lparr>targets = [], shard_leases = [], collector_slots = [], collector_stats = [],
     heatmap_snapshots =
       [((''b'', ''power''), \<lparr>heat_data = Some [(''n1'', JInt 9)], heat_updated = seconds 20\<rparr>),
        ((''a'', ''power''), \<lparr>heat_data = Some [(''n1'', JInt 4), (''n2'', JInt 5)], heat_updated = seconds 10\<rparr>)]\<rparr>"

lemma heatmap_newest_wins_witness:
  "\<exists>merged. get_heatmap_snapshot (seconds 30) ''power'' (seconds 300) demo_heat = Some merged \<and>
     map_of merged ''n1'' = Some (JInt 9)"
  by (rule heatmap_newest_wins [where u = "seconds 20" and d = "[(''n1'', JInt 9)]"])
    (simp_all add: fresh_heat_rows_def demo_heat_def map_filter_def)

end
