(* ===== verification/Influx_Exporter.thy ===== *)
theory Influx_Exporter
  imports Heatmap
begin

text \<open>
  \<open>collector/src/exporters/influxdb.py\<close>: the bounded point buffer, the flush that writes it in
  batches, the bisection of a batch the server rejects for good, and the reconnect logic.
  The write API of the InfluxDB client is an argument: a function from its own state \<open>'w\<close> and
  a batch to a reply and the next state, so it may answer every call differently; the
  serialisation of the batch to line protocol, which may raise, is part of it. Points
  (\<open>'p\<close>) are opaque.
\<close>

section \<open>Writing a batch\<close>

text \<open>
  A reply: accepted after some milliseconds, a timeout, or an error with the HTTP status (if
  any) and its text in lower case.
\<close>

datatype write_reply = Accepted rat | WriteTimeout | WriteError "int option" string

type_synonym ('w, 'p) write_api = "'w \<Rightarrow> 'p list \<Rightarrow> write_reply \<times> 'w"

text \<open>
  \<open>accepted\<close> and \<open>rejected\<close> list what the server acknowledged and what the exporter gave up
  on; the code keeps only the number of rejected points.
\<close>

record ('w, 'p) sink =
  world :: 'w
  accepted :: "'p list"
  rejected :: "'p list"

definition is_unprocessable :: "int option \<Rightarrow> string \<Rightarrow> bool" where
  "is_unprocessable status err_text \<longleftrightarrow>
     status = Some 400 \<or> status = Some 422 \<or>
     list_ex (contains err_text) [''unprocessable'', ''unable to parse'', ''partial write'', ''not finite'']"

text \<open>The three kinds of reply the exporter tells apart.\<close>

fun permanent_reply :: "write_reply \<Rightarrow> bool" where
  "permanent_reply (WriteError status err) \<longleftrightarrow> is_unprocessable status err"
| "permanent_reply _ \<longleftrightarrow> False"

fun transient_reply :: "write_reply \<Rightarrow> bool" where
  "transient_reply (WriteError status err) \<longleftrightarrow> \<not> is_unprocessable status err"
| "transient_reply WriteTimeout \<longleftrightarrow> True"
| "transient_reply (Accepted _) \<longleftrightarrow> False"

fun accepted_reply :: "write_reply \<Rightarrow> bool" where
  "accepted_reply (Accepted _) \<longleftrightarrow> True"
| "accepted_reply _ \<longleftrightarrow> False"

definition send :: "('w, 'p) write_api \<Rightarrow> 'p list \<Rightarrow> ('w, 'p) sink \<Rightarrow> write_reply \<times> ('w, 'p) sink" where
  "send api batch s =
     (case api (world s) batch of
        (Accepted d, w) \<Rightarrow> (Accepted d, s\<lparr>world := w, accepted := accepted s @ batch\<rparr>)
      | (r, w) \<Rightarrow> (r, s\<lparr>world := w\<rparr>))"

text \<open>
  \<open>_write_or_bisect\<close> with \<open>_isolate_unprocessable\<close>: the points to retry, how many were
  written, the latency of a clean write.
\<close>

function write_or_bisect ::
  "('w, 'p) write_api \<Rightarrow> 'p list \<Rightarrow> ('w, 'p) sink \<Rightarrow> ('p list \<times> nat \<times> rat) \<times> ('w, 'p) sink" where
  "write_or_bisect api batch s =
     (if batch = [] then (([], 0, 0), s)
      else case send api batch s of
        (Accepted d, s1) \<Rightarrow> (([], length batch, d), s1)
      | (WriteTimeout, s1) \<Rightarrow> ((batch, 0, 0), s1)
      | (WriteError status err, s1) \<Rightarrow>
          if is_unprocessable status err then
            (if length batch = 1 then (([], 0, 0), s1\<lparr>rejected := rejected s1 @ batch\<rparr>)
             else
               (let mid = length batch div 2;
                    ((left_retry, left_written, _), s2) = write_or_bisect api (take mid batch) s1;
                    ((right_retry, right_written, _), s3) = write_or_bisect api (drop mid batch) s2
                in ((left_retry @ right_retry, left_written + right_written, 0), s3)))
          else ((batch, 0, 0), s1))"
  by pat_completeness auto
termination
proof (relation "measure (\<lambda>(api, batch, s). length batch)", goal_cases)
  case (2 api batch s reply s1 status err mid)
  then have "2 \<le> length batch" by (cases batch) (auto simp: neq_Nil_conv)
  then show ?case using 2 by simp
next
  case (3 api batch s reply s1 status err mid)
  then have "2 \<le> length batch" by (cases batch) (auto simp: neq_Nil_conv)
  then show ?case using 3 by simp
qed simp

declare write_or_bisect.simps [simp del]

section \<open>The buffer\<close>

definition MAX_BUFFER_ABSOLUTE :: nat where
  "MAX_BUFFER_ABSOLUTE = 500000"

definition RECONNECT_THRESHOLD :: nat where
  "RECONNECT_THRESHOLD = 3"

record 'p exporter =
  batch_size :: nat
  max_buffer_size :: nat
  buffer :: "'p list"
  dropped_points :: nat
  connected :: bool
  running :: bool
  flush_event :: bool
  consecutive_batch_failures :: nat
  write_count :: nat
  total_points_written :: nat
  last_write_time :: "instant option"
  write_failures_24h :: nat
  write_latency_ms :: rat
  successful_batches :: nat
  failed_batches :: nat
  reconnect_delay :: rat
  reconnect_count :: nat

definition new_exporter :: "nat \<Rightarrow> 'p exporter" where
  "new_exporter bs =
     \<lparr>batch_size = bs, max_buffer_size = min (bs * 200) MAX_BUFFER_ABSOLUTE, buffer = [], dropped_points = 0,
      connected = False, running = False, flush_event = False, consecutive_batch_failures = 0, write_count = 0,
      total_points_written = 0, last_write_time = None, write_failures_24h = 0, write_latency_ms = 0, successful_batches = 0,
      failed_batches = 0, reconnect_delay = 10, reconnect_count = 0\<rparr>"

text \<open>A metric; its conversion to a point of the client library is an argument.\<close>

record metric =
  mt_name :: string
  mt_value :: rat
  mt_timestamp :: instant
  mt_tags :: "string dict"
  mt_metric_type :: string
  mt_unit :: string

definition record_heatmap :: "instant \<Rightarrow> metric list \<Rightarrow> heat_cache \<Rightarrow> heat_cache" where
  "record_heatmap now ms d =
     fold (\<lambda>m d. if mt_name m \<in> set CACHED_METRIC_NAMES
                 then heat_record (map_of (mt_tags m) ''host'') (mt_name m) (mt_value m) now d else d) ms d"

text \<open>\<open>write\<close>: buffer the points, drop the oldest beyond the cap, signal a full batch.\<close>

definition buffer_points :: "'p list \<Rightarrow> 'p exporter \<Rightarrow> 'p exporter" where
  "buffer_points points x =
     (let combined = buffer x @ points;
          overflow = length combined - max_buffer_size x;
          x1 = (if max_buffer_size x < length combined
                then x\<lparr>buffer := drop overflow combined, dropped_points := dropped_points x + overflow\<rparr>
                else x\<lparr>buffer := combined\<rparr>)
      in if batch_size x \<le> length (buffer x1) then x1\<lparr>flush_event := True\<rparr> else x1)"

definition write_metrics :: "(metric \<Rightarrow> 'p) \<Rightarrow> instant \<Rightarrow> metric list \<Rightarrow> heat_cache \<times> 'p exporter \<Rightarrow> heat_cache \<times> 'p exporter" where
  "write_metrics metric_to_point now ms = (\<lambda>(d, x). (record_heatmap now ms d, buffer_points (map metric_to_point ms) x))"

text \<open>\<open>combined[-max:]\<close>: Python reads \<open>[-0:]\<close> as the whole list.\<close>

definition last_points :: "nat \<Rightarrow> 'p list \<Rightarrow> 'p list" where
  "last_points n xs = (if n = 0 then xs else drop (length xs - n) xs)"

definition re_add_points :: "'p list \<Rightarrow> 'p exporter \<Rightarrow> 'p exporter" where
  "re_add_points points x =
     (let combined = points @ buffer x in
      if max_buffer_size x < length combined
      then x\<lparr>buffer := last_points (max_buffer_size x) combined,
             dropped_points := dropped_points x + (length combined - max_buffer_size x)\<rparr>
      else x\<lparr>buffer := combined\<rparr>)"

definition force_reset_connection :: "'p exporter \<Rightarrow> 'p exporter" where
  "force_reset_connection x = x\<lparr>connected := False, consecutive_batch_failures := 0\<rparr>"

section \<open>A flush\<close>

text \<open>\<open>[points[i : i + n] for i in range(0, len(points), n)]\<close>; \<open>range\<close> raises for step 0.\<close>

definition batches_of :: "nat \<Rightarrow> 'p list \<Rightarrow> 'p list list" where
  "batches_of n points = chunks (n - 1) points"

text \<open>The batches are written one after the other here; each call meets any server state.\<close>

fun write_batches ::
  "('w, 'p) write_api \<Rightarrow> 'p list list \<Rightarrow> ('w, 'p) sink \<Rightarrow> ('p list \<times> nat \<times> rat) list \<times> ('w, 'p) sink" where
  "write_batches api [] s = ([], s)"
| "write_batches api (b # bs) s =
     (let (r, s1) = write_or_bisect api b s; (rs, s2) = write_batches api bs s1 in (r # rs, s2))"

definition update_latency :: "rat list \<Rightarrow> rat \<Rightarrow> rat" where
  "update_latency durations old =
     (if durations = [] then old
      else
        (let avg = sum_list durations / of_nat (length durations)
         in if old = 0 then avg else 9 / 10 * old + 1 / 10 * avg))"

definition account_results :: "instant \<Rightarrow> ('p list \<times> nat \<times> rat) list \<Rightarrow> 'p exporter \<Rightarrow> 'p exporter" where
  "account_results now results x =
     (let ok = filter (\<lambda>(_, w, _). 0 < w) results;
          failed = filter (\<lambda>r. r \<noteq> []) (map fst results);
          points = sum_list (map (\<lambda>(_, w, _). w) ok);
          durations = filter (\<lambda>d. d \<noteq> 0) (map (\<lambda>(_, _, d). d) ok);
          x1 = x\<lparr>successful_batches := successful_batches x + length ok,
                 failed_batches := failed_batches x + length failed,
                 write_latency_ms := update_latency durations (write_latency_ms x)\<rparr>;
          x2 = (if ok \<noteq> [] then x1\<lparr>consecutive_batch_failures := 0, write_count := write_count x + 1,
                                   total_points_written := total_points_written x + points,
                                   last_write_time := Some now\<rparr>
                else x1)
      in if failed = [] then x2
         else
           (let x3 = x2\<lparr>write_failures_24h := write_failures_24h x2 + length failed,
                        consecutive_batch_failures :=
                          consecutive_batch_failures x2 + (if ok = [] then 1 else 0)\<rparr>
            in re_add_points (concat failed) x3))"

text \<open>
  \<open>_flush_buffer\<close>. \<open>arrivals\<close> are the points producers buffer while the batches are written;
  \<open>finish_flush\<close> is what follows once the points are taken out of the buffer and the connection is there.
  A batch task turns every error into a result, so the code's branch for tasks that raise is
  not reached; its outer \<open>except\<close> is reached by the batching, for a batch size of 0.
\<close>

definition flush_error :: "'p list \<Rightarrow> 'p exporter \<Rightarrow> 'p exporter" where
  "flush_error points x =
     re_add_points points
       (x\<lparr>write_failures_24h := write_failures_24h x + 1,
          consecutive_batch_failures := consecutive_batch_failures x + 1\<rparr>)"

definition check_failures :: "'p exporter \<Rightarrow> 'p exporter" where
  "check_failures x =
     (if RECONNECT_THRESHOLD \<le> consecutive_batch_failures x then force_reset_connection x else x)"

definition finish_flush ::
  "('w, 'p) write_api \<Rightarrow> instant \<Rightarrow> 'p list \<Rightarrow> 'p exporter \<Rightarrow> ('w, 'p) sink \<Rightarrow> 'p exporter \<times> ('w, 'p) sink" where
  "finish_flush api now points x s =
     (if batch_size x = 0 then (check_failures (flush_error points x), s)
      else
        (let (results, s1) = write_batches api (batches_of (batch_size x) points) s
         in (check_failures (account_results now results x), s1)))"

definition flush_buffer ::
  "('w, 'p) write_api \<Rightarrow> instant \<Rightarrow> 'p list list \<Rightarrow> 'p exporter \<Rightarrow> ('w, 'p) sink \<Rightarrow> 'p exporter \<times> ('w, 'p) sink" where
  "flush_buffer api now arrivals x s =
     (if buffer x = [] then (x, s)
      else
        (let points = buffer x; x1 = fold buffer_points arrivals (x\<lparr>buffer := []\<rparr>) in
         if \<not> connected x then (re_add_points points x1, s) else finish_flush api now points x1 s))"

text \<open>\<open>_reconnect\<close>, with whether the ping answered, and an iteration of \<open>_flush_loop\<close>.\<close>

definition reconnect :: "bool \<Rightarrow> 'p exporter \<Rightarrow> 'p exporter" where
  "reconnect ping_ok x =
     (if ping_ok then x\<lparr>connected := True, reconnect_delay := 10, reconnect_count := reconnect_count x + 1\<rparr>
      else x\<lparr>connected := False\<rparr>)"

definition flush_loop_step ::
  "bool \<Rightarrow> ('w, 'p) write_api \<Rightarrow> instant \<Rightarrow> 'p list list \<Rightarrow> 'p exporter \<Rightarrow> ('w, 'p) sink \<Rightarrow>
   'p exporter \<times> ('w, 'p) sink" where
  "flush_loop_step ping_ok api now arrivals x s =
     (if \<not> connected x then
        (let x1 = reconnect ping_ok x in
         if ping_ok then flush_buffer api now arrivals x1 s
         else (x1\<lparr>reconnect_delay := min (reconnect_delay x1 * 2) 300\<rparr>, s))
      else flush_buffer api now arrivals (x\<lparr>flush_event := False\<rparr>) s)"

definition close_exporter ::
  "('w, 'p) write_api \<Rightarrow> instant \<Rightarrow> 'p exporter \<Rightarrow> ('w, 'p) sink \<Rightarrow> 'p exporter \<times> ('w, 'p) sink" where
  "close_exporter api now x s =
     (let (x1, s1) = flush_buffer api now [] (x\<lparr>running := False\<rparr>) s in (x1\<lparr>connected := False\<rparr>, s1))"

definition write_immediate ::
  "('w, 'p) write_api \<Rightarrow> 'p list \<Rightarrow> 'p exporter \<Rightarrow> ('w, 'p) sink \<Rightarrow> bool \<times> ('w, 'p) sink" where
  "write_immediate api points x s =
     (if \<not> connected x then (False, s)
      else case send api points s of (Accepted _, s1) \<Rightarrow> (True, s1) | (_, s1) \<Rightarrow> (False, s1))"

section \<open>The first connection\<close>

text \<open>
  What an attempt meets: the client's constructor raises, the ping does not confirm (or
  raises), or the server answers. \<open>client\<close> is a local variable that only the constructor call
  assigns, and the handler reads it: the first attempt's constructor error surfaces as an
  \<open>UnboundLocalError\<close>.
\<close>

datatype connect_attempt = ConstructorRaises | PingFails | PingOk
datatype connect_result = Connected | ConnectionError | UnboundLocalError

fun connect_attempts ::
  "(nat \<Rightarrow> connect_attempt) \<Rightarrow> nat \<Rightarrow> nat \<Rightarrow> bool \<Rightarrow> rat \<Rightarrow> rat \<Rightarrow> connect_result \<times> rat list" where
  "connect_attempts outcome attempt 0 bound delay max_delay = (ConnectionError, [])"
| "connect_attempts outcome attempt (Suc left) bound delay max_delay =
     (case outcome attempt of
        PingOk \<Rightarrow> (Connected, [])
      | failure \<Rightarrow>
          if failure = ConstructorRaises \<and> \<not> bound then (UnboundLocalError, [])
          else
            (let (r, sleeps) = connect_attempts outcome (Suc attempt) left True (if 0 < left then min (delay * 2) max_delay else delay) max_delay
             in (r, if 0 < left then delay # sleeps else sleeps)))"

definition start_flush_loop :: "'p exporter \<Rightarrow> 'p exporter" where
  "start_flush_loop x = (if running x then x else x\<lparr>running := True\<rparr>)"

definition connect ::
  "(nat \<Rightarrow> connect_attempt) \<Rightarrow> nat \<Rightarrow> rat \<Rightarrow> rat \<Rightarrow> 'p exporter \<Rightarrow> (connect_result \<times> rat list) \<times> 'p exporter" where
  "connect outcome max_retries initial_delay max_delay x =
     (let (r, sleeps) = connect_attempts outcome 0 max_retries False initial_delay max_delay
      in ((r, sleeps),
          case r of
            Connected \<Rightarrow> start_flush_loop (x\<lparr>connected := True\<rparr>)
          | ConnectionError \<Rightarrow> start_flush_loop x
          | UnboundLocalError \<Rightarrow> x))"

section \<open>Health\<close>

definition PIPELINE_DEAD_AFTER :: duration where
  "PIPELINE_DEAD_AFTER = seconds 600"

text \<open>The figures the health report is computed from; percentages before display rounding.\<close>

definition pipeline_recent :: "instant \<Rightarrow> 'p exporter \<Rightarrow> bool" where
  "pipeline_recent now x = (case last_write_time x of None \<Rightarrow> True | Some t \<Rightarrow> now - t < PIPELINE_DEAD_AFTER)"

definition percent :: "nat \<Rightarrow> nat \<Rightarrow> rat" where
  "percent part whole = (if 0 < whole then of_nat part / of_nat whole * 100 else 0)"

record health_report =
  hr_connected :: bool
  hr_critical :: "bool list"
  hr_performance :: "bool list"
  hr_is_healthy :: bool

definition get_health_metrics :: "instant \<Rightarrow> 'p exporter \<Rightarrow> nat \<Rightarrow> health_report option" where
  "get_health_metrics now x rejected_points =
     (if max_buffer_size x = 0 then None
      else
        (let util = percent (length (buffer x)) (max_buffer_size x);
             recent = pipeline_recent now x;
             conn = (connected x \<and> recent);
             failure_rate = percent (failed_batches x) (successful_batches x + failed_batches x);
             rejected_rate = percent rejected_points (total_points_written x + rejected_points);
             critical = [conn, recent, dropped_points x = 0, util < 95];
             performance = [failure_rate \<le> 2, write_latency_ms x < 3000, util < 80, write_failures_24h x < 50,
                            rejected_rate \<le> 1];
             score = length (filter (\<lambda>ok. ok) performance)
         in Some \<lparr>hr_connected = conn, hr_critical = critical, hr_performance = performance,
                  hr_is_healthy = (list_all (\<lambda>ok. ok) critical \<and> length performance - 1 \<le> score)\<rparr>))"

section \<open>Every point is accounted for\<close>

lemma send_cases:
  obtains (accepted) d w where "send api batch s = (Accepted d, s\<lparr>world := w, accepted := accepted s @ batch\<rparr>)"
  | (timeout) w where "send api batch s = (WriteTimeout, s\<lparr>world := w\<rparr>)"
  | (error) st err w where "send api batch s = (WriteError st err, s\<lparr>world := w\<rparr>)"
  by (cases "api (world s) batch"; cases "fst (api (world s) batch)") (auto simp: send_def)

text \<open>The outcomes of one attempt, and the two halves of a bisection.\<close>

lemma write_or_bisect_cases:
  assumes "write_or_bisect api batch s = ((retry, written, d), s')"
  obtains (empty) "batch = []" "retry = []" "written = 0" "s' = s"
  | (accepted) w where "retry = []" "written = length batch" "s' = s\<lparr>world := w, accepted := accepted s @ batch\<rparr>"
      "fst (api (world s) batch) = Accepted d"
  | (retry) w where "retry = batch" "written = 0" "s' = s\<lparr>world := w\<rparr>" "batch \<noteq> []"
      "transient_reply (fst (api (world s) batch))"
  | (reject) w where "retry = []" "written = 0" "length batch = 1" "s' = s\<lparr>world := w, rejected := rejected s @ batch\<rparr>"
      "permanent_reply (fst (api (world s) batch))"
  | (bisect) w lr lw ld s2 rr rw rd where "2 \<le> length batch"
      "permanent_reply (fst (api (world s) batch))"
      "write_or_bisect api (take (length batch div 2) batch) (s\<lparr>world := w\<rparr>) = ((lr, lw, ld), s2)"
      "write_or_bisect api (drop (length batch div 2) batch) s2 = ((rr, rw, rd), s')"
      "retry = lr @ rr" "written = lw + rw"
proof (cases "batch = []")
  case True
  then show thesis using assms empty by (subst (asm) write_or_bisect.simps) simp
next
  case ne: False
  obtain reply w where api: "api (world s) batch = (reply, w)" by fastforce
  show thesis
  proof (cases reply)
    case (Accepted x)
    then show thesis using assms accepted [of w] ne api
      by (subst (asm) write_or_bisect.simps) (auto simp: send_def)
  next
    case WriteTimeout
    then show thesis using assms retry [of w] ne api
      by (subst (asm) write_or_bisect.simps) (auto simp: send_def)
  next
    case (WriteError st err)
    then have sd: "send api batch s = (WriteError st err, s\<lparr>world := w\<rparr>)" using api by (simp add: send_def)
    consider (keep) "\<not> is_unprocessable st err" | (one) "is_unprocessable st err" "length batch = 1"
      | (many) "is_unprocessable st err" "length batch \<noteq> 1" by blast
    then show thesis
    proof cases
      case keep
      then show thesis using assms retry [of w] ne api WriteError sd
        by (subst (asm) write_or_bisect.simps) auto
    next
      case one
      then show thesis using assms reject [of w] ne api WriteError sd
        by (subst (asm) write_or_bisect.simps) auto
    next
      case many
      then have two: "2 \<le> length batch" using ne by (cases batch) (auto simp: neq_Nil_conv)
      show thesis
        using assms ne sd many WriteError api
        by (subst (asm) write_or_bisect.simps) (auto simp: Let_def split: prod.splits intro!: bisect [OF two])
    qed
  qed
qed

lemma write_or_bisect_conserves:
  assumes "write_or_bisect api batch s = ((retry, written, d), s')"
  shows "\<exists>acc rej. accepted s' = accepted s @ acc \<and> rejected s' = rejected s @ rej \<and>
    mset batch = mset retry + mset acc + mset rej \<and> written = length acc"
  using assms
proof (induction "length batch" arbitrary: batch s retry written d s' rule: less_induct)
  case less
  from less(2) show ?case
  proof (cases rule: write_or_bisect_cases)
    case (bisect w lr lw ld s2 rr rw rd)
    let ?mid = "length batch div 2"
    have "length (take ?mid batch) < length batch" "length (drop ?mid batch) < length batch"
      using bisect(1) by simp_all
    from less(1) [OF this(1) bisect(3)] less(1) [OF this(2) bisect(4)]
    obtain a1 j1 a2 j2 where h: "accepted s2 = accepted s @ a1" "rejected s2 = rejected s @ j1"
        "mset (take ?mid batch) = mset lr + mset a1 + mset j1" "lw = length a1"
        "accepted s' = accepted s2 @ a2" "rejected s' = rejected s2 @ j2"
        "mset (drop ?mid batch) = mset rr + mset a2 + mset j2" "rw = length a2" by auto
    have "mset batch = mset (take ?mid batch) + mset (drop ?mid batch)"
      by (metis append_take_drop_id mset_append)
    then show ?thesis using h bisect(5, 6) by (intro exI [of _ "a1 @ a2"] exI [of _ "j1 @ j2"]) simp
  qed auto
qed

section \<open>The buffer is bounded and keeps the newest points\<close>

text \<open>
  The contract of an operation that adds points to the capped buffer: the new points are
  combined with the buffered ones in age order, the oldest are cut to the cap and counted.
\<close>

locale bounded_buffer =
  fixes add :: "'p list \<Rightarrow> 's \<Rightarrow> 's"
    and contents :: "'s \<Rightarrow> 'p list"
    and cap :: "'s \<Rightarrow> nat"
    and lost :: "'s \<Rightarrow> nat"
    and by_age :: "'p list \<Rightarrow> 'p list \<Rightarrow> 'p list"
  assumes by_age: "mset (by_age ps qs) = mset ps + mset qs"
    and contents_add: "0 < cap s \<Longrightarrow>
      contents (add ps s) = drop (length (by_age ps (contents s)) - cap s) (by_age ps (contents s))"
    and lost_add: "0 < cap s \<Longrightarrow> lost (add ps s) = lost s + (length (by_age ps (contents s)) - cap s)"
    and cap_add [simp]: "cap (add ps s) = cap s"
begin

lemma add_bounded: "0 < cap s \<Longrightarrow> length (contents (add ps s)) \<le> cap s"
  by (simp add: contents_add)

lemma add_conserves:
  assumes "0 < cap s"
  shows "\<exists>gone. mset ps + mset (contents s) = mset (contents (add ps s)) + mset gone \<and>
    lost (add ps s) = lost s + length gone"
proof -
  let ?all = "by_age ps (contents s)"
  let ?k = "length ?all - cap s"
  have "mset ps + mset (contents s) = mset (take ?k ?all) + mset (drop ?k ?all)"
    by (metis by_age append_take_drop_id mset_append)
  then show ?thesis using assms by (intro exI [of _ "take ?k ?all"]) (simp add: contents_add lost_add)
qed

lemma cap_fold [simp]: "cap (fold add pss s) = cap s"
  by (induction pss arbitrary: s) auto

lemma fold_bounded: "0 < cap s \<Longrightarrow> length (contents s) \<le> cap s \<Longrightarrow> length (contents (fold add pss s)) \<le> cap s"
proof (induction pss arbitrary: s)
  case (Cons ps pss)
  then show ?case using Cons.IH [of "add ps s"] by (simp add: add_bounded)
qed simp

lemma fold_conserves:
  assumes "0 < cap s"
  shows "\<exists>gone. mset (concat pss) + mset (contents s) = mset (contents (fold add pss s)) + mset gone \<and>
    lost (fold add pss s) = lost s + length gone"
  using assms
proof (induction pss arbitrary: s)
  case (Cons ps pss)
  obtain g where g: "mset ps + mset (contents s) = mset (contents (add ps s)) + mset g"
    "lost (add ps s) = lost s + length g" using add_conserves [OF Cons.prems] by blast
  obtain h where h: "mset (concat pss) + mset (contents (add ps s)) = mset (contents (fold add pss (add ps s))) + mset h"
    "lost (fold add pss (add ps s)) = lost (add ps s) + length h" using Cons.IH [of "add ps s"] Cons.prems by auto
  have "mset (concat (ps # pss)) + mset (contents s) = mset (concat pss) + (mset ps + mset (contents s))"
    by (simp add: ac_simps)
  also have "\<dots> = mset (contents (fold add pss (add ps s))) + mset (g @ h)"
    unfolding g(1) using h(1) by (simp add: ac_simps)
  finally show ?case using g h by (intro exI [of _ "g @ h"]) simp
qed simp

end

lemma buffer_points_selectors [simp]:
  "max_buffer_size (buffer_points ps x) = max_buffer_size x"
  "batch_size (buffer_points ps x) = batch_size x"
  "connected (buffer_points ps x) = connected x"
  "total_points_written (buffer_points ps x) = total_points_written x"
  "consecutive_batch_failures (buffer_points ps x) = consecutive_batch_failures x"
  by (simp_all add: buffer_points_def Let_def)

lemma re_add_points_selectors [simp]:
  "max_buffer_size (re_add_points ps x) = max_buffer_size x"
  "batch_size (re_add_points ps x) = batch_size x"
  "connected (re_add_points ps x) = connected x"
  "total_points_written (re_add_points ps x) = total_points_written x"
  "consecutive_batch_failures (re_add_points ps x) = consecutive_batch_failures x"
  by (simp_all add: re_add_points_def Let_def)

interpretation write_buf: bounded_buffer buffer_points buffer max_buffer_size dropped_points "\<lambda>ps qs. qs @ ps"
  by unfold_locales (auto simp: buffer_points_def Let_def)

interpretation retry_buf: bounded_buffer re_add_points buffer max_buffer_size dropped_points "\<lambda>ps qs. ps @ qs"
  by unfold_locales (auto simp: re_add_points_def last_points_def Let_def)

lemma fold_buffer_points_selectors [simp]:
  "batch_size (fold buffer_points pss x) = batch_size x"
  "connected (fold buffer_points pss x) = connected x"
  "total_points_written (fold buffer_points pss x) = total_points_written x"
  "consecutive_batch_failures (fold buffer_points pss x) = consecutive_batch_failures x"
  by (induction pss arbitrary: x) auto

lemma concat_chunks [simp]: "concat (chunks n xs) = xs"
proof (induction n xs rule: chunks.induct)
  case (2 n x xs)
  then show ?case by simp
qed simp

lemma write_batches_conserves:
  assumes "write_batches api bs s = (results, s')"
  shows "\<exists>acc rej. accepted s' = accepted s @ acc \<and> rejected s' = rejected s @ rej \<and>
    mset (concat bs) = mset (concat (map fst results)) + mset acc + mset rej \<and>
    sum_list (map (\<lambda>(_, w, _). w) results) = length acc"
  using assms
proof (induction bs arbitrary: s results)
  case (Cons b bs)
  obtain r w d s1 where r: "write_or_bisect api b s = ((r, w, d), s1)" by (cases "write_or_bisect api b s") auto
  obtain rs where rs: "write_batches api bs s1 = (rs, s')" "results = (r, w, d) # rs"
    using Cons.prems r by (auto split: prod.splits)
  obtain a1 j1 where h1: "accepted s1 = accepted s @ a1" "rejected s1 = rejected s @ j1"
    "mset b = mset r + mset a1 + mset j1" "w = length a1" using write_or_bisect_conserves [OF r] by blast
  obtain a2 j2 where h2: "accepted s' = accepted s1 @ a2" "rejected s' = rejected s1 @ j2"
    "mset (concat bs) = mset (concat (map fst rs)) + mset a2 + mset j2"
    "sum_list (map (\<lambda>(_, w, _). w) rs) = length a2" using Cons.IH [OF rs(1)] by blast
  then show ?case using h1 rs by (intro exI [of _ "a1 @ a2"] exI [of _ "j1 @ j2"]) simp
qed simp

lemma concat_nonempty [simp]: "concat (filter (\<lambda>r. r \<noteq> []) rs) = concat rs"
  by (induction rs) auto

lemma sum_written [simp]:
  "sum_list (map (\<lambda>(_, w, _). w) (filter (\<lambda>(_, w, _). 0 < w) rs)) = sum_list (map (\<lambda>(_, w, _). (w::nat)) rs)"
  by (induction rs) auto

text \<open>Accounting for a flush: the retry points go back under the cap, the rest is counted.\<close>

lemma account_results_buffer:
  "buffer (account_results now rs x) =
     (if concat (map fst rs) = [] then buffer x else buffer (re_add_points (concat (map fst rs)) x))"
  "dropped_points (account_results now rs x) =
     (if concat (map fst rs) = [] then dropped_points x else dropped_points (re_add_points (concat (map fst rs)) x))"
proof -
  have "filter (\<lambda>r. r \<noteq> []) (map fst rs) = [] \<longleftrightarrow> concat (map fst rs) = []"
    by (induction rs) auto
  then show "buffer (account_results now rs x) =
     (if concat (map fst rs) = [] then buffer x else buffer (re_add_points (concat (map fst rs)) x))"
  "dropped_points (account_results now rs x) =
     (if concat (map fst rs) = [] then dropped_points x else dropped_points (re_add_points (concat (map fst rs)) x))"
    by (simp_all add: account_results_def re_add_points_def Let_def del: filter_empty_conv concat_eq_Nil_conv)
qed

lemma account_results_written:
  "total_points_written (account_results now rs x) = total_points_written x + sum_list (map (\<lambda>(_, w, _). w) rs)"
proof -
  have "filter (\<lambda>(_, w, _). 0 < w) rs = [] \<Longrightarrow> sum_list (map (\<lambda>(_, w, _). w) rs) = 0"
    by (metis list.map(1) sum_list.Nil sum_written)
  then show ?thesis
    by (simp add: account_results_def Let_def del: filter_empty_conv)
qed

lemma account_results_conserves:
  assumes "0 < max_buffer_size x"
  shows "\<exists>gone. mset (concat (map fst rs)) + mset (buffer x) = mset (buffer (account_results now rs x)) + mset gone \<and>
    dropped_points (account_results now rs x) = dropped_points x + length gone"
  using retry_buf.add_conserves [OF assms, of "concat (map fst rs)"]
  by (cases "concat (map fst rs) = []") (simp_all only: account_results_buffer if_True if_False, auto)

lemma account_results_selectors [simp]:
  "max_buffer_size (account_results now rs x) = max_buffer_size x" "batch_size (account_results now rs x) = batch_size x"
  "connected (account_results now rs x) = connected x" "running (account_results now rs x) = running x"
  by (simp_all add: account_results_def re_add_points_def Let_def)

lemma check_failures_selectors [simp]:
  "max_buffer_size (check_failures x) = max_buffer_size x" "batch_size (check_failures x) = batch_size x"
  "buffer (check_failures x) = buffer x" "dropped_points (check_failures x) = dropped_points x"
  "total_points_written (check_failures x) = total_points_written x"
  by (simp_all add: check_failures_def force_reset_connection_def)

lemma finish_flush_accounts:
  assumes "finish_flush api now points x s = (x', s')" "0 < max_buffer_size x" "0 < batch_size x"
    "length (buffer x) \<le> max_buffer_size x"
  shows "\<exists>acc rej gone. accepted s' = accepted s @ acc \<and> rejected s' = rejected s @ rej \<and>
    mset points + mset (buffer x) = mset (buffer x') + mset acc + mset rej + mset gone \<and>
    total_points_written x' = total_points_written x + length acc \<and>
    dropped_points x' = dropped_points x + length gone \<and> length (buffer x') \<le> max_buffer_size x \<and>
    max_buffer_size x' = max_buffer_size x \<and> batch_size x' = batch_size x"
proof -
  obtain rs where rs: "write_batches api (batches_of (batch_size x) points) s = (rs, s')"
    "x' = check_failures (account_results now rs x)"
    using assms(1, 3) by (auto simp: finish_flush_def split: prod.splits)
  obtain acc rej where a: "accepted s' = accepted s @ acc" "rejected s' = rejected s @ rej"
    "mset points = mset (concat (map fst rs)) + mset acc + mset rej"
    "sum_list (map (\<lambda>(_, w, _). w) rs) = length acc"
    using write_batches_conserves [OF rs(1)] by (auto simp: batches_of_def)
  obtain h where h: "mset (concat (map fst rs)) + mset (buffer x) = mset (buffer x') + mset h"
    "dropped_points x' = dropped_points x + length h"
    using account_results_conserves [of x rs now] assms(2) rs(2) by auto
  have "length (buffer x') \<le> max_buffer_size x"
    using rs(2) assms(4) retry_buf.add_bounded [OF assms(2), of "concat (map fst rs)"]
    by (simp add: account_results_buffer del: concat_eq_Nil_conv)
  moreover have "mset points + mset (buffer x) = mset (buffer x') + mset acc + mset rej + mset h"
    unfolding a(3) using h(1) by (simp add: ac_simps)
  moreover have "total_points_written x' = total_points_written x + length acc"
    using rs(2) a(4) by (simp add: account_results_written)
  moreover have "max_buffer_size x' = max_buffer_size x" "batch_size x' = batch_size x" using rs(2) by simp_all
  ultimately show ?thesis using a(1, 2) h(2) by blast
qed

text \<open>A whole flush.\<close>

lemma flush_accounts:
  assumes "flush_buffer api now arrivals x s = (x', s')" "buffer x \<noteq> []" "0 < max_buffer_size x" "0 < batch_size x"
  shows "\<exists>acc rej gone. accepted s' = accepted s @ acc \<and> rejected s' = rejected s @ rej \<and>
    mset (buffer x) + mset (concat arrivals) = mset (buffer x') + mset acc + mset rej + mset gone \<and>
    total_points_written x' = total_points_written x + length acc \<and>
    dropped_points x' = dropped_points x + length gone \<and>
    length (buffer x') \<le> max_buffer_size x"
proof -
  let ?x1 = "fold buffer_points arrivals (x\<lparr>buffer := []\<rparr>)"
  have cap: "max_buffer_size ?x1 = max_buffer_size x" using write_buf.cap_fold by simp
  have bound: "length (buffer ?x1) \<le> max_buffer_size x"
    using write_buf.fold_bounded [of "x\<lparr>buffer := []\<rparr>"] assms(3) by simp
  obtain g where g: "mset (concat arrivals) = mset (buffer ?x1) + mset g" "dropped_points ?x1 = dropped_points x + length g"
    using write_buf.fold_conserves [of "x\<lparr>buffer := []\<rparr>" arrivals] assms(3) by auto
  show ?thesis
  proof (cases "connected x")
    case False
    then have x': "x' = re_add_points (buffer x) ?x1" "s' = s" using assms(1, 2) by (auto simp: flush_buffer_def Let_def)
    obtain h where h: "mset (buffer x) + mset (buffer ?x1) = mset (buffer x') + mset h"
      "dropped_points x' = dropped_points ?x1 + length h"
      using retry_buf.add_conserves [of ?x1 "buffer x"] cap assms(3) x' by auto
    have "length (buffer x') \<le> max_buffer_size x" using retry_buf.add_bounded [of ?x1 "buffer x"] cap assms(3) x' by simp
    moreover have "mset (buffer x) + mset (concat arrivals) = mset (buffer x') + mset (g @ h)"
      unfolding g(1) using h(1) by (simp add: ac_simps)
    moreover have "total_points_written x' = total_points_written x" using x' by simp
    ultimately show ?thesis using g(2) h(2) x'
      by (intro exI [of _ "[]"] exI [of _ "g @ h"] conjI) simp_all
  next
    case True
    then have fin: "finish_flush api now (buffer x) ?x1 s = (x', s')" using assms(1, 2) by (simp add: flush_buffer_def Let_def)
    obtain acc rej h where f: "accepted s' = accepted s @ acc" "rejected s' = rejected s @ rej"
      "mset (buffer x) + mset (buffer ?x1) = mset (buffer x') + mset acc + mset rej + mset h"
      "total_points_written x' = total_points_written x + length acc" "dropped_points x' = dropped_points ?x1 + length h"
      "length (buffer x') \<le> max_buffer_size x"
      using finish_flush_accounts [OF fin] cap assms(3, 4) bound by auto
    have "mset (buffer x) + mset (concat arrivals) = mset (buffer x') + mset acc + mset rej + mset (g @ h)"
      unfolding g(1) using f(3) by (simp add: ac_simps)
    then show ?thesis using f g(2)
      by (intro exI [of _ acc] exI [of _ rej] exI [of _ "g @ h"] conjI) simp_all
  qed
qed

text \<open>
  (C10) No point disappears unaccounted in a flush, whatever the server answers to each write:
  the points buffered before it and those that arrive during it are, with multiplicity, the
  points of the new buffer, the acknowledged ones, the ones rejected for good and the ones the
  cap dropped; the counters of written and dropped points advance by exactly those numbers,
  and the buffer is within its cap.
\<close>

theorem flush_conserves_points:
  assumes "flush_buffer api now arrivals x s = (x', s')" "buffer x \<noteq> []" "0 < max_buffer_size x" "0 < batch_size x"
  shows "\<exists>acc rej gone. accepted s' = accepted s @ acc \<and> rejected s' = rejected s @ rej \<and>
    mset (buffer x) + mset (concat arrivals) = mset (buffer x') + mset acc + mset rej + mset gone \<and>
    total_points_written x' = total_points_written x + length acc \<and>
    dropped_points x' = dropped_points x + length gone \<and>
    length (buffer x') \<le> max_buffer_size x"
  using assms by (rule flush_accounts)

text \<open>A server that takes points below 10 and rejects every batch with another one.\<close>

definition demo_api :: "(unit, nat) write_api" where
  "demo_api w batch = (if list_ex (\<lambda>p. 10 \<le> p) batch then WriteError (Some 422) ''unprocessable entity'' else Accepted 5, w)"

definition demo_sink :: "(unit, nat) sink" where
  "demo_sink = \<lparr>world = (), accepted = [], rejected = []\<rparr>"

definition demo_exporter :: "nat exporter" where
  "demo_exporter = (new_exporter 2)\<lparr>buffer := [1, 99, 3], connected := True\<rparr>"

lemmas demo_defs = demo_api_def demo_sink_def demo_exporter_def new_exporter_def MAX_BUFFER_ABSOLUTE_def

theorem flush_conserves_points_witness:
  "\<exists>acc rej gone. accepted (snd (flush_buffer demo_api 0 [[4]] demo_exporter demo_sink)) = accepted demo_sink @ acc \<and>
    rejected (snd (flush_buffer demo_api 0 [[4]] demo_exporter demo_sink)) = rejected demo_sink @ rej \<and>
    mset (buffer demo_exporter) + mset (concat [[4]]) =
      mset (buffer (fst (flush_buffer demo_api 0 [[4]] demo_exporter demo_sink))) + mset acc + mset rej + mset gone \<and>
    length (buffer (fst (flush_buffer demo_api 0 [[4]] demo_exporter demo_sink))) \<le> 400"
  using flush_conserves_points [where api = demo_api and now = 0 and arrivals = "[[4]]" and x = demo_exporter
      and s = demo_sink, OF prod.collapse [symmetric]]
  by (auto simp: demo_exporter_def new_exporter_def MAX_BUFFER_ABSOLUTE_def)

section \<open>Isolation of bad points\<close>

text \<open>
  (C11) Against a server that permanently rejects exactly the batches holding a bad point, one
  bad point never takes good ones with it: the bisection gets every good point acknowledged
  exactly once and in order, drops exactly the bad ones, and leaves nothing to retry.
\<close>

theorem bisection_isolates_bad_points:
  assumes "\<And>w b. if list_ex bad b then permanent_reply (fst (api w b)) else accepted_reply (fst (api w b))"
    and "write_or_bisect api batch s = ((retry, written, d), s')"
  shows "retry = [] \<and> written = length (filter (\<lambda>p. \<not> bad p) batch) \<and>
    accepted s' = accepted s @ filter (\<lambda>p. \<not> bad p) batch \<and> rejected s' = rejected s @ filter bad batch"
  using assms(2)
proof (induction "length batch" arbitrary: batch s retry written d s' rule: less_induct)
  case less
  note server = assms(1) [where w = "world s" and b = batch]
  from less(2) show ?case
  proof (cases rule: write_or_bisect_cases)
    case (accepted w)
    have "\<not> list_ex bad batch" using server accepted(4) by (auto split: if_splits)
    then show ?thesis using accepted by (auto simp: list_ex_iff filter_id_conv filter_empty_conv)
  next
    case (retry w)
    then show ?thesis using server by (cases "fst (api (world s) batch)") (auto split: if_splits)
  next
    case (reject w)
    obtain p where "batch = [p]" using reject(3) by (auto simp: length_Suc_conv)
    then show ?thesis using reject server by (cases "fst (api (world s) batch)") (auto split: if_splits)
  next
    case (bisect w lr lw ld s2 rr rw rd)
    let ?mid = "length batch div 2"
    have "length (take ?mid batch) < length batch" "length (drop ?mid batch) < length batch" using bisect(1) by simp_all
    note h = less(1) [OF this(1) bisect(3)] less(1) [OF this(2) bisect(4)]
    have "filter P (take ?mid batch) @ filter P (drop ?mid batch) = filter P batch" for P
      by (metis append_take_drop_id filter_append)
    then show ?thesis using h bisect(5, 6) by (simp flip: length_append)
  qed simp
qed

theorem bisection_isolates_bad_points_witness:
  "fst (fst (write_or_bisect demo_api [1, 99, 3, 4] demo_sink)) = [] \<and>
   accepted (snd (write_or_bisect demo_api [1, 99, 3, 4] demo_sink)) = [1, 3, 4] \<and>
   rejected (snd (write_or_bisect demo_api [1, 99, 3, 4] demo_sink)) = [99]"
proof -
  obtain r w d s' where e: "write_or_bisect demo_api [1, 99, 3, 4] demo_sink = ((r, w, d), s')"
    by (cases "write_or_bisect demo_api [1, 99, 3, 4] demo_sink") auto
  show ?thesis
    using bisection_isolates_bad_points [where bad = "\<lambda>p. 10 \<le> p", OF _ e] e
    by (simp add: demo_api_def demo_sink_def is_unprocessable_def)
qed

section \<open>Recovery from a dead connection\<close>

lemma chunks_nonempty: "b \<in> set (chunks n xs) \<Longrightarrow> b \<noteq> []"
  by (induction n xs rule: chunks.induct) auto

lemma filter_chunks [simp]: "filter (\<lambda>r. r \<noteq> []) (chunks n xs) = chunks n xs"
  by (rule filter_True) (auto dest: chunks_nonempty)

lemma chunks_Nil [simp]: "chunks n xs = [] \<longleftrightarrow> xs = []"
  by (cases xs) auto

lemma write_transient:
  assumes "transient_reply (fst (api (world s) batch))" "batch \<noteq> []"
  shows "\<exists>w. write_or_bisect api batch s = ((batch, 0, 0), s\<lparr>world := w\<rparr>)"
  using assms by (cases "api (world s) batch"; cases "fst (api (world s) batch)")
    (auto simp: write_or_bisect.simps [of api batch s] send_def)

lemma write_accepted:
  assumes "accepted_reply (fst (api (world s) batch))" "batch \<noteq> []"
  shows "\<exists>w d. write_or_bisect api batch s = (([], length batch, d), s\<lparr>world := w, accepted := accepted s @ batch\<rparr>)"
  using assms by (cases "api (world s) batch"; cases "fst (api (world s) batch)")
    (auto simp: write_or_bisect.simps [of api batch s] send_def)

lemma write_batches_transient:
  assumes "\<And>w b. transient_reply (fst (api w b))"
  shows "(\<And>b. b \<in> set bs \<Longrightarrow> b \<noteq> []) \<Longrightarrow>
    \<exists>w. write_batches api bs s = (map (\<lambda>b. (b, 0, 0)) bs, s\<lparr>world := w\<rparr>)"
proof (induction bs arbitrary: s)
  case Nil
  show ?case by (intro exI [of _ "world s"]) simp
next
  case (Cons b bs)
  then obtain w where w: "write_or_bisect api b s = ((b, 0, 0), s\<lparr>world := w\<rparr>)"
    using write_transient [where api = api and batch = b and s = s, OF assms] by auto
  then show ?case using Cons.IH [of "s\<lparr>world := w\<rparr>"] Cons.prems by auto
qed

lemma write_batches_accepted:
  assumes "\<And>w b. accepted_reply (fst (api w b))"
  shows "(\<And>b. b \<in> set bs \<Longrightarrow> b \<noteq> []) \<Longrightarrow> write_batches api bs s = (rs, s') \<Longrightarrow>
    concat (map fst rs) = [] \<and> accepted s' = accepted s @ concat bs"
proof (induction bs arbitrary: s rs)
  case (Cons b bs)
  then obtain w d where "write_or_bisect api b s = (([], length b, d), s\<lparr>world := w, accepted := accepted s @ b\<rparr>)"
    using write_accepted [where api = api and batch = b and s = s, OF assms] by auto
  then show ?case
    using Cons.IH [of "s\<lparr>world := w, accepted := accepted s @ b\<rparr>"] Cons.prems by (auto split: prod.splits)
qed simp

text \<open>A flush in which nothing gets through: everything is put back, one more failure.\<close>

lemma flush_transient:
  assumes "\<And>w b. transient_reply (fst (api w b))"
    and "connected x" "buffer x \<noteq> []" "0 < batch_size x" "length (buffer x) \<le> max_buffer_size x"
  shows "\<exists>w n. flush_buffer api now [] x s =
    (check_failures (x\<lparr>failed_batches := failed_batches x + n, write_failures_24h := write_failures_24h x + n,
       consecutive_batch_failures := consecutive_batch_failures x + 1\<rparr>), s\<lparr>world := w\<rparr>)"
proof -
  let ?bs = "chunks (batch_size x - 1) (buffer x)"
  obtain w where w: "write_batches api ?bs s = (map (\<lambda>b. (b, 0, 0)) ?bs, s\<lparr>world := w\<rparr>)"
    using write_batches_transient [where api = api and bs = ?bs and s = s, OF assms(1)] by (blast dest: chunks_nonempty)
  have "account_results now (map (\<lambda>b. (b, 0, 0)) ?bs) (x\<lparr>buffer := []\<rparr>) =
    x\<lparr>failed_batches := failed_batches x + length ?bs, write_failures_24h := write_failures_24h x + length ?bs,
      consecutive_batch_failures := consecutive_batch_failures x + 1\<rparr>"
    using assms(3, 5)
    by (simp add: account_results_def comp_def update_latency_def re_add_points_def Let_def del: concat_eq_Nil_conv)
  then show ?thesis using w assms(2-4) by (auto simp: flush_buffer_def finish_flush_def batches_of_def Let_def)
qed

lemma flush_accepted:
  assumes "\<And>w b. accepted_reply (fst (api w b))"
    and "connected x" "buffer x \<noteq> []" "0 < batch_size x" "flush_buffer api now [] x s = (x', s')"
  shows "buffer x' = [] \<and> accepted s' = accepted s @ buffer x"
proof -
  obtain rs where rs: "write_batches api (chunks (batch_size x - 1) (buffer x)) s = (rs, s')"
    "x' = check_failures (account_results now rs (x\<lparr>buffer := []\<rparr>))"
    using assms(2-5) by (auto simp: flush_buffer_def finish_flush_def batches_of_def Let_def split: prod.splits)
  have "concat (map fst rs) = [] \<and> accepted s' = accepted s @ concat (chunks (batch_size x - 1) (buffer x))"
    by (rule write_batches_accepted [where api = api, OF assms(1) _ rs(1)]) (rule chunks_nonempty)
  then show ?thesis using rs(2) by (simp add: account_results_buffer del: concat_eq_Nil_conv)
qed

text \<open>
  (C12) A connection over which nothing gets through is given up after three flushes in a row:
  a flush in which every write fails for a transient reason loses nothing, raises the failure
  count, and at the threshold disconnects, so that the next iteration reconnects; once the
  server answers again, that iteration delivers everything that had piled up, in order.
\<close>

theorem dead_connection_recovers:
  assumes "\<And>w b. transient_reply (fst (api w b))" "\<And>w b. accepted_reply (fst (api' w b))"
    and "connected x" "buffer x \<noteq> []" "0 < batch_size x" "length (buffer x) \<le> max_buffer_size x"
    and "flush_loop_step p api now [] x s = (x', s')" "flush_loop_step True api' now' [] x' s' = (x'', s'')"
  shows "buffer x' = buffer x \<and> dropped_points x' = dropped_points x \<and> accepted s' = accepted s \<and>
    (if consecutive_batch_failures x + 1 < RECONNECT_THRESHOLD
     then connected x' \<and> consecutive_batch_failures x' = consecutive_batch_failures x + 1
     else \<not> connected x' \<and> consecutive_batch_failures x' = 0) \<and>
    buffer x'' = [] \<and> accepted s'' = accepted s @ buffer x"
proof -
  have step: "flush_buffer api now [] (x\<lparr>flush_event := False\<rparr>) s = (x', s')"
    using assms(3, 7) by (simp add: flush_loop_step_def)
  obtain w n where x': "x' = check_failures (x\<lparr>flush_event := False, failed_batches := failed_batches x + n,
      write_failures_24h := write_failures_24h x + n, consecutive_batch_failures := consecutive_batch_failures x + 1\<rparr>)"
    "s' = s\<lparr>world := w\<rparr>"
    using flush_transient [where api = api and x = "x\<lparr>flush_event := False\<rparr>" and now = now and s = s, OF assms(1)] assms(3-6) step by auto
  have sel: "buffer x' = buffer x" "batch_size x' = batch_size x"
    by (simp_all add: x' check_failures_def force_reset_connection_def)
  obtain y where y: "flush_buffer api' now' [] y s' = (x'', s'')" "connected y" "buffer y = buffer x" "batch_size y = batch_size x"
    using assms(8) sel by (cases "connected x'") (auto simp: flush_loop_step_def reconnect_def)
  have "buffer x'' = [] \<and> accepted s'' = accepted s' @ buffer x"
    using flush_accepted [where api = api', OF assms(2) y(2) _ _ y(1)] y assms(4, 5) by simp
  then show ?thesis using x' assms(3)
    by (auto simp: check_failures_def force_reset_connection_def)
qed

theorem dead_connection_recovers_witness:
  "buffer (fst (flush_loop_step True (\<lambda>w b. (Accepted 5, w)) 1 []
      (fst (flush_loop_step True (\<lambda>w b. (WriteTimeout, w)) 0 [] demo_exporter demo_sink))
      (snd (flush_loop_step True (\<lambda>w b. (WriteTimeout, w)) 0 [] demo_exporter demo_sink)))) = []"
  using dead_connection_recovers [where api = "\<lambda>w b. (WriteTimeout, w)" and api' = "\<lambda>w b. (Accepted 5, w)"
      and x = demo_exporter and s = demo_sink, OF _ _ _ _ _ _ prod.collapse [symmetric] prod.collapse [symmetric]]
  by (simp add: demo_exporter_def new_exporter_def MAX_BUFFER_ABSOLUTE_def)

section \<open>Connecting at start-up\<close>

lemma next_delay_bounds:
  "0 \<le> delay \<Longrightarrow> delay \<le> max_delay \<Longrightarrow>
     0 \<le> (if b then min (delay * 2) max_delay else delay) \<and> (if b then min (delay * 2) max_delay else delay) \<le> (max_delay::rat)"
  by simp

lemma connect_attempts_bound:
  "connect_attempts outcome k n True delay max_delay = (r, sleeps) \<Longrightarrow> 0 \<le> delay \<Longrightarrow> delay \<le> max_delay \<Longrightarrow>
     (r = Connected \<longleftrightarrow> (\<exists>i < n. outcome (k + i) = PingOk)) \<and> r \<noteq> UnboundLocalError \<and>
     length sleeps \<le> n - 1 \<and> (\<forall>d \<in> set sleeps. 0 \<le> d \<and> d \<le> max_delay)"
proof (induction n arbitrary: k delay r sleeps)
  case (Suc n)
  show ?case
  proof (cases "outcome k = PingOk")
    case True
    then show ?thesis using Suc.prems by (auto intro: exI [of _ 0])
  next
    case False
    obtain r1 sl where rec: "connect_attempts outcome (Suc k) n True
        (if 0 < n then min (delay * 2) max_delay else delay) max_delay = (r1, sl)" by fastforce
    have res: "r = r1" "sleeps = (if 0 < n then delay # sl else sl)"
      using Suc.prems(1) rec False by (auto split: connect_attempt.splits)
    have "(\<exists>i < Suc n. outcome (k + i) = PingOk) \<longleftrightarrow> (\<exists>i < n. outcome (Suc k + i) = PingOk)"
      using False by (auto simp: less_Suc_eq_0_disj)
    then show ?thesis
      using Suc.IH [OF rec] next_delay_bounds [OF Suc.prems(2, 3), of "0 < n"] Suc.prems(2, 3) res
      by (cases n) auto
  qed
qed auto

text \<open>
  Start-up: when the first attempt gets as far as a client object, \<open>connect\<close> succeeds
  exactly when one of its attempts is answered, sleeps fewer times than it has attempts and
  never longer than the maximum, and leaves the flush loop running either way, so a server
  that comes up later is still reached. When the first constructor call raises, the error
  surfaces as an unbound local variable and the flush loop is not started.
\<close>

lemma connect_outcome:
  assumes "0 \<le> delay" "delay \<le> max_delay" "0 < retries"
    and "connect outcome retries delay max_delay x = ((r, sleeps), x')"
  shows "if outcome 0 = ConstructorRaises then r = UnboundLocalError \<and> x' = x
    else (r = Connected \<longleftrightarrow> (\<exists>i < retries. outcome i = PingOk)) \<and> r \<noteq> UnboundLocalError \<and>
      (connected x' \<longleftrightarrow> connected x \<or> r = Connected) \<and> running x' \<and>
      length sleeps < retries \<and> (\<forall>d \<in> set sleeps. d \<le> max_delay)"
proof -
  obtain n where n: "retries = Suc n" using assms(3) gr0_implies_Suc by blast
  obtain r1 sl where rec: "connect_attempts outcome (Suc 0) n True
      (if 0 < n then min (delay * 2) max_delay else delay) max_delay = (r1, sl)" by fastforce
  have bound: "(r1 = Connected \<longleftrightarrow> (\<exists>i < n. outcome (Suc i) = PingOk)) \<and> r1 \<noteq> UnboundLocalError \<and>
     length sl \<le> n - 1 \<and> (\<forall>d \<in> set sl. 0 \<le> d \<and> d \<le> max_delay)"
    using connect_attempts_bound [OF rec] next_delay_bounds [OF assms(1, 2), of "0 < n"] by simp
  have ex: "(\<exists>i < Suc n. outcome i = PingOk) \<longleftrightarrow> outcome 0 = PingOk \<or> (\<exists>i < n. outcome (Suc i) = PingOk)"
    by (auto simp: less_Suc_eq_0_disj)
  show ?thesis
  proof (cases "outcome 0")
    case PingFails
    then have "r = r1" "sleeps = (if 0 < n then delay # sl else sl)"
      "x' = (if r1 = Connected then start_flush_loop (x\<lparr>connected := True\<rparr>) else if r1 = ConnectionError then start_flush_loop x else x)"
      using assms(4) rec n by (auto simp: connect_def split: connect_result.splits)
    then show ?thesis using bound ex PingFails n assms(2)
      by (cases r1) (auto simp: start_flush_loop_def)
  qed (use assms(4) ex n in \<open>auto simp: connect_def start_flush_loop_def\<close>)
qed

lemma connect_outcome_witness:
  "running (snd (connect (\<lambda>k. if k = 2 then PingOk else PingFails) 5 1 30 demo_exporter)) \<and>
   connected (snd (connect (\<lambda>k. if k = 2 then PingOk else PingFails) 5 1 30 demo_exporter)) \<and>
   fst (connect (\<lambda>k. if k = 2 then PingOk else PingFails) 5 1 30 demo_exporter) = (Connected, [1, 2])"
  using connect_outcome [of 1 30 5 "\<lambda>k. if k = 2 then PingOk else PingFails" demo_exporter Connected "[1, 2]"]
  by (auto simp: connect_def numeral_eq_Suc)

end
