(* ===== verification/Redfish_Events.thy ===== *)
theory Redfish_Events
  imports Alert_Store
begin

text \<open>
  Reading Redfish events, from \<open>collector/src/redfish/alert_subscriber.py\<close> and
  \<open>webhook_subscriber.py\<close>: the tolerant timestamp parser, the severity rules, the conversion
  of an event to an alert, its two entry points (a server-sent-event payload, a webhook body),
  and the framing of the event stream. \<open>datetime.fromisoformat\<close> and \<open>json.loads\<close> are
  arguments; texts are ASCII, on which \<open>casefold\<close> is \<open>lower\<close>.
\<close>

section \<open>Timestamps\<close>

datatype py_error = ValueError | TypeError | AttributeError

definition is_digit :: "char \<Rightarrow> bool" where
  "is_digit c \<longleftrightarrow> (let n = (of_char c :: nat) in 48 \<le> n \<and> n \<le> 57)"

definition int_of_digits :: "string \<Rightarrow> nat" where
  "int_of_digits s = digits_value 10 (map (\<lambda>c. the (digit_value c)) s)"

text \<open>\<open>\d{lo,hi}\<close> and a character class at the front of the text.\<close>

definition scan_digits :: "nat \<Rightarrow> nat \<Rightarrow> string \<Rightarrow> (string \<times> string) option" where
  "scan_digits lo hi s =
     (let d = takeWhile is_digit (take hi s) in if lo \<le> length d then Some (d, drop (length d) s) else None)"

fun scan_char :: "string \<Rightarrow> string \<Rightarrow> string option" where
  "scan_char cs [] = None"
| "scan_char cs (c # s) = (if c \<in> set cs then Some s else None)"

definition scan_fraction :: "string \<Rightarrow> string option \<times> string" where
  "scan_fraction s =
     (case s of
        c # r \<Rightarrow>
          (let d = takeWhile is_digit r
           in if c = CHR ''.'' \<and> d \<noteq> [] then (Some d, drop (length d) r) else (None, s))
      | [] \<Rightarrow> (None, s))"

text \<open>\<open>(Z|[+-]\d{2}:?\d{2})?\<close>.\<close>

definition scan_offset :: "string \<Rightarrow> string option" where
  "scan_offset s =
     do {
       r \<leftarrow> scan_char ''+-'' s;
       (h, r1) \<leftarrow> scan_digits 2 2 r;
       let r2 = (case scan_char '':'' r1 of None \<Rightarrow> r1 | Some r2 \<Rightarrow> r2);
       (m, r3) \<leftarrow> scan_digits 2 2 r2;
       Some (take (length s - length r3) s)
     }"

definition scan_zone :: "string \<Rightarrow> string option" where
  "scan_zone s = (case scan_char ''Z'' s of Some _ \<Rightarrow> Some ''Z'' | None \<Rightarrow> scan_offset s)"

record ts_groups =
  ts_year :: string
  ts_mon :: string
  ts_day :: string
  ts_hour :: string
  ts_minute :: string
  ts_sec :: string
  ts_frac :: "string option"
  ts_tz :: "string option"

text \<open>
  \<open>_TS_RE\<close> at the start of the text, and \<open>search\<close> for it. No part of the expression ever
  backtracks: every digit group is followed by a character that is not a digit, or by parts
  that may be empty.
\<close>

definition ts_at :: "string \<Rightarrow> ts_groups option" where
  "ts_at s =
     do {
       (y, s) \<leftarrow> scan_digits 4 4 s; s \<leftarrow> scan_char ''-'' s;
       (mo, s) \<leftarrow> scan_digits 1 2 s; s \<leftarrow> scan_char ''-'' s;
       (d, s) \<leftarrow> scan_digits 1 2 s; s \<leftarrow> scan_char ''T '' s;
       (h, s) \<leftarrow> scan_digits 1 2 s; s \<leftarrow> scan_char '':'' s;
       (mi, s) \<leftarrow> scan_digits 1 2 s; s \<leftarrow> scan_char '':'' s;
       (sec, s) \<leftarrow> scan_digits 1 2 s;
       let (fr, s) = scan_fraction s;
       Some \<lparr>ts_year = y, ts_mon = mo, ts_day = d, ts_hour = h, ts_minute = mi, ts_sec = sec, ts_frac = fr,
             ts_tz = scan_zone (dropWhile is_space s)\<rparr>
     }"

fun ts_search :: "string \<Rightarrow> ts_groups option" where
  "ts_search [] = ts_at []"
| "ts_search (c # s) = (case ts_at (c # s) of Some g \<Rightarrow> Some g | None \<Rightarrow> ts_search s)"

definition days_in_month :: "nat \<Rightarrow> nat \<Rightarrow> nat" where
  "days_in_month y m =
     (if m = 2 \<and> is_leap y then 29 else [0, 31, 28, 31, 30, 31, 30, 31, 31, 30, 31, 30, 31] ! m)"

text \<open>\<open>datetime(...)\<close>: out of range components raise \<open>ValueError\<close>.\<close>

definition valid_datetime :: "nat \<Rightarrow> nat \<Rightarrow> nat \<Rightarrow> nat \<Rightarrow> nat \<Rightarrow> nat \<Rightarrow> bool" where
  "valid_datetime y mo d h mi sec \<longleftrightarrow>
     1 \<le> y \<and> y \<le> 9999 \<and> 1 \<le> mo \<and> mo \<le> 12 \<and> 1 \<le> d \<and> d \<le> days_in_month y mo \<and> h < 24 \<and> mi < 60 \<and> sec < 60"

definition datetime_us :: "nat \<Rightarrow> nat \<Rightarrow> nat \<Rightarrow> nat \<Rightarrow> nat \<Rightarrow> nat \<Rightarrow> nat \<Rightarrow> instant" where
  "datetime_us y mo d h mi sec micro =
     int (days_of_ymd y mo d * day_us + ((h * 60 + mi) * 60 + sec) * 1000000 + micro)"

definition micro_of :: "string option \<Rightarrow> nat" where
  "micro_of fr =
     (let f = (case fr of None \<Rightarrow> ''0'' | Some f \<Rightarrow> f)
      in int_of_digits (take 6 (f @ replicate (6 - length f) CHR ''0'')))"

text \<open>\<open>timezone(...)\<close> takes offsets of less than a day and raises otherwise.\<close>

definition zone_offset :: "string \<Rightarrow> py_error + duration" where
  "zone_offset tz =
     (let ds = filter (\<lambda>c. c \<noteq> CHR '':'') (tl tz);
          offset = seconds (int (int_of_digits (take 2 ds) * 3600 + int_of_digits (take 2 (drop 2 ds)) * 60))
      in if offset < seconds 86400 then Inr (if hd tz = CHR ''+'' then offset else - offset) else Inl ValueError)"

definition datetime_of_groups :: "ts_groups \<Rightarrow> py_error + py_datetime option" where
  "datetime_of_groups g =
     (let n = int_of_digits;
          y = n (ts_year g); mo = n (ts_mon g); d = n (ts_day g);
          h = n (ts_hour g); mi = n (ts_minute g); sec = n (ts_sec g)
      in if \<not> valid_datetime y mo d h mi sec then Inr None
         else
           (let t = datetime_us y mo d h mi sec (micro_of (ts_frac g)) in
            case ts_tz g of
              None \<Rightarrow> Inr (Some (Aware t 0))
            | Some tz \<Rightarrow>
                if tz = ''Z'' then Inr (Some (Aware t 0))
                else (case zone_offset tz of Inl e \<Rightarrow> Inl e | Inr off \<Rightarrow> Inr (Some (Aware t off)))))"

definition replace_Z :: "string \<Rightarrow> string" where
  "replace_Z s = concat (map (\<lambda>c. if c = CHR ''Z'' then ''+00:00'' else [c]) s)"

definition assume_utc :: "py_datetime \<Rightarrow> py_datetime" where
  "assume_utc dt = (case dt of Naive t \<Rightarrow> Aware t 0 | Aware t off \<Rightarrow> Aware t off)"

definition parse_redfish_timestamp :: "(string \<Rightarrow> py_datetime option) \<Rightarrow> json \<Rightarrow> py_error + py_datetime option" where
  "parse_redfish_timestamp fromisoformat value =
     (case value of
        JStr v \<Rightarrow>
          if v = [] then Inr None
          else
            (let s = py_strip v in
             case fromisoformat (replace_Z s) of
               Some dt \<Rightarrow> Inr (Some (assume_utc dt))
             | None \<Rightarrow> (case ts_search s of None \<Rightarrow> Inr None | Some g \<Rightarrow> datetime_of_groups g))
      | _ \<Rightarrow> Inr None)"

section \<open>Severity\<close>

definition normalize_severity :: "json dict \<Rightarrow> string \<times> bool" where
  "normalize_severity event =
     (let raw = json_or (dict_get event ''MessageSeverity'') (dict_get event ''Severity'')
      in if json_truthy raw then (py_str raw, True) else (''OK'', False))"

definition severity_allowed :: "string \<Rightarrow> bool \<Rightarrow> string list \<Rightarrow> bool" where
  "severity_allowed severity present allow_list \<longleftrightarrow>
     \<not> present \<or> allow_list = [] \<or> py_lower severity \<in> py_lower ` set allow_list"

section \<open>From an event to an alert\<close>

text \<open>
  What a subscriber knows of its target, and the alert it makes. The fields copied from the
  event keep whatever JSON value the BMC sent.
\<close>

record subscriber_info =
  si_target_id :: target_id
  si_target_name :: string
  si_target_bmc :: string
  si_event_types :: "string list"
  si_severities :: "string list"

record redfish_alert =
  ra_target_id :: target_id
  ra_target_name :: string
  ra_target_bmc :: string
  ra_severity :: string
  ra_message :: json
  ra_message_id :: json
  ra_event_type :: json
  ra_origin :: json
  ra_event_timestamp :: "py_datetime option"
  ra_received_at :: instant
  ra_raw :: "json dict"

definition origin_uri :: "json dict \<Rightarrow> json" where
  "origin_uri event =
     (case dict_get_default event ''OriginOfCondition'' (JObj []) of
        JObj d \<Rightarrow> dict_get d ''@odata.id''
      | JStr s \<Rightarrow> JStr s
      | _ \<Rightarrow> JNull)"

definition event_type_allowed :: "subscriber_info \<Rightarrow> json \<Rightarrow> bool" where
  "event_type_allowed i event_type \<longleftrightarrow>
     \<not> (json_truthy event_type \<and> si_event_types i \<noteq> [] \<and> event_type \<notin> JStr ` set (si_event_types i))"

text \<open>One event of the stream (\<open>_process_event_data\<close>): filtered out, an error, or an alert.\<close>

definition event_alert ::
  "(string \<Rightarrow> py_datetime option) \<Rightarrow> subscriber_info \<Rightarrow> instant \<Rightarrow> json dict \<Rightarrow> py_error + redfish_alert option" where
  "event_alert fromisoformat i now event =
     (let event_type = json_or (dict_get event ''EventType'') (JStr []);
          (severity, present) = normalize_severity event
      in if \<not> event_type_allowed i event_type then Inr None
         else if \<not> severity_allowed severity present (si_severities i) then Inr None
         else
           (case parse_redfish_timestamp fromisoformat (dict_get event ''EventTimestamp'') of
              Inl e \<Rightarrow> Inl e
            | Inr ts \<Rightarrow>
                Inr (Some \<lparr>ra_target_id = si_target_id i, ra_target_name = si_target_name i, ra_target_bmc = si_target_bmc i,
                  ra_severity = severity, ra_message = dict_get_default event ''Message'' (JStr []),
                  ra_message_id = dict_get event ''MessageId'',
                  ra_event_type = (if json_truthy event_type then event_type else JStr ''Alert''),
                  ra_origin = origin_uri event, ra_event_timestamp = ts, ra_received_at = now, ra_raw = event\<rparr>)))"

text \<open>Iterating over a JSON value: dictionaries give their keys, texts their characters.\<close>

fun json_iter :: "json \<Rightarrow> py_error + json list" where
  "json_iter (JList xs) = Inr xs"
| "json_iter (JObj d) = Inr (map (\<lambda>(k, _). JStr k) d)"
| "json_iter (JStr s) = Inr (map (\<lambda>c. JStr [c]) s)"
| "json_iter _ = Inl TypeError"

text \<open>
  \<open>_process_event_data\<close> on the decoded payload (\<open>None\<close>: \<open>json.loads\<close> raised): the alerts given
  to the callback, and the error that ended the loop, if any.
\<close>

fun process_events ::
  "(string \<Rightarrow> py_datetime option) \<Rightarrow> subscriber_info \<Rightarrow> instant \<Rightarrow> json list \<Rightarrow> redfish_alert list \<times> py_error option" where
  "process_events f i now [] = ([], None)"
| "process_events f i now (JObj event # es) =
     (case event_alert f i now event of
        Inl e \<Rightarrow> ([], Some e)
      | Inr a \<Rightarrow>
          (let (as, err) = process_events f i now es in ((case a of None \<Rightarrow> as | Some x \<Rightarrow> x # as), err)))"
| "process_events f i now (_ # es) = ([], Some AttributeError)"

definition process_event_data ::
  "(string \<Rightarrow> py_datetime option) \<Rightarrow> subscriber_info \<Rightarrow> instant \<Rightarrow> json option \<Rightarrow> redfish_alert list \<times> py_error option" where
  "process_event_data f i now decoded =
     (case decoded of
        None \<Rightarrow> ([], Some ValueError)
      | Some (JObj data) \<Rightarrow>
          (case json_iter (dict_get_default data ''Events'' (JList [])) of
             Inl e \<Rightarrow> ([], Some e)
           | Inr events \<Rightarrow> process_events f i now events)
      | Some _ \<Rightarrow> ([], Some AttributeError))"

text \<open>
  \<open>parse_webhook_event\<close>, which has its own copy of the code for one event: a bare event is
  accepted, entries that are no objects are skipped.
\<close>

definition webhook_event_alert ::
  "(string \<Rightarrow> py_datetime option) \<Rightarrow> subscriber_info \<Rightarrow> instant \<Rightarrow> json dict \<Rightarrow> py_error + redfish_alert option" where
  "webhook_event_alert fromisoformat i now event =
     (let event_type = json_or (dict_get event ''EventType'') (JStr []);
          (severity, sev_present) = normalize_severity event
      in if json_truthy event_type \<and> si_event_types i \<noteq> [] \<and> \<not> list_ex (\<lambda>t. event_type = JStr t) (si_event_types i)
         then Inr None
         else if \<not> severity_allowed severity sev_present (si_severities i) then Inr None
         else
           (let event_type' = (if \<not> json_truthy event_type then JStr ''Alert'' else event_type) in
            case parse_redfish_timestamp fromisoformat (dict_get event ''EventTimestamp'') of
              Inl e \<Rightarrow> Inl e
            | Inr event_ts \<Rightarrow>
                (let origin = dict_get_default event ''OriginOfCondition'' (JObj []);
                     uri = (case origin of JObj d \<Rightarrow> dict_get d ''@odata.id'' | JStr s \<Rightarrow> origin | _ \<Rightarrow> JNull)
                 in Inr (Some \<lparr>ra_target_id = si_target_id i, ra_target_name = si_target_name i,
                      ra_target_bmc = si_target_bmc i, ra_severity = severity,
                      ra_message = dict_get_default event ''Message'' (JStr []),
                      ra_message_id = dict_get event ''MessageId'', ra_event_type = event_type', ra_origin = uri,
                      ra_event_timestamp = event_ts, ra_received_at = now, ra_raw = event\<rparr>))))"

fun webhook_alerts ::
  "(string \<Rightarrow> py_datetime option) \<Rightarrow> subscriber_info \<Rightarrow> instant \<Rightarrow> json list \<Rightarrow> py_error + redfish_alert list" where
  "webhook_alerts f i now [] = Inr []"
| "webhook_alerts f i now (JObj event # es) =
     (case webhook_event_alert f i now event of
        Inl e \<Rightarrow> Inl e
      | Inr a \<Rightarrow>
          (case webhook_alerts f i now es of
             Inl e \<Rightarrow> Inl e
           | Inr as \<Rightarrow> Inr (case a of None \<Rightarrow> as | Some x \<Rightarrow> x # as)))"
| "webhook_alerts f i now (_ # es) = webhook_alerts f i now es"

definition webhook_events :: "json dict \<Rightarrow> json list" where
  "webhook_events data =
     (case dict_get data ''Events'' of
        JList events \<Rightarrow> events
      | _ \<Rightarrow>
          if json_truthy (dict_get data ''MessageId'') \<or> json_truthy (dict_get data ''Message'') then [JObj data] else [])"

definition parse_webhook_event ::
  "(string \<Rightarrow> py_datetime option) \<Rightarrow> subscriber_info \<Rightarrow> instant \<Rightarrow> json dict \<Rightarrow> py_error + redfish_alert list" where
  "parse_webhook_event f i now data = webhook_alerts f i now (webhook_events data)"

section \<open>Framing of the event stream\<close>

text \<open>The lines of the data buffer and the payloads dispatched so far.\<close>

type_synonym sse_state = "string list \<times> string list"

definition rstrip_eol :: "string \<Rightarrow> string" where
  "rstrip_eol s = rev (dropWhile (\<lambda>c. c = CHR 0x0D \<or> c = CHR 0x0A) (rev s))"

definition sse_dispatch :: "sse_state \<Rightarrow> sse_state" where
  "sse_dispatch = (\<lambda>(buf, out).
     if buf = [] then (buf, out)
     else
       (let payload = py_join [CHR 0x0A] buf
        in if py_strip payload = [] then ([], out) else ([], out @ [payload])))"

definition sse_field :: "string \<Rightarrow> string \<times> string" where
  "sse_field line =
     (let field = takeWhile (\<lambda>c. c \<noteq> CHR '':'') line; value = drop (length field + 1) line
      in (field, case value of c # r \<Rightarrow> if c = CHR '' '' then r else value | [] \<Rightarrow> []))"

definition sse_line :: "string \<Rightarrow> sse_state \<Rightarrow> sse_state" where
  "sse_line raw = (\<lambda>(buf, out).
     let line = rstrip_eol raw in
     if line = [] then sse_dispatch (buf, out)
     else if hd line = CHR '':'' then (buf, out)
     else
       (let (field, value) = sse_field line
        in if field = ''data'' then (buf @ [value], out) else (buf, out)))"

text \<open>The payloads of a stream: a final event needs no blank line.\<close>

definition sse_payloads :: "string list \<Rightarrow> string list" where
  "sse_payloads lines = snd (sse_dispatch (fold sse_line lines ([], [])))"

text \<open>A stream that ends within 30 seconds without an event is an error.\<close>

definition stream_too_short :: "duration \<Rightarrow> string list \<Rightarrow> bool" where
  "stream_too_short elapsed lines \<longleftrightarrow> elapsed < seconds 30 \<and> sse_payloads lines = []"

section \<open>Sloppy timestamps are read exactly\<close>

lemma is_digit_digit_char: "d < 10 \<Longrightarrow> is_digit (digit_char d)"
proof -
  assume "d < 10"
  then have "d \<in> {0, 1, 2, 3, 4, 5, 6, 7, 8, 9}" by auto
  then show ?thesis by (elim insertE emptyE) (simp_all add: is_digit_def digit_char_def)
qed

lemma scan_digits_run:
  assumes "\<forall>c \<in> set ds. is_digit c" "lo \<le> length ds" "length ds \<le> hi" "r = [] \<or> \<not> is_digit (hd r)"
  shows "scan_digits lo hi (ds @ r) = Some (ds, r)"
proof -
  have "takeWhile is_digit (take k r) = []" for k using assms(4) by (cases r; cases k) auto
  then have "takeWhile is_digit (take hi (ds @ r)) = ds" using assms(1, 3) by (simp add: takeWhile_append2)
  then show ?thesis using assms(2) by (simp add: scan_digits_def Let_def)
qed

text \<open>A date or time component as BMCs print it: with or without zero padding.\<close>

definition component :: "bool \<Rightarrow> nat \<Rightarrow> string" where
  "component padded n = (if padded then pad_dec 2 n else dec_of_nat n)"

lemma digits_dec: "c \<in> set (dec_of_nat n) \<Longrightarrow> is_digit c"
  using digit_of_dec is_digit_digit_char by blast

lemma digits_pad: "c \<in> set (pad_dec w n) \<Longrightarrow> is_digit c"
  using digits_dec is_digit_digit_char [of 0] by (auto simp: pad_dec_def digit_char_0 Let_def)

lemma component_digits:
  assumes "n < 100"
  shows "\<forall>c \<in> set (component b n). is_digit c" "1 \<le> length (component b n)" "length (component b n) \<le> 2"
    "int_of_digits (component b n) = n"
proof -
  show "\<forall>c \<in> set (component b n). is_digit c" by (auto simp: component_def digits_dec digits_pad)
  show "1 \<le> length (component b n)" "length (component b n) \<le> 2"
    using assms length_pad_dec [of n 2] length_digits_of [of 10 n 2]
    by (auto simp: component_def dec_of_nat_def Suc_le_eq)
  show "int_of_digits (component b n) = n"
    by (simp add: component_def int_of_digits_def digits_value_pad_dec digits_of_dec digits_value_digits_of)
qed

lemma scan_component:
  "n < 100 \<Longrightarrow> r = [] \<or> \<not> is_digit (hd r) \<Longrightarrow> scan_digits (Suc 0) 2 (component b n @ r) = Some (component b n, r)"
  by (intro scan_digits_run component_digits(1, 3) component_digits(2) [simplified])

definition sloppy_timestamp :: "nat \<Rightarrow> bool \<times> nat \<Rightarrow> bool \<times> nat \<Rightarrow> bool \<times> nat \<Rightarrow> bool \<times> nat \<Rightarrow> bool \<times> nat \<Rightarrow> string \<Rightarrow> string" where
  "sloppy_timestamp y mo d h mi sec zone =
     pad_dec 4 y @ ''-'' @ case_prod component mo @ ''-'' @ case_prod component d @ ''T'' @
     case_prod component h @ '':'' @ case_prod component mi @ '':'' @ case_prod component sec @ zone"

lemma not_digit [simp]:
  "\<not> is_digit CHR ''-''" "\<not> is_digit CHR ''T''" "\<not> is_digit CHR '':''" "\<not> is_digit CHR ''Z''" "\<not> is_digit CHR ''+''"
  by (simp_all add: is_digit_def)

lemma ts_at_sloppy:
  assumes "y < 10000" "mo < 100" "d < 100" "h < 100" "mi < 100" "sec < 100"
    and "zone = [] \<or> hd zone \<in> {CHR ''Z'', CHR ''+'', CHR ''-''}"
  shows "ts_at (sloppy_timestamp y (b1, mo) (b2, d) (b3, h) (b4, mi) (b5, sec) zone) =
    Some \<lparr>ts_year = pad_dec 4 y, ts_mon = component b1 mo, ts_day = component b2 d, ts_hour = component b3 h,
      ts_minute = component b4 mi, ts_sec = component b5 sec, ts_frac = None, ts_tz = scan_zone zone\<rparr>"
proof -
  have year: "scan_digits 4 4 (pad_dec 4 y @ r) = Some (pad_dec 4 y, r)" if "\<not> is_digit (hd r)" for r
    using assms(1) that by (intro scan_digits_run) (auto simp: length_pad_dec dest: digits_pad)
  have fr: "scan_fraction zone = (None, zone)" using assms(7) by (cases zone) (auto simp: scan_fraction_def)
  have ws: "dropWhile is_space zone = zone" using assms(7) by (cases zone) (auto simp: is_space_def)
  have z: "zone = [] \<or> \<not> is_digit (hd zone)" using assms(7) by auto
  show ?thesis
    unfolding ts_at_def sloppy_timestamp_def prod.case
    using assms(2-6) fr ws z by (simp add: year scan_component)
qed

lemma ts_search_at: "ts_at s = Some g \<Longrightarrow> ts_search s = Some g"
  by (cases s) auto

lemma strip_sloppy:
  assumes "y < 10000" "zone \<noteq> []" "\<not> is_space (last zone)"
  shows "py_strip (sloppy_timestamp y mo d h mi sec zone) = sloppy_timestamp y mo d h mi sec zone"
proof (rule py_strip_id)
  have ne: "pad_dec 4 y \<noteq> []" using length_pad_dec [of y 4] assms(1) by auto
  then have "is_digit (hd (pad_dec 4 y))" by (auto intro: digits_pad hd_in_set)
  then have "\<not> is_space (hd (pad_dec 4 y))" by (auto simp: is_digit_def is_space_def Let_def)
  then show "\<not> is_space (hd (sloppy_timestamp y mo d h mi sec zone))" using ne by (simp add: sloppy_timestamp_def)
  show "sloppy_timestamp y mo d h mi sec zone \<noteq> []" using ne by (simp add: sloppy_timestamp_def)
  show "\<not> is_space (last (sloppy_timestamp y mo d h mi sec zone))" using assms by (simp add: sloppy_timestamp_def)
qed

lemma valid_datetime_bounds:
  assumes "valid_datetime y mo d h mi sec"
  shows "y < 10000" "mo < 100" "d < 100" "h < 100" "mi < 100" "sec < 100"
proof -
  have "mo \<in> {1, 2, 3, 4, 5, 6, 7, 8, 9, 10, 11, 12}" using assms unfolding valid_datetime_def insert_iff empty_iff by presburger
  then have "days_in_month y mo \<le> 31" by (elim insertE emptyE) (simp_all add: days_in_month_def)
  then show "y < 10000" "mo < 100" "d < 100" "h < 100" "mi < 100" "sec < 100"
    using assms by (auto simp: valid_datetime_def)
qed

text \<open>The UTC offset \<open>+hh:mm\<close> or \<open>-hh:mm\<close> as printed after the seconds.\<close>

definition offset_text :: "bool \<Rightarrow> nat \<Rightarrow> nat \<Rightarrow> string" where
  "offset_text east hh mm = (if east then CHR ''+'' else CHR ''-'') # pad_dec 2 hh @ '':'' @ pad_dec 2 mm"

lemma scan_offset_text:
  assumes "hh < 100" "mm < 100"
  shows "scan_zone (offset_text east hh mm) = Some (offset_text east hh mm)"
proof -
  have two: "scan_digits 2 2 (pad_dec 2 n @ r) = Some (pad_dec 2 n, r)" if "n < 100" "r = [] \<or> \<not> is_digit (hd r)" for n r
    using that by (intro scan_digits_run) (auto simp: length_pad_dec dest: digits_pad)
  show ?thesis
    using two [of hh "'':'' @ pad_dec 2 mm"] two [of mm "[]"] assms
    by (simp add: scan_zone_def scan_offset_def offset_text_def Let_def)
qed

lemma zone_offset_text:
  assumes "hh < 100" "mm < 100"
  shows "zone_offset (offset_text east hh mm) =
    (let off = seconds (int (hh * 3600 + mm * 60))
     in if off < seconds 86400 then Inr (if east then off else - off) else Inl ValueError)"
proof -
  have c: "CHR '':'' \<notin> set (pad_dec 2 n)" for n using digits_pad not_digit(3) by blast
  have f: "filter (\<lambda>c. c \<noteq> CHR '':'') (pad_dec 2 hh @ '':'' @ pad_dec 2 mm) = pad_dec 2 hh @ pad_dec 2 mm"
    using c [of hh] c [of mm] by (auto simp: filter_id_conv intro!: arg_cong2 [where f = "(@)"])
  have l: "length (pad_dec 2 hh) = 2" "length (pad_dec 2 mm) = 2" using assms by (simp_all add: length_pad_dec)
  have v: "int_of_digits (pad_dec 2 n) = n" for n by (simp add: int_of_digits_def digits_value_pad_dec)
  show ?thesis using f l by (simp add: zone_offset_def offset_text_def v Let_def)
qed

text \<open>
  Timestamps: a valid date and time that a BMC prints without zero padding (or with it,
  component by component) and that the strict parser refuses is read as exactly that instant,
  in UTC after \<open>Z\<close> and at its offset otherwise; but an offset of a day or more makes the parser
  raise where it is documented to return no timestamp.
\<close>

lemma sloppy_timestamp_read:
  assumes "valid_datetime y mo d h mi sec" "hh < 100" "mm < 100"
    and "fromisoformat (replace_Z (sloppy_timestamp y (b1, mo) (b2, d) (b3, h) (b4, mi) (b5, sec) ''Z'')) = None"
    and "fromisoformat (replace_Z (sloppy_timestamp y (b1, mo) (b2, d) (b3, h) (b4, mi) (b5, sec) (offset_text east hh mm))) = None"
  shows "parse_redfish_timestamp fromisoformat (JStr (sloppy_timestamp y (b1, mo) (b2, d) (b3, h) (b4, mi) (b5, sec) ''Z'')) =
      Inr (Some (Aware (datetime_us y mo d h mi sec 0) 0)) \<and>
    parse_redfish_timestamp fromisoformat
        (JStr (sloppy_timestamp y (b1, mo) (b2, d) (b3, h) (b4, mi) (b5, sec) (offset_text east hh mm))) =
      (let off = seconds (int (hh * 3600 + mm * 60))
       in if hh * 60 + mm < 24 * 60 then Inr (Some (Aware (datetime_us y mo d h mi sec 0) (if east then off else - off)))
          else Inl ValueError)"
proof -
  note b = valid_datetime_bounds [OF assms(1)]
  have yv: "int_of_digits (pad_dec 4 y) = y" by (simp add: int_of_digits_def digits_value_pad_dec)
  have m0: "micro_of None = 0" by code_simp
  have ne: "offset_text east hh mm \<noteq> []" "hd (offset_text east hh mm) \<in> {CHR ''Z'', CHR ''+'', CHR ''-''}" "offset_text east hh mm \<noteq> ''Z''"
    by (simp_all add: offset_text_def)
  have "pad_dec 2 mm \<noteq> []" using length_pad_dec [of mm 2] assms(3) by auto
  then have "is_digit (last (offset_text east hh mm))" using digits_pad last_in_set by (fastforce simp: offset_text_def)
  then have lst: "\<not> is_space (last (offset_text east hh mm))" by (auto simp: is_digit_def is_space_def Let_def)
  have nonempty: "sloppy_timestamp y (b1, mo) (b2, d) (b3, h) (b4, mi) (b5, sec) z \<noteq> []" for z
    by (simp add: sloppy_timestamp_def)
  have off: "seconds (int (hh * 3600 + mm * 60)) < seconds 86400 \<longleftrightarrow> hh * 60 + mm < 24 * 60" by auto
  have z: "parse_redfish_timestamp fromisoformat (JStr (sloppy_timestamp y (b1, mo) (b2, d) (b3, h) (b4, mi) (b5, sec) ''Z'')) =
      Inr (Some (Aware (datetime_us y mo d h mi sec 0) 0))"
    using strip_sloppy [OF b(1), of "''Z''"] ts_search_at [OF ts_at_sloppy [OF b, of "''Z''"]] assms(1, 4) nonempty b
    by (simp add: parse_redfish_timestamp_def datetime_of_groups_def component_digits yv m0 scan_zone_def is_space_def Let_def)
  show ?thesis
    using z strip_sloppy [OF b(1) ne(1) lst] ts_search_at [OF ts_at_sloppy [OF b, of "offset_text east hh mm"]] assms nonempty b ne
    by (simp add: parse_redfish_timestamp_def datetime_of_groups_def component_digits yv m0 scan_offset_text zone_offset_text
        off Let_def)
qed

lemma sloppy_timestamp_read_witness:
  "parse_redfish_timestamp (\<lambda>_. None) (JStr ''2026-4-16T8:58:6Z'') = Inr (Some (Aware (datetime_us 2026 4 16 8 58 6 0) 0)) \<and>
   parse_redfish_timestamp (\<lambda>_. None) (JStr ''2026-4-16T8:58:6+99:00'') = Inl ValueError"
proof -
  have v: "valid_datetime 2026 4 16 8 58 6" by code_simp
  have "sloppy_timestamp 2026 (False, 4) (False, 16) (False, 8) (False, 58) (False, 6) ''Z'' = ''2026-4-16T8:58:6Z''"
    "sloppy_timestamp 2026 (False, 4) (False, 16) (False, 8) (False, 58) (False, 6) (offset_text True 99 0) = ''2026-4-16T8:58:6+99:00''"
    by code_simp+
  then show ?thesis
    using sloppy_timestamp_read [OF v, of 99 0 "\<lambda>_. None" False False False False False True] by simp
qed

section \<open>Framing round trip\<close>

lemma join_split_char: "py_join [c] (split_char c s) = s"
proof (induction c s rule: split_char.induct)
  case (2 c x s)
  obtain p ps where ps: "split_char c s = p # ps" by (metis split_char_nonempty list.exhaust)
  then show ?case using 2 by (cases ps) auto
qed simp

lemma split_char_chars: "l \<in> set (split_char c s) \<Longrightarrow> set l \<subseteq> set s - {c}"
proof (induction c s arbitrary: l rule: split_char.induct)
  case (2 c x s)
  show ?case
  proof (cases "x = c")
    case False
    obtain p ps where ps: "split_char c s = p # ps" by (metis split_char_nonempty list.exhaust)
    then have "set p \<subseteq> set s - {c}" "l = x # p \<or> l \<in> set (split_char c s)" using 2 False by auto
    then show ?thesis using 2(2) [of l] False by auto
  qed (use 2 in auto)
qed simp

text \<open>A payload as a server frames it: one \<open>data\<close> line per line, then a blank line.\<close>

definition sse_frame :: "string \<Rightarrow> string list" where
  "sse_frame payload = map (\<lambda>l. ''data: '' @ l) (split_char CHR 0x0A payload) @ [[]]"

text \<open>Lines that carry no data: comments (keep-alives) and other fields.\<close>

definition sse_noise :: "string \<Rightarrow> bool" where
  "sse_noise raw \<longleftrightarrow> rstrip_eol raw \<noteq> [] \<and> fst (sse_field (rstrip_eol raw)) \<noteq> ''data''"

lemma sse_line_noise: "sse_noise l \<Longrightarrow> sse_line l st = st"
  by (auto simp: sse_noise_def sse_line_def Let_def split: prod.splits)

lemma fold_sse_noise: "fold sse_line lines st = fold sse_line (filter (\<lambda>l. \<not> sse_noise l) lines) st"
  by (induction lines arbitrary: st) (auto simp: sse_line_noise)

lemma rstrip_eol_id: "set s \<inter> {CHR 0x0D, CHR 0x0A} = {} \<Longrightarrow> rstrip_eol s = s"
  by (cases s rule: rev_cases) (auto simp: rstrip_eol_def)

lemma sse_line_data:
  assumes "CHR 0x0D \<notin> set l" "CHR 0x0A \<notin> set l"
  shows "sse_line (''data: '' @ l) (buf, out) = (buf @ [l], out)"
  using rstrip_eol_id [of "''data: '' @ l"] assms by (simp add: sse_line_def sse_field_def)

lemma fold_sse_data:
  "\<forall>l \<in> set ls. CHR 0x0D \<notin> set l \<and> CHR 0x0A \<notin> set l \<Longrightarrow>
     fold sse_line (map (\<lambda>l. ''data: '' @ l) ls) (buf, out) = (buf @ ls, out)"
proof (induction ls arbitrary: buf)
  case (Cons l ls)
  then show ?case using sse_line_data [of l buf out] by simp
qed simp

lemma fold_sse_frame:
  assumes "CHR 0x0D \<notin> set payload" "py_strip payload \<noteq> []"
  shows "fold sse_line (sse_frame payload) ([], out) = ([], out @ [payload])"
proof -
  let ?ls = "split_char CHR 0x0A payload"
  have "\<forall>l \<in> set ?ls. CHR 0x0D \<notin> set l \<and> CHR 0x0A \<notin> set l"
    using split_char_chars assms(1) by blast
  then have "fold sse_line (map (\<lambda>l. ''data: '' @ l) ?ls) ([], out) = (?ls, out)" using fold_sse_data [of ?ls "[]" out] by simp
  then show ?thesis
    using assms(2) join_split_char [of "CHR 0x0A" payload]
    by (simp add: sse_frame_def sse_line_def rstrip_eol_def sse_dispatch_def Let_def)
qed

text \<open>
  (C15) The event stream: payloads framed by the server, pretty-printed over several lines or
  not, with keep-alive comments and other fields anywhere in between, are dispatched one by
  one, in order and unchanged.
\<close>

theorem sse_framing_roundtrip:
  assumes "\<forall>p \<in> set payloads. CHR 0x0D \<notin> set p \<and> py_strip p \<noteq> []"
    and "filter (\<lambda>l. \<not> sse_noise l) lines = concat (map sse_frame payloads)"
  shows "sse_payloads lines = payloads"
proof -
  have "fold sse_line (concat (map sse_frame ps)) ([], out) = ([], out @ ps)"
    if "\<forall>p \<in> set ps. CHR 0x0D \<notin> set p \<and> py_strip p \<noteq> []" for ps out
    using that
  proof (induction ps arbitrary: out)
    case (Cons p ps)
    then show ?case using fold_sse_frame [of p out] by simp
  qed simp
  then show ?thesis
    using assms by (simp add: sse_payloads_def fold_sse_noise [of lines] sse_dispatch_def)
qed

theorem sse_framing_roundtrip_witness:
  "sse_payloads ['': keep-alive'', ''data: {'', ''id: 7'', ''data: }'', [], ''data: [1]'', []] = [''{'' @ [CHR 0x0A] @ ''}'', ''[1]'']"
proof (rule sse_framing_roundtrip)
  show "\<forall>p \<in> set [''{'' @ [CHR 0x0A] @ ''}'', ''[1]'']. CHR 0x0D \<notin> set p \<and> py_strip p \<noteq> []" by code_simp
  show "filter (\<lambda>l. \<not> sse_noise l) ['': keep-alive'', ''data: {'', ''id: 7'', ''data: }'', [], ''data: [1]'', []] =
    concat (map sse_frame [''{'' @ [CHR 0x0A] @ ''}'', ''[1]''])" by code_simp
qed

section \<open>The two entry points agree\<close>

lemma webhook_event_alert_eq: "webhook_event_alert f i now event = event_alert f i now event"
  by (auto simp: webhook_event_alert_def event_alert_def event_type_allowed_def origin_uri_def list_ex_iff Let_def
      split: prod.splits sum.splits json.splits)

lemma process_webhook_agree:
  assumes "\<forall>e \<in> set events. \<exists>d. e = JObj d"
  shows "webhook_alerts f i now events =
    (case process_events f i now events of (as, None) \<Rightarrow> Inr as | (_, Some e) \<Rightarrow> Inl e)"
  using assms
proof (induction events)
  case (Cons e events)
  then obtain d where e: "e = JObj d" by auto
  show ?case
    using Cons by (auto simp: e webhook_event_alert_eq split: sum.splits option.splits prod.splits)
qed simp


definition demo_subscriber :: subscriber_info where
  "demo_subscriber = \<lparr>si_target_id = 7, si_target_name = ''node7'', si_target_bmc = ''10.0.0.7'',
     si_event_types = [''Alert'', ''StatusChange''], si_severities = [''Warning'', ''Critical'']\<rparr>"

definition demo_payload :: "json dict" where
  "demo_payload = [(''Events'', JList [JObj [(''MessageSeverity'', JStr ''critical''), (''Message'', JStr ''hot'')]])]"


end
