(* ===== verification/Alert_Subscriber.thy ===== *)
theory Alert_Subscriber
  imports Redfish_Events
begin

text \<open>
  The reconnecting subscription of one target, \<open>AlertSubscriber\<close> of
  \<open>collector/src/redfish/alert_subscriber.py\<close>: classification of errors, backoff, circuit
  breaker with cooldown, start, stop and resume. Every iteration of the loop is a step; what
  the connection attempt meets, the clock readings and the jitter are arguments.
\<close>

section \<open>Errors\<close>

datatype error_category = PERMANENT | TRANSIENT

text \<open>
  The exception classes the code tells apart. The built-in \<open>TimeoutError\<close> (also
  \<open>asyncio.TimeoutError\<close>) is an \<open>OSError\<close>; the time-outs of \<open>httpx\<close> are not.
\<close>

datatype error_class = HTTPStatusError int | RuntimeError | ConnectError | OSErrorClass | BuiltinTimeout | HttpxTimeout | OtherError string

record sse_error =
  err_class :: error_class
  err_text :: string

definition is_os_error :: "error_class \<Rightarrow> bool" where
  "is_os_error c \<longleftrightarrow> c = OSErrorClass \<or> c = BuiltinTimeout"

definition http_status_errors :: "int \<Rightarrow> string option" where
  "http_status_errors = map_of
     [(401, ''Authentication failed (401 Unauthorized)''),
      (403, ''Access forbidden (403)''),
      (404, ''SSE endpoint not found (404) - BMC does not support SSE''),
      (405, ''SSE not supported (405 Method Not Allowed)''),
      (501, ''SSE not implemented by BMC (501)'')]"

definition runtime_status :: "string \<Rightarrow> int option" where
  "runtime_status text =
     (if \<not> contains text ''http'' then None
      else find (\<lambda>c. contains text (''http '' @ py_str_int c)) [401, 403, 404, 405, 501])"

definition type_name :: "error_class \<Rightarrow> string" where
  "type_name c =
     (case c of HTTPStatusError _ \<Rightarrow> ''HTTPStatusError'' | RuntimeError \<Rightarrow> ''RuntimeError'' | ConnectError \<Rightarrow> ''ConnectError''
      | OSErrorClass \<Rightarrow> ''OSError'' | BuiltinTimeout \<Rightarrow> ''TimeoutError'' | HttpxTimeout \<Rightarrow> ''TimeoutException''
      | OtherError n \<Rightarrow> n)"

definition permanent_status :: "sse_error \<Rightarrow> string option" where
  "permanent_status e =
     (case err_class e of
        HTTPStatusError status \<Rightarrow> http_status_errors status
      | RuntimeError \<Rightarrow> (case runtime_status (py_lower (err_text e)) of None \<Rightarrow> None | Some c \<Rightarrow> http_status_errors c)
      | _ \<Rightarrow> None)"

definition classify_error :: "nat \<Rightarrow> sse_error \<Rightarrow> error_category \<times> string" where
  "classify_error failures e =
     (let error_str = py_lower (err_text e); c = err_class e in
      case permanent_status e of
        Some reason \<Rightarrow> (PERMANENT, reason)
      | None \<Rightarrow>
        if contains error_str ''connection refused'' \<or> contains error_str ''cannot connect'' then
          (if 10 < failures
           then (PERMANENT, ''Connection refused for extended period - BMC may be offline or firewalled'')
           else (TRANSIENT, ''Connection refused (BMC may be restarting)''))
        else if c = ConnectError \<or> is_os_error c then
          (if 10 < failures
           then (PERMANENT, ''Connection failures for extended period - network issue or BMC offline'')
           else (TRANSIENT, ''Network connection error''))
        else if (contains error_str ''certificate'' \<or> contains error_str ''ssl'' \<or> c = ConnectError) \<and>
                contains error_str ''certificate verify failed'' then
          (PERMANENT, ''SSL certificate validation failed (set verify_ssl=false to ignore)'')
        else if contains error_str ''closed after'' \<and> contains error_str ''without sending events'' then
          (PERMANENT, ''Invalid SSE endpoint (stream closes immediately)'')
        else if c = HttpxTimeout \<or> c = BuiltinTimeout then
          (if 15 < failures then (PERMANENT, ''Persistent timeout - BMC not responding'')
           else (TRANSIENT, ''Connection timeout''))
        else if contains error_str ''network unreachable'' \<or> contains error_str ''no route to host'' then
          (if 5 < failures then (PERMANENT, ''Network unreachable - routing issue'')
           else (TRANSIENT, ''Network unreachable''))
        else if contains error_str ''connection reset'' \<or> contains error_str ''broken pipe'' then
          (TRANSIENT, ''Connection reset by BMC'')
        else (TRANSIENT, ''Unexpected error: '' @ type_name c @ '': '' @ err_text e))"

section \<open>The subscription\<close>

datatype subscription_state = CONNECTED | RECONNECTING | DEGRADED | ON_COOLDOWN | FAILED_PERMANENT | STOPPED

text \<open>Durations of the configuration are given in microseconds.\<close>

record subscriber_config =
  sc_max_retry :: duration
  sc_cooldown :: duration
  sc_degraded :: duration

record subscriber =
  sb_running :: bool
  sb_state :: subscription_state
  sb_failures :: nat
  sb_first_failure :: "instant option"
  sb_cooldown_start :: "instant option"
  sb_failure_reason :: "string option"
  sb_next_retry :: "instant option"

definition new_subscriber :: subscriber where
  "new_subscriber =
     \<lparr>sb_running = False, sb_state = STOPPED, sb_failures = 0, sb_first_failure = None, sb_cooldown_start = None,
      sb_failure_reason = None, sb_next_retry = None\<rparr>"

definition start_subscriber :: "subscriber \<Rightarrow> subscriber" where
  "start_subscriber s = (if sb_running s then s else s\<lparr>sb_running := True, sb_state := RECONNECTING\<rparr>)"

definition stop_subscriber :: "subscriber \<Rightarrow> subscriber" where
  "stop_subscriber s = s\<lparr>sb_running := False, sb_state := STOPPED\<rparr>"

definition resume :: "subscriber \<Rightarrow> subscriber" where
  "resume s =
     (let s1 = s\<lparr>sb_failures := 0, sb_first_failure := None, sb_cooldown_start := None, sb_failure_reason := None,
                 sb_next_retry := None\<rparr>
      in if \<not> sb_running s1 then start_subscriber s1 else s1\<lparr>sb_state := RECONNECTING\<rparr>)"

definition backoff_delays :: "int list" where
  "backoff_delays = [30, 60, 120, 300, 600, 1800, 3600, 7200]"

text \<open>\<open>int(base * random.uniform(0.8, 1.2))\<close>, in seconds; \<open>jitter\<close> is the random factor.\<close>

definition calculate_backoff_delay :: "rat \<Rightarrow> nat \<Rightarrow> int" where
  "calculate_backoff_delay jitter failures =
     (let idx = min (int failures - 1) (int (length backoff_delays) - 1);
          base = (if 0 \<le> idx then backoff_delays ! nat idx else 30)
      in \<lfloor>of_int base * jitter\<rfloor>)"

text \<open>
  What \<open>_connect_and_listen\<close> does: whether the stream was opened, and the error it ended with
  (none: the stream ended after some time or some events).
\<close>

record attempt =
  at_connected :: bool
  at_error :: "sse_error option"

definition connect_and_listen :: "attempt \<Rightarrow> subscriber \<Rightarrow> subscriber" where
  "connect_and_listen a s =
     (if at_connected a
      then s\<lparr>sb_failures := 0, sb_first_failure := None, sb_failure_reason := None, sb_next_retry := None,
             sb_state := CONNECTED\<rparr>
      else s)"

text \<open>The \<open>except\<close> branch of the loop at time \<open>now\<close>, with the seconds slept afterwards.\<close>

definition on_error :: "subscriber_config \<Rightarrow> instant \<Rightarrow> rat \<Rightarrow> sse_error \<Rightarrow> subscriber \<Rightarrow> subscriber \<times> int" where
  "on_error c now jitter e s =
     (let (category, reason) = classify_error (sb_failures s) e;
          first = (if sb_failures s = 0 then Some now else sb_first_failure s);
          s1 = s\<lparr>sb_first_failure := first, sb_failures := sb_failures s + 1, sb_failure_reason := Some reason\<rparr>
      in if category = PERMANENT then (s1\<lparr>sb_state := FAILED_PERMANENT, sb_running := False\<rparr>, 0)
         else
           (let backoff = (\<lambda>s2. let d = calculate_backoff_delay jitter (sb_failures s2)
                                in (s2\<lparr>sb_next_retry := Some (now + seconds d)\<rparr>, d))
            in case first of
                 None \<Rightarrow> backoff s1
               | Some t \<Rightarrow>
                   if sc_max_retry c \<le> now - t then (s1\<lparr>sb_cooldown_start := Some now, sb_state := ON_COOLDOWN\<rparr>, 0)
                   else if sc_degraded c \<le> now - t then backoff (s1\<lparr>sb_state := DEGRADED\<rparr>)
                   else backoff (s1\<lparr>sb_state := RECONNECTING\<rparr>)))"

text \<open>
  An iteration of \<open>_subscribe_loop\<close> that starts at \<open>now\<close>; its connection attempt, if it makes
  one, ends at \<open>later\<close>. The result: the subscriber and the seconds slept.
\<close>

definition leave_cooldown :: "subscriber \<Rightarrow> subscriber" where
  "leave_cooldown s = s\<lparr>sb_cooldown_start := None, sb_first_failure := None, sb_failures := 0, sb_state := RECONNECTING\<rparr>"

definition subscribe_step ::
  "subscriber_config \<Rightarrow> instant \<Rightarrow> instant \<Rightarrow> rat \<Rightarrow> attempt \<Rightarrow> subscriber \<Rightarrow> subscriber \<times> int" where
  "subscribe_step c now later jitter a s =
     (case sb_cooldown_start s of
        Some t \<Rightarrow>
          if now - t < sc_cooldown c then (s\<lparr>sb_state := ON_COOLDOWN\<rparr>, 60)
          else
            (let s1 = connect_and_listen a (leave_cooldown s)
             in case at_error a of None \<Rightarrow> (s1, 0) | Some e \<Rightarrow> on_error c later jitter e s1)
      | None \<Rightarrow>
          (let s1 = connect_and_listen a s
           in case at_error a of None \<Rightarrow> (s1, 0) | Some e \<Rightarrow> on_error c later jitter e s1))"

section \<open>The state machine\<close>

text \<open>
  The transitions of a subscription: the manager starts, stops and resumes it, and while it
  runs the loop iterates.
\<close>

inductive subscriber_trans :: "subscriber_config \<Rightarrow> subscriber \<Rightarrow> subscriber \<Rightarrow> bool" for c where
  trans_start: "subscriber_trans c s (start_subscriber s)"
| trans_stop: "subscriber_trans c s (stop_subscriber s)"
| trans_resume: "subscriber_trans c s (resume s)"
| trans_iterate: "sb_running s \<Longrightarrow> at_connected a \<or> at_error a \<noteq> None \<Longrightarrow>
    subscriber_trans c s (fst (subscribe_step c now later jitter a s))"

inductive_cases subscriber_transE: "subscriber_trans c s s'"

text \<open>What the state says about the bookkeeping, in every reachable state.\<close>

fun state_agrees :: "subscription_state \<Rightarrow> subscriber \<Rightarrow> bool" where
  "state_agrees CONNECTED s \<longleftrightarrow> sb_running s \<and> sb_failures s = 0 \<and> sb_cooldown_start s = None \<and> sb_failure_reason s = None"
| "state_agrees RECONNECTING s \<longleftrightarrow> sb_running s"
| "state_agrees DEGRADED s \<longleftrightarrow> sb_running s \<and> 0 < sb_failures s \<and> sb_cooldown_start s = None"
| "state_agrees ON_COOLDOWN s \<longleftrightarrow> sb_running s \<and> sb_cooldown_start s \<noteq> None"
| "state_agrees FAILED_PERMANENT s \<longleftrightarrow> \<not> sb_running s \<and> 0 < sb_failures s \<and> sb_failure_reason s \<noteq> None"
| "state_agrees STOPPED s \<longleftrightarrow> \<not> sb_running s"

definition subscriber_ok :: "subscriber \<Rightarrow> bool" where
  "subscriber_ok s \<longleftrightarrow> (sb_first_failure s = None \<longleftrightarrow> sb_failures s = 0) \<and> state_agrees (sb_state s) s"

lemma on_error_ok:
  assumes "sb_first_failure s = None \<longleftrightarrow> sb_failures s = 0" "sb_running s" "sb_cooldown_start s = None"
  shows "subscriber_ok (fst (on_error c now jitter e s))"
proof -
  obtain cat reason where "classify_error (sb_failures s) e = (cat, reason)" by fastforce
  then show ?thesis using assms
    by (cases "sb_first_failure s") (auto simp: on_error_def subscriber_ok_def Let_def)
qed

lemma subscribe_step_ok:
  assumes "subscriber_ok s" "sb_running s" "at_connected a \<or> at_error a \<noteq> None"
  shows "subscriber_ok (fst (subscribe_step c now later jitter a s))"
proof -
  have attempt: "subscriber_ok (fst (let s1 = connect_and_listen a t in case at_error a of None \<Rightarrow> (s1, 0) | Some e \<Rightarrow> on_error c later jitter e s1))"
    if "sb_first_failure t = None \<longleftrightarrow> sb_failures t = 0" "sb_running t" "sb_cooldown_start t = None" for t
    using that assms(3) on_error_ok
    by (cases "at_error a") (auto simp: connect_and_listen_def subscriber_ok_def Let_def)
  show ?thesis
  proof (cases "sb_cooldown_start s")
    case None
    then show ?thesis using attempt [of s] assms(1, 2) by (simp add: subscribe_step_def subscriber_ok_def)
  next
    case (Some t)
    then show ?thesis using attempt [of "leave_cooldown s"] assms(1, 2)
      by (auto simp: subscribe_step_def leave_cooldown_def subscriber_ok_def)
  qed
qed

lemma control_ok:
  assumes "subscriber_ok s"
  shows "subscriber_ok (start_subscriber s)" "subscriber_ok (stop_subscriber s)" "subscriber_ok (resume s)"
  using assms by (auto simp: start_subscriber_def stop_subscriber_def resume_def subscriber_ok_def Let_def)

lemma subscriber_trans_ok: "subscriber_trans c s s' \<Longrightarrow> subscriber_ok s \<Longrightarrow> subscriber_ok s'"
  by (auto elim!: subscriber_transE intro: control_ok subscribe_step_ok)

text \<open>
  (C17) In every state a subscription can reach, its reported state and its bookkeeping agree:
  it reports connected only with no failure recorded, on cooldown only while a cooldown runs,
  permanent failure and stopped only when the loop has ended, degraded only after failures;
  and a first failure time is kept exactly while failures are counted.
\<close>

theorem subscriber_state_invariant:
  assumes "(subscriber_trans c)\<^sup>*\<^sup>* new_subscriber s"
  shows "(sb_first_failure s = None \<longleftrightarrow> sb_failures s = 0) \<and> state_agrees (sb_state s) s"
  using assms
proof (induction rule: rtranclp_induct)
  case base
  show ?case by (simp add: new_subscriber_def)
next
  case (step s s')
  then show ?case using subscriber_trans_ok by (simp add: subscriber_ok_def)
qed

definition demo_config :: subscriber_config where
  "demo_config = \<lparr>sc_max_retry = seconds 86400, sc_cooldown = seconds 21600, sc_degraded = seconds 3600\<rparr>"

theorem subscriber_state_invariant_witness:
  "state_agrees (sb_state (start_subscriber new_subscriber)) (start_subscriber new_subscriber)"
  using subscriber_state_invariant [of demo_config "start_subscriber new_subscriber"] trans_start by blast

section \<open>Backoff and giving up\<close>

lemma backoff_delays_bounds: "i < 8 \<Longrightarrow> 30 \<le> backoff_delays ! i \<and> backoff_delays ! i \<le> 7200"
proof -
  assume "i < 8"
  then have "i \<in> {0, 1, 2, 3, 4, 5, 6, 7}" by auto
  then show ?thesis by (elim insertE emptyE) (simp_all add: backoff_delays_def)
qed

lemma backoff_bounds:
  assumes "8 / 10 \<le> jitter" "jitter \<le> 12 / 10"
  shows "24 \<le> calculate_backoff_delay jitter failures \<and> calculate_backoff_delay jitter failures \<le> 8640"
proof -
  define idx where "idx = min (int failures - 1) 7"
  define base where "base = (if 0 \<le> idx then backoff_delays ! nat idx else 30)"
  have b: "30 \<le> base" "base \<le> 7200" using backoff_delays_bounds [of "nat idx"] by (auto simp: base_def idx_def)
  have d: "calculate_backoff_delay jitter failures = \<lfloor>of_int base * jitter\<rfloor>"
    by (simp add: calculate_backoff_delay_def base_def idx_def backoff_delays_def)
  have "30 * (8 / 10) \<le> of_int base * jitter" using b assms by (intro mult_mono) auto
  moreover have "of_int base * jitter \<le> 7200 * (12 / 10)" using b assms by (intro mult_mono) auto
  ultimately show ?thesis unfolding d by (simp add: le_floor_iff floor_le_iff)
qed

text \<open>A refused connection: no status code, the text of the operating system.\<close>

definition refused :: "sse_error \<Rightarrow> bool" where
  "refused e \<longleftrightarrow> permanent_status e = None \<and> contains (py_lower (err_text e)) ''connection refused''"

lemma classify_refused: "refused e \<Longrightarrow> fst (classify_error n e) = (if 10 < n then PERMANENT else TRANSIENT)"
  by (simp add: refused_def classify_error_def)

lemma refused_step:
  assumes "refused e" "a = \<lparr>at_connected = False, at_error = Some e\<rparr>" "sb_cooldown_start s = None" "sb_running s"
    and "case sb_first_failure s of None \<Rightarrow> sb_failures s = 0 \<and> 0 < sc_max_retry c | Some t \<Rightarrow> sb_failures s \<noteq> 0 \<and> later - t < sc_max_retry c"
    and "fst (subscribe_step c now later jitter a s) = s'"
  shows "sb_failures s' = sb_failures s + 1 \<and> sb_cooldown_start s' = None \<and>
    sb_first_failure s' = (if sb_failures s = 0 then Some later else sb_first_failure s) \<and>
    (if 10 < sb_failures s then sb_state s' = FAILED_PERMANENT \<and> \<not> sb_running s' else sb_running s')"
proof -
  obtain cat reason where cl: "classify_error (sb_failures s) e = (cat, reason)" by fastforce
  then have "cat = (if 10 < sb_failures s then PERMANENT else TRANSIENT)" using classify_refused [OF assms(1)] by (metis fst_conv)
  then show ?thesis using assms(2-6) cl
    by (cases "sb_first_failure s") (auto simp: subscribe_step_def connect_and_listen_def on_error_def Let_def split: if_splits)
qed

fun subscribe_run :: "subscriber_config \<Rightarrow> (instant \<times> instant \<times> rat \<times> attempt) list \<Rightarrow> subscriber \<Rightarrow> subscriber" where
  "subscribe_run c [] s = s"
| "subscribe_run c ((now, later, jitter, a) # its) s =
     (if sb_running s then subscribe_run c its (fst (subscribe_step c now later jitter a s)) else s)"

lemma refused_run:
  assumes "\<forall>(now, later, jitter, a) \<in> set its. (\<exists>e. refused e \<and> a = \<lparr>at_connected = False, at_error = Some e\<rparr>) \<and> later - t0 < sc_max_retry c"
    and "sb_running s" "sb_cooldown_start s = None" "sb_first_failure s = Some t0" "0 < sb_failures s" "sb_failures s \<le> 11"
    and "sb_failures s + length its = 12"
  shows "sb_state (subscribe_run c its s) = FAILED_PERMANENT \<and> \<not> sb_running (subscribe_run c its s) \<and> sb_failures (subscribe_run c its s) = 12"
  using assms
proof (induction its arbitrary: s)
  case (Cons it its)
  obtain now later jitter a where it: "it = (now, later, jitter, a)" by (cases it) auto
  obtain e where e: "refused e" "a = \<lparr>at_connected = False, at_error = Some e\<rparr>" and time: "later - t0 < sc_max_retry c"
    using Cons.prems(1) by (auto simp: it)
  let ?s = "fst (subscribe_step c now later jitter a s)"
  have st: "sb_failures ?s = sb_failures s + 1 \<and> sb_cooldown_start ?s = None \<and> sb_first_failure ?s = Some t0 \<and>
      (if 10 < sb_failures s then sb_state ?s = FAILED_PERMANENT \<and> \<not> sb_running ?s else sb_running ?s)"
    using refused_step [OF e, of s c later now jitter ?s] Cons.prems time by simp
  show ?case
  proof (cases "10 < sb_failures s")
    case True
    have "length (it # its) = Suc (length its)" by simp
    then have "length its = 0" "sb_failures s = 11" using True Cons.prems(6, 7) by linarith+
    then show ?thesis using st Cons.prems(2) by (simp add: it)
  next
    case False
    then show ?thesis using Cons.IH [of ?s] st Cons.prems by (simp add: it)
  qed
qed simp

text \<open>
  A BMC that refuses every connection is given up after exactly twelve attempts, when
  they happen within the retry limit: the subscription then reports permanent failure and its
  loop has ended, so the manager can retry it later. Between attempts it sleeps between 24
  seconds and 2.4 hours.
\<close>

lemma refused_gives_up:
  assumes "\<forall>(now, later, jitter, a) \<in> set ((now0, t0, j0, a0) # its).
      (\<exists>e. refused e \<and> a = \<lparr>at_connected = False, at_error = Some e\<rparr>) \<and> later - t0 < sc_max_retry c \<and>
      8 / 10 \<le> jitter \<and> jitter \<le> 12 / 10"
    and "length its = 11" "s = start_subscriber new_subscriber"
  shows "sb_state (subscribe_run c ((now0, t0, j0, a0) # its) s) = FAILED_PERMANENT \<and>
    \<not> sb_running (subscribe_run c ((now0, t0, j0, a0) # its) s) \<and>
    sb_failures (subscribe_run c ((now0, t0, j0, a0) # its) s) = 12 \<and>
    (\<forall>(now, later, jitter, a) \<in> set ((now0, t0, j0, a0) # its). \<forall>n.
      24 \<le> calculate_backoff_delay jitter n \<and> calculate_backoff_delay jitter n \<le> 8640)"
proof -
  obtain e0 where e0: "refused e0" "a0 = \<lparr>at_connected = False, at_error = Some e0\<rparr>" and pos: "0 < sc_max_retry c"
    using assms(1) by auto
  let ?s = "fst (subscribe_step c now0 t0 j0 a0 s)"
  have s: "sb_running s" "sb_cooldown_start s = None" "sb_first_failure s = None" "sb_failures s = 0"
    by (simp_all add: assms(3) start_subscriber_def new_subscriber_def)
  have st: "sb_failures ?s = 1 \<and> sb_cooldown_start ?s = None \<and> sb_first_failure ?s = Some t0 \<and> sb_running ?s"
    using refused_step [OF e0, of s c t0 now0 j0 ?s] s pos by simp
  have "\<forall>(now, later, jitter, a) \<in> set its. (\<exists>e. refused e \<and> a = \<lparr>at_connected = False, at_error = Some e\<rparr>) \<and> later - t0 < sc_max_retry c"
    using assms(1) by auto
  from refused_run [OF this, of ?s] st assms(2) have
    "sb_state (subscribe_run c its ?s) = FAILED_PERMANENT \<and> \<not> sb_running (subscribe_run c its ?s) \<and> sb_failures (subscribe_run c its ?s) = 12"
    by simp
  then show ?thesis using s(1) assms(1) backoff_bounds by auto
qed

lemma refused_gives_up_witness:
  "sb_state (subscribe_run demo_config
     (replicate 12 (0, 0, 1, \<lparr>at_connected = False, at_error = Some \<lparr>err_class = ConnectError, err_text = ''Connection refused''\<rparr>\<rparr>))
     (start_subscriber new_subscriber)) = FAILED_PERMANENT"
proof -
  let ?e = "\<lparr>err_class = ConnectError, err_text = ''Connection refused''\<rparr>"
  have r: "refused ?e" by code_simp
  have rep: "replicate 12 x = x # replicate 11 x" for x :: "instant \<times> instant \<times> rat \<times> attempt" by (simp add: numeral_eq_Suc)
  show ?thesis
    using refused_gives_up [of 0 0 1 "\<lparr>at_connected = False, at_error = Some ?e\<rparr>"
        "replicate 11 (0, 0, 1, \<lparr>at_connected = False, at_error = Some ?e\<rparr>)" demo_config "start_subscriber new_subscriber"] r
    unfolding rep by (simp add: demo_config_def)
qed

text \<open>
  A failed certificate check reaches the code as a \<open>ConnectError\<close>, which an earlier test
  catches: it is retried as a network error, and only after ten failures becomes permanent, as
  an extended network failure. The certificate test, which names that class and would report
  it at once, decides only for other classes.
\<close>

lemma certificate_error_retried:
  assumes "contains (py_lower (err_text e)) ''certificate verify failed''"
    "\<not> contains (py_lower (err_text e)) ''connection refused''" "\<not> contains (py_lower (err_text e)) ''cannot connect''"
    "err_class e \<noteq> OSErrorClass" "err_class e \<noteq> BuiltinTimeout" "permanent_status e = None"
  shows "fst (classify_error n e) = (if err_class e = ConnectError \<and> n \<le> 10 then TRANSIENT else PERMANENT) \<and>
    (err_class e = ConnectError \<longrightarrow>
      snd (classify_error n e) \<noteq> ''SSL certificate validation failed (set verify_ssl=false to ignore)'')"
proof -
  obtain u v where "py_lower (err_text e) = u @ ''certificate verify failed'' @ v" using assms(1) contains_iff by blast
  then have "contains (py_lower (err_text e)) ''certificate''"
    unfolding contains_iff by (intro exI [of _ u] exI [of _ "'' verify failed'' @ v"]) simp
  then show ?thesis using assms by (simp add: classify_error_def is_os_error_def Let_def)
qed

lemma certificate_error_retried_witness:
  "fst (classify_error 3 \<lparr>err_class = ConnectError, err_text = ''[SSL] certificate verify failed''\<rparr>) = TRANSIENT"
  using certificate_error_retried [of "\<lparr>err_class = ConnectError, err_text = ''[SSL] certificate verify failed''\<rparr>" 3]
  by (simp add: permanent_status_def py_lower_def lower_char_def)

end
