(* ===== verification/Alert_Pipeline.thy ===== *)
theory Alert_Pipeline
  imports Alert_Store
begin

text \<open>
  The queueing half of \<open>collector/src/alert_manager.py\<close>: the per-target rate limiter, the
  bounded alert queue, the batch processor that hands alerts to the alert store, the final
  flush at shutdown and the retention job. The configuration sets no custom callback.
\<close>

section \<open>The rate limiter\<close>

type_synonym rate_windows = "target_id \<Rightarrow> instant list"

definition RATE_WINDOW :: duration where
  "RATE_WINDOW = seconds 60"

definition allow :: "nat \<Rightarrow> instant \<Rightarrow> target_id \<Rightarrow> rate_windows \<Rightarrow> bool \<times> rate_windows" where
  "allow max_alerts now target windows =
     (let window = dropWhile (\<lambda>t. t < now - RATE_WINDOW) (windows target) in
      if length window < max_alerts then (True, windows(target := window @ [now]))
      else (False, windows(target := window)))"

section \<open>The pipeline\<close>

record pipeline_config =
  pc_max_alerts :: nat
  pc_max_queue_size :: nat
  pc_batch_size :: nat
  pc_batch_interval :: duration
  pc_retention_days :: int
  pc_policy :: bool

text \<open>
  \<open>pl_batch\<close> and \<open>pl_last_write\<close> are the local variables of the batch loop; \<open>pl_policy_calls\<close>
  lists the alerts handed to the policy engine.
\<close>

record alert_pipeline =
  pl_windows :: rate_windows
  pl_queue :: "alert_event list"
  pl_batch :: "alert_event list"
  pl_last_write :: instant
  pl_received :: nat
  pl_written :: int
  pl_dropped :: nat
  pl_policy_calls :: "alert_event list"

definition new_pipeline :: "instant \<Rightarrow> alert_pipeline" where
  "new_pipeline now =
     \<lparr>pl_windows = (\<lambda>_. []), pl_queue = [], pl_batch = [], pl_last_write = now, pl_received = 0, pl_written = 0,
      pl_dropped = 0, pl_policy_calls = []\<rparr>"

text \<open>An \<open>asyncio.Queue\<close> with \<open>maxsize\<close> 0 is unbounded.\<close>

definition queue_full :: "pipeline_config \<Rightarrow> alert_pipeline \<Rightarrow> bool" where
  "queue_full c p \<longleftrightarrow> 0 < pc_max_queue_size c \<and> pc_max_queue_size c \<le> length (pl_queue p)"

definition enqueue :: "pipeline_config \<Rightarrow> alert_event \<Rightarrow> alert_pipeline \<Rightarrow> alert_pipeline" where
  "enqueue c alert p =
     (if queue_full c p then p\<lparr>pl_dropped := pl_dropped p + 1\<rparr>
      else p\<lparr>pl_queue := pl_queue p @ [alert], pl_received := pl_received p + 1\<rparr>)"

definition dispatch_policy :: "pipeline_config \<Rightarrow> alert_event \<Rightarrow> alert_pipeline \<Rightarrow> alert_pipeline" where
  "dispatch_policy c alert p =
     (if pc_policy c then p\<lparr>pl_policy_calls := pl_policy_calls p @ [alert]\<rparr> else p)"

definition on_alert :: "pipeline_config \<Rightarrow> instant \<Rightarrow> alert_event \<Rightarrow> alert_pipeline \<Rightarrow> alert_pipeline" where
  "on_alert c now alert p =
     (let (ok, windows) = allow (pc_max_alerts c) now (ae_target_id alert) (pl_windows p);
          p1 = p\<lparr>pl_windows := windows\<rparr>
      in if ok then dispatch_policy c alert (enqueue c alert p1)
         else p1\<lparr>pl_dropped := pl_dropped p1 + 1\<rparr>)"

definition on_baseline_alert :: "pipeline_config \<Rightarrow> alert_event \<Rightarrow> alert_pipeline \<Rightarrow> alert_pipeline" where
  "on_baseline_alert c alert p = enqueue c alert p"

text \<open>
  \<open>_write_batch\<close>: \<open>up\<close> says whether the alert store takes the write; when it does not, the
  transaction is rolled back and the store is unchanged.
\<close>

definition write_batch ::
  "instant \<Rightarrow> bool \<Rightarrow> (alert_db \<Rightarrow> alert_db) \<Rightarrow> alert_event list \<Rightarrow> alert_pipeline \<times> alert_db \<Rightarrow>
   bool \<times> alert_pipeline \<times> alert_db" where
  "write_batch now up race batch = (\<lambda>(p, db).
     if batch = [] then (True, p, db)
     else if up then
       (let (written, db') = create_alerts_batch now race batch db
        in (True, p\<lparr>pl_written := pl_written p + written\<rparr>, db'))
     else (False, p, db))"

definition batch_cap :: "pipeline_config \<Rightarrow> nat" where
  "batch_cap c = max (pc_batch_size c * 5) (pc_batch_size c)"

definition should_write :: "pipeline_config \<Rightarrow> instant \<Rightarrow> alert_pipeline \<Rightarrow> bool" where
  "should_write c now p \<longleftrightarrow>
     pc_batch_size c \<le> length (pl_batch p) \<or>
     (pl_batch p \<noteq> [] \<and> pc_batch_interval c \<le> now - pl_last_write p)"

text \<open>The body of \<open>_batch_processor_loop\<close>: take an alert if one waits, write when it is time.\<close>

definition take_alert :: "alert_pipeline \<Rightarrow> alert_pipeline" where
  "take_alert p =
     (case pl_queue p of
        [] \<Rightarrow> p
      | a # rest \<Rightarrow> p\<lparr>pl_queue := rest, pl_batch := pl_batch p @ [a]\<rparr>)"

definition trim_batch :: "pipeline_config \<Rightarrow> alert_pipeline \<Rightarrow> alert_pipeline" where
  "trim_batch c p =
     (let overflow = length (pl_batch p) - batch_cap c in
      if batch_cap c < length (pl_batch p)
      then p\<lparr>pl_batch := drop overflow (pl_batch p), pl_dropped := pl_dropped p + overflow\<rparr> else p)"

definition batch_step ::
  "pipeline_config \<Rightarrow> instant \<Rightarrow> bool \<Rightarrow> (alert_db \<Rightarrow> alert_db) \<Rightarrow> alert_pipeline \<times> alert_db \<Rightarrow> alert_pipeline \<times> alert_db" where
  "batch_step c now up race = (\<lambda>(p, db).
     let p1 = take_alert p in
     if should_write c now p1 then
       (let (ok, p2, db') = write_batch now up race (pl_batch p1) (p1, db);
            p3 = (if ok then p2\<lparr>pl_batch := []\<rparr> else trim_batch c p2)
        in (p3\<lparr>pl_last_write := now\<rparr>, db'))
     else (p1, db))"

text \<open>
  Shutdown: the cancelled batch loop writes what it holds, then \<open>_flush_batch\<close> drains the
  queue. Both results are discarded, so alerts of a failed write are gone.
\<close>

definition stop_pipeline ::
  "instant \<Rightarrow> bool \<Rightarrow> bool \<Rightarrow> (alert_db \<Rightarrow> alert_db) \<Rightarrow> alert_pipeline \<times> alert_db \<Rightarrow> alert_pipeline \<times> alert_db" where
  "stop_pipeline now up1 up2 race = (\<lambda>(p, db).
     let (_, p1, db1) = write_batch now up1 race (pl_batch p) (p, db);
         (_, p2, db2) = write_batch now up2 race (pl_queue p1) (p1, db1)
     in (p2\<lparr>pl_batch := [], pl_queue := []\<rparr>, db2))"

definition cleanup_old_alerts :: "pipeline_config \<Rightarrow> instant \<Rightarrow> alert_db \<Rightarrow> int \<times> alert_db" where
  "cleanup_old_alerts c now db = delete_alerts_before (Aware (now - pc_retention_days c * seconds 86400) 0) db"

text \<open>What drives the pipeline between start and stop.\<close>

datatype pipeline_event =
    LiveAlert instant alert_event
  | BaselineAlert alert_event
  | BatchTick instant bool "alert_db \<Rightarrow> alert_db"

fun pipeline_step :: "pipeline_config \<Rightarrow> pipeline_event \<Rightarrow> alert_pipeline \<times> alert_db \<Rightarrow> alert_pipeline \<times> alert_db" where
  "pipeline_step c (LiveAlert now a) (p, db) = (on_alert c now a p, db)"
| "pipeline_step c (BaselineAlert a) (p, db) = (on_baseline_alert c a p, db)"
| "pipeline_step c (BatchTick now up race) (p, db) = batch_step c now up race (p, db)"

definition run_pipeline :: "pipeline_config \<Rightarrow> pipeline_event list \<Rightarrow> alert_pipeline \<times> alert_db \<Rightarrow> alert_pipeline \<times> alert_db" where
  "run_pipeline c es = fold (pipeline_step c) es"

section \<open>The limiter enforces a sliding window\<close>

text \<open>The calls a limiter admits, in order, as pairs of time and target.\<close>

fun limiter_run :: "nat \<Rightarrow> (instant \<times> target_id) list \<Rightarrow> rate_windows \<Rightarrow> (instant \<times> target_id) list \<times> rate_windows" where
  "limiter_run n [] w = ([], w)"
| "limiter_run n ((now, i) # calls) w =
     (let (ok, w1) = allow n now i w; (adm, w2) = limiter_run n calls w1 in (if ok then (now, i) # adm else adm, w2))"

definition admitted_times :: "target_id \<Rightarrow> (instant \<times> target_id) list \<Rightarrow> instant list" where
  "admitted_times i adm = map fst (filter (\<lambda>(_, j). j = i) adm)"

lemma limiter_run_snoc:
  "limiter_run n (calls @ [(now, i)]) w =
     (let (adm, w1) = limiter_run n calls w; (ok, w2) = allow n now i w1 in (if ok then adm @ [(now, i)] else adm, w2))"
  by (induction n calls w rule: limiter_run.induct) (auto simp: Let_def split: prod.splits)

lemma dropWhile_sorted: "sorted xs \<Longrightarrow> dropWhile (\<lambda>t. t < c) xs = filter (\<lambda>t. c \<le> t) (xs :: int list)"
proof (induction xs)
  case (Cons x xs)
  show ?case
  proof (cases "x < c")
    case False
    then have "filter (\<lambda>t. c \<le> t) (x # xs) = x # xs" using Cons.prems by (intro filter_True) force
    then show ?thesis using False by simp
  qed (use Cons in simp)
qed simp

text \<open>The window of a target is the suffix of its admitted times from some cutoff on.\<close>

definition limiter_inv :: "instant \<Rightarrow> (instant \<times> target_id) list \<Rightarrow> rate_windows \<Rightarrow> bool" where
  "limiter_inv now adm w \<longleftrightarrow>
     (\<forall>i. sorted (admitted_times i adm) \<and> (\<forall>t \<in> set (admitted_times i adm). t \<le> now) \<and>
       (\<exists>cut \<le> now - RATE_WINDOW. w i = filter (\<lambda>t. cut \<le> t) (admitted_times i adm)))"

definition in_window :: "instant \<Rightarrow> instant \<Rightarrow> instant list \<Rightarrow> nat" where
  "in_window lo hi ts = length (filter (\<lambda>t. lo \<le> t \<and> t \<le> hi) ts)"

lemma allow_exact:
  assumes "limiter_inv prev adm w" "prev \<le> now"
  shows "allow n now i w =
    (if in_window (now - RATE_WINDOW) now (admitted_times i adm) < n
     then (True, w(i := filter (\<lambda>t. now - RATE_WINDOW \<le> t) (admitted_times i adm) @ [now]))
     else (False, w(i := filter (\<lambda>t. now - RATE_WINDOW \<le> t) (admitted_times i adm))))"
proof -
  obtain cut where cut: "cut \<le> prev - RATE_WINDOW" "w i = filter (\<lambda>t. cut \<le> t) (admitted_times i adm)"
    and s: "sorted (admitted_times i adm)" and le: "\<And>t. t \<in> set (admitted_times i adm) \<Longrightarrow> t \<le> prev"
    using assms(1) unfolding limiter_inv_def by blast
  have "dropWhile (\<lambda>t. t < now - RATE_WINDOW) (w i) = filter (\<lambda>t. now - RATE_WINDOW \<le> t) (w i)"
    using s by (simp add: cut(2) dropWhile_sorted sorted_filter [where f = id, simplified])
  also have "\<dots> = filter (\<lambda>t. now - RATE_WINDOW \<le> t) (admitted_times i adm)"
    using cut assms(2) by (auto intro!: filter_cong)
  moreover have "in_window (now - RATE_WINDOW) now (admitted_times i adm) =
      length (filter (\<lambda>t. now - RATE_WINDOW \<le> t) (admitted_times i adm))"
    using le assms(2) unfolding in_window_def by (intro arg_cong [where f = length] filter_cong) force+
  ultimately show ?thesis by (simp add: allow_def Let_def)
qed

lemma admitted_times_snoc [simp]:
  "admitted_times i (adm @ [(now, j)]) = (if i = j then admitted_times i adm @ [now] else admitted_times i adm)"
  by (simp add: admitted_times_def)

lemma in_window_snoc [simp]: "in_window lo hi (ts @ [t]) = in_window lo hi ts + (if lo \<le> t \<and> t \<le> hi then 1 else 0)"
  by (simp add: in_window_def)

lemma in_window_mono: "lo' \<le> lo \<Longrightarrow> hi \<le> hi' \<Longrightarrow> in_window lo hi ts \<le> in_window lo' hi' ts"
  by (induction ts) (auto simp: in_window_def)

lemma allow_keeps_inv:
  assumes "limiter_inv prev adm w" "prev \<le> now" "allow n now i w = (ok, w')"
  shows "limiter_inv now (if ok then adm @ [(now, i)] else adm) w'"
  unfolding limiter_inv_def
proof
  fix k
  obtain cut where k: "sorted (admitted_times k adm)" "\<forall>t \<in> set (admitted_times k adm). t \<le> prev"
      "cut \<le> prev - RATE_WINDOW" "w k = filter (\<lambda>t. cut \<le> t) (admitted_times k adm)"
    using assms(1) unfolding limiter_inv_def by blast
  let ?adm = "if ok then adm @ [(now, i)] else adm"
  let ?cut = "if k = i then now - RATE_WINDOW else cut"
  have w': "w' k = filter (\<lambda>t. ?cut \<le> t) (admitted_times k ?adm)"
    using allow_exact [OF assms(1, 2), of n i] assms(3) k(4) by (auto simp: RATE_WINDOW_def split: if_splits)
  moreover have "sorted (admitted_times k ?adm)" "\<forall>t \<in> set (admitted_times k ?adm). t \<le> now"
    using k(1, 2) assms(2) by (auto simp: sorted_append)
  moreover have "?cut \<le> now - RATE_WINDOW" using k(3) assms(2) by auto
  ultimately show "sorted (admitted_times k ?adm) \<and> (\<forall>t \<in> set (admitted_times k ?adm). t \<le> now) \<and>
      (\<exists>cut \<le> now - RATE_WINDOW. w' k = filter (\<lambda>t. cut \<le> t) (admitted_times k ?adm))"
    by blast
qed

lemma limiter_run_bounded:
  assumes "sorted (map fst calls)" "\<forall>t \<in> fst ` set calls. t \<le> now" "limiter_run n calls (\<lambda>_. []) = (adm, w)"
  shows "limiter_inv now adm w \<and> (\<forall>s i. in_window s (s + RATE_WINDOW) (admitted_times i adm) \<le> n)"
  using assms
proof (induction calls arbitrary: now adm w rule: rev_induct)
  case Nil
  then show ?case by (auto simp: limiter_inv_def admitted_times_def in_window_def)
next
  case (snoc call calls)
  obtain t i where call: "call = (t, i)" by fastforce
  obtain adm1 w1 ok where run: "limiter_run n calls (\<lambda>_. []) = (adm1, w1)" and al: "allow n t i w1 = (ok, w)"
      and adm: "adm = (if ok then adm1 @ [(t, i)] else adm1)"
    using snoc.prems(3) unfolding call limiter_run_snoc by (auto split: prod.splits)
  have IH: "limiter_inv t adm1 w1" "\<And>s i. in_window s (s + RATE_WINDOW) (admitted_times i adm1) \<le> n"
    using snoc.IH [OF _ _ run, of t] snoc.prems(1) by (auto simp: call sorted_append)
  have inv: "limiter_inv t adm w" using allow_keeps_inv [OF IH(1) order.refl al] adm by simp
  have "t \<le> now" using snoc.prems(2) by (simp add: call)
  then have "limiter_inv now adm w" using inv unfolding limiter_inv_def by (meson diff_right_mono order.trans)
  moreover have "in_window s (s + RATE_WINDOW) (admitted_times k adm) \<le> n" for s k
  proof (cases "ok \<and> k = i \<and> s \<le> t \<and> t \<le> s + RATE_WINDOW")
    case True
    have "in_window (t - RATE_WINDOW) t (admitted_times i adm1) < n"
      using allow_exact [OF IH(1) order.refl, of n i] al True by (auto split: if_splits)
    moreover have "in_window s (s + RATE_WINDOW) (admitted_times i adm1) \<le> in_window (t - RATE_WINDOW) t (admitted_times i adm1)"
    proof -
      have "\<forall>t' \<in> set (admitted_times i adm1). t' \<le> t" using IH(1) unfolding limiter_inv_def by blast
      then have "in_window s (s + RATE_WINDOW) (admitted_times i adm1) = in_window s t (admitted_times i adm1)"
        using True unfolding in_window_def by (intro arg_cong [where f = length] filter_cong) auto
      also have "\<dots> \<le> in_window (t - RATE_WINDOW) t (admitted_times i adm1)"
        using True by (intro in_window_mono) auto
      finally show ?thesis .
    qed
    ultimately show ?thesis using True adm by simp
  next
    case False
    then show ?thesis using IH(2) [of s k] adm by auto
  qed
  ultimately show ?case by blast
qed

text \<open>
  (C13) The rate limiter, on calls in time order: a call of a target is admitted exactly when
  fewer than the maximum of its calls were admitted in the minute up to it, and no minute,
  wherever it starts, holds more admitted calls of a target than the maximum.
\<close>

theorem rate_limit_exact:
  assumes "sorted (map fst calls)" "\<forall>t \<in> fst ` set calls. t \<le> now" "limiter_run n calls (\<lambda>_. []) = (adm, w)"
  shows "(fst (allow n now i w) \<longleftrightarrow> in_window (now - RATE_WINDOW) now (admitted_times i adm) < n) \<and>
    (\<forall>s. in_window s (s + RATE_WINDOW) (admitted_times i adm) \<le> n)"
  using limiter_run_bounded [OF assms] allow_exact [of now adm w now n i] by simp

theorem rate_limit_exact_witness:
  "limiter_run 2 [(0, 7), (seconds 10, 7), (seconds 20, 7)] (\<lambda>_. []) =
     ([(0, 7), (seconds 10, 7)], (\<lambda>_. [])(7 := [0, seconds 10])) \<and>
   fst (allow 2 (seconds 61) 7 ((\<lambda>_. [])(7 := [0, seconds 10]))) = True"
proof -
  have run: "limiter_run 2 [(0, 7), (seconds 10, 7), (seconds 20, 7)] (\<lambda>_. []) =
     ([(0, 7), (seconds 10, 7)], (\<lambda>_. [])(7 := [0, seconds 10]))"
    by (simp add: allow_def RATE_WINDOW_def)
  show ?thesis
    using rate_limit_exact [OF _ _ run, of "seconds 61" 7] run
    by (simp add: in_window_def admitted_times_def RATE_WINDOW_def)
qed

section \<open>No alert is lost unaccounted\<close>

text \<open>
  Accounting for a component that takes items in, holds some, hands some on to a store and
  counts the ones it drops: what one step keeps, a run keeps.
\<close>

locale item_accounting =
  fixes step :: "'e \<Rightarrow> 's \<Rightarrow> 's"
    and admissible :: "'e \<Rightarrow> bool"
    and offered :: "'e \<Rightarrow> 'a list"
    and held :: "'s \<Rightarrow> 'a list"
    and lost :: "'s \<Rightarrow> nat"
    and keys :: "'s \<Rightarrow> 'k set"
    and key :: "'a \<Rightarrow> 'k"
    and good :: "'s \<Rightarrow> bool"
  assumes good_step: "good s \<Longrightarrow> admissible e \<Longrightarrow> good (step e s)"
    and step_accounts: "good s \<Longrightarrow> admissible e \<Longrightarrow>
      \<exists>handed gone. mset (offered e) + mset (held s) = mset (held (step e s)) + mset handed + mset gone \<and>
        lost (step e s) = lost s + length gone \<and> keys s \<union> key ` set handed \<subseteq> keys (step e s)"
begin

lemma run_accounts:
  assumes "good s" "\<forall>e \<in> set es. admissible e"
  shows "\<exists>handed gone. mset (concat (map offered es)) + mset (held s) = mset (held (fold step es s)) + mset handed + mset gone \<and>
    lost (fold step es s) = lost s + length gone \<and> keys s \<union> key ` set handed \<subseteq> keys (fold step es s)"
  using assms
proof (induction es arbitrary: s)
  case (Cons e es)
  obtain h g where 1: "mset (offered e) + mset (held s) = mset (held (step e s)) + mset h + mset g"
      "lost (step e s) = lost s + length g" "keys s \<union> key ` set h \<subseteq> keys (step e s)"
    using step_accounts [of s e] Cons.prems by auto
  obtain h' g' where 2: "mset (concat (map offered es)) + mset (held (step e s)) =
        mset (held (fold step es (step e s))) + mset h' + mset g'"
      "lost (fold step es (step e s)) = lost (step e s) + length g'"
      "keys (step e s) \<union> key ` set h' \<subseteq> keys (fold step es (step e s))"
    using Cons.IH [of "step e s"] good_step [of s e] Cons.prems by auto
  have "mset (concat (map offered (e # es))) + mset (held s) = mset (concat (map offered es)) + (mset (offered e) + mset (held s))"
    by (simp add: ac_simps)
  also have "\<dots> = mset (held (fold step es (step e s))) + mset (h @ h') + mset (g @ g')"
    unfolding 1(1) using 2(1) by (simp add: ac_simps)
  finally show ?case using 1(2, 3) 2(2, 3) by (intro exI [of _ "h @ h'"] exI [of _ "g @ g'"]) auto
qed auto

lemma run_good: "good s \<Longrightarrow> \<forall>e \<in> set es. admissible e \<Longrightarrow> good (fold step es s)"
  by (induction es arbitrary: s) (auto simp: good_step)

end

text \<open>Other writers respect the unique index and delete nothing.\<close>

definition honest_race :: "(alert_db \<Rightarrow> alert_db) \<Rightarrow> bool" where
  "honest_race race \<longleftrightarrow> (\<forall>db. alerts_ok db \<longrightarrow> alerts_ok (race db) \<and> stored_keys db \<subseteq> stored_keys (race db))"

fun honest_event :: "pipeline_event \<Rightarrow> bool" where
  "honest_event (BatchTick now up race) \<longleftrightarrow> honest_race race"
| "honest_event _ \<longleftrightarrow> True"

fun offered_alerts :: "pipeline_event \<Rightarrow> alert_event list" where
  "offered_alerts (LiveAlert now a) = [a]"
| "offered_alerts (BaselineAlert a) = [a]"
| "offered_alerts (BatchTick now up race) = []"

definition held_alerts :: "alert_pipeline \<times> alert_db \<Rightarrow> alert_event list" where
  "held_alerts = (\<lambda>(p, db). pl_batch p @ pl_queue p)"

lemma enqueue_accounts:
  "\<exists>gone. mset [a] + mset (pl_batch p @ pl_queue p) =
     mset (pl_batch (enqueue c a p) @ pl_queue (enqueue c a p)) + mset gone \<and>
   pl_dropped (enqueue c a p) = pl_dropped p + length gone"
  by (cases "queue_full c p") (auto simp: enqueue_def intro: exI [of _ "[a]"] exI [of _ "[]"])

lemma on_alert_accounts:
  "\<exists>gone. mset [a] + mset (pl_batch p @ pl_queue p) =
     mset (pl_batch (on_alert c now a p) @ pl_queue (on_alert c now a p)) + mset gone \<and>
   pl_dropped (on_alert c now a p) = pl_dropped p + length gone"
proof (cases "allow (pc_max_alerts c) now (ae_target_id a) (pl_windows p)")
  case (Pair ok w)
  then show ?thesis using enqueue_accounts [of a "p\<lparr>pl_windows := w\<rparr>" c]
    by (cases ok) (auto simp: on_alert_def dispatch_policy_def Let_def intro: exI [of _ "[a]"])
qed

lemma take_alert_held [simp]:
  "mset (pl_batch (take_alert p)) + mset (pl_queue (take_alert p)) = mset (pl_batch p) + mset (pl_queue p)"
  "pl_dropped (take_alert p) = pl_dropped p"
  by (auto simp: take_alert_def split: list.splits)

lemma write_batch_accounts:
  assumes "alerts_ok db" "honest_race race" "write_batch now up race batch (p, db) = (ok, p', db')"
  shows "alerts_ok db' \<and> stored_keys db \<subseteq> stored_keys db' \<and> (ok \<longrightarrow> event_key ` set batch \<subseteq> stored_keys db') \<and>
    pl_batch p' = pl_batch p \<and> pl_queue p' = pl_queue p \<and> pl_dropped p' = pl_dropped p \<and> (ok \<longleftrightarrow> batch = [] \<or> up)"
  using assms create_batch_correct [of db race now batch] create_batch_keeps_keys [of db race now batch]
  by (auto simp: write_batch_def honest_race_def split: if_splits prod.splits)

lemma mset_drop_take: "mset xs = mset (drop k xs) + mset (take k xs)"
  by (metis add.commute append_take_drop_id mset_append)

lemma trim_batch_accounts:
  "\<exists>gone. mset (pl_batch p) = mset (pl_batch (trim_batch c p)) + mset gone \<and>
     pl_dropped (trim_batch c p) = pl_dropped p + length gone \<and> pl_queue (trim_batch c p) = pl_queue p \<and>
     length (pl_batch (trim_batch c p)) \<le> batch_cap c"
proof (cases "batch_cap c < length (pl_batch p)")
  case True
  let ?k = "length (pl_batch p) - batch_cap c"
  have "trim_batch c p = p\<lparr>pl_batch := drop ?k (pl_batch p), pl_dropped := pl_dropped p + ?k\<rparr>"
    using True by (simp add: trim_batch_def)
  then show ?thesis
    by (intro exI [of _ "take ?k (pl_batch p)"] conjI) (simp_all add: mset_drop_take [symmetric])
qed (auto simp: trim_batch_def)

lemma batch_step_accounts:
  assumes "alerts_ok db" "honest_race race" "batch_step c now up race (p, db) = (p', db')"
  shows "alerts_ok db' \<and> (\<exists>handed gone. mset (pl_batch p) + mset (pl_queue p) =
      mset (pl_batch p') + mset (pl_queue p') + mset handed + mset gone \<and>
    pl_dropped p' = pl_dropped p + length gone \<and> stored_keys db \<union> event_key ` set handed \<subseteq> stored_keys db')"
proof (cases "should_write c now (take_alert p)")
  case False
  then show ?thesis using assms by (auto simp: batch_step_def Let_def intro!: exI [of _ "[]"])
next
  case True
  let ?p1 = "take_alert p"
  obtain ok p2 db2 where w: "write_batch now up race (pl_batch ?p1) (?p1, db) = (ok, p2, db2)"
    by (cases "write_batch now up race (pl_batch ?p1) (?p1, db)") auto
  note acc = write_batch_accounts [OF assms(1, 2) w]
  have db': "db' = db2" and p': "p' = (if ok then p2\<lparr>pl_batch := []\<rparr> else trim_batch c p2)\<lparr>pl_last_write := now\<rparr>"
    using assms(3) True w by (auto simp: batch_step_def Let_def)
  have held: "mset (pl_batch p2) + mset (pl_queue p2) = mset (pl_batch p) + mset (pl_queue p)" "pl_dropped p2 = pl_dropped p"
    using acc take_alert_held [of p] by simp_all
  obtain gone where g: "mset (pl_batch p2) = mset (pl_batch (trim_batch c p2)) + mset gone"
      "pl_dropped (trim_batch c p2) = pl_dropped p2 + length gone" "pl_queue (trim_batch c p2) = pl_queue p2"
    using trim_batch_accounts by blast
  have "mset (pl_batch p) + mset (pl_queue p) =
      mset (pl_batch p') + mset (pl_queue p') + mset (if ok then pl_batch ?p1 else []) + mset (if ok then [] else gone)"
    using p' g acc held(1) [symmetric] by (simp add: ac_simps)
  moreover have "pl_dropped p' = pl_dropped p + length (if ok then [] else gone)" using p' g held(2) by simp
  moreover have "stored_keys db \<union> event_key ` set (if ok then pl_batch ?p1 else []) \<subseteq> stored_keys db'"
    using acc db' by (cases ok) auto
  ultimately show ?thesis using acc db' by blast
qed

interpretation alert_accounting: item_accounting "pipeline_step c" honest_event offered_alerts held_alerts
  "\<lambda>(p, db). pl_dropped p" "\<lambda>(p, db). stored_keys db" event_key "\<lambda>(p, db). alerts_ok db" for c
proof (unfold_locales, goal_cases)
  case (1 s e)
  then show ?case using batch_step_accounts
    by (cases e; cases s) (auto split: prod.splits)
next
  case (2 s e)
  obtain p db where s: "s = (p, db)" by fastforce
  show ?case
  proof (cases e)
    case (LiveAlert now a)
    obtain gone where "mset [a] + mset (pl_batch p @ pl_queue p) =
        mset (pl_batch (on_alert c now a p) @ pl_queue (on_alert c now a p)) + mset gone"
      "pl_dropped (on_alert c now a p) = pl_dropped p + length gone" using on_alert_accounts by blast
    then show ?thesis by (intro exI [of _ "[]", OF exI [of _ gone]]) (simp add: LiveAlert s held_alerts_def)
  next
    case (BaselineAlert a)
    obtain gone where "mset [a] + mset (pl_batch p @ pl_queue p) =
        mset (pl_batch (enqueue c a p) @ pl_queue (enqueue c a p)) + mset gone"
      "pl_dropped (enqueue c a p) = pl_dropped p + length gone" using enqueue_accounts by blast
    then show ?thesis
      by (intro exI [of _ "[]", OF exI [of _ gone]]) (simp add: BaselineAlert s held_alerts_def on_baseline_alert_def)
  next
    case (BatchTick now up race)
    obtain p' db' where st: "batch_step c now up race (p, db) = (p', db')" by fastforce
    from batch_step_accounts [OF _ _ this] 2 show ?thesis by (auto simp: BatchTick s st held_alerts_def)
  qed
qed

text \<open>What the final writes of a shutdown leave behind unwritten, and uncounted, when they fail.\<close>

definition abandoned :: "bool \<Rightarrow> bool \<Rightarrow> alert_pipeline \<Rightarrow> alert_event list" where
  "abandoned up1 up2 p = (if up1 then [] else pl_batch p) @ (if up2 then [] else pl_queue p)"

lemma stop_pipeline_accounts:
  assumes "alerts_ok db" "honest_race race" "stop_pipeline now up1 up2 race (p, db) = (p', db')"
  shows "alerts_ok db' \<and> held_alerts (p', db') = [] \<and> pl_dropped p' = pl_dropped p \<and>
    (\<exists>written. mset (held_alerts (p, db)) = mset written + mset (abandoned up1 up2 p) \<and>
      stored_keys db \<union> event_key ` set written \<subseteq> stored_keys db')"
proof -
  obtain ok1 p1 db1 where 1: "write_batch now up1 race (pl_batch p) (p, db) = (ok1, p1, db1)"
    by (cases "write_batch now up1 race (pl_batch p) (p, db)") auto
  obtain ok2 p2 db2 where 2: "write_batch now up2 race (pl_queue p1) (p1, db1) = (ok2, p2, db2)"
    by (cases "write_batch now up2 race (pl_queue p1) (p1, db1)") auto
  note a = write_batch_accounts [OF assms(1, 2) 1]
  have "alerts_ok db1" using a by blast
  note b = write_batch_accounts [OF this assms(2) 2]
  let ?written = "(if up1 then pl_batch p else []) @ (if up2 then pl_queue p else [])"
  have "p' = p2\<lparr>pl_batch := [], pl_queue := []\<rparr>" "db' = db2" using assms(3) 1 2 by (auto simp: stop_pipeline_def)
  moreover have "mset (held_alerts (p, db)) = mset ?written + mset (abandoned up1 up2 p)"
    by (simp add: held_alerts_def abandoned_def)
  moreover have "stored_keys db \<union> event_key ` set ?written \<subseteq> stored_keys db2"
    using a b by (cases up1; cases up2) auto
  moreover have "alerts_ok db2" "pl_dropped p2 = pl_dropped p" using a b by simp_all
  ultimately show ?thesis by (intro conjI exI [of _ ?written]) (simp_all add: held_alerts_def)
qed

text \<open>
  (C14) Where every alert goes, across store outages, full queues, floods, writers that race
  and a shutdown whose two final writes may each succeed or fail: the alerts offered by
  subscriptions and baseline pulls split, with multiplicity, into those whose key is in the
  store at the end, those counted in the drop counter, and those the pipeline still held at
  the stop in the part (the loop's batch, or the queue) whose final write failed. The last are
  lost without being counted; when both writes succeed there are none.
\<close>

theorem alerts_stored_or_counted:
  assumes "alerts_ok db" "\<forall>e \<in> set es. honest_event e" "honest_race race"
    and "run_pipeline c es (new_pipeline start, db) = (p, db1)" "stop_pipeline now up1 up2 race (p, db1) = (p', db')"
  shows "\<exists>stored gone. mset (concat (map offered_alerts es)) =
      mset stored + mset gone + mset ((if up1 then [] else pl_batch p) @ (if up2 then [] else pl_queue p)) \<and>
    length gone = pl_dropped p' \<and> event_key ` set stored \<subseteq> stored_keys db' \<and> alerts_ok db' \<and>
    pl_batch p' = [] \<and> pl_queue p' = []"
proof -
  let ?s0 = "(new_pipeline start, db)"
  have good: "alerts_ok db1"
    using alert_accounting.run_good [of ?s0 es c] assms(1, 2, 4) by (simp add: run_pipeline_def)
  obtain handed gone where a: "mset (concat (map offered_alerts es)) = mset (held_alerts (p, db1)) + mset handed + mset gone"
      "pl_dropped p = length gone" "event_key ` set handed \<subseteq> stored_keys db1"
    using alert_accounting.run_accounts [of ?s0 es c] assms(1, 2, 4)
    by (auto simp: run_pipeline_def new_pipeline_def held_alerts_def)
  obtain written where w: "mset (held_alerts (p, db1)) = mset written + mset (abandoned up1 up2 p)"
      "stored_keys db1 \<union> event_key ` set written \<subseteq> stored_keys db'"
    and stop: "alerts_ok db'" "held_alerts (p', db') = []" "pl_dropped p' = pl_dropped p"
    using stop_pipeline_accounts [OF good assms(3, 5)] by blast
  have "mset (concat (map offered_alerts es)) = mset (written @ handed) + mset gone + mset (abandoned up1 up2 p)"
    using a(1) w(1) by (simp add: ac_simps)
  moreover have "event_key ` set (written @ handed) \<subseteq> stored_keys db'" using a(3) w(2) by auto
  ultimately show ?thesis using a(2) stop unfolding abandoned_def
    by (intro exI [of _ "written @ handed"] exI [of _ gone]) (simp add: held_alerts_def)
qed

definition demo_pipeline :: pipeline_config where
  "demo_pipeline = \<lparr>pc_max_alerts = 1, pc_max_queue_size = 10, pc_batch_size = 2, pc_batch_interval = seconds 5,
     pc_retention_days = 30, pc_policy = True\<rparr>"

theorem alerts_stored_or_counted_witness:
  "\<exists>stored gone. mset [demo_event, demo_event] = mset stored + mset gone + mset [demo_event] \<and> length gone = 1 \<and>
    event_key ` set stored \<subseteq>
      stored_keys (snd (stop_pipeline 9 False True id
        (run_pipeline demo_pipeline [LiveAlert 1 demo_event, LiveAlert 2 demo_event, BatchTick 3 False id]
          (new_pipeline 0, empty_alert_db))))"
proof -
  let ?es = "[LiveAlert 1 demo_event, LiveAlert 2 demo_event, BatchTick 3 False id]"
  let ?r = "run_pipeline demo_pipeline ?es (new_pipeline 0, empty_alert_db)"
  note run = run_pipeline_def stop_pipeline_def write_batch_def batch_step_def take_alert_def should_write_def
    on_alert_def allow_def demo_pipeline_def new_pipeline_def enqueue_def queue_full_def dispatch_policy_def
    demo_event_def RATE_WINDOW_def Let_def
  have hon: "honest_race id" by (simp add: honest_race_def)
  have counted: "pl_dropped (fst (stop_pipeline 9 False True id ?r)) = 1" by (simp add: run split: prod.split)
  have batch: "pl_batch (fst ?r) = [demo_event]" by (simp add: run split: prod.split)
  show ?thesis
    using alerts_stored_or_counted [of empty_alert_db ?es id demo_pipeline 0 "fst ?r" "snd ?r" 9 False True
        "fst (stop_pipeline 9 False True id ?r)" "snd (stop_pipeline 9 False True id ?r)"] counted hon batch
    by (auto simp: empty_alert_db_ok)
qed

end
