(* ===== verification/Alert_Subscriptions.thy ===== *)
theory Alert_Subscriptions
  imports Alert_Subscriber Alert_Pipeline
begin

text \<open>
  The subscription half of \<open>collector/src/alert_manager.py\<close>: how a refresh brings the set of
  SSE and webhook subscriptions in line with the configured targets, with the permanent
  failure list and its cooldown, re-subscription after a configuration change, and the check
  that webhook subscriptions still exist; and \<open>WebhookSubscriber\<close> of
  \<open>collector/src/redfish/webhook_subscriber.py\<close>. The answers of the BMCs are arguments.
\<close>

section \<open>Webhook subscriptions on a BMC\<close>

datatype failure_type = TEMPORARY_FAILURE | PERMANENT_FAILURE

datatype subscription_result = SubscriptionSuccess | SubscriptionFailed failure_type

record webhook_sub =
  wh_target :: target_id
  wh_base_url :: string
  wh_url :: string
  wh_id :: "string option"
  wh_sub_url :: "string option"

text \<open>
  A reply of the BMC: status, body text, the \<open>Id\<close> of its JSON body and the \<open>Location\<close> header;
  or no reply (every exception leads to a temporary failure).
\<close>

record http_reply =
  rp_status :: int
  rp_text :: string
  rp_id :: "string option"
  rp_location :: "string option"

definition subscriptions_path :: string where
  "subscriptions_path = ''/redfish/v1/EventService/Subscriptions''"

definition or_none :: "string option \<Rightarrow> string" where
  "or_none s = (case s of None \<Rightarrow> ''None'' | Some t \<Rightarrow> t)"

definition bad_request_failure :: "string \<Rightarrow> string \<Rightarrow> failure_type" where
  "bad_request_failure text url =
     (if contains text ''PropertyValueFormatError'' \<or> contains text ''PropertyValueNotInList'' \<or>
         contains text ''PropertyUnknown'' \<or> contains url ''localhost''
      then PERMANENT_FAILURE else TEMPORARY_FAILURE)"

text \<open>\<open>found\<close> is what \<open>_find_existing_subscription\<close> sets after a conflict.\<close>

definition create_subscription ::
  "http_reply option \<Rightarrow> (string \<times> string) option \<Rightarrow> webhook_sub \<Rightarrow> subscription_result \<times> webhook_sub" where
  "create_subscription reply found w =
     (case reply of
        None \<Rightarrow> (SubscriptionFailed TEMPORARY_FAILURE, w)
      | Some r \<Rightarrow>
          if rp_status r = 200 \<or> rp_status r = 201 then
            (SubscriptionSuccess,
             w\<lparr>wh_id := rp_id r,
               wh_sub_url := Some (case rp_location r of
                   Some l \<Rightarrow> l
                 | None \<Rightarrow> wh_base_url w @ subscriptions_path @ ''/'' @ or_none (rp_id r))\<rparr>)
          else if rp_status r = 409 then
            (let w1 = (case found of None \<Rightarrow> w | Some (i, u) \<Rightarrow> w\<lparr>wh_id := Some i, wh_sub_url := Some u\<rparr>)
             in (if wh_id w1 \<noteq> None then SubscriptionSuccess else SubscriptionFailed TEMPORARY_FAILURE, w1))
          else if rp_status r = 400 then (SubscriptionFailed (bad_request_failure (rp_text r) (wh_url w)), w)
          else if rp_status r = 501 \<or> rp_status r = 405 then (SubscriptionFailed PERMANENT_FAILURE, w)
          else (SubscriptionFailed TEMPORARY_FAILURE, w))"

text \<open>
  A subscription the BMC lists: its \<open>@odata.id\<close> and what reading it gives (nothing on another
  status than 200). \<open>removed\<close> are the entries a delete request is sent for.
\<close>

record bmc_entry =
  be_odata :: "string option"
  be_detail :: "(json \<times> json) option"

definition last_segment :: "string \<Rightarrow> string" where
  "last_segment path = last (split_char CHR ''/'' path)"

definition target_context :: "target_id \<Rightarrow> string" where
  "target_context t = ''target_'' @ py_str_int t"

fun reconcile_entries :: "webhook_sub \<Rightarrow> bmc_entry list \<Rightarrow> bool \<Rightarrow> string list \<Rightarrow> webhook_sub \<times> bool \<times> string list" where
  "reconcile_entries w [] adopted removed = (w, adopted, removed)"
| "reconcile_entries w (e # es) adopted removed =
     (case (be_odata e, be_detail e) of
        (Some odata, Some (context, destination)) \<Rightarrow>
          if odata = [] \<or> context \<noteq> JStr (target_context (wh_target w)) then reconcile_entries w es adopted removed
          else if destination = JStr (wh_url w) then
            reconcile_entries
              (if adopted then w
               else w\<lparr>wh_id := Some (last_segment odata), wh_sub_url := Some (wh_base_url w @ odata)\<rparr>) es True removed
          else reconcile_entries w es adopted (removed @ [odata])
      | _ \<Rightarrow> reconcile_entries w es adopted removed)"

text \<open>\<open>None\<close> for the listing: another status than 200.\<close>

definition reconcile_by_context :: "bmc_entry list option \<Rightarrow> webhook_sub \<Rightarrow> webhook_sub \<times> bool \<times> string list" where
  "reconcile_by_context listing w =
     (case listing of None \<Rightarrow> (w, False, []) | Some es \<Rightarrow> reconcile_entries w es False [])"

definition delete_subscription :: "int option \<Rightarrow> webhook_sub \<Rightarrow> bool \<times> webhook_sub" where
  "delete_subscription status w =
     (if wh_sub_url w = None \<or> wh_sub_url w = Some [] then (False, w)
      else case status of
        None \<Rightarrow> (False, w)
      | Some st \<Rightarrow>
          if st = 200 \<or> st = 204 \<or> st = 404 then (True, w\<lparr>wh_id := None, wh_sub_url := None\<rparr>) else (False, w))"

definition verify_subscription :: "int option \<Rightarrow> webhook_sub \<Rightarrow> bool" where
  "verify_subscription status w \<longleftrightarrow> wh_sub_url w \<noteq> None \<and> wh_sub_url w \<noteq> Some [] \<and> status = Some 200"

section \<open>The manager\<close>

record alert_target =
  tg_id :: target_id
  tg_enable_alert_subscription :: bool
  tg_base_url :: string
  tg_username :: string
  tg_encrypted_password :: string
  tg_alert_sse_endpoint :: "string option"
  tg_verify_ssl :: bool
  tg_connection_mode :: string

definition target_fingerprint :: "alert_target \<Rightarrow> string" where
  "target_fingerprint t =
     hexdigest (sha256 (utf8_encode (py_join US
       [tg_base_url t, tg_username t, tg_encrypted_password t, or_empty (tg_alert_sse_endpoint t),
        (if tg_verify_ssl t then ''True'' else ''False''), tg_connection_mode t])))"

record manager_config =
  mc_webhook_base_url :: string
  mc_enable_webhook_fallback :: bool
  mc_force_webhook_mode :: bool
  mc_failure_retry :: duration
  mc_baseline_pull_enabled :: bool

text \<open>
  \<open>am_failed\<close> maps a permanently failed target to the time of its next retry, \<open>None\<close> standing
  for \<open>datetime.max\<close>.
\<close>

datatype subscription_type = SSE_TYPE | WEBHOOK_TYPE

record subscriptions =
  am_sse :: "target_id \<rightharpoonup> subscriber"
  am_webhook :: "target_id \<rightharpoonup> webhook_sub"
  am_types :: "target_id \<rightharpoonup> subscription_type"
  am_failed :: "target_id \<rightharpoonup> instant option"
  am_fingerprints :: "target_id \<rightharpoonup> string"
  am_verified_at :: "target_id \<rightharpoonup> instant"
  am_baseline_jobs :: "target_id list"

text \<open>What a BMC answers when a subscription is started.\<close>

datatype sse_support = SUPPORTED | NOT_SUPPORTED | BROKEN | UNKNOWN

record bmc_answers =
  an_password_ok :: bool
  an_sse :: "sse_support option"
  an_listing :: "bmc_entry list option"
  an_create :: "http_reply option"
  an_found :: "(string \<times> string) option"

definition retry_at :: "manager_config \<Rightarrow> instant \<Rightarrow> instant option" where
  "retry_at c now = (if 0 < mc_failure_retry c then Some (now + mc_failure_retry c) else None)"

definition schedule_baseline :: "manager_config \<Rightarrow> target_id \<Rightarrow> subscriptions \<Rightarrow> subscriptions" where
  "schedule_baseline c t st =
     (if mc_baseline_pull_enabled c then st\<lparr>am_baseline_jobs := am_baseline_jobs st @ [t]\<rparr> else st)"

definition start_sse_subscription :: "manager_config \<Rightarrow> alert_target \<Rightarrow> subscriptions \<Rightarrow> subscriptions" where
  "start_sse_subscription c t st =
     schedule_baseline c (tg_id t)
       (st\<lparr>am_sse := (am_sse st)(tg_id t \<mapsto> start_subscriber new_subscriber),
           am_types := (am_types st)(tg_id t \<mapsto> SSE_TYPE)\<rparr>)"

definition new_webhook :: "manager_config \<Rightarrow> alert_target \<Rightarrow> webhook_sub" where
  "new_webhook c t =
     \<lparr>wh_target = tg_id t, wh_base_url = tg_base_url t, wh_url = mc_webhook_base_url c @ ''/'' @ py_str_int (tg_id t),
      wh_id = None, wh_sub_url = None\<rparr>"

definition add_webhook :: "manager_config \<Rightarrow> target_id \<Rightarrow> webhook_sub \<Rightarrow> subscriptions \<Rightarrow> subscriptions" where
  "add_webhook c t w st =
     schedule_baseline c t
       (st\<lparr>am_webhook := (am_webhook st)(t \<mapsto> w), am_types := (am_types st)(t \<mapsto> WEBHOOK_TYPE)\<rparr>)"

definition start_webhook_subscription ::
  "manager_config \<Rightarrow> instant \<Rightarrow> bmc_answers \<Rightarrow> alert_target \<Rightarrow> subscriptions \<Rightarrow> subscriptions" where
  "start_webhook_subscription c now a t st =
     (let (w, adopted, _) = reconcile_by_context (an_listing a) (new_webhook c t) in
      if adopted then add_webhook c (tg_id t) w st
      else
        (let (result, w1) = create_subscription (an_create a) (an_found a) w in
         case result of
           SubscriptionSuccess \<Rightarrow> add_webhook c (tg_id t) w1 st
         | SubscriptionFailed PERMANENT_FAILURE \<Rightarrow> st\<lparr>am_failed := (am_failed st)(tg_id t \<mapsto> retry_at c now)\<rparr>
         | SubscriptionFailed TEMPORARY_FAILURE \<Rightarrow> st))"

definition start_subscription ::
  "manager_config \<Rightarrow> instant \<Rightarrow> bmc_answers \<Rightarrow> alert_target \<Rightarrow> subscriptions \<Rightarrow> subscriptions" where
  "start_subscription c now a t st =
     (if am_failed st (tg_id t) \<noteq> None \<or> \<not> an_password_ok a then st
      else if mc_force_webhook_mode c then
        (if mc_enable_webhook_fallback c then start_webhook_subscription c now a t st else st)
      else
        (case an_sse a of
           None \<Rightarrow> st
         | Some SUPPORTED \<Rightarrow> start_sse_subscription c t st
         | Some _ \<Rightarrow>
             if mc_enable_webhook_fallback c then start_webhook_subscription c now a t st else st))"

section \<open>A refresh\<close>

text \<open>SSE subscribers that failed for good move to the failure list.\<close>

definition sse_failed :: "subscriptions \<Rightarrow> target_id \<Rightarrow> bool" where
  "sse_failed st t \<longleftrightarrow> (case am_sse st t of None \<Rightarrow> False | Some s \<Rightarrow> sb_state s = FAILED_PERMANENT)"

definition harvest :: "manager_config \<Rightarrow> instant \<Rightarrow> subscriptions \<Rightarrow> subscriptions" where
  "harvest c now st =
     st\<lparr>am_sse := (\<lambda>t. if sse_failed st t then None else am_sse st t),
        am_types := (\<lambda>t. if sse_failed st t then None else am_types st t),
        am_failed := (\<lambda>t. if sse_failed st t \<and> am_failed st t = None then Some (retry_at c now) else am_failed st t)\<rparr>"

definition current :: "subscriptions \<Rightarrow> target_id \<Rightarrow> bool" where
  "current st t \<longleftrightarrow> am_sse st t \<noteq> None \<or> am_webhook st t \<noteq> None"

text \<open>\<open>target_by_id\<close>: the last target of an id wins.\<close>

definition target_by_id :: "alert_target list \<Rightarrow> target_id \<rightharpoonup> alert_target" where
  "target_by_id ts = map_of (rev (map (\<lambda>t. (tg_id t, t)) ts))"

definition desired :: "alert_target list \<Rightarrow> target_id \<Rightarrow> bool" where
  "desired ts i \<longleftrightarrow> target_by_id ts i \<noteq> None"

definition changed :: "alert_target list \<Rightarrow> subscriptions \<Rightarrow> target_id \<Rightarrow> bool" where
  "changed ts st i \<longleftrightarrow>
     current st i \<and>
     (case target_by_id ts i of None \<Rightarrow> False | Some t \<Rightarrow> am_fingerprints st i \<noteq> Some (target_fingerprint t))"

definition fixed_failed :: "alert_target list \<Rightarrow> subscriptions \<Rightarrow> target_id \<Rightarrow> bool" where
  "fixed_failed ts st i \<longleftrightarrow>
     am_failed st i \<noteq> None \<and>
     (case (target_by_id ts i, am_fingerprints st i) of
        (Some t, Some f) \<Rightarrow> f \<noteq> target_fingerprint t
      | _ \<Rightarrow> False)"

definition remove_ids :: "(target_id \<Rightarrow> bool) \<Rightarrow> (target_id \<rightharpoonup> 'v) \<Rightarrow> (target_id \<rightharpoonup> 'v)" where
  "remove_ids gone m = (\<lambda>i. if gone i then None else m i)"

text \<open>Tear down what is no longer wanted or was reconfigured; both clear the failure mark.\<close>

definition tear_down :: "alert_target list \<Rightarrow> subscriptions \<Rightarrow> subscriptions" where
  "tear_down ts st =
     (let gone = (\<lambda>i. (current st i \<and> \<not> desired ts i) \<or> changed ts st i)
      in st\<lparr>am_sse := remove_ids gone (am_sse st), am_webhook := remove_ids gone (am_webhook st),
            am_types := remove_ids gone (am_types st), am_fingerprints := remove_ids gone (am_fingerprints st),
            am_failed := remove_ids (\<lambda>i. gone i \<or> fixed_failed ts st i) (am_failed st)\<rparr>)"

definition retry_due :: "manager_config \<Rightarrow> instant \<Rightarrow> subscriptions \<Rightarrow> subscriptions" where
  "retry_due c now st =
     (if 0 < mc_failure_retry c
      then st\<lparr>am_failed := remove_ids (\<lambda>i. case am_failed st i of Some (Some due) \<Rightarrow> due \<le> now | _ \<Rightarrow> False) (am_failed st)\<rparr>
      else st)"

text \<open>The start loop; the fingerprint is recorded only for an established subscription.\<close>

definition start_target ::
  "manager_config \<Rightarrow> instant \<Rightarrow> (target_id \<Rightarrow> bmc_answers) \<Rightarrow> (target_id \<Rightarrow> bool) \<Rightarrow> alert_target \<Rightarrow> subscriptions \<Rightarrow> subscriptions" where
  "start_target c now answers to_add t st =
     (if to_add (tg_id t) then
        (let st1 = start_subscription c now (answers (tg_id t)) t st
         in if current st1 (tg_id t)
            then st1\<lparr>am_fingerprints := (am_fingerprints st1)(tg_id t \<mapsto> target_fingerprint t)\<rparr> else st1)
      else st)"

definition WEBHOOK_VERIFY_INTERVAL :: duration where
  "WEBHOOK_VERIFY_INTERVAL = seconds 300"

text \<open>
  \<open>_verify_webhook_subscriptions\<close>: \<open>statuses\<close> is the answer to the read of each subscription;
  the deletion that follows a negative answer is best effort.
\<close>

definition verify_due :: "instant \<Rightarrow> subscriptions \<Rightarrow> target_id \<Rightarrow> bool" where
  "verify_due now st i \<longleftrightarrow>
     am_webhook st i \<noteq> None \<and>
     (case am_verified_at st i of None \<Rightarrow> False | Some prev \<Rightarrow> WEBHOOK_VERIFY_INTERVAL \<le> now - prev)"

definition verify_dead :: "instant \<Rightarrow> (target_id \<Rightarrow> int option) \<Rightarrow> subscriptions \<Rightarrow> target_id \<Rightarrow> bool" where
  "verify_dead now statuses st i \<longleftrightarrow>
     verify_due now st i \<and> (case am_webhook st i of None \<Rightarrow> False | Some w \<Rightarrow> \<not> verify_subscription (statuses i) w)"

definition verify_webhook_subscriptions :: "instant \<Rightarrow> (target_id \<Rightarrow> int option) \<Rightarrow> subscriptions \<Rightarrow> subscriptions" where
  "verify_webhook_subscriptions now statuses st =
     (let dead = verify_dead now statuses st
      in st\<lparr>am_webhook := remove_ids dead (am_webhook st), am_types := remove_ids dead (am_types st),
            am_fingerprints := remove_ids dead (am_fingerprints st),
            am_verified_at := remove_ids dead
              (\<lambda>i. if am_webhook st i \<noteq> None \<and> (am_verified_at st i = None \<or> verify_due now st i)
                   then Some now else am_verified_at st i)\<rparr>)"

text \<open>
  \<open>_refresh_subscriptions\<close>: synchronise, then verify; \<open>now\<close> is the wall clock, \<open>tick\<close> the
  monotonic one.
\<close>

definition sync_subscriptions ::
  "manager_config \<Rightarrow> instant \<Rightarrow> (target_id \<Rightarrow> bmc_answers) \<Rightarrow> alert_target list \<Rightarrow> subscriptions \<Rightarrow> subscriptions" where
  "sync_subscriptions c now answers targets st =
     (let ts = filter tg_enable_alert_subscription targets;
          st1 = harvest c now st;
          st2 = retry_due c now (tear_down ts st1);
          to_add = (\<lambda>i. ((desired ts i \<and> \<not> current st1 i) \<or> changed ts st1 i) \<and> am_failed st2 i = None)
      in fold (start_target c now answers to_add) ts st2)"

definition refresh_subscriptions ::
  "manager_config \<Rightarrow> instant \<Rightarrow> instant \<Rightarrow> (target_id \<Rightarrow> bmc_answers) \<Rightarrow> (target_id \<Rightarrow> int option) \<Rightarrow>
   alert_target list \<Rightarrow> subscriptions \<Rightarrow> subscriptions" where
  "refresh_subscriptions c now tick answers statuses targets st =
     verify_webhook_subscriptions tick statuses (sync_subscriptions c now answers targets st)"

section \<open>Webhook deliveries\<close>

text \<open>
  \<open>process_webhook_event\<close>: the body must come from a subscribed target and carry the context set
  at subscription time; \<open>events\<close> are the alerts \<open>parse_webhook_event\<close> makes of it.
\<close>

definition process_webhook_event ::
  "pipeline_config \<Rightarrow> instant \<Rightarrow> subscriptions \<Rightarrow> target_id \<Rightarrow> json dict \<Rightarrow> (json dict \<Rightarrow> py_error + alert_event list) \<Rightarrow>
   alert_pipeline \<Rightarrow> (py_error + nat) \<times> alert_pipeline" where
  "process_webhook_event pc now st t body events p =
     (case am_webhook st t of
        None \<Rightarrow> (Inr 0, p)
      | Some w \<Rightarrow>
          if dict_get body ''Context'' \<noteq> JStr (target_context t) then (Inr 0, p)
          else
            (case events body of
               Inl e \<Rightarrow> (Inl e, p)
             | Inr es \<Rightarrow> (Inr (length es), fold (on_alert pc now) es p)))"

section \<open>What the manager knows about one target\<close>

text \<open>
  Every step of a refresh acts on each target by itself: \<open>view\<close> is what the manager records of
  one, \<open>view_ok\<close> the invariant: one kind of subscription at most, its type recorded, no failure
  mark on a subscribed target, a fingerprint for it.
\<close>

definition view where
  "view st i = (am_sse st i, am_webhook st i, am_types st i, am_failed st i, am_fingerprints st i)"

definition view_ok where
  "view_ok v \<longleftrightarrow>
     (case v of (sse, wh, ty, fl, fp) \<Rightarrow>
        (sse = None \<or> wh = None) \<and>
        ty = (if sse \<noteq> None then Some SSE_TYPE else if wh \<noteq> None then Some WEBHOOK_TYPE else None) \<and>
        (sse \<noteq> None \<or> wh \<noteq> None \<longrightarrow> fl = None \<and> fp \<noteq> None))"

definition subscriptions_ok :: "subscriptions \<Rightarrow> bool" where
  "subscriptions_ok st \<longleftrightarrow> (\<forall>i. view_ok (view st i))"

lemmas view_defs = view_def view_ok_def current_def

lemma schedule_baseline_view [simp]: "view (schedule_baseline c t st) i = view st i"
  by (simp add: schedule_baseline_def view_def)

text \<open>Whether a start attempt succeeds, given the answers.\<close>

definition webhook_succeeds :: "manager_config \<Rightarrow> bmc_answers \<Rightarrow> alert_target \<Rightarrow> bool" where
  "webhook_succeeds c a t =
     (let (w, adopted, _) = reconcile_by_context (an_listing a) (new_webhook c t)
      in adopted \<or> fst (create_subscription (an_create a) (an_found a) w) = SubscriptionSuccess)"

definition start_succeeds :: "manager_config \<Rightarrow> bmc_answers \<Rightarrow> alert_target \<Rightarrow> bool" where
  "start_succeeds c a t \<longleftrightarrow>
     an_password_ok a \<and>
     (if mc_force_webhook_mode c then mc_enable_webhook_fallback c \<and> webhook_succeeds c a t
      else an_sse a = Some SUPPORTED \<or>
           (an_sse a \<noteq> None \<and> mc_enable_webhook_fallback c \<and> webhook_succeeds c a t))"

lemma start_webhook_view:
  "if webhook_succeeds c a t
   then \<exists>w. view (start_webhook_subscription c now a t st) (tg_id t) =
     (am_sse st (tg_id t), Some w, Some WEBHOOK_TYPE, am_failed st (tg_id t), am_fingerprints st (tg_id t))
   else view (start_webhook_subscription c now a t st) (tg_id t) \<in>
     {view st (tg_id t),
      (am_sse st (tg_id t), am_webhook st (tg_id t), am_types st (tg_id t), Some (retry_at c now), am_fingerprints st (tg_id t))}"
proof -
  obtain w adopted rem where r: "reconcile_by_context (an_listing a) (new_webhook c t) = (w, adopted, rem)"
    by (cases "reconcile_by_context (an_listing a) (new_webhook c t)") auto
  obtain res w1 where cr: "create_subscription (an_create a) (an_found a) w = (res, w1)" by fastforce
  show ?thesis
    using r cr
    by (cases adopted; cases res rule: subscription_result.exhaust)
      (auto simp: webhook_succeeds_def start_webhook_subscription_def add_webhook_def Let_def view_def
        schedule_baseline_def split: failure_type.splits)
qed

definition subscribed_view where
  "subscribed_view fp v \<longleftrightarrow>
     (\<exists>s. v = (Some s, None, Some SSE_TYPE, None, fp)) \<or> (\<exists>w. v = (None, Some w, Some WEBHOOK_TYPE, None, fp))"

lemma start_subscription_view:
  assumes "view st (tg_id t) = (None, None, None, None, fp)"
  shows "if start_succeeds c a t then subscribed_view fp (view (start_subscription c now a t st) (tg_id t))
    else view (start_subscription c now a t st) (tg_id t) \<in> {view st (tg_id t), (None, None, None, Some (retry_at c now), fp)}"
  using start_webhook_view [of c a t now st] assms
  by (auto simp: start_subscription_def start_succeeds_def start_sse_subscription_def view_def subscribed_view_def
      schedule_baseline_def split: option.splits sse_support.splits if_splits)

lemma start_target_view:
  assumes "view st (tg_id t) = (None, None, None, None, fp)" "to_add (tg_id t)"
  shows "if start_succeeds c (answers (tg_id t)) t
    then subscribed_view (Some (target_fingerprint t)) (view (start_target c now answers to_add t st) (tg_id t))
    else view (start_target c now answers to_add t st) (tg_id t) \<in>
      {(None, None, None, None, fp), (None, None, None, Some (retry_at c now), fp)}"
  using start_subscription_view [OF assms(1), of c "answers (tg_id t)" now] assms
  by (auto simp: start_target_def subscribed_view_def view_def current_def Let_def split: if_splits)

lemma start_subscription_other: "i \<noteq> tg_id t \<Longrightarrow> view (start_subscription c now a t st) i = view st i"
  by (auto simp: start_subscription_def start_sse_subscription_def start_webhook_subscription_def add_webhook_def
      schedule_baseline_def view_def Let_def
      split: option.splits sse_support.splits prod.splits subscription_result.splits failure_type.splits)

lemma start_target_other: "i \<noteq> tg_id t \<Longrightarrow> view (start_target c now answers to_add t st) i = view st i"
  using start_subscription_other [of i t c now "answers (tg_id t)" st]
  by (auto simp: start_target_def view_def Let_def)

lemma start_target_skip: "\<not> to_add (tg_id t) \<Longrightarrow> start_target c now answers to_add t st = st"
  by (simp add: start_target_def)

lemma fold_start_other: "i \<notin> tg_id ` set ts \<Longrightarrow> view (fold (start_target c now answers to_add) ts st) i = view st i"
  by (induction ts arbitrary: st) (auto simp: start_target_other)

text \<open>What the start loop does to a target: one start attempt if it is to be added.\<close>

lemma fold_start_view:
  assumes "distinct (map tg_id ts)" "t \<in> set ts"
  shows "\<exists>st'. view st' (tg_id t) = view st (tg_id t) \<and>
    view (fold (start_target c now answers to_add) ts st) (tg_id t) = view (start_target c now answers to_add t st') (tg_id t)"
  using assms
proof (induction ts arbitrary: st)
  case (Cons u ts)
  show ?case
  proof (cases "t = u")
    case True
    then have "tg_id t \<notin> tg_id ` set ts" using Cons.prems by auto
    then show ?thesis using True by (intro exI [of _ st]) (simp add: fold_start_other)
  next
    case False
    then have "tg_id t \<noteq> tg_id u" using Cons.prems by (auto simp: image_iff)
    then show ?thesis
      using False Cons.IH [of "start_target c now answers to_add u st"] Cons.prems by (auto simp: start_target_other)
  qed
qed simp

lemma target_by_id_eq:
  assumes "distinct (map tg_id ts)"
  shows "target_by_id ts i = Some t \<longleftrightarrow> t \<in> set ts \<and> tg_id t = i"
proof -
  have "distinct (map fst (rev (map (\<lambda>t. (tg_id t, t)) ts)))"
    using assms by (simp add: rev_map [symmetric] comp_def)
  then show ?thesis unfolding target_by_id_def
    by (subst map_of_eq_Some_iff) auto
qed

lemma desired_iff: "distinct (map tg_id ts) \<Longrightarrow> desired ts i \<longleftrightarrow> i \<in> tg_id ` set ts"
proof -
  assume d: "distinct (map tg_id ts)"
  have "target_by_id ts i \<noteq> None \<longleftrightarrow> (\<exists>t. target_by_id ts i = Some t)" by simp
  then show ?thesis unfolding desired_def target_by_id_eq [OF d] by (auto simp: image_iff)
qed

text \<open>The state a target is in when the start loop reaches it.\<close>

definition prepared :: "manager_config \<Rightarrow> instant \<Rightarrow> alert_target list \<Rightarrow> subscriptions \<Rightarrow> subscriptions" where
  "prepared c now ts st = retry_due c now (tear_down ts (harvest c now st))"

lemma harvest_ok:
  assumes "subscriptions_ok st"
  shows "subscriptions_ok (harvest c now st)"
  unfolding subscriptions_ok_def
proof
  fix i
  have "view_ok (view st i)" using assms by (simp add: subscriptions_ok_def)
  then show "view_ok (view (harvest c now st) i)"
    by (cases "am_sse st i") (auto simp: view_def view_ok_def harvest_def sse_failed_def split: if_splits)
qed

lemma retry_due_view:
  "view (retry_due c now st) i =
     (am_sse st i, am_webhook st i, am_types st i,
      (if 0 < mc_failure_retry c \<and> (case am_failed st i of Some (Some due) \<Rightarrow> due \<le> now | _ \<Rightarrow> False) then None else am_failed st i),
      am_fingerprints st i)"
  by (auto simp: retry_due_def view_def remove_ids_def split: option.splits)

lemma prepared_view:
  assumes "subscriptions_ok st"
  shows "view_ok (view (prepared c now ts st) i)"
    and "current (prepared c now ts st) i \<longleftrightarrow> current (harvest c now st) i \<and> desired ts i \<and> \<not> changed ts (harvest c now st) i"
    and "current (prepared c now ts st) i \<Longrightarrow> \<exists>t. target_by_id ts i = Some t \<and>
      am_fingerprints (prepared c now ts st) i = Some (target_fingerprint t)"
    and "\<not> current (prepared c now ts st) i \<Longrightarrow>
      \<exists>fp. view (prepared c now ts st) i = (None, None, None, am_failed (prepared c now ts st) i, fp)"
    and "am_failed (prepared c now ts st) i = Some (Some due) \<Longrightarrow> 0 < mc_failure_retry c \<Longrightarrow> now < due"
proof -
  have ok1: "view_ok (view (harvest c now st) i)" using harvest_ok [OF assms] by (simp add: subscriptions_ok_def)
  note defs = prepared_def retry_due_def tear_down_def remove_ids_def Let_def
  show ok: "view_ok (view (prepared c now ts st) i)"
    using ok1 by (auto simp: view_def view_ok_def defs split: if_splits option.splits)
  show cur: "current (prepared c now ts st) i \<longleftrightarrow> current (harvest c now st) i \<and> desired ts i \<and> \<not> changed ts (harvest c now st) i"
    by (auto simp: defs current_def)
  show "\<exists>t. target_by_id ts i = Some t \<and> am_fingerprints (prepared c now ts st) i = Some (target_fingerprint t)"
    if "current (prepared c now ts st) i"
    using that unfolding cur by (auto simp: defs desired_def changed_def split: option.splits)
  show "\<exists>fp. view (prepared c now ts st) i = (None, None, None, am_failed (prepared c now ts st) i, fp)"
    if "\<not> current (prepared c now ts st) i"
    using that ok by (auto simp: view_def view_ok_def current_def)
  show "now < due" if "am_failed (prepared c now ts st) i = Some (Some due)" "0 < mc_failure_retry c"
    using that by (auto simp: defs split: if_splits option.splits)
qed

lemma sync_eq:
  "sync_subscriptions c now answers targets st =
     (let ts = filter tg_enable_alert_subscription targets; st2 = prepared c now ts st in
      fold (start_target c now answers
        (\<lambda>i. ((desired ts i \<and> \<not> current (harvest c now st) i) \<or> changed ts (harvest c now st) i) \<and> am_failed st2 i = None)) ts st2)"
  by (simp add: sync_subscriptions_def prepared_def Let_def)

text \<open>One target through a synchronisation: untouched, or started once from a clean state.\<close>

lemma sync_cases:
  assumes "subscriptions_ok st" "distinct (map tg_id targets)" "ts = filter tg_enable_alert_subscription targets"
    and "st' = sync_subscriptions c now answers targets st"
  obtains (kept) "view st' i = view (prepared c now ts st) i" "current st' i \<or> am_failed st' i \<noteq> None \<or> \<not> desired ts i"
  | (started) t fp where "t \<in> set ts" "tg_id t = i"
      "if start_succeeds c (answers i) t then subscribed_view (Some (target_fingerprint t)) (view st' i)
       else view st' i \<in> {(None, None, None, None, fp), (None, None, None, Some (retry_at c now), fp)}"
proof -
  let ?p = "prepared c now ts st"
  let ?add = "\<lambda>i. ((desired ts i \<and> \<not> current (harvest c now st) i) \<or> changed ts (harvest c now st) i) \<and> am_failed ?p i = None"
  have d: "distinct (map tg_id ts)" using assms(2, 3) by (simp add: distinct_map_filter)
  have st': "st' = fold (start_target c now answers ?add) ts ?p" using assms(3, 4) by (simp add: sync_eq Let_def)
  note cur = prepared_view(2) [OF assms(1), of c now ts i]
  show thesis
  proof (cases "i \<in> tg_id ` set ts")
    case False
    then show thesis using kept d by (simp add: st' fold_start_other desired_iff)
  next
    case True
    then obtain t where t: "t \<in> set ts" "tg_id t = i" by auto
    obtain q where q: "view q i = view ?p i" "view st' i = view (start_target c now answers ?add t q) i"
      using fold_start_view [OF d t(1), of ?p c now answers ?add] t(2) st' by auto
    have des: "desired ts i" using True d by (simp add: desired_iff)
    show thesis
    proof (cases "?add i")
      case True
      then have nc: "\<not> current ?p i" "am_failed ?p i = None" using cur des by blast+
      obtain fp where v: "view q (tg_id t) = (None, None, None, None, fp)"
        using prepared_view(4) [OF assms(1) nc(1)] nc(2) q(1) t(2) by auto
      have add: "?add (tg_id t)" unfolding t(2) by (rule True)
      show thesis
        by (rule started [OF t, of fp]) (use start_target_view [where to_add = ?add, OF v add, of c answers now] in \<open>simp only: q(2) t(2)\<close>)
    next
      case False
      then have "view st' i = view ?p i" using q t(2) start_target_skip [of ?add t] by simp
      moreover have "current ?p i \<or> am_failed ?p i \<noteq> None" using False cur des by auto
      ultimately show thesis using kept by (auto simp: view_def current_def)
    qed
  qed
qed

lemma sync_view_ok:
  assumes "subscriptions_ok st" "distinct (map tg_id targets)"
  shows "subscriptions_ok (sync_subscriptions c now answers targets st)"
  unfolding subscriptions_ok_def
proof
  fix i
  show "view_ok (view (sync_subscriptions c now answers targets st) i)"
    by (rule sync_cases [OF assms refl refl, of c now answers i])
      (use prepared_view(1) [OF assms(1)] in \<open>auto simp: view_ok_def subscribed_view_def split: if_splits\<close>)
qed

lemma sync_fingerprint:
  assumes "subscriptions_ok st" "distinct (map tg_id targets)" "current (sync_subscriptions c now answers targets st) i"
  shows "\<exists>t \<in> set targets. tg_id t = i \<and> tg_enable_alert_subscription t \<and>
    am_fingerprints (sync_subscriptions c now answers targets st) i = Some (target_fingerprint t)"
proof -
  let ?ts = "filter tg_enable_alert_subscription targets"
  have d: "distinct (map tg_id ?ts)" using assms(2) by (simp add: distinct_map_filter)
  have "\<exists>t \<in> set ?ts. tg_id t = i \<and> am_fingerprints (sync_subscriptions c now answers targets st) i = Some (target_fingerprint t)"
  proof (rule sync_cases [OF assms(1, 2) refl refl, of c now answers i])
    assume v: "view (sync_subscriptions c now answers targets st) i = view (prepared c now ?ts st) i"
    then have "current (prepared c now ?ts st) i" using assms(3) by (simp add: view_def current_def)
    from prepared_view(3) [OF assms(1) this] v target_by_id_eq [OF d] show ?thesis by (auto simp: view_def)
  qed (use assms(3) in \<open>auto simp: subscribed_view_def view_def current_def split: if_splits\<close>)
  then show ?thesis by auto
qed

lemma sync_cooldown:
  assumes "subscriptions_ok st" "distinct (map tg_id targets)" "0 < mc_failure_retry c"
    "am_failed (sync_subscriptions c now answers targets st) i = Some (Some due)"
  shows "now < due"
  by (rule sync_cases [OF assms(1, 2) refl refl, of c now answers i])
    (use assms(3, 4) prepared_view(5) [OF assms(1)] in \<open>auto simp: view_def subscribed_view_def retry_at_def split: if_splits\<close>)

lemma sync_live:
  assumes "subscriptions_ok st" "distinct (map tg_id targets)" "t \<in> set targets" "tg_enable_alert_subscription t"
    and "start_succeeds c (answers (tg_id t)) t" "st' = sync_subscriptions c now answers targets st"
  shows "current st' (tg_id t) \<or> am_failed st' (tg_id t) \<noteq> None"
proof -
  let ?ts = "filter tg_enable_alert_subscription targets"
  have d: "distinct (map tg_id ?ts)" using assms(2) by (simp add: distinct_map_filter)
  have t: "t \<in> set ?ts" using assms(3, 4) by simp
  show ?thesis
  proof (rule sync_cases [OF assms(1, 2) refl assms(6), of "tg_id t"])
    assume "current st' (tg_id t) \<or> am_failed st' (tg_id t) \<noteq> None \<or> \<not> desired ?ts (tg_id t)"
    moreover have "desired ?ts (tg_id t)" using t d by (simp only: desired_iff) blast
    ultimately show ?thesis by blast
  next
    fix u fp
    assume u: "u \<in> set ?ts" "tg_id u = tg_id t"
      "if start_succeeds c (answers (tg_id t)) u then subscribed_view (Some (target_fingerprint u)) (view st' (tg_id t))
       else view st' (tg_id t) \<in> {(None, None, None, None, fp), (None, None, None, Some (retry_at c now), fp)}"
    then have "u = t" using t d by (auto simp: distinct_map inj_on_def)
    then show ?thesis using u(3) assms(5) by (auto simp: subscribed_view_def view_def current_def)
  qed
qed

lemma verify_keeps:
  assumes "subscriptions_ok st"
  shows "subscriptions_ok (verify_webhook_subscriptions tick statuses st)"
    and "current (verify_webhook_subscriptions tick statuses st) i \<Longrightarrow> current st i"
proof -
  have "view_ok (view (verify_webhook_subscriptions tick statuses st) j)" for j
    using assms unfolding subscriptions_ok_def
    by (auto simp: verify_webhook_subscriptions_def remove_ids_def verify_dead_def verify_due_def view_def view_ok_def
        Let_def split: if_splits dest!: spec [of _ j])
  then show "subscriptions_ok (verify_webhook_subscriptions tick statuses st)" by (simp add: subscriptions_ok_def)
  show "current (verify_webhook_subscriptions tick statuses st) i \<Longrightarrow> current st i"
    by (auto simp: verify_webhook_subscriptions_def remove_ids_def current_def Let_def split: if_splits)
qed

text \<open>
  (C18) A refresh brings the subscriptions in line with the configuration, whatever the BMCs
  answer: every target has at most one subscription, of the recorded type; only configured
  targets keep one, and with their present configuration; a target whose BMC accepts is
  subscribed, unless it is marked as permanently failed; with a retry interval configured such
  a mark holds only until its retry time; and checking the webhooks afterwards only drops
  subscriptions and keeps all this.
\<close>

theorem refresh_in_line:
  assumes "subscriptions_ok st" "distinct (map tg_id targets)"
    and "st' = sync_subscriptions c now answers targets st"
    and "st'' = refresh_subscriptions c now tick answers statuses targets st"
  shows "subscriptions_ok st' \<and> subscriptions_ok st'' \<and>
    (\<forall>i. (current st'' i \<longrightarrow> current st' i) \<and>
      (current st' i \<longrightarrow> (\<exists>t \<in> set targets. tg_id t = i \<and> tg_enable_alert_subscription t \<and>
         am_fingerprints st' i = Some (target_fingerprint t))) \<and>
      (\<forall>due. am_failed st' i = Some (Some due) \<longrightarrow> 0 < mc_failure_retry c \<longrightarrow> now < due)) \<and>
    (\<forall>t \<in> set targets. tg_enable_alert_subscription t \<longrightarrow> start_succeeds c (answers (tg_id t)) t \<longrightarrow>
      current st' (tg_id t) \<or> am_failed st' (tg_id t) \<noteq> None)"
proof -
  have st'': "st'' = verify_webhook_subscriptions tick statuses st'" by (simp add: assms(3, 4) refresh_subscriptions_def)
  have ok: "subscriptions_ok st'" unfolding assms(3) by (rule sync_view_ok [OF assms(1, 2)])
  moreover have "subscriptions_ok st''" unfolding st'' by (rule verify_keeps(1) [OF ok])
  moreover have "current st'' i \<Longrightarrow> current st' i" for i unfolding st'' by (rule verify_keeps(2) [OF ok])
  moreover note sync_fingerprint [OF assms(1, 2), of c now answers, folded assms(3)] sync_cooldown [OF assms(1, 2), of c now answers, folded assms(3)]
    sync_live [OF assms(1, 2) _ _ _ assms(3)]
  ultimately show ?thesis by (intro conjI allI ballI impI) blast+
qed

definition empty_subscriptions :: subscriptions where
  "empty_subscriptions =
     \<lparr>am_sse = Map.empty, am_webhook = Map.empty, am_types = Map.empty, am_failed = Map.empty, am_fingerprints = Map.empty,
      am_verified_at = Map.empty, am_baseline_jobs = []\<rparr>"

definition demo_target :: alert_target where
  "demo_target = \<lparr>tg_id = 7, tg_enable_alert_subscription = True, tg_base_url = ''https://bmc7'', tg_username = ''root'',
     tg_encrypted_password = ''x'', tg_alert_sse_endpoint = None, tg_verify_ssl = False, tg_connection_mode = ''direct''\<rparr>"

definition demo_manager :: manager_config where
  "demo_manager = \<lparr>mc_webhook_base_url = ''http://collector:8081/redfish-webhook'', mc_enable_webhook_fallback = True,
     mc_force_webhook_mode = False, mc_failure_retry = 0, mc_baseline_pull_enabled = True\<rparr>"

text \<open>A BMC with an event stream, and one that supports neither stream nor subscriptions.\<close>

definition demo_sse_bmc :: bmc_answers where
  "demo_sse_bmc = \<lparr>an_password_ok = True, an_sse = Some SUPPORTED, an_listing = None, an_create = None, an_found = None\<rparr>"

definition demo_bare_bmc :: bmc_answers where
  "demo_bare_bmc = \<lparr>an_password_ok = True, an_sse = Some NOT_SUPPORTED, an_listing = None,
     an_create = Some \<lparr>rp_status = 501, rp_text = [], rp_id = None, rp_location = None\<rparr>, an_found = None\<rparr>"

lemma empty_subscriptions_ok: "subscriptions_ok empty_subscriptions"
  by (simp add: subscriptions_ok_def view_ok_def view_def empty_subscriptions_def)

theorem refresh_in_line_witness:
  "\<not> (\<not> current (sync_subscriptions demo_manager 0 (\<lambda>_. demo_sse_bmc) [demo_target] empty_subscriptions) 7 \<and>
    am_failed (sync_subscriptions demo_manager 0 (\<lambda>_. demo_sse_bmc) [demo_target] empty_subscriptions) 7 = None) \<and>
   subscriptions_ok (refresh_subscriptions demo_manager 0 0 (\<lambda>_. demo_sse_bmc) (\<lambda>_. None) [demo_target] empty_subscriptions)"
  using refresh_in_line [OF empty_subscriptions_ok _ refl refl, of "[demo_target]" demo_manager 0 "\<lambda>_. demo_sse_bmc" 0 "\<lambda>_. None"]
  by (simp add: demo_target_def demo_sse_bmc_def demo_manager_def start_succeeds_def)

section \<open>A permanent failure without retry\<close>

definition refresh_round where
  "refresh_round c = (\<lambda>(now, tick, answers, statuses, targets). refresh_subscriptions c now tick answers statuses targets)"

lemma stuck_step:
  assumes "mc_failure_retry c \<le> 0" "view st i = (None, None, None, Some None, None)"
  shows "view (refresh_subscriptions c now tick answers statuses targets st) i = (None, None, None, Some None, None)"
proof -
  let ?ts = "filter tg_enable_alert_subscription targets"
  let ?p = "prepared c now ?ts st"
  have h: "view (harvest c now st) i = view st i"
    using assms(2) by (simp add: harvest_def sse_failed_def view_def)
  have p: "view ?p i = (None, None, None, Some None, None)"
    using h assms
    by (auto simp: prepared_def retry_due_def tear_down_def remove_ids_def view_def current_def changed_def fixed_failed_def
        Let_def split: option.splits)
  have skip: "view (fold (start_target c now answers add) ts q) i = view q i" if "\<not> add i" for add ts q
    using that
  proof (induction ts arbitrary: q)
    case (Cons t ts)
    then show ?case by (cases "tg_id t = i") (auto simp: start_target_skip start_target_other)
  qed simp
  have "view (sync_subscriptions c now answers targets st) i = (None, None, None, Some None, None)"
    unfolding sync_eq Let_def using p by (subst skip) (auto simp: view_def)
  then show ?thesis
    by (simp add: refresh_subscriptions_def verify_webhook_subscriptions_def verify_dead_def verify_due_def remove_ids_def
        view_def Let_def)
qed

text \<open>
  (C19) With automatic retry switched off, a target whose very first webhook subscription fails
  for good is never subscribed again, whatever happens: disabling and re-enabling it, removing
  it from and returning it to the configuration under its id, or correcting its configuration.
  No fingerprint was recorded for it, so a correction goes unnoticed, and only targets with a
  subscription are ever removed from the failure list.
\<close>

theorem first_failure_is_forever:
  assumes "mc_failure_retry c \<le> 0" "subscriptions_ok st" "\<not> current st i" "am_failed st i = Some None" "am_fingerprints st i = None"
    and "st' = fold (refresh_round c) rounds st"
  shows "\<not> current st' i \<and> am_failed st' i = Some None"
proof -
  have "view st i = (None, None, None, Some None, None)"
    using assms(2-5) by (auto simp: subscriptions_ok_def view_ok_def view_def current_def dest!: spec [of _ i])
  then have "view (fold (refresh_round c) rounds st) i = (None, None, None, Some None, None)"
    by (induction rounds arbitrary: st) (auto simp: refresh_round_def stuck_step [OF assms(1)] split: prod.splits)
  then show ?thesis using assms(6) by (simp add: view_def current_def)
qed

definition demo_stuck :: subscriptions where
  "demo_stuck = refresh_subscriptions demo_manager 0 0 (\<lambda>_. demo_bare_bmc) (\<lambda>_. None) [demo_target] empty_subscriptions"

theorem first_failure_is_forever_witness:
  "\<not> current (fold (refresh_round demo_manager)
     [(1, 1, \<lambda>_. demo_bare_bmc, \<lambda>_. None, []), (2, 2, \<lambda>_. demo_sse_bmc, \<lambda>_. None, [demo_target\<lparr>tg_username := ''admin''\<rparr>])]
     demo_stuck) 7"
proof -
  have ok: "subscriptions_ok demo_stuck"
    unfolding demo_stuck_def refresh_subscriptions_def by (intro verify_keeps sync_view_ok empty_subscriptions_ok) simp
  have v: "\<not> current demo_stuck 7 \<and> am_failed demo_stuck 7 = Some None \<and> am_fingerprints demo_stuck 7 = None"
    unfolding demo_stuck_def by code_simp
  have r: "mc_failure_retry demo_manager \<le> 0" by (simp add: demo_manager_def)
  from first_failure_is_forever [OF r ok _ _ _ refl, of 7] v show ?thesis by blast
qed

section \<open>Orphaned webhook subscriptions\<close>

text \<open>The entries of a BMC that carry the context of the target.\<close>

definition own_entries :: "webhook_sub \<Rightarrow> bmc_entry list \<Rightarrow> (string \<times> json) list" where
  "own_entries w es =
     List.map_filter (\<lambda>e. case (be_odata e, be_detail e) of
         (Some odata, Some (context, destination)) \<Rightarrow>
           if odata \<noteq> [] \<and> context = JStr (target_context (wh_target w)) then Some (odata, destination) else None
       | _ \<Rightarrow> None) es"

lemma reconcile_entries_spec:
  assumes "reconcile_entries w es adopted removed = (w', adopted', removed')"
  shows "removed' = removed @ map fst (filter (\<lambda>(_, d). d \<noteq> JStr (wh_url w)) (own_entries w es)) \<and>
    (let mine = filter (\<lambda>(_, d). d = JStr (wh_url w)) (own_entries w es) in
     adopted' = (adopted \<or> mine \<noteq> []) \<and>
     w' = (if adopted \<or> mine = [] then w
           else w\<lparr>wh_id := Some (last_segment (fst (hd mine))), wh_sub_url := Some (wh_base_url w @ fst (hd mine))\<rparr>))"
  using assms
proof (induction es arbitrary: w adopted removed)
  case Nil
  then show ?case by (simp add: own_entries_def map_filter_def)
next
  case (Cons e es)
  have own: "own_entries (w\<lparr>wh_id := a, wh_sub_url := b\<rparr>) es = own_entries w es" for a b
  proof -
    have "wh_target (w\<lparr>wh_id := a, wh_sub_url := b\<rparr>) = wh_target w" by simp
    then show ?thesis unfolding own_entries_def by (simp only:)
  qed
  show ?case
  proof (cases "be_odata e = None \<or> be_detail e = None")
    case True
    then have "own_entries w (e # es) = own_entries w es" "reconcile_entries w es adopted removed = (w', adopted', removed')"
      using Cons.prems by (auto simp: own_entries_def map_filter_def split: option.splits)
    then show ?thesis using Cons.IH by simp
  next
    case False
    then obtain odata ctx dest where e: "be_odata e = Some odata" "be_detail e = Some (ctx, dest)" by fastforce
    consider (skip) "odata = [] \<or> ctx \<noteq> JStr (target_context (wh_target w))"
      | (mine) "odata \<noteq> []" "ctx = JStr (target_context (wh_target w))" "dest = JStr (wh_url w)"
      | (orphan) "odata \<noteq> []" "ctx = JStr (target_context (wh_target w))" "dest \<noteq> JStr (wh_url w)" by blast
    then show ?thesis
    proof cases
      case skip
      then have "own_entries w (e # es) = own_entries w es" "reconcile_entries w es adopted removed = (w', adopted', removed')"
        using e Cons.prems by (auto simp: own_entries_def map_filter_def)
      then show ?thesis using Cons.IH by simp
    next
      case mine
      then have "own_entries w (e # es) = (odata, dest) # own_entries w es"
        using e by (simp add: own_entries_def map_filter_def)
      then show ?thesis using mine e own Cons.prems Cons.IH [of w True removed]
          Cons.IH [of "w\<lparr>wh_id := Some (last_segment odata), wh_sub_url := Some (wh_base_url w @ odata)\<rparr>" True removed]
        by (cases adopted) (simp_all add: Let_def)
    next
      case orphan
      then have "own_entries w (e # es) = (odata, dest) # own_entries w es"
        using e by (simp add: own_entries_def map_filter_def)
      then show ?thesis using orphan e Cons.prems Cons.IH [of w adopted "removed @ [odata]"] by (simp add: Let_def)
    qed
  qed
qed

text \<open>
  Reconciliation of the subscriptions a BMC lists: a delete is sent for exactly those
  that carry the target's context and another destination, in order, no other subscription is
  touched; one with our destination is adopted, the first, exactly when there is one, and then
  no second subscription is created.
\<close>

lemma reconcile_exact:
  "reconcile_by_context (Some es) w =
    (let mine = filter (\<lambda>(_, d). d = JStr (wh_url w)) (own_entries w es) in
     (if mine = [] then w
     else w\<lparr>wh_id := Some (last_segment (fst (hd mine))), wh_sub_url := Some (wh_base_url w @ fst (hd mine))\<rparr>,
     mine \<noteq> [], map fst (filter (\<lambda>(_, d). d \<noteq> JStr (wh_url w)) (own_entries w es))))"
proof -
  obtain w' a r where "reconcile_entries w es False [] = (w', a, r)" by (cases "reconcile_entries w es False []") auto
  from reconcile_entries_spec [OF this] this show ?thesis by (auto simp: reconcile_by_context_def Let_def)
qed

end
