(* ===== verification/Log_Baseline.thy ===== *)
theory Log_Baseline
  imports Redfish_Events
begin

text \<open>
  The pull of existing log entries, \<open>collector/src/redfish/log_baseline.py\<close>: discovery of the
  log collections of a BMC, paging through one, choosing the newest entries, and the
  incremental pull with its cursor. \<open>get\<close> is what \<open>_get_json\<close> returns for an address (nothing
  on any failure); \<open>float()\<close> of a text is an argument, as is \<open>datetime.fromisoformat\<close>. In the
  option monad \<open>None\<close> is an exception: each one ends the pull of the collection, or of the
  target during discovery.
\<close>

section \<open>Addresses and references\<close>

type_synonym bmc = "string \<Rightarrow> json option"

definition lstrip_char :: "char \<Rightarrow> string \<Rightarrow> string" where
  "lstrip_char c s = dropWhile (\<lambda>x. x = c) s"

definition abs_url :: "string \<Rightarrow> json \<Rightarrow> string option" where
  "abs_url base uri =
     (if \<not> json_truthy uri then Some []
      else case uri of
        JStr u \<Rightarrow>
          Some (if starts_with u ''http://'' \<or> starts_with u ''https://'' then u
                else rstrip_char CHR ''/'' base @ ''/'' @ lstrip_char CHR ''/'' u)
      | _ \<Rightarrow> None)"

definition get_json :: "bmc \<Rightarrow> string \<Rightarrow> json \<Rightarrow> json option" where
  "get_json get base uri =
     do { url \<leftarrow> abs_url base uri; Some (case get url of None \<Rightarrow> JNull | Some doc \<Rightarrow> doc) }"

text \<open>\<open>doc.get(key, default)\<close> on any value, and the \<open>@odata.id\<close> of a reference.\<close>

definition doc_get :: "json \<Rightarrow> string \<Rightarrow> json \<Rightarrow> json option" where
  "doc_get doc key dflt = (case doc of JObj d \<Rightarrow> Some (dict_get_default d key dflt) | _ \<Rightarrow> None)"

definition ref_uri :: "json \<Rightarrow> json" where
  "ref_uri j = (case j of JObj d \<Rightarrow> dict_get d ''@odata.id'' | _ \<Rightarrow> JNull)"

definition iter :: "json \<Rightarrow> json list option" where
  "iter j = (case json_iter j of Inl _ \<Rightarrow> None | Inr xs \<Rightarrow> Some xs)"

definition members_of :: "json \<Rightarrow> json list option" where
  "members_of doc = do { ms \<leftarrow> doc_get doc ''Members'' (JList []); iter ms }"

definition extract_origin :: "json dict \<Rightarrow> json" where
  "extract_origin entry =
     (let origin = (if dict_get entry ''OriginOfCondition'' \<noteq> JNull then dict_get entry ''OriginOfCondition''
                    else case dict_get entry ''Links'' of
                        JObj links \<Rightarrow> dict_get links ''OriginOfCondition''
                      | _ \<Rightarrow> JNull)
      in case origin of JObj d \<Rightarrow> dict_get d ''@odata.id'' | JStr s \<Rightarrow> JStr s | _ \<Rightarrow> JNull)"

section \<open>Discovery\<close>

fun fold_opt :: "('a \<Rightarrow> 's \<Rightarrow> 's option) \<Rightarrow> 'a list \<Rightarrow> 's \<Rightarrow> 's option" where
  "fold_opt f [] s = Some s"
| "fold_opt f (x # xs) s = do { s1 \<leftarrow> f x s; fold_opt f xs s1 }"

text \<open>Follow a reference; what is missing or unreadable is skipped.\<close>

definition follow :: "bmc \<Rightarrow> string \<Rightarrow> json \<Rightarrow> (json \<Rightarrow> 's \<Rightarrow> 's option) \<Rightarrow> 's \<Rightarrow> 's option" where
  "follow get base uri k s =
     (if \<not> json_truthy uri then Some s
      else do { doc \<leftarrow> get_json get base uri; if json_truthy doc then k doc s else Some s })"

definition LOG_ROOTS :: "string list" where
  "LOG_ROOTS = [''/redfish/v1/Systems'', ''/redfish/v1/Managers'']"

definition add_collection :: "json \<Rightarrow> json list \<Rightarrow> json list option" where
  "add_collection detail found =
     do {
       entries_ref \<leftarrow> doc_get detail ''Entries'' (JObj []);
       let uri = ref_uri entries_ref;
       if \<not> json_truthy uri then Some found
       else if \<not> json_hashable uri then None
       else Some (if json_member uri \<in> json_member ` set found then found else found @ [uri])
     }"

definition log_services :: "bmc \<Rightarrow> string \<Rightarrow> json \<Rightarrow> json list \<Rightarrow> json list option" where
  "log_services get base services found =
     do {
       ms \<leftarrow> members_of services;
       fold_opt (\<lambda>m. follow get base (ref_uri m) add_collection) ms found
     }"

definition resource_logs :: "bmc \<Rightarrow> string \<Rightarrow> json \<Rightarrow> json list \<Rightarrow> json list option" where
  "resource_logs get base member found =
     do {
       ls \<leftarrow> doc_get member ''LogServices'' (JObj []);
       follow get base (ref_uri ls) (log_services get base) found
     }"

definition discover_entry_collections :: "bmc \<Rightarrow> string \<Rightarrow> json list option" where
  "discover_entry_collections get base =
     fold_opt (\<lambda>root. follow get base (JStr root) (\<lambda>doc found.
       do {
         ms \<leftarrow> members_of doc;
         fold_opt (\<lambda>m. follow get base (ref_uri m) (resource_logs get base)) ms found
       })) LOG_ROOTS []"

section \<open>Paging and order\<close>

definition MAX_PAGES :: nat where
  "MAX_PAGES = 20"

definition add_members :: "json list \<Rightarrow> json dict list \<times> json list \<Rightarrow> (json dict list \<times> json list) option" where
  "add_members page =
     fold_opt (\<lambda>m (members, seen).
       case m of
         JObj d \<Rightarrow>
           (let mid = dict_get d ''@odata.id'' in
            if mid = JNull then Some (members @ [d], seen)
            else if \<not> json_hashable mid then None
            else if json_member mid \<in> set seen then Some (members, seen)
            else Some (members @ [d], json_member mid # seen))
       | _ \<Rightarrow> Some (members, seen)) page"

text \<open>The page loop; \<open>left\<close> counts the pages of the budget that remain.\<close>

fun collect_pages ::
  "bmc \<Rightarrow> string \<Rightarrow> nat \<Rightarrow> nat \<Rightarrow> json \<Rightarrow> json list \<Rightarrow> json dict list \<times> json list \<Rightarrow> (json dict list \<times> bool) option" where
  "collect_pages get base max_entries 0 uri visited (members, seen) = Some (members, json_truthy uri)"
| "collect_pages get base max_entries (Suc left) uri visited (members, seen) =
     (if \<not> json_truthy uri then Some (members, False)
      else if \<not> json_hashable uri then None
      else if json_member uri \<in> set visited then Some (members, False)
      else
        do {
          doc \<leftarrow> get_json get base uri;
          if \<not> json_truthy doc then Some (members, False)
          else
            do {
              page \<leftarrow> members_of doc;
              (members', seen') \<leftarrow> add_members page (members, seen);
              next_uri \<leftarrow> doc_get doc ''Members@odata.nextLink'' JNull;
              if max_entries * 3 \<le> length members' then Some (members', json_truthy next_uri)
              else collect_pages get base max_entries left next_uri (json_member uri # visited) (members', seen')
            }
        })"

definition collect_members :: "bmc \<Rightarrow> string \<Rightarrow> json \<Rightarrow> nat \<Rightarrow> (json dict list \<times> bool) option" where
  "collect_members get base uri max_entries = collect_pages get base max_entries MAX_PAGES uri [] ([], [])"

text \<open>
  The sort key: dated entries by their time, then numbered ones, then the others. Python's
  reverse sort keeps the order of equal keys.
\<close>

type_synonym readers = "(string \<Rightarrow> py_datetime option) \<times> (string \<Rightarrow> rat option)"

definition created :: "readers \<Rightarrow> json dict \<Rightarrow> instant option option" where
  "created rd entry =
     (case parse_redfish_timestamp (fst rd) (dict_get entry ''Created'') of
        Inl _ \<Rightarrow> None
      | Inr ts \<Rightarrow> Some (map_option to_naive_utc ts))"

definition entry_number :: "readers \<Rightarrow> json dict \<Rightarrow> rat option option" where
  "entry_number rd m =
     (case json_or (dict_get_default m ''@odata.id'' (JStr [])) (JStr []) of
        JStr oid \<Rightarrow> Some (snd rd (last (split_char CHR ''/'' (rstrip_char CHR ''/'' oid))))
      | _ \<Rightarrow> None)"

definition member_sort_key :: "readers \<Rightarrow> json dict \<Rightarrow> (nat \<times> rat) option" where
  "member_sort_key rd m =
     do {
       ts \<leftarrow> created rd m;
       case ts of
         Some t \<Rightarrow> Some (2, of_int t)
       | None \<Rightarrow>
           do { num \<leftarrow> entry_number rd m; Some (case num of Some x \<Rightarrow> (1, x) | None \<Rightarrow> (0, 0)) }
     }"

definition order_members_newest_first :: "readers \<Rightarrow> json dict list \<Rightarrow> nat \<Rightarrow> json dict list option" where
  "order_members_newest_first rd members max_entries =
     (if list_all (\<lambda>m. member_sort_key rd m \<noteq> None) members
      then Some (take max_entries
             (sort_key (\<lambda>m. (- int (fst (the (member_sort_key rd m))), - snd (the (member_sort_key rd m)))) members))
      else None)"

section \<open>Pulling a collection\<close>

record baseline_alert = redfish_alert +
  ba_source_id :: json

text \<open>\<open>key in entry\<close> on any value.\<close>

fun json_in :: "string \<Rightarrow> json \<Rightarrow> bool option" where
  "json_in key (JObj d) = Some (key \<in> fst ` set d)"
| "json_in key (JList xs) = Some (JStr key \<in> set xs)"
| "json_in key (JStr s) = Some (contains s key)"
| "json_in key _ = None"

text \<open>The entry to use: the listed member, or the fetched one when a key field is missing.\<close>

definition full_entry :: "bmc \<Rightarrow> string \<Rightarrow> json dict \<Rightarrow> json option" where
  "full_entry get base member =
     (if list_all (\<lambda>k. k \<in> fst ` set member) [''Message'', ''Severity'', ''Created''] \<or>
         \<not> json_truthy (dict_get member ''@odata.id'')
      then Some (JObj member)
      else do { fetched \<leftarrow> get_json get base (dict_get member ''@odata.id'');
                Some (if json_truthy fetched then fetched else JObj member) })"

definition baseline_alert_of :: "subscriber_info \<Rightarrow> instant \<Rightarrow> json dict \<Rightarrow> json dict \<Rightarrow> instant option \<Rightarrow> baseline_alert" where
  "baseline_alert_of i now member entry ts =
     \<lparr>ra_target_id = si_target_id i, ra_target_name = si_target_name i, ra_target_bmc = si_target_bmc i,
      ra_severity = fst (normalize_severity entry),
      ra_message = json_or (dict_get_default entry ''Message'' (JStr [])) (JStr []),
      ra_message_id = dict_get entry ''MessageId'', ra_event_type = json_or (dict_get entry ''EntryType'') (JStr ''Alert''),
      ra_origin = extract_origin entry, ra_event_timestamp = map_option Naive ts, ra_received_at = now, ra_raw = entry,
      ba_source_id = json_or (dict_get entry ''@odata.id'') (dict_get member ''@odata.id'')\<rparr>"

definition older :: "instant option \<Rightarrow> instant option \<Rightarrow> bool" where
  "older ts cursor = (case (ts, cursor) of (Some t, Some c) \<Rightarrow> t < c | _ \<Rightarrow> False)"

definition newer :: "instant option \<Rightarrow> instant option \<Rightarrow> instant option" where
  "newer ts newest =
     (case (ts, newest) of (None, n) \<Rightarrow> n | (Some t, None) \<Rightarrow> Some t | (Some t, Some n) \<Rightarrow> Some (if n < t then t else n))"

text \<open>
  One member: skipped, or the time of its entry and the alert it gives (none when the severity
  is filtered). \<open>known\<close> says whether an entry without a time is stored already.
\<close>

datatype member_result = Skip | Seen "instant option" "baseline_alert option"

definition pull_entry ::
  "readers \<Rightarrow> subscriber_info \<Rightarrow> instant \<Rightarrow> instant option \<Rightarrow> json dict \<Rightarrow> json dict \<Rightarrow> member_result option" where
  "pull_entry rd i now cursor member e =
     do {
       ts \<leftarrow> created rd e;
       if older ts cursor then Some Skip
       else
         Some (Seen ts
           (if severity_allowed (fst (normalize_severity e)) (snd (normalize_severity e)) (si_severities i)
            then Some (baseline_alert_of i now member e ts) else None))
     }"

definition pull_member ::
  "bmc \<Rightarrow> string \<Rightarrow> readers \<Rightarrow> subscriber_info \<Rightarrow> instant \<Rightarrow> instant option \<Rightarrow> (json \<Rightarrow> bool) \<Rightarrow> json dict \<Rightarrow> member_result option" where
  "pull_member get base rd i now cursor known member =
     do {
       member_ts \<leftarrow> created rd member;
       if older member_ts cursor then Some Skip
       else if member_ts = None \<and> json_truthy (dict_get member ''@odata.id'') \<and> known (dict_get member ''@odata.id'') then Some Skip
       else
         do {
           entry \<leftarrow> full_entry get base member;
           has_message \<leftarrow> json_in ''Message'' entry;
           has_severity \<leftarrow> json_in ''Severity'' entry;
           has_msg_severity \<leftarrow> json_in ''MessageSeverity'' entry;
           if \<not> has_message \<and> \<not> has_severity \<and> \<not> has_msg_severity then Some Skip
           else (case entry of JObj e \<Rightarrow> pull_entry rd i now cursor member e | _ \<Rightarrow> None)
         }
     }"

text \<open>The loop over the members: alerts handed to the callback, and the newest time unless it raised.\<close>

fun pull_members ::
  "(json dict \<Rightarrow> member_result option) \<Rightarrow> json dict list \<Rightarrow> instant option \<Rightarrow> baseline_alert list \<times> instant option option" where
  "pull_members pull [] newest = ([], Some newest)"
| "pull_members pull (m # ms) newest =
     (case pull m of
        None \<Rightarrow> ([], None)
      | Some Skip \<Rightarrow> pull_members pull ms newest
      | Some (Seen ts alert) \<Rightarrow>
          (let (as, r) = pull_members pull ms (newer ts newest)
           in ((case alert of None \<Rightarrow> as | Some a \<Rightarrow> a # as), r)))"

definition pull_collection ::
  "bmc \<Rightarrow> string \<Rightarrow> readers \<Rightarrow> subscriber_info \<Rightarrow> instant \<Rightarrow> nat \<Rightarrow> instant option \<Rightarrow> (json \<Rightarrow> bool) \<Rightarrow> json \<Rightarrow>
   baseline_alert list \<times> instant option option" where
  "pull_collection get base rd i now max_entries cursor known uri =
     (case collect_members get base uri max_entries of
        None \<Rightarrow> ([], None)
      | Some (all_members, _) \<Rightarrow>
          if all_members = [] then ([], Some None)
          else
            (case order_members_newest_first rd all_members max_entries of
               None \<Rightarrow> ([], None)
             | Some members \<Rightarrow> pull_members (pull_member get base rd i now cursor known) members None))"

text \<open>
  \<open>pull_baseline_alerts\<close>, with the cursors of the target as a map: every collection is pulled
  from its cursor, which advances to the newest time seen when the pull did not raise.
\<close>

fun pull_all ::
  "(json \<Rightarrow> instant option \<Rightarrow> baseline_alert list \<times> instant option option) \<Rightarrow> json list \<Rightarrow> (json \<Rightarrow> instant option) \<Rightarrow>
   baseline_alert list \<times> (json \<Rightarrow> instant option)" where
  "pull_all pull [] cursors = ([], cursors)"
| "pull_all pull (uri # uris) cursors =
     (let (as, r) = pull uri (cursors uri);
          cursors1 = (case r of Some (Some t) \<Rightarrow> cursors(uri := newer (Some t) (cursors uri)) | _ \<Rightarrow> cursors);
          (bs, cursors2) = pull_all pull uris cursors1
      in (as @ bs, cursors2))"

definition pull_baseline_alerts ::
  "bmc \<Rightarrow> string \<Rightarrow> readers \<Rightarrow> subscriber_info \<Rightarrow> instant \<Rightarrow> nat \<Rightarrow> (json \<Rightarrow> bool) \<Rightarrow> (json \<Rightarrow> instant option) \<Rightarrow>
   baseline_alert list \<times> (json \<Rightarrow> instant option)" where
  "pull_baseline_alerts get base rd i now max_entries known cursors =
     (case discover_entry_collections get base of
        None \<Rightarrow> ([], cursors)
      | Some uris \<Rightarrow>
          pull_all (\<lambda>uri cursor. pull_collection get base rd i now max_entries cursor known uri) uris cursors)"

section \<open>The newest entries are kept\<close>

definition sort_rank :: "readers \<Rightarrow> json dict \<Rightarrow> int \<times> rat" where
  "sort_rank rd m = (- int (fst (the (member_sort_key rd m))), - snd (the (member_sort_key rd m)))"

lemma order_members_eq:
  "order_members_newest_first rd members n =
     (if \<forall>m \<in> set members. member_sort_key rd m \<noteq> None then Some (take n (sort_key (sort_rank rd) members)) else None)"
  unfolding order_members_newest_first_def sort_rank_def [abs_def] list_all_iff by (rule refl)

lemma sorted_take_drop_le:
  assumes "sorted (map f xs)" "x \<in> set (take n xs)" "y \<in> set (drop n xs)"
  shows "f x \<le> f y"
proof -
  have "sorted (map f (take n xs) @ map f (drop n xs))" using assms(1) by (simp flip: map_append)
  then show ?thesis using assms(2, 3) by (auto simp: sorted_append)
qed

lemma undated_rank:
  assumes "created rd a = Some None" "member_sort_key rd a \<noteq> None"
  shows "fst (the (member_sort_key rd a)) \<le> 1"
  using assms by (cases "entry_number rd a") (auto simp: member_sort_key_def split: option.splits)

text \<open>
  The cap on the entries of a log keeps the newest: the members chosen are at most the
  cap, they and the ones left out are together all members, they come in order of decreasing
  key, and no member left out has a greater key than one chosen; a dated entry counts as newer
  than an undated one.
\<close>

lemma newest_entries_kept:
  assumes "order_members_newest_first rd members n = Some chosen"
  shows "\<exists>rest. mset members = mset chosen + mset rest \<and> length chosen = min n (length members) \<and>
    sorted_wrt (\<lambda>a b. the (member_sort_key rd b) \<le> the (member_sort_key rd a)) chosen \<and>
    (\<forall>a \<in> set chosen. \<forall>b \<in> set rest. the (member_sort_key rd b) \<le> the (member_sort_key rd a) \<and>
      (created rd a = Some None \<longrightarrow> created rd b = Some None))"
proof -
  let ?xs = "sort_key (sort_rank rd) members"
  have keys: "\<And>m. m \<in> set members \<Longrightarrow> member_sort_key rd m \<noteq> None" and c: "chosen = take n ?xs"
    using assms by (auto simp: order_members_eq split: if_splits)
  have le: "sort_rank rd a \<le> sort_rank rd b \<longleftrightarrow> the (member_sort_key rd b) \<le> the (member_sort_key rd a)" for a b
    by (cases "the (member_sort_key rd a)"; cases "the (member_sort_key rd b)") (auto simp: sort_rank_def less_eq_prod_def)
  have s: "sorted (map (sort_rank rd) ?xs)" by simp
  have "sorted (map (sort_rank rd) chosen)" using sorted_wrt_take [OF s, of n] by (simp add: c take_map)
  then have "sorted_wrt (\<lambda>a b. the (member_sort_key rd b) \<le> the (member_sort_key rd a)) chosen"
    by (simp add: sorted_map le)
  moreover have "mset members = mset chosen + mset (drop n ?xs)"
    unfolding c by (metis append_take_drop_id mset_append mset_sort)
  moreover have "the (member_sort_key rd b) \<le> the (member_sort_key rd a)" if "a \<in> set chosen" "b \<in> set (drop n ?xs)" for a b
    using sorted_take_drop_le [OF s, of a n b] that by (simp add: c le)
  moreover have "created rd b = Some None"
    if "a \<in> set chosen" "b \<in> set (drop n ?xs)" "created rd a = Some None" for a b
  proof (rule ccontr)
    assume nb: "created rd b \<noteq> Some None"
    have "b \<in> set members" using that(2) by (metis in_set_dropD set_sort)
    then obtain t where "member_sort_key rd b = Some (2, of_int t)"
      using keys [of b] nb by (auto simp: member_sort_key_def split: option.splits bind_splits)
    moreover have "fst (the (member_sort_key rd a)) \<le> 1"
      using undated_rank [OF that(3)] keys [of a] that(1) c by (metis in_set_takeD set_sort)
    ultimately show False
      using sorted_take_drop_le [OF s, of a n b] that c by (cases "the (member_sort_key rd a)") (auto simp: sort_rank_def less_eq_prod_def)
  qed
  ultimately show ?thesis by (intro exI [of _ "drop n ?xs"]) (auto simp: c)
qed

lemma newest_entries_kept_witness:
  "\<exists>rest. mset [[(''@odata.id'', JStr ''/E/7'')], [(''@odata.id'', JStr ''/E/x'')], [(''@odata.id'', JStr ''/E/9'')]] =
     mset [[(''@odata.id'', JStr ''/E/9'')], [(''@odata.id'', JStr ''/E/7'')]] + mset rest"
proof -
  let ?rd = "(\<lambda>_. None, \<lambda>s. if s = ''7'' then Some 7 else if s = ''9'' then Some 9 else None) :: readers"
  have "order_members_newest_first ?rd
      [[(''@odata.id'', JStr ''/E/7'')], [(''@odata.id'', JStr ''/E/x'')], [(''@odata.id'', JStr ''/E/9'')]] 2 =
    Some [[(''@odata.id'', JStr ''/E/9'')], [(''@odata.id'', JStr ''/E/7'')]]"
    by code_simp
  from newest_entries_kept [OF this] show ?thesis by blast
qed

section \<open>What a pull emits\<close>

definition complete :: "json dict \<Rightarrow> bool" where
  "complete m \<longleftrightarrow> {''Message'', ''Severity'', ''Created''} \<subseteq> fst ` set m"

definition passed :: "readers \<Rightarrow> instant option \<Rightarrow> (json \<Rightarrow> bool) \<Rightarrow> json dict \<Rightarrow> bool" where
  "passed rd cursor known m \<longleftrightarrow>
     \<not> older (the (created rd m)) cursor \<and>
     \<not> (created rd m = Some None \<and> json_truthy (dict_get m ''@odata.id'') \<and> known (dict_get m ''@odata.id''))"

definition wanted :: "subscriber_info \<Rightarrow> json dict \<Rightarrow> bool" where
  "wanted i m \<longleftrightarrow> (case normalize_severity m of (severity, present) \<Rightarrow> severity_allowed severity present (si_severities i))"

lemma pull_member_complete:
  assumes "complete m" "created rd m = Some ts"
  shows "pull_member get base rd i now cursor known m =
    Some (if passed rd cursor known m
          then Seen ts (if wanted i m then Some (baseline_alert_of i now m m ts) else None) else Skip)"
proof -
  have "full_entry get base m = Some (JObj m)" using assms(1) by (simp add: full_entry_def complete_def)
  moreover have "json_in ''Message'' (JObj m) = Some True" using assms(1) by (simp add: complete_def)
  ultimately show ?thesis
    using assms(2) by (auto simp: pull_member_def pull_entry_def passed_def wanted_def split: prod.splits)
qed

lemma pull_members_complete:
  assumes "\<And>m. m \<in> set ms \<Longrightarrow> complete m \<and> created rd m \<noteq> None"
  shows "pull_members (pull_member get base rd i now cursor known) ms newest =
    (map (\<lambda>m. baseline_alert_of i now m m (the (created rd m))) (filter (\<lambda>m. passed rd cursor known m \<and> wanted i m) ms),
     Some (fold (newer \<circ> the \<circ> created rd) (filter (passed rd cursor known) ms) newest))"
  using assms
proof (induction ms arbitrary: newest)
  case (Cons m ms)
  then obtain ts where "complete m" "created rd m = Some ts" by force
  then show ?case using Cons by (simp add: pull_member_complete)
qed simp

text \<open>
  (C20) A pull of a log whose entries are listed in full emits exactly the chosen entries that
  are not older than the cursor, not already stored without a time, and of an admitted
  severity, in order; it returns the newest time of the entries that passed, also of those of a
  severity that is filtered.
\<close>

theorem baseline_pull_exact:
  assumes "collect_members get base uri max_entries = Some (all_members, truncated)"
    and "order_members_newest_first rd all_members max_entries = Some members"
    and "\<forall>m \<in> set all_members. complete m \<and> created rd m \<noteq> None"
  shows "pull_collection get base rd i now max_entries cursor known uri =
    (map (\<lambda>m. baseline_alert_of i now m m (the (created rd m)))
       (filter (\<lambda>m. passed rd cursor known m \<and> wanted i m) members),
     Some (fold (newer \<circ> the \<circ> created rd) (filter (passed rd cursor known) members) None))"
proof -
  have "set members \<subseteq> set all_members"
    using assms(2) by (auto simp: order_members_eq split: if_splits dest: in_set_takeD)
  then have "\<And>m. m \<in> set members \<Longrightarrow> complete m \<and> created rd m \<noteq> None" using assms(3) by blast
  note pulled = pull_members_complete [OF this]
  show ?thesis
  proof (cases "all_members = []")
    case True
    then have "members = []" using \<open>set members \<subseteq> set all_members\<close> by simp
    then show ?thesis using True assms(1) by (simp add: pull_collection_def)
  next
    case False
    then show ?thesis using assms(1, 2) pulled by (simp add: pull_collection_def)
  qed
qed

text \<open>A small BMC: one page with two entries.\<close>

definition sample_entry :: "string \<Rightarrow> string \<Rightarrow> json dict" where
  "sample_entry uri time = [(''@odata.id'', JStr uri), (''Message'', JStr ''fan failed''), (''Severity'', JStr ''Critical''),
     (''Created'', JStr time)]"

definition sample_bmc :: bmc where
  "sample_bmc url =
     (if url = ''http://b/L'' then Some (JObj [(''Members'', JList [JObj (sample_entry ''/L/1'' ''T1''),
        JObj (sample_entry ''/L/2'' ''T2'')])]) else None)"

definition sample_info :: subscriber_info where
  "sample_info = \<lparr>si_target_id = 1, si_target_name = ''t'', si_target_bmc = ''b'', si_event_types = [], si_severities = [''critical'']\<rparr>"

definition sample_readers :: readers where
  "sample_readers = (\<lambda>s. if s = ''T1'' then Some (Aware 5 0) else if s = ''T2'' then Some (Aware 6 0) else None, \<lambda>_. None)"

theorem baseline_pull_exact_witness:
  "map ba_source_id (fst (pull_collection sample_bmc ''http://b'' sample_readers sample_info 0 10 None (\<lambda>_. False) (JStr ''/L''))) =
     [JStr ''/L/2'', JStr ''/L/1'']"
proof -
  let ?ms = "[sample_entry ''/L/1'' ''T1'', sample_entry ''/L/2'' ''T2'']"
  have a: "collect_members sample_bmc ''http://b'' (JStr ''/L'') 10 = Some (?ms, False)" by code_simp
  have b: "order_members_newest_first sample_readers ?ms 10 = Some (rev ?ms)" by code_simp
  have c: "\<forall>m \<in> set ?ms. complete m \<and> created sample_readers m \<noteq> None" by code_simp
  show ?thesis unfolding baseline_pull_exact [OF a b c] by code_simp
qed

section \<open>The cursor\<close>

text \<open>What a pull sees from a later cursor, with more entries stored, it sees from an earlier one.\<close>

lemma pull_entry_later_cursor:
  assumes "pull_entry rd i now' cursor' m e = Some (Seen ts alert)" "\<And>ts. older ts cursor \<Longrightarrow> older ts cursor'"
  shows "\<exists>alert'. pull_entry rd i now cursor m e = Some (Seen ts alert')"
  using assms by (auto simp: pull_entry_def split: bind_splits if_splits)

lemma pull_member_seen:
  "pull_member get base rd i now cursor known m = Some (Seen ts alert) \<longleftrightarrow>
     (\<exists>member_ts e. created rd m = Some member_ts \<and> \<not> older member_ts cursor \<and>
       \<not> (member_ts = None \<and> json_truthy (dict_get m ''@odata.id'') \<and> known (dict_get m ''@odata.id'')) \<and>
       full_entry get base m = Some (JObj e) \<and>
       fst ` set e \<inter> {''Message'', ''Severity'', ''MessageSeverity''} \<noteq> {} \<and>
       pull_entry rd i now cursor m e = Some (Seen ts alert))"
  (is "?lhs \<longleftrightarrow> ?rhs")
proof (cases "created rd m")
  case None
  then show ?thesis by (simp add: pull_member_def)
next
  case (Some member_ts)
  show ?thesis
  proof (cases "full_entry get base m")
    case None
    then show ?thesis using Some by (simp add: pull_member_def)
  next
    case entry: (Some entry)
    show ?thesis using Some entry by (cases entry) (auto simp: pull_member_def)
  qed
qed

lemma pull_member_later_cursor:
  assumes "pull_member get base rd i now' cursor' known' m = Some (Seen ts alert)"
    and later: "\<And>ts. older ts cursor \<Longrightarrow> older ts cursor'" "\<And>s. known s \<Longrightarrow> known' s"
  shows "\<exists>alert'. pull_member get base rd i now cursor known m = Some (Seen ts alert')"
proof -
  from assms(1) obtain member_ts e where seen: "created rd m = Some member_ts" "\<not> older member_ts cursor'"
    "\<not> (member_ts = None \<and> json_truthy (dict_get m ''@odata.id'') \<and> known' (dict_get m ''@odata.id''))"
    "full_entry get base m = Some (JObj e)" "fst ` set e \<inter> {''Message'', ''Severity'', ''MessageSeverity''} \<noteq> {}"
    "pull_entry rd i now' cursor' m e = Some (Seen ts alert)"
    unfolding pull_member_seen by blast
  obtain alert' where "pull_entry rd i now cursor m e = Some (Seen ts alert')"
    using pull_entry_later_cursor [OF seen(6) later(1)] by blast
  moreover have "\<not> older member_ts cursor" using seen(2) later(1) by blast
  moreover have "\<not> (member_ts = None \<and> json_truthy (dict_get m ''@odata.id'') \<and> known (dict_get m ''@odata.id''))"
    using seen(3) later(2) by blast
  ultimately show ?thesis using seen(1, 4, 5) unfolding pull_member_seen by blast
qed

lemma newer_upper: "newest = Some t \<or> ts = Some t \<Longrightarrow> \<exists>u. newer ts newest = Some u \<and> t \<le> u"
  by (cases ts; cases newest) (auto simp: newer_def)

lemma newer_cases: "newer ts newest = newest \<or> newer ts newest = ts"
  by (cases ts; cases newest) (auto simp: newer_def)

text \<open>The time a pull returns is the greatest of the entries it saw.\<close>

lemma pull_members_newest:
  assumes "pull_members pull ms newest = (as, Some r)"
  shows "(\<forall>t. newest = Some t \<longrightarrow> (\<exists>n. r = Some n \<and> t \<le> n)) \<and>
    (\<forall>m \<in> set ms. \<forall>t alert. pull m = Some (Seen (Some t) alert) \<longrightarrow> (\<exists>n. r = Some n \<and> t \<le> n))"
  using assms
proof (induction ms arbitrary: newest as)
  case (Cons m ms)
  show ?case
  proof (cases "pull m")
    case None
    then show ?thesis using Cons.prems by simp
  next
    case (Some res)
    show ?thesis
    proof (cases res)
      case Skip
      then show ?thesis using Cons Some by auto
    next
      case (Seen ts alert)
      then obtain bs where "pull_members pull ms (newer ts newest) = (bs, Some r)"
        using Cons.prems Some by (auto split: prod.splits)
      note ih = Cons.IH [OF this]
      have "\<exists>n. r = Some n \<and> t \<le> n" if "newest = Some t \<or> ts = Some t" for t
        using newer_upper [OF that] ih by fastforce
      then show ?thesis using ih Some Seen by auto
    qed
  qed
qed auto

lemma pull_members_attained:
  assumes "pull_members pull ms newest = (as, Some (Some t))"
  shows "newest = Some t \<or> (\<exists>m \<in> set ms. \<exists>alert. pull m = Some (Seen (Some t) alert))"
  using assms
proof (induction ms arbitrary: newest as)
  case (Cons m ms)
  show ?case
  proof (cases "pull m")
    case (Some res)
    then show ?thesis
    proof (cases res)
      case (Seen ts alert)
      then obtain bs where "pull_members pull ms (newer ts newest) = (bs, Some (Some t))"
        using Cons.prems Some by (auto split: prod.splits)
      from Cons.IH [OF this] newer_cases [of ts newest] show ?thesis using Some Seen by auto
    qed (use Cons Some in auto)
  qed (use Cons.prems in simp)
qed simp

lemma pull_members_alerts:
  assumes "pull_members pull ms newest = (as, r)" "a \<in> set as"
  shows "\<exists>m \<in> set ms. \<exists>ts. pull m = Some (Seen ts (Some a))"
  using assms
proof (induction ms arbitrary: newest as)
  case (Cons m ms)
  show ?case
  proof (cases "pull m")
    case (Some res)
    then show ?thesis
    proof (cases res)
      case (Seen ts alert)
      then obtain bs where bs: "pull_members pull ms (newer ts newest) = (bs, r)" "alert = Some a \<or> a \<in> set bs"
        using Cons.prems Some by (auto split: prod.splits option.splits)
      then show ?thesis using Cons.IH [OF bs(1)] Some Seen by auto
    qed (use Cons Some in auto)
  qed (use Cons.prems in simp)
qed simp

lemma pull_entry_time:
  assumes "pull_entry rd i now cursor m e = Some (Seen ts alert)"
  shows "\<not> older ts cursor" "alert = Some a \<Longrightarrow> ra_event_timestamp a = map_option Naive ts"
  using assms by (auto simp: pull_entry_def baseline_alert_of_def split: bind_splits if_splits)

lemma seen_time:
  assumes "pull_member get base rd i now cursor known m = Some (Seen ts alert)"
  shows "\<not> older ts cursor" "alert = Some a \<Longrightarrow> ra_event_timestamp a = map_option Naive ts"
  using assms pull_entry_time unfolding pull_member_seen by blast+

lemma pull_collection_members:
  assumes "pull_collection get base rd i now n cursor known uri = (as, r)" "as \<noteq> [] \<or> (\<exists>t. r = Some (Some t))"
  obtains all_members tr members where "collect_members get base uri n = Some (all_members, tr)"
    "order_members_newest_first rd all_members n = Some members"
    "pull_members (pull_member get base rd i now cursor known) members None = (as, r)"
  using assms by (auto simp: pull_collection_def split: option.splits prod.splits if_splits)

text \<open>
  Repeated pulls converge: when a pull returned the time \<open>t\<close>, the next pull of the same
  log, from the cursor moved to \<open>t\<close> and with no fewer entries stored, emits nothing but entries
  of exactly that time (which the store recognises as duplicates) and entries without a time.
  The returned time is never before the old cursor.
\<close>

lemma repull_only_boundary:
  assumes first: "pull_collection get base rd i now n cursor known uri = (as, Some (Some t))"
    and again: "pull_collection get base rd i now' n (newer (Some t) cursor) known' uri = (bs, r)"
    and stored: "\<And>s. known s \<Longrightarrow> known' s"
  shows "newer (Some t) cursor = Some t \<and>
    (\<forall>b \<in> set bs. ra_event_timestamp b = None \<or> ra_event_timestamp b = Some (Naive t))"
proof
  let ?pull = "pull_member get base rd i now cursor known"
  from first obtain all_members tr members where ms: "collect_members get base uri n = Some (all_members, tr)"
    "order_members_newest_first rd all_members n = Some members" and pulled: "pull_members ?pull members None = (as, Some (Some t))"
    by (rule pull_collection_members) auto
  obtain m alert where "?pull m = Some (Seen (Some t) alert)" using pull_members_attained [OF pulled] by auto
  from seen_time(1) [OF this] show cursor: "newer (Some t) cursor = Some t"
    by (cases cursor) (auto simp: older_def newer_def)
  have later: "older ts cursor \<Longrightarrow> older ts (Some t)" for ts
    using cursor by (cases ts; cases cursor) (auto simp: older_def newer_def split: if_splits)
  show "\<forall>b \<in> set bs. ra_event_timestamp b = None \<or> ra_event_timestamp b = Some (Naive t)"
  proof
    fix b assume b: "b \<in> set bs"
    then have "bs \<noteq> [] \<or> (\<exists>u. r = Some (Some u))" by auto
    with again ms have "pull_members (pull_member get base rd i now' (Some t) known') members None = (bs, r)"
      unfolding cursor by (auto elim!: pull_collection_members)
    then obtain m ts where m: "m \<in> set members" "pull_member get base rd i now' (Some t) known' m = Some (Seen ts (Some b))"
      using pull_members_alerts b by blast
    then obtain alert' where "?pull m = Some (Seen ts alert')" using pull_member_later_cursor later stored by blast
    then have "\<And>u. ts = Some u \<Longrightarrow> u \<le> t" using pull_members_newest [OF pulled] m(1) by fastforce
    then show "ra_event_timestamp b = None \<or> ra_event_timestamp b = Some (Naive t)"
      using seen_time [OF m(2)] by (cases ts) (auto simp: older_def)
  qed
qed

lemma repull_only_boundary_witness:
  "\<exists>b. ra_event_timestamp b = Some (Naive 6) \<and>
     fst (pull_collection sample_bmc ''http://b'' sample_readers sample_info 1 10 (Some 6) (\<lambda>_. False) (JStr ''/L'')) = [b]"
proof -
  let ?pull = "\<lambda>now cursor. pull_collection sample_bmc ''http://b'' sample_readers sample_info now 10 cursor (\<lambda>_. False) (JStr ''/L'')"
  let ?b = "hd (fst (?pull 1 (Some 6)))"
  have first: "?pull 0 None = (fst (?pull 0 None), Some (Some 6))" by code_simp
  have again: "?pull 1 (newer (Some 6) None) = ([?b], Some (Some 6))" by code_simp
  have time: "ra_event_timestamp ?b \<noteq> None" by code_simp
  have one: "fst (?pull 1 (Some 6)) = [?b]" by code_simp
  from repull_only_boundary [OF first again] time have "ra_event_timestamp ?b = Some (Naive 6)" by simp
  with one show ?thesis by blast
qed

end
