(* ===== verification/Location.thy ===== *)
theory Location
  imports Py_Json Py_Time
begin

text \<open>
  Where a system stands in the data hall, \<open>collector/src/location/\<close>: the placement with its
  provenance, reading it from a host name or from the \<open>Location\<close> object of a BMC, and the
  writes of the repository, which honour the precedence of the sources. Regular expressions
  come from the configuration; the match of one against a text is an argument.
\<close>

section \<open>Placements and their sources\<close>

record placement =
  pl_site :: "string option"
  pl_hall :: "string option"
  pl_row :: "string option"
  pl_rack :: "string option"
  pl_rack_u :: "int option"
  pl_height_u :: "int option"
  pl_unit_type :: "string option"
  pl_source :: "string option"

definition no_placement :: placement where
  "no_placement = \<lparr>pl_site = None, pl_hall = None, pl_row = None, pl_rack = None, pl_rack_u = None, pl_height_u = None,
     pl_unit_type = None, pl_source = None\<rparr>"

definition PINNED_SOURCE :: string where
  "PINNED_SOURCE = ''pinned''"

definition SOURCE_PRECEDENCE :: "(string \<times> nat) list" where
  "SOURCE_PRECEDENCE = [(''hostname'', 1), (''redfish'', 2), (''manual'', 3), (PINNED_SOURCE, 4)]"

definition source_rank :: "string option \<Rightarrow> nat" where
  "source_rank source =
     (case map_of SOURCE_PRECEDENCE (case source of None \<Rightarrow> [] | Some s \<Rightarrow> s) of None \<Rightarrow> 0 | Some r \<Rightarrow> r)"

definition filled :: "string option \<Rightarrow> bool" where
  "filled v \<longleftrightarrow> v \<noteq> None \<and> v \<noteq> Some []"

definition has_location :: "placement \<Rightarrow> bool" where
  "has_location p \<longleftrightarrow> filled (pl_hall p) \<or> filled (pl_row p) \<or> filled (pl_rack p) \<or> pl_rack_u p \<noteq> None"

definition should_overwrite :: "string option \<Rightarrow> string option \<Rightarrow> bool" where
  "should_overwrite existing_source new_source \<longleftrightarrow> source_rank existing_source \<le> source_rank new_source"

section \<open>From the BMC\<close>

definition str_if_set :: "json \<Rightarrow> string option" where
  "str_if_set v = (if json_truthy v then Some (py_str v) else None)"

definition placement_from_location :: "json \<Rightarrow> string \<Rightarrow> placement" where
  "placement_from_location location default_unit_type =
     (case location of
        JObj loc \<Rightarrow>
          (let p = (case dict_get loc ''PostalAddress'' of
                      JObj postal \<Rightarrow>
                        no_placement\<lparr>pl_hall := str_if_set (json_or (dict_get postal ''Room'') (dict_get postal ''Building''))\<rparr>
                    | _ \<Rightarrow> no_placement)
           in case dict_get loc ''Placement'' of
                JObj pl \<Rightarrow>
                  p\<lparr>pl_row := str_if_set (dict_get pl ''Row''),
                    pl_rack := str_if_set (dict_get pl ''Rack''),
                    pl_rack_u := (case dict_get pl ''RackOffset'' of JInt offset \<Rightarrow> Some offset | _ \<Rightarrow> None),
                    pl_unit_type := (case dict_get pl ''RackOffsetUnits'' of
                        JStr units \<Rightarrow> Some (if units \<in> {''EIA_310'', ''OpenU''} then units else default_unit_type)
                      | _ \<Rightarrow> Some default_unit_type)\<rparr>
              | _ \<Rightarrow> p)
      | _ \<Rightarrow> no_placement)"

section \<open>From the name of a system\<close>

text \<open>
  \<open>int(raw)\<close>: white space around it, a sign, decimal digits with single underscores between
  them.
\<close>

fun dec_digits_value :: "bool \<Rightarrow> nat \<Rightarrow> string \<Rightarrow> nat option" where
  "dec_digits_value us acc [] = (if us then None else Some acc)"
| "dec_digits_value us acc (c # s) =
     (if c = CHR ''_'' then (if us then None else dec_digits_value True acc s)
      else (case digit_value c of
              None \<Rightarrow> None
            | Some d \<Rightarrow> if d < 10 then dec_digits_value False (acc * 10 + d) s else None))"

definition py_int10 :: "string \<Rightarrow> int option" where
  "py_int10 s =
     (case py_strip s of
        [] \<Rightarrow> None
      | c # r \<Rightarrow>
          if c = CHR ''-'' then (if r = [] then None else map_option (\<lambda>n. - int n) (dec_digits_value True 0 r))
          else if c = CHR ''+'' then (if r = [] then None else map_option int (dec_digits_value True 0 r))
          else map_option int (dec_digits_value True 0 (c # r)))"

datatype loc_field = Site | Hall | Row | Rack | RackU | Height

definition VALID_FIELDS :: "(string \<times> loc_field) list" where
  "VALID_FIELDS = [(''site'', Site), (''hall'', Hall), (''row'', Row), (''rack'', Rack), (''rack_u'', RackU), (''height'', Height)]"

text \<open>\<open>_assign\<close>: the first value a field gets stays; a number that does not read is ignored.\<close>

definition keep_first :: "'a option \<Rightarrow> 'a option \<Rightarrow> 'a option" where
  "keep_first old new = (if old \<noteq> None then old else new)"

fun assign :: "loc_field \<Rightarrow> string option \<Rightarrow> placement \<Rightarrow> placement" where
  "assign Site raw p = p\<lparr>pl_site := keep_first (pl_site p) raw\<rparr>"
| "assign Hall raw p = p\<lparr>pl_hall := keep_first (pl_hall p) raw\<rparr>"
| "assign Row raw p = p\<lparr>pl_row := keep_first (pl_row p) raw\<rparr>"
| "assign Rack raw p = p\<lparr>pl_rack := keep_first (pl_rack p) raw\<rparr>"
| "assign RackU raw p = p\<lparr>pl_rack_u := keep_first (pl_rack_u p) (Option.bind raw py_int10)\<rparr>"
| "assign Height raw p = p\<lparr>pl_height_u := keep_first (pl_height_u p) (Option.bind raw py_int10)\<rparr>"

text \<open>
  The outcome of a match: an invalid pattern, no match, or what the match captured. \<open>re.match\<close>
  gives the named groups in their order, \<open>re.fullmatch\<close> the whole text and the numbered groups.
\<close>

datatype 'a re_result = ReError | NoMatch | Match 'a

record regex =
  re_match :: "string \<Rightarrow> string \<Rightarrow> (string \<times> string option) list re_result"
  re_fullmatch :: "string \<Rightarrow> string \<Rightarrow> (string \<times> string option list) re_result"

definition assign_group :: "string \<times> string option \<Rightarrow> placement \<Rightarrow> placement" where
  "assign_group g p =
     (case (snd g, map_of VALID_FIELDS (fst g)) of
        (Some raw, Some field) \<Rightarrow> assign field (Some raw) p
      | _ \<Rightarrow> p)"

fun try_name_patterns :: "regex \<Rightarrow> string \<Rightarrow> string list \<Rightarrow> placement option" where
  "try_name_patterns re host [] = None"
| "try_name_patterns re host (pattern # patterns) =
     (case re_match re pattern host of
        ReError \<Rightarrow> try_name_patterns re host patterns
      | NoMatch \<Rightarrow> try_name_patterns re host patterns
      | Match groups \<Rightarrow>
          (let p = fold assign_group groups no_placement
           in if has_location p then Some p else try_name_patterns re host patterns))"

text \<open>\<open>re.split\<close> on runs of \<open>-\<close>, \<open>_\<close> and \<open>.\<close>; empty tokens are skipped by the caller.\<close>

definition is_delimiter :: "char \<Rightarrow> bool" where
  "is_delimiter c \<longleftrightarrow> c \<in> {CHR ''-'', CHR ''_'', CHR ''.''}"

fun split_tokens :: "string \<Rightarrow> string list" where
  "split_tokens [] = [[]]"
| "split_tokens (c # s) =
     (if is_delimiter c then [] # split_tokens s
      else (case split_tokens s of [] \<Rightarrow> [[c]] | t # ts \<Rightarrow> (c # t) # ts))"

text \<open>The first rule that matches a token decides, also when its field is set already.\<close>

fun apply_rules :: "regex \<Rightarrow> string \<Rightarrow> (string \<times> string) list \<Rightarrow> placement \<Rightarrow> placement" where
  "apply_rules re token [] p = p"
| "apply_rules re token ((field, pattern) # rules) p =
     (case map_of VALID_FIELDS field of
        None \<Rightarrow> apply_rules re token rules p
      | Some f \<Rightarrow>
          (case re_fullmatch re pattern token of
             Match (group0, groups) \<Rightarrow> assign f (if groups \<noteq> [] then hd groups else Some group0) p
           | _ \<Rightarrow> apply_rules re token rules p))"

definition try_token_rules :: "regex \<Rightarrow> string \<Rightarrow> (string \<times> string) list \<Rightarrow> placement option" where
  "try_token_rules re host rules =
     (let p = fold (\<lambda>token p. if token = [] then p else apply_rules re token rules p) (split_tokens host) no_placement
      in if has_location p then Some p else None)"

record location_config =
  rack_height_u :: int
  default_system_height_u :: int
  default_unit_type :: string
  name_patterns :: "string list"
  token_rules :: "(string \<times> string) list"

definition short_host :: "string \<Rightarrow> string" where
  "short_host host =
     py_lower (if CHR ''.'' \<in> set host then hd (split_char CHR ''.'' (py_strip host)) else py_strip host)"

definition parse_hostname :: "regex \<Rightarrow> location_config \<Rightarrow> string \<Rightarrow> placement option" where
  "parse_hostname re cfg host =
     (if py_strip host = [] then None
      else
        (let short = short_host host;
             found = (case try_name_patterns re short (name_patterns cfg) of
                        Some p \<Rightarrow> Some p
                      | None \<Rightarrow> try_token_rules re short (token_rules cfg))
         in map_option (\<lambda>p.
              p\<lparr>pl_source := Some ''hostname'',
                pl_height_u := keep_first (pl_height_u p) (Some (default_system_height_u cfg)),
                pl_unit_type := keep_first (pl_unit_type p) (Some (default_unit_type cfg))\<rparr>) found))"

definition parse_system_location :: "regex \<Rightarrow> location_config \<Rightarrow> string option \<Rightarrow> string option \<Rightarrow> placement option" where
  "parse_system_location re cfg name host =
     (let try_text = (\<lambda>s. case s of None \<Rightarrow> None | Some h \<Rightarrow> if h = [] then None else parse_hostname re cfg h)
      in case try_text name of Some p \<Rightarrow> Some p | None \<Rightarrow> try_text host)"

section \<open>The stored placement\<close>

text \<open>
  The columns of a target that this part reads and writes. The inventory column is the value
  its JSON text stands for.
\<close>

record hall_target =
  ht_name :: string
  ht_host :: string
  ht_last_poll_status :: "string option"
  ht_loc :: placement
  ht_inventory :: "json option"
  ht_inventory_source :: "string option"
  ht_inventory_updated_at :: "instant option"
  ht_location_check :: "string option"

type_synonym hall_db = "(target_id, hall_target) db_table"

text \<open>Every write loads the row first: an unknown target gives \<open>None\<close>.\<close>

definition with_target ::
  "target_id \<Rightarrow> (hall_target \<Rightarrow> hall_target) \<Rightarrow> hall_db \<Rightarrow> hall_target option \<times> hall_db" where
  "with_target tid f db =
     (case map_of db tid of
        None \<Rightarrow> (None, db)
      | Some t \<Rightarrow> (Some (f t), AList.update tid (f t) db))"

definition set_target_location ::
  "target_id \<Rightarrow> placement \<Rightarrow> bool \<Rightarrow> hall_db \<Rightarrow> hall_target option \<times> hall_db" where
  "set_target_location tid p force =
     with_target tid (\<lambda>t. if \<not> force \<and> \<not> should_overwrite (pl_source (ht_loc t)) (pl_source p) then t
                          else t\<lparr>ht_loc := p\<rparr>)"

definition set_target_height :: "target_id \<Rightarrow> int \<Rightarrow> string \<Rightarrow> hall_db \<Rightarrow> hall_target option \<times> hall_db" where
  "set_target_height tid height_u source =
     with_target tid (\<lambda>t. if \<not> should_overwrite (pl_source (ht_loc t)) (Some source) then t
                          else t\<lparr>ht_loc := (ht_loc t)\<lparr>pl_height_u := Some height_u\<rparr>\<rparr>)"

definition clear_target_location :: "target_id \<Rightarrow> hall_db \<Rightarrow> hall_target option \<times> hall_db" where
  "clear_target_location tid =
     with_target tid (\<lambda>t. t\<lparr>ht_loc := no_placement\<lparr>pl_source := Some PINNED_SOURCE\<rparr>\<rparr>)"

definition set_target_inventory ::
  "target_id \<Rightarrow> json \<Rightarrow> string \<Rightarrow> string option \<Rightarrow> instant \<Rightarrow> hall_db \<Rightarrow> hall_target option \<times> hall_db" where
  "set_target_inventory tid inventory source check now =
     with_target tid (\<lambda>t. t\<lparr>ht_inventory := Some inventory, ht_inventory_source := Some source,
       ht_location_check := check, ht_inventory_updated_at := Some now\<rparr>)"

section \<open>Inventory\<close>

definition norm_text :: "string option \<Rightarrow> string option" where
  "norm_text v = (case v of None \<Rightarrow> None | Some s \<Rightarrow> (let t = py_lower (py_strip s) in if t = [] then None else Some t))"

definition check_location :: "placement option \<Rightarrow> placement option \<Rightarrow> string option" where
  "check_location name_placement redfish_placement =
     (case (name_placement, redfish_placement) of
        (Some n, Some r) \<Rightarrow>
          (let pairs = filter (\<lambda>(x, y). x \<noteq> None \<and> y \<noteq> None)
                 [(norm_text (pl_hall n), norm_text (pl_hall r)), (norm_text (pl_rack n), norm_text (pl_rack r))]
           in if pairs = [] then None
              else if list_all (\<lambda>(x, y). x = y) pairs then Some ''match'' else Some ''mismatch'')
      | _ \<Rightarrow> None)"

text \<open>What a BMC reported: the hardware fields, its placement if it has one, the chassis height.\<close>

record inventory =
  inv_fields :: "json dict"
  inv_placement :: "placement option"
  inv_height_u :: "int option"

definition json_text :: "string option \<Rightarrow> json" where
  "json_text v = (case v of None \<Rightarrow> JNull | Some s \<Rightarrow> JStr s)"

definition placement_dict :: "placement option \<Rightarrow> json" where
  "placement_dict p =
     (case p of
        None \<Rightarrow> JNull
      | Some p \<Rightarrow>
          JObj [(''hall'', json_text (pl_hall p)), (''row'', json_text (pl_row p)), (''rack'', json_text (pl_rack p)),
                (''rack_u'', (case pl_rack_u p of None \<Rightarrow> JNull | Some u \<Rightarrow> JInt u))])"

definition int_or :: "int option \<Rightarrow> int option \<Rightarrow> int option" where
  "int_or a b = (case a of Some n \<Rightarrow> if n \<noteq> 0 then Some n else b | None \<Rightarrow> b)"

definition apply_inventory ::
  "regex \<Rightarrow> location_config \<Rightarrow> instant \<Rightarrow> target_id \<Rightarrow> hall_target \<Rightarrow> inventory \<Rightarrow> hall_db \<Rightarrow> hall_db" where
  "apply_inventory re cfg now tid t iv db =
     (let name_placement = parse_system_location re cfg (Some (ht_name t)) (Some (ht_host t));
          check = check_location name_placement (inv_placement iv);
          payload = dict_update (inv_fields iv)
            [(''bmc_location'', placement_dict (inv_placement iv)), (''name_location'', placement_dict name_placement)];
          db1 = snd (set_target_inventory tid (JObj payload) ''redfish'' check now db)
      in case inv_placement iv of
           Some p \<Rightarrow> snd (set_target_location tid (p\<lparr>pl_height_u := int_or (inv_height_u iv) (pl_height_u p)\<rparr>) False db1)
         | None \<Rightarrow>
             (case inv_height_u iv of
                Some h \<Rightarrow> if h \<noteq> 0 then snd (set_target_height tid h ''redfish'' db1) else db1
              | None \<Rightarrow> db1))"

text \<open>The staleness test of the enricher; hours as microseconds.\<close>

definition is_due :: "duration \<Rightarrow> instant \<Rightarrow> hall_target \<Rightarrow> bool" where
  "is_due refresh now t =
     (case ht_inventory_updated_at t of
        None \<Rightarrow> True
      | Some u \<Rightarrow> 0 < refresh \<and> refresh \<le> now - u)"

section \<open>Operator actions\<close>

datatype http_error = Bad_Request | Not_Found

definition opt_int :: "string option \<Rightarrow> http_error + int option" where
  "opt_int raw =
     (let t = py_strip (case raw of None \<Rightarrow> [] | Some s \<Rightarrow> s)
      in if t = [] then Inr None
         else case py_int10 t of
                None \<Rightarrow> Inl Bad_Request
              | Some v \<Rightarrow> if v < 1 then Inl Bad_Request else Inr (Some v))"

definition form_text :: "string option \<Rightarrow> string option" where
  "form_text raw = (let t = py_strip (case raw of None \<Rightarrow> [] | Some s \<Rightarrow> s) in if t = [] then None else Some t)"

record placement_form =
  pf_hall :: "string option"
  pf_row :: "string option"
  pf_rack :: "string option"
  pf_rack_u :: "string option"
  pf_height :: "string option"
  pf_unit_type :: "string option"

definition form_placement :: "location_config \<Rightarrow> placement_form \<Rightarrow> http_error + placement" where
  "form_placement cfg f =
     (case opt_int (pf_rack_u f) of
        Inl e \<Rightarrow> Inl e
      | Inr rack_u \<Rightarrow>
          (case opt_int (pf_height f) of
             Inl e \<Rightarrow> Inl e
           | Inr height \<Rightarrow>
               (let p = \<lparr>pl_site = None, pl_hall = form_text (pf_hall f), pl_row = form_text (pf_row f),
                        pl_rack = form_text (pf_rack f), pl_rack_u = rack_u,
                        pl_height_u = keep_first height (Some (default_system_height_u cfg)),
                        pl_unit_type = keep_first (form_text (pf_unit_type f)) (Some (default_unit_type cfg)),
                        pl_source = Some ''manual''\<rparr>
                in if has_location p then Inr p else Inl Bad_Request)))"

definition set_placement :: "location_config \<Rightarrow> target_id \<Rightarrow> placement_form \<Rightarrow> hall_db \<Rightarrow> http_error + hall_db" where
  "set_placement cfg tid f db =
     (case form_placement cfg f of
        Inl e \<Rightarrow> Inl e
      | Inr p \<Rightarrow>
          (let (updated, db1) = set_target_location tid p True db
           in if updated = None then Inl Not_Found else Inr db1))"

definition clear_placement :: "target_id \<Rightarrow> hall_db \<Rightarrow> http_error + hall_db" where
  "clear_placement tid db =
     (let (updated, db1) = clear_target_location tid db in if updated = None then Inl Not_Found else Inr db1)"

text \<open>\<open>resolve_placements\<close>: the loop over the targets read at the start, and the number resolved.\<close>

fun resolve_each :: "regex \<Rightarrow> location_config \<Rightarrow> hall_db \<Rightarrow> nat \<times> hall_db \<Rightarrow> nat \<times> hall_db" where
  "resolve_each re cfg [] s = s"
| "resolve_each re cfg ((tid, t) # targets) (updated, db) =
     (case parse_system_location re cfg (Some (ht_name t)) (Some (ht_host t)) of
        None \<Rightarrow> resolve_each re cfg targets (updated, db)
      | Some p \<Rightarrow>
          (let (result, db1) = set_target_location tid p False db;
               counted = (case result of None \<Rightarrow> False | Some r \<Rightarrow> pl_source (ht_loc r) = Some ''hostname'')
           in resolve_each re cfg targets (if counted then Suc updated else updated, db1)))"

definition resolve_placements :: "regex \<Rightarrow> location_config \<Rightarrow> hall_db \<Rightarrow> nat \<times> hall_db" where
  "resolve_placements re cfg db = resolve_each re cfg db (0, db)"

section \<open>Automation respects the operator\<close>

text \<open>The writes that no operator placed: resolving all names, and storing an inventory.\<close>

datatype auto_write = Resolve regex location_config | Inventory regex location_config instant target_id hall_target inventory

fun run_auto :: "auto_write \<Rightarrow> hall_db \<Rightarrow> hall_db" where
  "run_auto (Resolve re cfg) db = snd (resolve_placements re cfg db)"
| "run_auto (Inventory re cfg now tid t iv) db = apply_inventory re cfg now tid t iv db"

text \<open>A BMC's placement carries the source its reader gives it.\<close>

definition auto_source :: "auto_write \<Rightarrow> bool" where
  "auto_source w \<longleftrightarrow>
     (case w of
        Resolve _ _ \<Rightarrow> True
      | Inventory _ _ _ _ _ iv \<Rightarrow> (case inv_placement iv of None \<Rightarrow> True | Some p \<Rightarrow> pl_source p = Some ''redfish''))"

text \<open>Two tables agree on a target's placement.\<close>

definition same_loc :: "target_id \<Rightarrow> hall_db \<Rightarrow> hall_db \<Rightarrow> bool" where
  "same_loc tid db db' \<longleftrightarrow> map_option ht_loc (map_of db' tid) = map_option ht_loc (map_of db tid)"

lemma ranks [simp]:
  "source_rank (Some ''hostname'') = 1" "source_rank (Some ''redfish'') = 2" "source_rank (Some ''manual'') = 3"
  "source_rank (Some PINNED_SOURCE) = 4"
  by (simp_all add: source_rank_def SOURCE_PRECEDENCE_def PINNED_SOURCE_def)

definition held :: "nat \<Rightarrow> target_id \<Rightarrow> hall_db \<Rightarrow> bool" where
  "held rank tid db \<longleftrightarrow> (\<exists>t. map_of db tid = Some t \<and> rank < source_rank (pl_source (ht_loc t)))"

lemma with_target_same_loc:
  assumes "\<And>t. tid' = tid \<Longrightarrow> map_of db tid = Some t \<Longrightarrow> ht_loc (f t) = ht_loc t"
  shows "same_loc tid db (snd (with_target tid' f db))"
  using assms by (auto simp: same_loc_def with_target_def table_simps split: option.splits)

lemma same_loc_refl [simp]: "same_loc tid db db"
  by (simp add: same_loc_def)

lemma same_loc_held: "same_loc tid db db' \<Longrightarrow> held r tid db \<Longrightarrow> held r tid db'"
  by (auto simp: same_loc_def held_def)

lemma same_loc_trans: "same_loc tid db db1 \<Longrightarrow> same_loc tid db1 db2 \<Longrightarrow> same_loc tid db db2"
  by (simp add: same_loc_def)

lemma guarded_location:
  assumes "held (source_rank (pl_source p)) tid db"
  shows "same_loc tid db (snd (set_target_location tid' p False db))"
  using assms unfolding set_target_location_def held_def
  by (intro with_target_same_loc) (auto simp: should_overwrite_def)

lemma guarded_height:
  assumes "held (source_rank (Some source)) tid db"
  shows "same_loc tid db (snd (set_target_height tid' h source db))"
  using assms unfolding set_target_height_def held_def
  by (intro with_target_same_loc) (auto simp: should_overwrite_def)

lemma inventory_keeps_loc: "same_loc tid db (snd (set_target_inventory tid' iv source check now db))"
  unfolding set_target_inventory_def by (intro with_target_same_loc) simp

lemma parsed_source:
  "parse_system_location re cfg name host = Some p \<Longrightarrow> pl_source p = Some ''hostname''"
  by (auto simp: parse_system_location_def parse_hostname_def Let_def split: option.splits if_splits)

lemma held_mono: "held r tid db \<Longrightarrow> r' \<le> r \<Longrightarrow> held r' tid db"
  by (auto simp: held_def)

lemma resolve_each_guarded:
  assumes "held 1 tid db"
  shows "same_loc tid db (snd (resolve_each re cfg targets (n, db)))"
  using assms
proof (induction targets arbitrary: n db)
  case (Cons x targets)
  obtain tid' t where x: "x = (tid', t)" by (cases x)
  show ?case
  proof (cases "parse_system_location re cfg (Some (ht_name t)) (Some (ht_host t))")
    case None
    then show ?thesis using Cons x by simp
  next
    case (Some p)
    then have "same_loc tid db (snd (set_target_location tid' p False db))"
      using Cons.prems parsed_source [OF Some] by (intro guarded_location) simp
    moreover from same_loc_held [OF this Cons.prems]
    have "held 1 tid (snd (set_target_location tid' p False db))" .
    ultimately show ?thesis
      using Cons.IH Some x by (auto simp: Let_def split: prod.splits intro: same_loc_trans)
  qed
qed simp

lemma apply_inventory_guarded:
  assumes "held 2 tid db" "\<And>p. inv_placement iv = Some p \<Longrightarrow> pl_source p = Some ''redfish''"
  shows "same_loc tid db (apply_inventory re cfg now tid' t iv db)"
proof -
  let ?name = "parse_system_location re cfg (Some (ht_name t)) (Some (ht_host t))"
  define db1 where "db1 = snd (set_target_inventory tid' (JObj (dict_update (inv_fields iv)
    [(''bmc_location'', placement_dict (inv_placement iv)), (''name_location'', placement_dict ?name)])) ''redfish''
    (check_location ?name (inv_placement iv)) now db)"
  have keep: "same_loc tid db db1" unfolding db1_def by (rule inventory_keeps_loc)
  then have held: "held 2 tid db1" using assms(1) same_loc_held by blast
  show ?thesis
  proof (cases "inv_placement iv")
    case None
    then show ?thesis
      using keep same_loc_trans [OF keep guarded_height [of "''redfish''" tid db1]] held
      by (auto simp: apply_inventory_def Let_def db1_def split: option.splits)
  next
    case (Some p)
    have "same_loc tid db1 (snd (set_target_location tid' (p\<lparr>pl_height_u := int_or (inv_height_u iv) (pl_height_u p)\<rparr>) False db1))"
      using held assms(2) [OF Some] by (intro guarded_location) simp
    from same_loc_trans [OF keep this] show ?thesis using Some by (simp add: apply_inventory_def Let_def db1_def)
  qed
qed

lemma run_auto_guarded:
  assumes "held 2 tid db" "auto_source w"
  shows "same_loc tid db (run_auto w db)"
proof (cases w)
  case (Resolve re cfg)
  then show ?thesis
    using resolve_each_guarded [of tid db] held_mono [OF assms(1), of 1] by (simp add: resolve_placements_def)
next
  case (Inventory re cfg now tid' t iv)
  then show ?thesis
    using assms by (auto simp: auto_source_def split: option.splits intro!: apply_inventory_guarded)
qed

lemma run_autos_guarded:
  assumes "held 2 tid db" "list_all auto_source ws"
  shows "same_loc tid db (fold run_auto ws db)"
  using assms
proof (induction ws arbitrary: db)
  case (Cons w ws)
  then have "same_loc tid db (run_auto w db)" by (simp add: run_auto_guarded)
  then show ?case using Cons same_loc_held same_loc_trans by fastforce
qed simp

lemma run_autos_keep:
  assumes "held 2 tid db" "map_of db tid = Some t" "list_all auto_source ws"
  shows "\<exists>t'. map_of (fold run_auto ws db) tid = Some t' \<and> ht_loc t' = ht_loc t"
  using run_autos_guarded [OF assms(1, 3)] assms(2) by (auto simp: same_loc_def)

lemma form_placement_source: "form_placement cfg f = Inr p \<Longrightarrow> pl_source p = Some ''manual''"
  by (auto simp: form_placement_def Let_def split: sum.splits if_splits)

lemma set_placement_stored:
  assumes "set_placement cfg tid f db = Inr db1"
  obtains t where "map_of db1 tid = Some t" "form_placement cfg f = Inr (ht_loc t)"
proof -
  from assms obtain p where p: "form_placement cfg f = Inr p" by (auto simp: set_placement_def split: sum.splits)
  with assms obtain t where "map_of db tid = Some t" "db1 = AList.update tid (t\<lparr>ht_loc := p\<rparr>) db"
    by (auto simp: set_placement_def set_target_location_def with_target_def split: option.splits)
  then show thesis using that [of "t\<lparr>ht_loc := p\<rparr>"] p by (simp add: table_simps)
qed

text \<open>
  (C21) What an operator decides stands: after an operator placed or cleared a system, no
  sequence of automated writes, resolutions of names and stored inventories in any order,
  changes where it is; a cleared system stays without any coordinate.
\<close>

theorem operator_placement_stands:
  assumes "list_all auto_source ws"
  shows "(set_placement cfg tid f db = Inr db1 \<longrightarrow>
      (\<exists>t. map_of (fold run_auto ws db1) tid = Some t \<and> form_placement cfg f = Inr (ht_loc t))) \<and>
    (clear_placement tid db = Inr db2 \<longrightarrow>
      (\<exists>t. map_of (fold run_auto ws db2) tid = Some t \<and> \<not> has_location (ht_loc t) \<and> pl_source (ht_loc t) = Some PINNED_SOURCE))"
proof (intro conjI impI)
  assume "set_placement cfg tid f db = Inr db1"
  then obtain t where t: "map_of db1 tid = Some t" and form: "form_placement cfg f = Inr (ht_loc t)"
    by (rule set_placement_stored)
  then have "held 2 tid db1" by (simp add: held_def form_placement_source)
  from run_autos_keep [OF this t assms] form
  show "\<exists>t. map_of (fold run_auto ws db1) tid = Some t \<and> form_placement cfg f = Inr (ht_loc t)" by metis
next
  assume "clear_placement tid db = Inr db2"
  then obtain t where t: "map_of db2 tid = Some t" and pinned: "ht_loc t = no_placement\<lparr>pl_source := Some PINNED_SOURCE\<rparr>"
    by (auto simp: clear_placement_def clear_target_location_def with_target_def Let_def table_simps split: option.splits)
  then have "held 2 tid db2" by (simp add: held_def)
  from run_autos_keep [OF this t assms] pinned
  show "\<exists>t. map_of (fold run_auto ws db2) tid = Some t \<and> \<not> has_location (ht_loc t) \<and> pl_source (ht_loc t) = Some PINNED_SOURCE"
    by (auto simp: has_location_def filled_def no_placement_def)
qed

text \<open>An example: a system placed by hand in rack 7, then an inventory that reports rack 9.\<close>

definition sample_config :: location_config where
  "sample_config = \<lparr>rack_height_u = 48, default_system_height_u = 4, default_unit_type = ''OpenU'', name_patterns = [], token_rules = []\<rparr>"

definition sample_target :: hall_target where
  "sample_target = \<lparr>ht_name = ''gpu-1'', ht_host = ''10.0.0.1'', ht_last_poll_status = None, ht_loc = no_placement,
     ht_inventory = None, ht_inventory_source = None, ht_inventory_updated_at = None, ht_location_check = None\<rparr>"

definition sample_form :: placement_form where
  "sample_form = \<lparr>pf_hall = None, pf_row = None, pf_rack = Some '' 7 '', pf_rack_u = Some ''12'', pf_height = None, pf_unit_type = None\<rparr>"

definition sample_regex :: regex where
  "sample_regex = \<lparr>re_match = \<lambda>_ _. NoMatch, re_fullmatch = \<lambda>_ _. NoMatch\<rparr>"

definition sample_inventory :: inventory where
  "sample_inventory = \<lparr>inv_fields = [], inv_placement = Some (no_placement\<lparr>pl_rack := Some ''9'', pl_source := Some ''redfish''\<rparr>),
     inv_height_u = None\<rparr>"

theorem operator_placement_stands_witness:
  "\<exists>t. map_of (fold run_auto [Inventory sample_regex sample_config 0 1 sample_target sample_inventory]
       [(1, sample_target\<lparr>ht_loc := \<lparr>pl_site = None, pl_hall = None, pl_row = None, pl_rack = Some ''7'', pl_rack_u = Some 12,
          pl_height_u = Some 4, pl_unit_type = Some ''OpenU'', pl_source = Some ''manual''\<rparr>\<rparr>)]) 1 = Some t \<and>
     pl_rack (ht_loc t) = Some ''7''"
proof -
  let ?p = "\<lparr>pl_site = None, pl_hall = None, pl_row = None, pl_rack = Some ''7'', pl_rack_u = Some 12,
     pl_height_u = Some 4, pl_unit_type = Some ''OpenU'', pl_source = Some ''manual''\<rparr>"
  have placed: "set_placement sample_config 1 sample_form [(1, sample_target)] = Inr [(1, sample_target\<lparr>ht_loc := ?p\<rparr>)]"
    by code_simp
  have form: "form_placement sample_config sample_form = Inr ?p" by code_simp
  have "list_all auto_source [Inventory sample_regex sample_config 0 1 sample_target sample_inventory]"
    by (simp add: auto_source_def sample_inventory_def)
  from operator_placement_stands [OF this, of sample_config 1 sample_form "[(1, sample_target)]"] placed form
  obtain t where "map_of (fold run_auto [Inventory sample_regex sample_config 0 1 sample_target sample_inventory]
      [(1, sample_target\<lparr>ht_loc := ?p\<rparr>)]) 1 = Some t" "Inr ?p = (Inr (ht_loc t) :: http_error + placement)"
    by (metis (no_types, lifting))
  then show ?thesis by (intro exI [of _ t]) (simp only: sum.inject placement.select_convs, metis placement.select_convs(4))
qed

end
