(* ===== verification/Data_Hall.thy ===== *)
theory Data_Hall
  imports Location
begin

text \<open>
  The data hall view: \<open>collector/src/location/placement.py\<close> (rows, natural order, the slots of
  a rack) and the view and scene model of \<open>collector/src/api/routes/datahall.py\<close>. The hover text
  of a system is left out. Floor positions are exact here, the code rounds them to millimetres.
\<close>

section \<open>Rows and natural order\<close>

definition is_letter :: "char \<Rightarrow> bool" where
  "is_letter c = (let n = (of_char c :: nat) in 65 \<le> n \<and> n \<le> 90 \<or> 97 \<le> n \<and> n \<le> 122)"

definition opt_text :: "string option \<Rightarrow> string" where
  "opt_text v = (case v of None \<Rightarrow> [] | Some s \<Rightarrow> s)"

definition derive_row :: "string option \<Rightarrow> string option \<Rightarrow> string option" where
  "derive_row loc_row rack_name =
     (let explicit = py_strip (opt_text loc_row);
          letters = takeWhile is_letter (py_strip (opt_text rack_name))
      in if explicit \<noteq> [] then Some explicit
         else if letters \<noteq> [] then Some (py_upper letters) else None)"

definition is_decimal :: "char \<Rightarrow> bool" where
  "is_decimal c = (let n = (of_char c :: nat) in 48 \<le> n \<and> n \<le> 57)"

text \<open>
  The runs of digits and of other characters, and their keys: a number by its value, a text in
  lower case, texts before numbers. Labels are ASCII here: on a superscript digit \<open>isdigit\<close> holds
  and \<open>int\<close> raises.
\<close>

function runs :: "string \<Rightarrow> string list" where
  "runs [] = []"
| "runs (c # s) =
     (let same = (\<lambda>x. is_decimal x = is_decimal c)
      in (c # takeWhile same s) # runs (dropWhile same s))"
  by pat_completeness auto
termination
  by (relation "measure length") (auto simp: le_imp_less_Suc length_dropWhile_le)

definition run_key :: "string \<Rightarrow> nat \<times> nat \<times> string" where
  "run_key part =
     (if list_all is_decimal part then (1, foldl (\<lambda>n c. 10 * n + (of_char c - 48)) 0 part, [])
      else (0, 0, py_lower part))"

definition natural_key :: "string \<Rightarrow> (nat \<times> nat \<times> string) list" where
  "natural_key name = map run_key (runs name)"

section \<open>The slots of a rack\<close>

record system_view =
  sv_id :: target_id
  sv_name :: string
  sv_host :: string
  sv_status :: string
  sv_hall :: "string option"
  sv_row :: "string option"
  sv_rack :: "string option"
  sv_rack_u :: "int option"
  sv_height :: "int option"
  sv_unit_type :: "string option"
  sv_source :: "string option"
  sv_location_check :: "string option"

definition sys_height :: "int \<Rightarrow> system_view \<Rightarrow> int" where
  "sys_height default_height s = max 1 (case int_or (sv_height s) None of Some h \<Rightarrow> h | None \<Rightarrow> default_height)"

type_synonym occupancy = "(int \<times> system_view) list"

definition free_at :: "int \<Rightarrow> occupancy \<Rightarrow> int \<Rightarrow> bool" where
  "free_at h occ u \<longleftrightarrow> list_all (\<lambda>i. u + i \<notin> fst ` set occ) [0..h - 1]"

text \<open>The search upwards from \<open>u\<close>.\<close>

function seek :: "int \<Rightarrow> int \<Rightarrow> occupancy \<Rightarrow> int \<Rightarrow> int option" where
  "seek h max_start occ u =
     (if u \<le> max_start then if free_at h occ u then Some u else seek h max_start occ (u + 1) else None)"
  by pat_completeness auto
termination
  by (relation "measure (\<lambda>(h, max_start, occ, u). nat (max_start + 1 - u))") auto

declare seek.simps [simp del]

definition first_try :: "int \<Rightarrow> int \<Rightarrow> int \<Rightarrow> int" where
  "first_try rack_height h start = min (max 1 start) (rack_height - h + 1)"

definition place :: "int \<Rightarrow> int \<Rightarrow> system_view \<Rightarrow> int \<Rightarrow> occupancy \<Rightarrow> int option \<times> occupancy" where
  "place rack_height default_height s start occ =
     (let h = sys_height default_height s
      in if rack_height < h then (None, occ)
         else case seek h (rack_height - h + 1) occ (first_try rack_height h start) of
                None \<Rightarrow> (None, occ)
              | Some u \<Rightarrow> (Some u, map (\<lambda>i. (u + i, s)) [0..h - 1] @ occ))"

type_synonym seating = "(system_view \<times> int option) list"

fun place_all :: "int \<Rightarrow> int \<Rightarrow> (system_view \<times> int) list \<Rightarrow> occupancy \<times> seating \<Rightarrow> occupancy \<times> seating" where
  "place_all rack_height default_height [] (occ, seats) = (occ, seats)"
| "place_all rack_height default_height ((s, start) # ss) (occ, seats) =
     (let (start_u, occ1) = place rack_height default_height s start occ
      in place_all rack_height default_height ss (occ1, seats @ [(s, start_u)]))"

definition has_rack_u :: "system_view \<Rightarrow> bool" where
  "has_rack_u s \<longleftrightarrow> int_or (sv_rack_u s) None \<noteq> None"

definition placing_order :: "system_view list \<Rightarrow> (system_view \<times> int) list" where
  "placing_order systems =
     map (\<lambda>s. (s, the (sv_rack_u s))) (sort_key (\<lambda>s. the (sv_rack_u s)) (filter has_rack_u systems)) @
     map (\<lambda>s. (s, 1)) (filter (\<lambda>s. \<not> has_rack_u s) systems)"

definition assign_slots :: "system_view list \<Rightarrow> int \<Rightarrow> int \<Rightarrow> occupancy \<times> seating" where
  "assign_slots systems rack_height default_height = place_all rack_height default_height (placing_order systems) ([], [])"

section \<open>The view\<close>

definition UNKNOWN_HALL :: string where
  "UNKNOWN_HALL = ''Unassigned Hall''"

definition UNKNOWN_ROW :: string where
  "UNKNOWN_ROW = ''Unassigned Row''"

definition text_or :: "string \<Rightarrow> string \<Rightarrow> string" where
  "text_or a b = (if a = [] then b else a)"

definition view_of :: "target_id \<times> hall_target \<Rightarrow> system_view" where
  "view_of r =
     (let t = snd r; l = ht_loc t
      in \<lparr>sv_id = fst r, sv_name = ht_name t, sv_host = ht_host t,
          sv_status = text_or (opt_text (ht_last_poll_status t)) ''pending'',
          sv_hall = pl_hall l, sv_row = pl_row l, sv_rack = pl_rack l, sv_rack_u = pl_rack_u l, sv_height = pl_height_u l,
          sv_unit_type = pl_unit_type l, sv_source = pl_source l, sv_location_check = ht_location_check t\<rparr>)"

text \<open>\<open>d.setdefault(k, v0)\<close> followed by a change of the entry; a dictionary keeps insertion order.\<close>

fun setdefault :: "'k \<Rightarrow> 'v \<Rightarrow> ('v \<Rightarrow> 'v) \<Rightarrow> ('k \<times> 'v) list \<Rightarrow> ('k \<times> 'v) list" where
  "setdefault k v0 f [] = [(k, f v0)]"
| "setdefault k v0 f ((k', v) # d) = (if k = k' then (k', f v) # d else (k', v) # setdefault k v0 f d)"

type_synonym 'a grouped = "(string \<times> (string \<times> (string \<times> 'a) list) list) list"

definition add_system :: "target_id \<times> hall_target \<Rightarrow> system_view list grouped \<Rightarrow> system_view list grouped" where
  "add_system r halls =
     (let l = ht_loc (snd r);
          hall_name = text_or (py_strip (opt_text (pl_hall l))) UNKNOWN_HALL;
          rack_name = py_strip (opt_text (pl_rack l));
          row_name = text_or (opt_text (derive_row (pl_row l) (Some rack_name))) UNKNOWN_ROW
      in setdefault hall_name [] (setdefault row_name [] (setdefault rack_name [] (\<lambda>ss. ss @ [view_of r]))) halls)"

definition is_placed :: "target_id \<times> hall_target \<Rightarrow> bool" where
  "is_placed r \<longleftrightarrow> py_strip (opt_text (pl_rack (ht_loc (snd r)))) \<noteq> []"

record rack_slot =
  slot_u :: int
  slot_system :: "system_view option"
  slot_is_start :: bool

record rack_view =
  rv_systems :: "(system_view \<times> int option) list"
  rv_slots :: "rack_slot list"
  rv_overflow :: "system_view list"

definition seat_of :: "seating \<Rightarrow> system_view \<Rightarrow> int option" where
  "seat_of seats s = (case find (\<lambda>seat. sv_id (fst seat) = sv_id s) seats of None \<Rightarrow> None | Some seat \<Rightarrow> snd seat)"

definition rack_of :: "int \<Rightarrow> int \<Rightarrow> system_view list \<Rightarrow> rack_view" where
  "rack_of rack_height default_height systems =
     (let (occ, seats) = assign_slots systems rack_height default_height
      in \<lparr>rv_systems = map (\<lambda>s. (s, seat_of seats s)) systems,
          rv_slots = map (\<lambda>u. \<lparr>slot_u = u, slot_system = map_of occ u,
              slot_is_start = (case map_of occ u of None \<Rightarrow> False | Some s \<Rightarrow> seat_of seats s = Some u)\<rparr>) (rev [1..rack_height]),
          rv_overflow = filter (\<lambda>s. seat_of seats s = None) systems\<rparr>)"

definition sort_named :: "(string \<times> 'a) list \<Rightarrow> (string \<times> 'a) list" where
  "sort_named = sort_key (\<lambda>x. natural_key (fst x))"

definition map_vals :: "('a \<Rightarrow> 'b) \<Rightarrow> ('k \<times> 'a) list \<Rightarrow> ('k \<times> 'b) list" where
  "map_vals f = map (map_prod id f)"

record hall_stats =
  hs_total :: nat
  hs_placed :: nat
  hs_unplaced :: nat
  hs_halls :: nat
  hs_racks :: nat

definition build_view :: "hall_db \<Rightarrow> int \<Rightarrow> int \<Rightarrow> rack_view grouped \<times> system_view list \<times> hall_stats" where
  "build_view targets rack_height default_height =
     (let placed = filter is_placed targets;
          unplaced = filter (\<lambda>r. \<not> is_placed r) targets;
          halls = fold add_system placed [];
          hall_list = map_vals (\<lambda>rows. map_vals (\<lambda>racks. map_vals (rack_of rack_height default_height) (sort_named racks))
            (sort_named rows)) (sort_named halls);
          rack_count = sum_list (map (\<lambda>(_, rows). sum_list (map (\<lambda>(_, racks). length racks) rows)) hall_list)
      in (hall_list, map view_of unplaced,
          \<lparr>hs_total = length targets, hs_placed = length placed, hs_unplaced = length unplaced, hs_halls = length hall_list,
           hs_racks = rack_count\<rparr>))"

section \<open>The scene\<close>

record scene_system =
  ss_id :: target_id
  ss_name :: string
  ss_host :: string
  ss_status :: string
  ss_start_u :: int
  ss_height_u :: int
  ss_unit_type :: string
  ss_location_check :: "string option"

record scene_overflow =
  so_id :: target_id
  so_name :: string
  so_host :: string
  so_status :: string
  so_location :: string

record scene_unplaced =
  su_id :: target_id
  su_name :: string
  su_host :: string
  su_status :: string

record scene_rack =
  sr_hall :: string
  sr_row :: string
  sr_rack :: string
  sr_row_index :: nat
  sr_rack_index :: nat
  sr_x :: rat
  sr_z :: rat
  sr_systems :: "scene_system list"
  sr_overflow :: nat

record scene =
  sc_halls :: "string list"
  sc_racks :: "scene_rack list"
  sc_unplaced :: "scene_unplaced list"
  sc_overflow :: "scene_overflow list"
  sc_rack_height_u :: int
  sc_default_height_u :: int
  sc_counts :: hall_stats
  sc_default_unit_type :: string
  sc_unknown_hall :: string
  sc_unknown_row :: string

definition RACK_PITCH_M :: rat where
  "RACK_PITCH_M = 8 / 10"

definition ROW_PITCH_M :: rat where
  "ROW_PITCH_M = 22 / 10"

definition scene_system_of :: "int \<Rightarrow> string \<Rightarrow> system_view \<Rightarrow> int \<Rightarrow> scene_system" where
  "scene_system_of default_height default_type s u =
     \<lparr>ss_id = sv_id s, ss_name = sv_name s, ss_host = sv_host s, ss_status = sv_status s, ss_start_u = u,
      ss_height_u = (case int_or (sv_height s) None of Some h \<Rightarrow> h | None \<Rightarrow> default_height),
      ss_unit_type = text_or (opt_text (sv_unit_type s)) default_type, ss_location_check = sv_location_check s\<rparr>"

definition scene_rack_of ::
  "int \<Rightarrow> string \<Rightarrow> string \<Rightarrow> nat \<times> string \<Rightarrow> nat \<times> string \<times> rack_view \<Rightarrow> scene_rack \<times> scene_overflow list" where
  "scene_rack_of default_height default_type hall row rack =
     (let (row_index, row_name) = row; (rack_index, rack_name, rv) = rack
      in (\<lparr>sr_hall = hall, sr_row = row_name, sr_rack = rack_name, sr_row_index = row_index, sr_rack_index = rack_index,
           sr_x = of_nat rack_index * RACK_PITCH_M, sr_z = of_nat row_index * ROW_PITCH_M,
           sr_systems = List.map_filter (\<lambda>(s, st). map_option (scene_system_of default_height default_type s) st) (rv_systems rv),
           sr_overflow = length (rv_overflow rv)\<rparr>,
          map (\<lambda>s. \<lparr>so_id = sv_id s, so_name = sv_name s, so_host = sv_host s, so_status = sv_status s,
             so_location = hall @ '' / '' @ row_name @ '' / '' @ rack_name\<rparr>) (rv_overflow rv)))"

definition build_layout :: "hall_db \<Rightarrow> int \<Rightarrow> string \<Rightarrow> int \<Rightarrow> scene" where
  "build_layout targets rack_height default_type default_height =
     (let (hall_list, unplaced, stats) = build_view targets rack_height default_height;
          drawn = concat (map (\<lambda>(hall, rows). concat (map (\<lambda>(row_index, row_name, racks).
            map (scene_rack_of default_height default_type hall (row_index, row_name)) (enumerate 0 racks))
            (enumerate 0 rows))) hall_list)
      in \<lparr>sc_halls = map fst hall_list, sc_racks = map fst drawn,
          sc_unplaced = map (\<lambda>u. \<lparr>su_id = sv_id u, su_name = sv_name u, su_host = sv_host u, su_status = sv_status u\<rparr>) unplaced,
          sc_overflow = concat (map snd drawn), sc_rack_height_u = rack_height, sc_default_height_u = default_height,
          sc_counts = stats, sc_default_unit_type = default_type, sc_unknown_hall = UNKNOWN_HALL, sc_unknown_row = UNKNOWN_ROW\<rparr>)"

section \<open>Seating is sound\<close>

lemma free_at_iff: "free_at h occ u \<longleftrightarrow> (\<forall>v. u \<le> v \<and> v < u + h \<longrightarrow> v \<notin> fst ` set occ)"
proof
  assume free: "free_at h occ u"
  have "u + (v - u) \<notin> fst ` set occ" if "u \<le> v" "v < u + h" for v
    using free that unfolding free_at_def list_all_iff by (intro bspec [where x = "v - u"]) auto
  then show "\<forall>v. u \<le> v \<and> v < u + h \<longrightarrow> v \<notin> fst ` set occ" by simp
next
  assume "\<forall>v. u \<le> v \<and> v < u + h \<longrightarrow> v \<notin> fst ` set occ"
  then show "free_at h occ u" unfolding free_at_def list_all_iff by simp
qed

lemma free_at_subset: "fst ` set occ \<subseteq> fst ` set occ' \<Longrightarrow> free_at h occ' u \<Longrightarrow> free_at h occ u"
  unfolding free_at_iff by blast

lemma seek_Some: "seek h ms occ u = Some v \<Longrightarrow> u \<le> v \<and> v \<le> ms \<and> free_at h occ v"
proof (induction h ms occ u rule: seek.induct)
  case (1 h ms occ u)
  show ?case
  proof (cases "u \<le> ms \<and> \<not> free_at h occ u")
    case True
    then show ?thesis using 1 by (simp add: seek.simps [of h ms occ u])
  next
    case False
    then show ?thesis using 1(2) by (auto simp: seek.simps [of h ms occ u] split: if_splits)
  qed
qed

lemma seek_None: "seek h ms occ u = None \<Longrightarrow> u \<le> v \<Longrightarrow> v \<le> ms \<Longrightarrow> \<not> free_at h occ v"
proof (induction h ms occ u rule: seek.induct)
  case (1 h ms occ u)
  have le: "u \<le> ms" using 1(3, 4) by simp
  have nf: "\<not> free_at h occ u" using 1(2) le by (subst (asm) seek.simps) (simp split: if_splits)
  have "seek h ms occ (u + 1) = None" using 1(2) le nf by (subst (asm) seek.simps) simp
  then show ?case using 1(1) [OF le nf] 1(3, 4) nf by (cases "u = v") simp_all
qed

text \<open>
  The occupied units are those of the seated systems, each unit once, all inside the rack; a
  system without a seat has no free place at or above its first unit.
\<close>

definition covers :: "int \<Rightarrow> system_view \<times> int option \<Rightarrow> int \<Rightarrow> bool" where
  "covers dh seat u \<longleftrightarrow> (\<exists>st. snd seat = Some st \<and> st \<le> u \<and> u < st + sys_height dh (fst seat))"

definition asked :: "system_view \<Rightarrow> int" where
  "asked s = (if has_rack_u s then the (sv_rack_u s) else 1)"

definition no_place :: "int \<Rightarrow> int \<Rightarrow> occupancy \<Rightarrow> system_view \<Rightarrow> bool" where
  "no_place H dh occ s \<longleftrightarrow>
     (\<forall>v. 1 \<le> v \<and> first_try H (sys_height dh s) (asked s) \<le> v \<and> v + sys_height dh s - 1 \<le> H \<longrightarrow>
       \<not> free_at (sys_height dh s) occ v)"

definition rack_inv :: "int \<Rightarrow> int \<Rightarrow> occupancy \<Rightarrow> seating \<Rightarrow> bool" where
  "rack_inv H dh occ seats \<longleftrightarrow>
     distinct (map fst occ) \<and>
     (\<forall>u s. (u, s) \<in> set occ \<longleftrightarrow> (\<exists>seat \<in> set seats. fst seat = s \<and> covers dh seat u)) \<and>
     (\<forall>u \<in> fst ` set occ. 1 \<le> u \<and> u \<le> H) \<and>
     (\<forall>s. (s, None) \<in> set seats \<longrightarrow> no_place H dh occ s)"

lemma sys_height_pos: "1 \<le> sys_height dh s"
  by (simp add: sys_height_def)

lemma place_cases:
  assumes "place H dh s start occ = (st, occ')"
  obtains (seated) u where "st = Some u" "occ' = map (\<lambda>i. (u + i, s)) [0..sys_height dh s - 1] @ occ"
      "1 \<le> u" "u + sys_height dh s - 1 \<le> H" "free_at (sys_height dh s) occ u"
  | (full) "st = None" "occ' = occ"
      "\<And>v. 1 \<le> v \<Longrightarrow> first_try H (sys_height dh s) start \<le> v \<Longrightarrow> v + sys_height dh s - 1 \<le> H \<Longrightarrow>
         \<not> free_at (sys_height dh s) occ v"
proof -
  let ?h = "sys_height dh s"
  let ?found = "seek ?h (H - ?h + 1) occ (first_try H ?h start)"
  consider "H < ?h" | "?h \<le> H" "?found = None" | u where "?h \<le> H" "?found = Some u" by fastforce
  then show thesis
  proof cases
    case 1
    then show thesis using assms full by (auto simp: place_def)
  next
    case 2
    then show thesis using assms full seek_None [OF 2(2)] by (auto simp: place_def)
  next
    case 3
    from seek_Some [OF 3(2)] have "1 \<le> u" "u + ?h - 1 \<le> H" using 3(1) by (auto simp: first_try_def)
    moreover have "st = Some u" "occ' = map (\<lambda>i. (u + i, s)) [0..?h - 1] @ occ" using assms 3 by (auto simp: place_def)
    ultimately show thesis using seated seek_Some [OF 3(2)] by blast
  qed
qed

lemma covered_units:
  "(v, t) \<in> set (map (\<lambda>i. (u + i, s)) [0..sys_height dh s - 1]) \<longleftrightarrow> t = s \<and> covers dh (s, Some u) v"
proof -
  have "(\<exists>x \<in> {0..sys_height dh s - 1}. v = u + x) \<longleftrightarrow> u \<le> v \<and> v < u + sys_height dh s"
    by (auto intro!: bexI [of _ "v - u"])
  then show ?thesis by (auto simp: covers_def image_iff)
qed

lemma no_place_grows: "no_place H dh occ s \<Longrightarrow> fst ` set occ \<subseteq> fst ` set occ' \<Longrightarrow> no_place H dh occ' s"
  unfolding no_place_def using free_at_subset by blast

lemma place_keeps_inv:
  assumes inv: "rack_inv H dh occ seats" and place: "place H dh s (asked s) occ = (st, occ')"
  shows "rack_inv H dh occ' (seats @ [(s, st)])"
  using place
proof (cases rule: place_cases)
  case (seated u)
  let ?new = "map (\<lambda>i. (u + i, s)) [0..sys_height dh s - 1]"
  have range: "v \<in> fst ` set ?new \<longleftrightarrow> u \<le> v \<and> v < u + sys_height dh s" for v
    using covered_units [of v s u s dh] by (force simp: covers_def)
  have "distinct (map fst ?new)" by (simp add: comp_def distinct_map inj_on_def)
  moreover have "fst ` set ?new \<inter> fst ` set occ = {}" using seated(5) range unfolding free_at_iff by blast
  moreover have "distinct (map fst occ)" using inv by (simp add: rack_inv_def)
  ultimately have "distinct (map fst occ')"
    unfolding seated(2) map_append distinct_append by (simp only: set_map)
  moreover have "(v, t) \<in> set occ' \<longleftrightarrow> (\<exists>seat \<in> set (seats @ [(s, st)]). fst seat = t \<and> covers dh seat v)" for v t
    using inv covered_units [of v t u s dh] by (auto simp: seated(1, 2) rack_inv_def)
  moreover have "1 \<le> v \<and> v \<le> H" if "v \<in> fst ` set occ'" for v
    using that inv seated(3, 4) range [of v] by (auto simp: seated(2) rack_inv_def image_Un)
  moreover have "no_place H dh occ' t" if "(t, None) \<in> set (seats @ [(s, st)])" for t
  proof (rule no_place_grows)
    have "(t, None) \<in> set seats" using that seated(1) by auto
    then show "no_place H dh occ t" using inv unfolding rack_inv_def by blast
    show "fst ` set occ \<subseteq> fst ` set occ'" by (auto simp: seated(2))
  qed
  ultimately show ?thesis unfolding rack_inv_def by blast
next
  case full
  then show ?thesis using inv by (auto simp: rack_inv_def no_place_def covers_def)
qed

lemma place_all_inv:
  assumes "rack_inv H dh occ seats" "list_all (\<lambda>(s, start). start = asked s) ss" "place_all H dh ss (occ, seats) = (occ', seats')"
  shows "rack_inv H dh occ' seats' \<and> map fst seats' = map fst seats @ map fst ss"
  using assms
proof (induction ss arbitrary: occ seats)
  case (Cons x ss)
  obtain s start where x: "x = (s, start)" by (cases x)
  obtain st occ1 where p: "place H dh s start occ = (st, occ1)" by (cases "place H dh s start occ")
  have "rack_inv H dh occ1 (seats @ [(s, st)])" using Cons.prems x p by (auto intro: place_keeps_inv)
  from Cons.IH [OF this] Cons.prems x p show ?case by simp
qed simp

lemma asked_order: "list_all (\<lambda>(s, start). start = asked s) (placing_order systems)"
  by (auto simp: placing_order_def list_all_iff asked_def)

lemma mset_placing_order: "mset (map fst (placing_order systems)) = mset systems"
  by (simp add: placing_order_def comp_def flip: multiset_partition)

lemma assign_slots_inv:
  assumes "assign_slots systems H dh = (occ, seats)"
  shows "rack_inv H dh occ seats" "mset (map fst seats) = mset systems"
proof -
  have "rack_inv H dh [] []" by (simp add: rack_inv_def)
  from place_all_inv [OF this asked_order assms [unfolded assign_slots_def]]
  show "rack_inv H dh occ seats" "mset (map fst seats) = mset systems" by (simp_all add: mset_placing_order flip: mset_map)
qed

text \<open>
  Seating in a rack is sound. Every system gets a seat or is left over, exactly once;
  the units of a seated system lie inside the rack and belong to it alone, and an occupied
  unit belongs to a seated system. A system is left over only if no run of free units of its
  height starts at or above the unit it asked for; below that unit there may be one.
\<close>

lemma rack_seating_sound:
  assumes "assign_slots systems H dh = (occ, seats)"
  shows "mset (map fst seats) = mset systems \<and>
    (\<forall>s u. (s, Some u) \<in> set seats \<longrightarrow> 1 \<le> u \<and> u + sys_height dh s - 1 \<le> H \<and>
      (\<forall>v. u \<le> v \<and> v < u + sys_height dh s \<longrightarrow> map_of occ v = Some s)) \<and>
    (\<forall>v s. map_of occ v = Some s \<longrightarrow> (\<exists>u. (s, Some u) \<in> set seats \<and> u \<le> v \<and> v < u + sys_height dh s)) \<and>
    (\<forall>s v. (s, None) \<in> set seats \<and> 1 \<le> v \<and> (has_rack_u s \<longrightarrow> the (sv_rack_u s) \<le> v) \<and> v + sys_height dh s - 1 \<le> H \<longrightarrow>
      (\<exists>w. v \<le> w \<and> w < v + sys_height dh s \<and> map_of occ w \<noteq> None))"
proof (intro conjI allI impI)
  note inv = assign_slots_inv [OF assms]
  then have d: "distinct (map fst occ)"
    and occ: "\<And>u s. (u, s) \<in> set occ \<longleftrightarrow> (\<exists>seat \<in> set seats. fst seat = s \<and> covers dh seat u)"
    and bound: "\<And>u. u \<in> fst ` set occ \<Longrightarrow> 1 \<le> u \<and> u \<le> H"
    and left: "\<And>s. (s, None) \<in> set seats \<Longrightarrow> no_place H dh occ s"
    unfolding rack_inv_def by blast+
  show "mset (map fst seats) = mset systems" by (rule inv)
  fix s u
  {
    assume seat: "(s, Some u) \<in> set seats"
    have covered: "(v, s) \<in> set occ" if "u \<le> v" "v < u + sys_height dh s" for v
      using seat that occ [of v s] by (auto simp: covers_def)
    then show "map_of occ v = Some s" if "u \<le> v \<and> v < u + sys_height dh s" for v
      using that d by (simp add: map_of_eq_Some_iff)
    show "1 \<le> u" "u + sys_height dh s - 1 \<le> H"
      using covered [of u] covered [of "u + sys_height dh s - 1"] bound sys_height_pos [of dh s] by force+
  }
next
  fix v s
  note inv = assign_slots_inv [OF assms]
  assume "map_of occ v = Some s"
  then have "(v, s) \<in> set occ" by (rule map_of_SomeD)
  then obtain seat where "seat \<in> set seats" "fst seat = s" "covers dh seat v" using inv(1) unfolding rack_inv_def by blast
  then show "\<exists>u. (s, Some u) \<in> set seats \<and> u \<le> v \<and> v < u + sys_height dh s"
    unfolding covers_def by (metis prod.collapse)
next
  fix s v
  note inv = assign_slots_inv [OF assms]
  assume v: "(s, None) \<in> set seats \<and> 1 \<le> v \<and> (has_rack_u s \<longrightarrow> the (sv_rack_u s) \<le> v) \<and> v + sys_height dh s - 1 \<le> H"
  then have "no_place H dh occ s" using inv(1) unfolding rack_inv_def by blast
  moreover have "first_try H (sys_height dh s) (asked s) \<le> v" using v by (auto simp: first_try_def asked_def min_le_iff_disj)
  ultimately have "\<not> free_at (sys_height dh s) occ v" using v by (auto simp: no_place_def)
  then show "\<exists>w. v \<le> w \<and> w < v + sys_height dh s \<and> map_of occ w \<noteq> None"
    by (auto simp: free_at_iff map_of_eq_None_iff)
qed

text \<open>A rack of eight units: a system asking for the top finds it taken and is left over, units 1 to 4 are free.\<close>

definition sample_system :: "target_id \<Rightarrow> int option \<Rightarrow> system_view" where
  "sample_system tid u = (view_of (tid, sample_target))\<lparr>sv_rack_u := u\<rparr>"

lemma rack_seating_sound_witness:
  "\<exists>w. 5 \<le> w \<and> w < 9 \<and> map_of (fst (assign_slots [sample_system 1 (Some 5), sample_system 2 (Some 5)] 8 4)) w \<noteq> None"
proof -
  let ?s = "sample_system 2 (Some 5)"
  have seats: "assign_slots [sample_system 1 (Some 5), ?s] 8 4 =
     ([(5, sample_system 1 (Some 5)), (6, sample_system 1 (Some 5)), (7, sample_system 1 (Some 5)), (8, sample_system 1 (Some 5))],
      [(sample_system 1 (Some 5), Some 5), (?s, None)])"
    by code_simp
  have "sys_height 4 ?s = 4" "the (sv_rack_u ?s) = 5" by code_simp+
  then show ?thesis
    using conjunct2 [OF conjunct2 [OF conjunct2 [OF rack_seating_sound [OF seats]]], rule_format, of ?s 5] by (simp add: seats)
qed

section \<open>Nothing vanishes from the scene\<close>

text \<open>A measure summed over the entries of a dictionary.\<close>

definition summed :: "('v \<Rightarrow> 'm::comm_monoid_add) \<Rightarrow> ('k \<times> 'v) list \<Rightarrow> 'm" where
  "summed m d = sum_list (map (m \<circ> snd) d)"

lemma summed_simps [simp]:
  "summed m [] = 0" "summed m (x # d) = m (snd x) + summed m d"
  by (simp_all add: summed_def)

lemma summed_map_vals [simp]: "summed m (map_vals f d) = summed (\<lambda>v. m (f v)) d"
  by (simp add: summed_def map_vals_def comp_def)

lemma summed_setdefault:
  assumes "\<And>v. m (f v) = m v + x" "m v0 = 0"
  shows "summed m (setdefault k v0 f d) = summed m d + x"
  using assms by (induction d) (auto simp: ac_simps)

lemma summed_sort_named [simp]: "summed m (sort_named d) = summed m d"
  unfolding summed_def sort_named_def
  by (simp flip: sum_mset_sum_list)

definition grouped_sum :: "('v \<Rightarrow> 'm::comm_monoid_add) \<Rightarrow> 'v grouped \<Rightarrow> 'm" where
  "grouped_sum m = summed (summed (summed m))"

lemma grouped_add_system:
  "grouped_sum (mset \<circ> map sv_id) (add_system r halls) = grouped_sum (mset \<circ> map sv_id) halls + {#fst r#}"
  unfolding grouped_sum_def add_system_def Let_def
  by (intro summed_setdefault) (simp_all add: view_of_def Let_def)

lemma grouped_add_systems:
  "grouped_sum (mset \<circ> map sv_id) (fold add_system rs halls) = grouped_sum (mset \<circ> map sv_id) halls + mset (map fst rs)"
  by (induction rs arbitrary: halls) (simp_all add: grouped_add_system)

text \<open>The systems a rack shows: the seated ones and those left over.\<close>

definition rack_ids :: "rack_view \<Rightarrow> target_id multiset" where
  "rack_ids rv = mset (map (sv_id \<circ> fst) (filter (\<lambda>x. snd x \<noteq> None) (rv_systems rv))) + mset (map sv_id (rv_overflow rv))"

lemma rack_ids_of: "rack_ids (rack_of H dh systems) = mset (map sv_id systems)"
proof -
  obtain occ seats where seats: "assign_slots systems H dh = (occ, seats)" by (cases "assign_slots systems H dh")
  have "mset (map (sv_id \<circ> fst) (filter (\<lambda>x. snd x \<noteq> None) (map (\<lambda>s. (s, seat_of seats s)) xs))) +
      mset (map sv_id (filter (\<lambda>s. seat_of seats s = None) xs)) = mset (map sv_id xs)" for xs
    by (induction xs) auto
  then show ?thesis by (simp add: rack_ids_def rack_of_def seats)
qed

lemma view_ids:
  assumes "build_view targets H dh = (hall_list, unplaced, stats)"
  shows "grouped_sum rack_ids hall_list + mset (map sv_id unplaced) = mset (map fst targets)"
proof -
  let ?placed = "filter is_placed targets" and ?unplaced = "filter (\<lambda>r. \<not> is_placed r) targets"
  have hl: "hall_list = map_vals (\<lambda>rows. map_vals (\<lambda>racks. map_vals (rack_of H dh) (sort_named racks)) (sort_named rows))
      (sort_named (fold add_system ?placed []))" and un: "unplaced = map view_of ?unplaced"
    using assms by (auto simp: build_view_def Let_def)
  have "grouped_sum rack_ids hall_list = grouped_sum (mset \<circ> map sv_id) (fold add_system ?placed [])"
    by (simp add: hl grouped_sum_def comp_def rack_ids_of)
  also have "\<dots> = mset (map fst ?placed)" by (simp only: grouped_add_systems) (simp add: grouped_sum_def)
  finally have "grouped_sum rack_ids hall_list = mset (map fst ?placed)" .
  moreover have "mset (map sv_id unplaced) = mset (map fst ?unplaced)" by (simp add: un comp_def view_of_def Let_def)
  moreover have "mset (map fst ?placed) + mset (map fst ?unplaced) = mset (map fst targets)" by (induction targets) auto
  ultimately show ?thesis by simp
qed

definition scene_ids :: "scene_rack \<times> scene_overflow list \<Rightarrow> target_id multiset" where
  "scene_ids x = mset (map ss_id (sr_systems (fst x))) + mset (map so_id (snd x))"

lemma scene_rack_ids: "scene_ids (scene_rack_of dh ty hall row rack) = rack_ids (snd (snd rack))"
proof -
  obtain ri rn ki kn rv where r: "row = (ri, rn)" "rack = (ki, kn, rv)" by (cases row; cases rack) auto
  have "map ss_id (List.map_filter (\<lambda>(s, st). map_option (scene_system_of dh ty s) st) xs) =
      map (sv_id \<circ> fst) (filter (\<lambda>x. snd x \<noteq> None) xs)" for xs
    by (induction xs) (auto simp: List.map_filter_simps scene_system_of_def split: option.splits)
  then show ?thesis by (simp add: r scene_rack_of_def scene_ids_def rack_ids_def comp_def)
qed

lemma sum_list_concat: "sum_list (map f (concat xss)) = sum_list (map (\<lambda>xs. sum_list (map f xs)) xss)"
  by (induction xss) auto

lemma sum_enumerate: "sum_list (map (\<lambda>x. f (snd x)) (enumerate n xs)) = sum_list (map f xs)"
  by (induction xs arbitrary: n) auto

lemma drawn_ids:
  "mset (map ss_id (concat (map sr_systems (map fst drawn)))) + mset (map so_id (concat (map snd drawn))) =
     sum_list (map scene_ids drawn)"
  by (induction drawn) (auto simp: scene_ids_def)

text \<open>
  (C22) Every system is shown exactly once: in a rack of the scene, in the list of those that
  did not fit, or in the tray of unplaced ones.
\<close>

theorem every_system_shown_once:
  "mset (map ss_id (concat (map sr_systems (sc_racks (build_layout targets H ty dh))))) +
   mset (map so_id (sc_overflow (build_layout targets H ty dh))) +
   mset (map su_id (sc_unplaced (build_layout targets H ty dh))) = mset (map fst targets)"
proof -
  obtain hall_list unplaced stats where v: "build_view targets H dh = (hall_list, unplaced, stats)"
    by (cases "build_view targets H dh") auto
  define drawn where "drawn = concat (map (\<lambda>(hall, rows). concat (map (\<lambda>(row_index, row_name, racks).
    map (scene_rack_of dh ty hall (row_index, row_name)) (enumerate 0 racks)) (enumerate 0 rows))) hall_list)"
  have racks: "(\<Sum>x\<leftarrow>enumerate 0 racks. scene_ids (scene_rack_of dh ty hall row x)) = summed rack_ids racks" for hall row racks
    using sum_enumerate [of "\<lambda>x. rack_ids (snd x)" 0 racks] by (simp add: scene_rack_ids summed_def comp_def)
  have rows: "(\<Sum>x\<leftarrow>enumerate 0 rows. summed rack_ids (snd (snd x))) = summed (summed rack_ids) rows" for rows :: "(string \<times> (string \<times> rack_view) list) list"
    using sum_enumerate [of "\<lambda>x. summed rack_ids (snd x)" 0 rows] by (simp add: summed_def comp_def)
  have "sum_list (map scene_ids drawn) = grouped_sum rack_ids hall_list"
    unfolding drawn_def grouped_sum_def
    by (simp add: sum_list_concat comp_def case_prod_beta racks rows summed_def [of "summed (summed rack_ids)"])
  then have "mset (map ss_id (concat (map sr_systems (map fst drawn)))) + mset (map so_id (concat (map snd drawn))) =
      grouped_sum rack_ids hall_list" by (simp only: drawn_ids)
  moreover have "sc_racks (build_layout targets H ty dh) = map fst drawn"
    "sc_overflow (build_layout targets H ty dh) = concat (map snd drawn)"
    "map su_id (sc_unplaced (build_layout targets H ty dh)) = map sv_id unplaced"
    by (simp_all add: build_layout_def v drawn_def Let_def)
  ultimately show ?thesis using view_ids [OF v] by simp
qed

end
