(* ===== verification/Log_Collection.thy ===== *)
theory Log_Collection
  imports Py_Json Py_Time
begin

text \<open>
  Diagnostic log bundles: the records of the repository (\<open>collected_logs\<close>), the collector
  \<open>collector/src/log_collector.py\<close> and the policy that collects on a fatal event,
  \<open>collector/src/policy/engine.py\<close>. A collection has the steps of its transactions: its start,
  which takes the lock of the target and creates the record; the storing of the bundle, or of
  the error; the removal of older bundles. What the BMC delivered is an argument, any operation
  may happen in between, and a collection may be cut off at any point. Bundles on disk are the
  list of their paths.
\<close>

section \<open>Records\<close>

record collected_log =
  cl_target_id :: target_id
  cl_target_name :: string
  cl_target_host :: string
  cl_filename :: string
  cl_file_path :: string
  cl_file_size_bytes :: "int option"
  cl_status :: string
  cl_error_message :: "string option"
  cl_duration_ms :: "rat option"
  cl_trigger :: string
  cl_trigger_message_id :: "string option"
  cl_collected_at :: instant

type_synonym log_table = "(int, collected_log) db_table"

text \<open>An integer primary key gets the next value after the greatest one in the table.\<close>

definition new_log_id :: "log_table \<Rightarrow> int" where
  "new_log_id logs = Max (set (0 # map fst logs)) + 1"

definition create_collected_log :: "collected_log \<Rightarrow> log_table \<Rightarrow> int \<times> log_table" where
  "create_collected_log r logs = (new_log_id logs, logs @ [(new_log_id logs, r)])"

definition get_last_policy_collection_time :: "target_id \<Rightarrow> log_table \<Rightarrow> instant option" where
  "get_last_policy_collection_time tid logs =
     (case map (cl_collected_at \<circ> snd)
        (rows_where (\<lambda>_ r. cl_target_id r = tid \<and> cl_trigger r = ''policy'' \<and> cl_status r \<noteq> ''failed'') logs) of
        [] \<Rightarrow> None
      | t # ts \<Rightarrow> Some (fold max ts t))"

definition update_collected_log :: "int \<Rightarrow> (collected_log \<Rightarrow> collected_log) \<Rightarrow> log_table \<Rightarrow> log_table" where
  "update_collected_log log_id f = map_rows (\<lambda>i r. if i = log_id then f r else r)"

definition get_collected_log :: "int \<Rightarrow> log_table \<Rightarrow> collected_log option" where
  "get_collected_log log_id logs = map_of logs log_id"

definition MAX_LOG_PAGE_SIZE :: nat where
  "MAX_LOG_PAGE_SIZE = 1000"

definition get_all_collected_logs :: "int option \<Rightarrow> int \<Rightarrow> log_table \<Rightarrow> log_table" where
  "get_all_collected_logs limit off logs =
     (let newest = sort_key (\<lambda>x. - cl_collected_at (snd x)) logs
      in case limit of
           None \<Rightarrow> newest
         | Some l \<Rightarrow> take (min (nat (max 1 l)) MAX_LOG_PAGE_SIZE) (drop (nat (max 0 off)) newest))"

definition count_collected_logs :: "log_table \<Rightarrow> nat" where
  "count_collected_logs logs = length logs"

definition delete_collected_log :: "int \<Rightarrow> log_table \<Rightarrow> collected_log option \<times> log_table" where
  "delete_collected_log log_id logs = (map_of logs log_id, rows_where (\<lambda>i _. i \<noteq> log_id) logs)"

definition superseded :: "target_id \<Rightarrow> int \<Rightarrow> int \<Rightarrow> collected_log \<Rightarrow> bool" where
  "superseded tid keep_log_id i r \<longleftrightarrow> cl_target_id r = tid \<and> i \<noteq> keep_log_id \<and> cl_status r = ''completed''"

definition delete_prior_target_logs :: "target_id \<Rightarrow> int \<Rightarrow> log_table \<Rightarrow> collected_log list \<times> log_table" where
  "delete_prior_target_logs tid keep_log_id logs =
     (map snd (rows_where (superseded tid keep_log_id) logs),
      rows_where (\<lambda>i r. \<not> superseded tid keep_log_id i r) logs)"

text \<open>Retention, in chunks: the oldest expired records first.\<close>

definition expired_logs :: "nat \<Rightarrow> instant \<Rightarrow> log_table \<Rightarrow> log_table" where
  "expired_logs chunk cutoff logs =
     take chunk (sort_key (\<lambda>x. cl_collected_at (snd x)) (rows_where (\<lambda>_ r. cl_collected_at r < cutoff) logs))"

lemma expired_logs_subset: "set (expired_logs chunk cutoff logs) \<subseteq> {x \<in> set logs. cl_collected_at (snd x) < cutoff}"
  by (auto simp: expired_logs_def set_rows_where dest!: in_set_takeD)

lemma expired_logs_shrink:
  assumes "expired_logs chunk cutoff logs \<noteq> []"
  shows "length (rows_where (\<lambda>i _. i \<notin> fst ` set (expired_logs chunk cutoff logs)) logs) < length logs"
proof -
  let ?e = "expired_logs chunk cutoff logs"
  obtain x where x: "x \<in> set ?e" using assms by (meson list.set_sel(1))
  then have "x \<in> set logs" using expired_logs_subset by blast
  then show ?thesis unfolding rows_where_def using x by (intro length_filter_less [of x]) force+
qed

function delete_expired_loop :: "nat \<Rightarrow> instant \<Rightarrow> log_table \<Rightarrow> collected_log list \<times> log_table" where
  "delete_expired_loop chunk cutoff logs =
     (let expired = expired_logs chunk cutoff logs in
      if expired = [] then ([], logs)
      else
        (let logs1 = rows_where (\<lambda>i _. i \<notin> fst ` set expired) logs in
         if length expired < chunk then (map snd expired, logs1)
         else (let (detached, logs2) = delete_expired_loop chunk cutoff logs1 in (map snd expired @ detached, logs2))))"
  by pat_completeness auto
termination
  by (relation "measure (\<lambda>(chunk, cutoff, logs). length logs)") (auto simp: expired_logs_shrink)

declare delete_expired_loop.simps [simp del]

definition delete_expired_logs :: "instant \<Rightarrow> int \<Rightarrow> log_table \<Rightarrow> collected_log list \<times> log_table" where
  "delete_expired_logs now max_age_days logs = delete_expired_loop MAX_LOG_PAGE_SIZE (now - max_age_days * 86400000000) logs"

section \<open>File names\<close>

definition file_char :: "char \<Rightarrow> bool" where
  "file_char c =
     (let n = (of_char c :: nat)
      in 65 \<le> n \<and> n \<le> 90 \<or> 97 \<le> n \<and> n \<le> 122 \<or> 48 \<le> n \<and> n \<le> 57 \<or> c = CHR ''.'' \<or> c = CHR ''-'')"

fun collapse :: "string \<Rightarrow> string" where
  "collapse (c # d # s) = (if c = CHR ''_'' \<and> d = CHR ''_'' then collapse (d # s) else c # collapse (d # s))"
| "collapse s = s"

definition strip_char :: "char \<Rightarrow> string \<Rightarrow> string" where
  "strip_char c s = rstrip_char c (dropWhile (\<lambda>x. x = c) s)"

definition sanitize_filename :: "string \<Rightarrow> string" where
  "sanitize_filename name =
     (let result = strip_char CHR ''_'' (collapse (map (\<lambda>c. if file_char c then c else CHR ''_'') name))
      in if result = [] then ''target'' else result)"

lemma collapse_subset: "set (collapse s) \<subseteq> set s"
  by (induction s rule: collapse.induct) auto

lemma strip_char_subset: "set (strip_char c s) \<subseteq> set s"
  by (auto simp: strip_char_def rstrip_char_def dest!: set_dropWhileD)

text \<open>A sanitized name has no path separator, so a bundle stays in the storage directory.\<close>

lemma sanitize_filename_chars: "c \<in> set (sanitize_filename name) \<Longrightarrow> file_char c \<or> c = CHR ''_''"
proof -
  assume c: "c \<in> set (sanitize_filename name)"
  let ?s = "map (\<lambda>c. if file_char c then c else CHR ''_'') name"
  have "list_all file_char ''target''" by code_simp
  moreover have "c \<in> set ''target'' \<or> c \<in> set ?s"
    using c collapse_subset [of ?s] strip_char_subset [of "CHR ''_''" "collapse ?s"]
    by (auto simp: sanitize_filename_def Let_def split: if_splits)
  ultimately show ?thesis by (auto simp: list_all_iff split: if_splits)
qed

section \<open>Collections\<close>

text \<open>
  Two processes collect, the API (an operator, one target or all) and the collector (the
  policy); each has its own locks. A lock is held by a collection: the record it writes, its
  file, and whether the bundle is still being written or is stored and older ones are pruned.
\<close>

datatype proc = Api | Collector

datatype log_phase = Writing | Pruning

record log_state =
  ls_logs :: log_table
  ls_locks :: "((proc \<times> target_id) \<times> int \<times> string \<times> log_phase) list"
  ls_files :: "string list"

record log_target =
  lt_name :: string
  lt_host :: string

datatype collect_error = Target_Not_Found | Already_In_Progress

text \<open>\<open>stamp\<close> is the start time as the file name shows it.\<close>

definition bundle_name :: "log_target \<Rightarrow> string \<Rightarrow> string" where
  "bundle_name t stamp = sanitize_filename (lt_name t) @ ''_all_logs_'' @ stamp @ ''.tar.gz''"

definition pending_log :: "string \<Rightarrow> target_id \<Rightarrow> log_target \<Rightarrow> string \<Rightarrow> string option \<Rightarrow> instant \<Rightarrow> string \<Rightarrow> collected_log" where
  "pending_log storage_dir tid t trigger message_id now stamp =
     \<lparr>cl_target_id = tid, cl_target_name = lt_name t, cl_target_host = lt_host t, cl_filename = bundle_name t stamp,
      cl_file_path = storage_dir @ ''/'' @ bundle_name t stamp, cl_file_size_bytes = None, cl_status = ''collecting'',
      cl_error_message = None, cl_duration_ms = None, cl_trigger = trigger, cl_trigger_message_id = message_id,
      cl_collected_at = now\<rparr>"

definition start_collection ::
  "string \<Rightarrow> (target_id, log_target) db_table \<Rightarrow> proc \<Rightarrow> target_id \<Rightarrow> string \<Rightarrow> string option \<Rightarrow> instant \<Rightarrow> string \<Rightarrow>
   log_state \<Rightarrow> collect_error + log_state" where
  "start_collection storage_dir targets p tid trigger message_id now stamp s =
     (case map_of targets tid of
        None \<Rightarrow> Inl Target_Not_Found
      | Some t \<Rightarrow>
          if map_of (ls_locks s) (p, tid) \<noteq> None then Inl Already_In_Progress
          else
            (let r = pending_log storage_dir tid t trigger message_id now stamp;
                 (log_id, logs) = create_collected_log r (ls_logs s)
             in Inr (s\<lparr>ls_logs := logs, ls_locks := ((p, tid), (log_id, cl_file_path r, Writing)) # ls_locks s\<rparr>)))"

text \<open>
  The bundle is on disk and the record completed, in a transaction of its own; the lock is
  still held.
\<close>

definition store_bundle :: "proc \<Rightarrow> target_id \<Rightarrow> nat \<Rightarrow> rat \<Rightarrow> log_state \<Rightarrow> log_state" where
  "store_bundle p tid bytes duration s =
     (case map_of (ls_locks s) (p, tid) of
        None \<Rightarrow> s
      | Some (log_id, path, _) \<Rightarrow>
          s\<lparr>ls_logs := update_collected_log log_id (\<lambda>r. r\<lparr>cl_status := ''completed'', cl_file_size_bytes := Some (int bytes),
              cl_duration_ms := Some duration\<rparr>) (ls_logs s),
            ls_locks := map (\<lambda>x. if fst x = (p, tid) then (fst x, log_id, path, Pruning) else x) (ls_locks s),
            ls_files := path # ls_files s\<rparr>)"

text \<open>Leaving the lock, whatever the reason.\<close>

definition release_lock :: "proc \<Rightarrow> target_id \<Rightarrow> log_state \<Rightarrow> log_state" where
  "release_lock p tid s = s\<lparr>ls_locks := filter (\<lambda>x. fst x \<noteq> (p, tid)) (ls_locks s)\<rparr>"

text \<open>
  The older bundles of the target are deleted, in a transaction of its own. \<open>unlinked\<close> tells
  which files could be removed; an error on the way is logged only.
\<close>

definition prune_older :: "proc \<Rightarrow> target_id \<Rightarrow> (string \<Rightarrow> bool) \<Rightarrow> log_state \<Rightarrow> log_state" where
  "prune_older p tid unlinked s =
     (case map_of (ls_locks s) (p, tid) of
        None \<Rightarrow> s
      | Some (log_id, _, _) \<Rightarrow>
          (let (old, logs) = delete_prior_target_logs tid log_id (ls_logs s)
           in release_lock p tid (s\<lparr>ls_logs := logs,
                ls_files := filter (\<lambda>f. \<not> (f \<in> cl_file_path ` set old \<and> unlinked f)) (ls_files s)\<rparr>)))"

text \<open>The exception handler: the record fails with the message of the exception.\<close>

definition fail_collection :: "proc \<Rightarrow> target_id \<Rightarrow> string \<Rightarrow> rat \<Rightarrow> log_state \<Rightarrow> log_state" where
  "fail_collection p tid err duration s =
     (case map_of (ls_locks s) (p, tid) of
        None \<Rightarrow> s
      | Some (log_id, _, _) \<Rightarrow>
          release_lock p tid (s\<lparr>ls_logs := update_collected_log log_id (\<lambda>r. r\<lparr>cl_status := ''failed'', cl_error_message := Some err,
            cl_duration_ms := Some duration\<rparr>) (ls_logs s)\<rparr>))"

section \<open>The policy\<close>

record policy_config =
  pc_enabled :: bool
  pc_operating_mode :: string
  pc_rearm_seconds :: duration
  pc_trigger_severities :: "string list"
  pc_trigger_message_ids :: "string list"

record policy_alert =
  pa_target_id :: "target_id option"
  pa_severity :: "string option"
  pa_message_id :: "string option"

definition severity_matches :: "policy_config \<Rightarrow> policy_alert \<Rightarrow> bool" where
  "severity_matches cfg a \<longleftrightarrow>
     py_lower (case pa_severity a of None \<Rightarrow> [] | Some s \<Rightarrow> s) \<in> py_lower ` set (pc_trigger_severities cfg)"

definition message_id_matches :: "policy_config \<Rightarrow> policy_alert \<Rightarrow> bool" where
  "message_id_matches cfg a \<longleftrightarrow>
     pc_trigger_message_ids cfg = [] \<or> (case pa_message_id a of None \<Rightarrow> [] | Some s \<Rightarrow> s) \<in> set (pc_trigger_message_ids cfg)"

definition rearm_active :: "policy_config \<Rightarrow> instant \<Rightarrow> target_id \<Rightarrow> log_table \<Rightarrow> bool" where
  "rearm_active cfg now tid logs =
     (case get_last_policy_collection_time tid logs of
        None \<Rightarrow> False
      | Some t \<Rightarrow> now - t < pc_rearm_seconds cfg)"

text \<open>The target on which an alert makes the policy collect, if any.\<close>

definition policy_target :: "policy_config \<Rightarrow> policy_alert \<Rightarrow> instant \<Rightarrow> log_table \<Rightarrow> target_id option" where
  "policy_target cfg a now logs =
     (if \<not> pc_enabled cfg \<or> pc_operating_mode cfg = ''Disabled'' then None
      else if \<not> severity_matches cfg a \<or> \<not> message_id_matches cfg a then None
      else case pa_target_id a of
             None \<Rightarrow> None
           | Some tid \<Rightarrow>
               if rearm_active cfg now tid logs then None
               else if pc_operating_mode cfg \<noteq> ''Enabled'' then None
               else Some tid)"

definition policy_on_alert ::
  "policy_config \<Rightarrow> string \<Rightarrow> (target_id, log_target) db_table \<Rightarrow> policy_alert \<Rightarrow> instant \<Rightarrow> string \<Rightarrow> log_state \<Rightarrow> log_state" where
  "policy_on_alert cfg storage_dir targets a now stamp s =
     (case policy_target cfg a now (ls_logs s) of
        None \<Rightarrow> s
      | Some tid \<Rightarrow>
          (case start_collection storage_dir targets Collector tid ''policy'' (pa_message_id a) now stamp s of
             Inl _ \<Rightarrow> s
           | Inr s' \<Rightarrow> s'))"

section \<open>Runs\<close>

definition being_written :: "log_state \<Rightarrow> int set" where
  "being_written s = (\<lambda>(_, i, _, _). i) ` {x \<in> set (ls_locks s). snd (snd (snd x)) = Writing}"

text \<open>
  Runs from an empty table, with any overlap of the two processes. A collection is started (by
  the policy in the collector, by operators through the API), stores its bundle or its error,
  and prunes; it may also end without doing the rest: cancelled or crashed while it writes, or
  the write of its error fails (\<open>run_cut_off\<close>, the record stays as it is), or the prune fails
  or is not reached (\<open>run_prune_skipped\<close>). Records that no collection is writing are deleted
  by operators or expire. \<open>k\<close> counts for each target the prunes skipped since the last one
  that succeeded, \<open>lost\<close> has the records of collections that were cut off.
\<close>

inductive log_run ::
  "string \<Rightarrow> (target_id, log_target) db_table \<Rightarrow> (target_id \<Rightarrow> nat) \<Rightarrow> int set \<Rightarrow> log_state \<Rightarrow> bool" for d targets where
  run_start: "log_run d targets (\<lambda>_. 0) {} \<lparr>ls_logs = [], ls_locks = [], ls_files = []\<rparr>"
| run_policy: "log_run d targets k lost s \<Longrightarrow> log_run d targets k lost (policy_on_alert cfg d targets a now stamp s)"
| run_operator: "log_run d targets k lost s \<Longrightarrow> trigger \<in> {''manual'', ''bulk''} \<Longrightarrow>
    start_collection d targets Api tid trigger None now stamp s = Inr s' \<Longrightarrow> log_run d targets k lost s'"
| run_store: "log_run d targets k lost s \<Longrightarrow> map_of (ls_locks s) (p, tid) = Some (i, path, Writing) \<Longrightarrow>
    log_run d targets k lost (store_bundle p tid bytes duration s)"
| run_fail: "log_run d targets k lost s \<Longrightarrow> map_of (ls_locks s) (p, tid) = Some (i, path, Writing) \<Longrightarrow>
    log_run d targets k lost (fail_collection p tid err duration s)"
| run_cut_off: "log_run d targets k lost s \<Longrightarrow> map_of (ls_locks s) (p, tid) = Some (i, path, Writing) \<Longrightarrow>
    log_run d targets k (insert i lost) (release_lock p tid s)"
| run_prune: "log_run d targets k lost s \<Longrightarrow> map_of (ls_locks s) (p, tid) = Some (i, path, Pruning) \<Longrightarrow>
    log_run d targets (k(tid := 0)) lost (prune_older p tid unlinked s)"
| run_prune_skipped: "log_run d targets k lost s \<Longrightarrow> map_of (ls_locks s) (p, tid) = Some (i, path, Pruning) \<Longrightarrow>
    log_run d targets (k(tid := k tid + 1)) lost (release_lock p tid s)"
| run_delete: "log_run d targets k lost s \<Longrightarrow> log_id \<notin> being_written s \<Longrightarrow>
    log_run d targets k lost (s\<lparr>ls_logs := snd (delete_collected_log log_id (ls_logs s))\<rparr>)"
| run_expire: "log_run d targets k lost s \<Longrightarrow>
    (\<forall>(i, r) \<in> set (ls_logs s). i \<in> being_written s \<longrightarrow> now - max_age_days * 86400000000 \<le> cl_collected_at r) \<Longrightarrow>
    log_run d targets k lost (s\<lparr>ls_logs := snd (delete_expired_logs now max_age_days (ls_logs s))\<rparr>)"

text \<open>The bundles a target has, and its collections between storing theirs and pruning.\<close>

definition bundles :: "target_id \<Rightarrow> log_table \<Rightarrow> nat" where
  "bundles tid logs = count_where (\<lambda>_ r. cl_target_id r = tid \<and> cl_status r = ''completed'') logs"

definition is_pruning :: "log_state \<Rightarrow> proc \<times> target_id \<Rightarrow> bool" where
  "is_pruning s key \<longleftrightarrow> (case map_of (ls_locks s) key of None \<Rightarrow> False | Some (_, _, ph) \<Rightarrow> ph = Pruning)"

definition pruning :: "target_id \<Rightarrow> log_state \<Rightarrow> nat" where
  "pruning tid s = length (filter (\<lambda>p. is_pruning s (p, tid)) [Api, Collector])"

text \<open>Records and locks agree.\<close>

definition writers_ok :: "log_state \<Rightarrow> bool" where
  "writers_ok s \<longleftrightarrow> (\<forall>p tid i path. map_of (ls_locks s) (p, tid) = Some (i, path, Writing) \<longrightarrow>
     (\<exists>r. (i, r) \<in> set (ls_logs s) \<and> cl_target_id r = tid \<and> cl_status r = ''collecting''))"

definition distinct_writers :: "log_state \<Rightarrow> bool" where
  "distinct_writers s \<longleftrightarrow> (\<forall>k1 k2 i a b. map_of (ls_locks s) k1 = Some (i, a, Writing) \<longrightarrow>
     map_of (ls_locks s) k2 = Some (i, b, Writing) \<longrightarrow> k1 = k2)"

definition collecting_ok :: "int set \<Rightarrow> log_state \<Rightarrow> bool" where
  "collecting_ok lost s \<longleftrightarrow> (\<forall>i r. (i, r) \<in> set (ls_logs s) \<longrightarrow> cl_status r = ''collecting'' \<longrightarrow>
     i \<in> lost \<or> (\<exists>p path. map_of (ls_locks s) (p, cl_target_id r) = Some (i, path, Writing)))"

definition log_inv :: "(target_id \<Rightarrow> nat) \<Rightarrow> int set \<Rightarrow> log_state \<Rightarrow> bool" where
  "log_inv k lost s \<longleftrightarrow>
     unique_key (ls_logs s) \<and> distinct_writers s \<and> writers_ok s \<and> collecting_ok lost s \<and>
     (\<forall>tid. bundles tid (ls_logs s) \<le> 1 + pruning tid s + k tid)"

lemma new_log_id_fresh: "i \<in> fst ` set logs \<Longrightarrow> i < new_log_id logs"
  by (auto simp: new_log_id_def zless_add1_eq intro: Max_ge)

lemma new_log_id_new: "(new_log_id logs, r) \<notin> set logs"
  using new_log_id_fresh [of "new_log_id logs" logs] by force

text \<open>A start adds a record that is being written, under a new lock.\<close>

lemma start_collection_cases:
  assumes "start_collection d targets p tid trigger mid now stamp s = Inr s'"
  obtains r path where "ls_logs s' = ls_logs s @ [(new_log_id (ls_logs s), r)]"
    "ls_locks s' = ((p, tid), (new_log_id (ls_logs s), path, Writing)) # ls_locks s" "map_of (ls_locks s) (p, tid) = None"
    "cl_target_id r = tid" "cl_status r = ''collecting''" "cl_trigger r = trigger" "cl_collected_at r = now"
proof -
  from assms obtain t where t: "map_of targets tid = Some t" "map_of (ls_locks s) (p, tid) = None"
    by (cases "map_of targets tid"; cases "map_of (ls_locks s) (p, tid)") (auto simp: start_collection_def)
  with assms show thesis
    by (intro that [of "pending_log d tid t trigger mid now stamp"])
      (auto simp: start_collection_def create_collected_log_def pending_log_def Let_def)
qed

lemma writer_row:
  assumes "log_inv k lost s" "map_of (ls_locks s) (p, tid) = Some (i, path, Writing)"
  obtains r where "(i, r) \<in> set (ls_logs s)" "cl_target_id r = tid" "cl_status r = ''collecting''"
proof -
  have "writers_ok s" using assms(1) by (simp add: log_inv_def)
  then show thesis using that assms(2) unfolding writers_ok_def by metis
qed

lemma written_row:
  assumes "log_inv k lost s" "map_of (ls_locks s) (p, tid) = Some (i, path, Writing)" "(i, r) \<in> set (ls_logs s)"
  shows "cl_target_id r = tid \<and> cl_status r = ''collecting''"
proof -
  have u: "unique_key (ls_logs s)" using assms(1) by (simp add: log_inv_def)
  obtain q where "(i, q) \<in> set (ls_logs s)" "cl_target_id q = tid" "cl_status q = ''collecting''"
    using writer_row [OF assms(1, 2)] by blast
  then show ?thesis using eq_key_imp_eq_value [OF u assms(3)] by blast
qed

lemma being_written_lock: "map_of (ls_locks s) key = Some (i, path, Writing) \<Longrightarrow> i \<in> being_written s"
  by (force simp: being_written_def dest!: map_of_SomeD)

lemma start_collection_inv:
  assumes inv: "log_inv k lost s" and start: "start_collection d targets p tid trigger mid now stamp s = Inr s'"
  shows "log_inv k lost s'"
proof -
  let ?id = "new_log_id (ls_logs s)"
  from start obtain r path where s': "ls_logs s' = ls_logs s @ [(?id, r)]" "ls_locks s' = ((p, tid), (?id, path, Writing)) # ls_locks s"
    "map_of (ls_locks s) (p, tid) = None" "cl_target_id r = tid" "cl_status r = ''collecting''"
    by (rule start_collection_cases)
  have new: "?id \<notin> fst ` set (ls_logs s)" using new_log_id_fresh by force
  have other: "i \<noteq> ?id" if l: "map_of (ls_locks s) key = Some (i, a, Writing)" for key i a
  proof -
    obtain p' t' where key: "key = (p', t')" by fastforce
    obtain q where "(i, q) \<in> set (ls_logs s)" using writer_row [OF inv l [unfolded key]] by blast
    then show ?thesis using new by force
  qed
  have "distinct_writers s'"
    using inv other unfolding log_inv_def distinct_writers_def s'(2) by (auto split: if_splits)
  moreover have "writers_ok s'"
    unfolding writers_ok_def
  proof (intro allI impI)
    fix p' t j a assume l: "map_of (ls_locks s') (p', t) = Some (j, a, Writing)"
    show "\<exists>r. (j, r) \<in> set (ls_logs s') \<and> cl_target_id r = t \<and> cl_status r = ''collecting''"
    proof (cases "(p', t) = (p, tid)")
      case True
      then show ?thesis using l s'(4, 5) by (auto simp: s'(1, 2))
    next
      case False
      then have "map_of (ls_locks s) (p', t) = Some (j, a, Writing)" using l by (auto simp: s'(2))
      then obtain q where "(j, q) \<in> set (ls_logs s)" "cl_target_id q = t" "cl_status q = ''collecting''"
        by (rule writer_row [OF inv])
      then show ?thesis by (auto simp: s'(1))
    qed
  qed
  moreover have "collecting_ok lost s'"
    unfolding collecting_ok_def
  proof (intro allI impI)
    fix j q assume j: "(j, q) \<in> set (ls_logs s')" "cl_status q = ''collecting''"
    from j(1) have "(j, q) \<in> set (ls_logs s) \<or> j = ?id \<and> q = r" by (auto simp: s'(1))
    moreover have "collecting_ok lost s" using inv by (simp add: log_inv_def)
    ultimately consider "j = ?id" "q = r" | "j \<in> lost" | p' a where "map_of (ls_locks s) (p', cl_target_id q) = Some (j, a, Writing)"
      using j(2) unfolding collecting_ok_def by blast
    then show "j \<in> lost \<or> (\<exists>p path. map_of (ls_locks s') (p, cl_target_id q) = Some (j, path, Writing))"
    proof cases
      case 3
      then have "map_of (ls_locks s') (p', cl_target_id q) = Some (j, a, Writing)" using s'(3) by (auto simp: s'(2))
      then show ?thesis by blast
    qed (use s'(4) in \<open>auto simp: s'(2)\<close>)
  qed
  moreover have "pruning t s' = pruning t s" for t
    using s'(3) by (auto simp: pruning_def is_pruning_def s'(2))
  moreover have "bundles t (ls_logs s') = bundles t (ls_logs s)" for t
    using s'(5) by (simp add: bundles_def count_where_def rows_where_def s'(1))
  moreover have "unique_key (ls_logs s')" using inv new by (auto simp: log_inv_def s'(1))
  ultimately show ?thesis using inv by (simp add: log_inv_def)
qed

text \<open>Deleting records that no collection is writing keeps the invariant.\<close>

lemma bundles_rows_where: "bundles tid (rows_where P logs) \<le> bundles tid logs"
  by (induction logs) (auto simp: bundles_def count_where_def rows_where_def)

lemma delete_inv:
  assumes inv: "log_inv k lost s" and keep: "\<And>i r. (i, r) \<in> set (ls_logs s) \<Longrightarrow> i \<in> being_written s \<Longrightarrow> P i r"
  shows "log_inv k lost (s\<lparr>ls_logs := rows_where P (ls_logs s)\<rparr>)"
proof -
  let ?s = "s\<lparr>ls_logs := rows_where P (ls_logs s)\<rparr>"
  have "writers_ok ?s"
    unfolding writers_ok_def
  proof (intro allI impI)
    fix p tid i path assume l: "map_of (ls_locks ?s) (p, tid) = Some (i, path, Writing)"
    then have "map_of (ls_locks s) (p, tid) = Some (i, path, Writing)" by simp
    then obtain r where "(i, r) \<in> set (ls_logs s)" "cl_target_id r = tid" "cl_status r = ''collecting''"
      by (rule writer_row [OF inv])
    with keep being_written_lock [of s] l show "\<exists>r. (i, r) \<in> set (ls_logs ?s) \<and> cl_target_id r = tid \<and> cl_status r = ''collecting''"
      by (auto simp: set_rows_where)
  qed
  moreover have "collecting_ok lost ?s" "distinct_writers ?s" "unique_key (ls_logs ?s)"
    using inv by (auto simp: log_inv_def collecting_ok_def distinct_writers_def set_rows_where)
  moreover have "bundles tid (ls_logs ?s) \<le> 1 + pruning tid ?s + k tid" for tid
    using inv bundles_rows_where [of tid P "ls_logs s"] order.trans
    by (fastforce simp: log_inv_def pruning_def is_pruning_def)
  ultimately show ?thesis by (simp add: log_inv_def)
qed

text \<open>What the steps of a collection do to records and locks.\<close>

lemma set_update: "set (update_collected_log i f logs) = (\<lambda>(j, r). (j, if j = i then f r else r)) ` set logs"
  by (auto simp: update_collected_log_def map_rows_def)

lemma update_keys [simp]: "map fst (update_collected_log i f logs) = map fst logs"
  by (simp add: update_collected_log_def)

lemma map_of_without: "map_of (filter (\<lambda>x. fst x \<noteq> c) xs) key = (if key = c then None else map_of xs key)"
  by (induction xs) auto

lemma map_of_release [simp]:
  "map_of (ls_locks (release_lock p tid s)) key = (if key = (p, tid) then None else map_of (ls_locks s) key)"
  by (simp add: release_lock_def map_of_without)

lemma release_simps [simp]: "ls_logs (release_lock p tid s) = ls_logs s" "ls_files (release_lock p tid s) = ls_files s"
  by (simp_all add: release_lock_def)

lemma map_of_relock:
  "map_of (map (\<lambda>x. if fst x = c then (fst x, v) else x) xs) key =
     (if key = c then map_option (\<lambda>_. v) (map_of xs key) else map_of xs key)"
  by (induction xs) auto

lemma update_absent: "i \<notin> fst ` set logs \<Longrightarrow> update_collected_log i f logs = logs"
  by (induction logs) (auto simp: update_collected_log_def map_rows_def)

lemma bundles_Cons: "bundles tid ((j, r) # logs) =
    (if cl_target_id r = tid \<and> cl_status r = ''completed'' then 1 else 0) + bundles tid logs"
  by (simp add: bundles_def count_where_def rows_where_def)

lemma bundles_update:
  assumes "unique_key logs" "\<And>r. (i, r) \<in> set logs \<Longrightarrow> cl_target_id (f r) = t0"
  shows "bundles tid (update_collected_log i f logs) \<le> bundles tid logs + (if tid = t0 then 1 else 0)"
  using assms
proof (induction logs)
  case (Cons x logs)
  obtain j r where x: "x = (j, r)" by fastforce
  have step: "update_collected_log i f (x # logs) = (j, if j = i then f r else r) # update_collected_log i f logs"
    by (simp add: update_collected_log_def map_rows_def x)
  show ?case
  proof (cases "j = i")
    case True
    then have "update_collected_log i f logs = logs" using Cons.prems(1) by (intro update_absent) (auto simp: x)
    then show ?thesis using Cons.prems(2) [of r] True unfolding step by (auto simp: x bundles_Cons)
  next
    case False
    then show ?thesis using Cons unfolding step by (auto simp: x bundles_Cons)
  qed
qed (simp add: update_collected_log_def map_rows_def)

lemma bundles_failed: "(\<And>r. cl_status (f r) = ''failed'') \<Longrightarrow> bundles tid (update_collected_log i f logs) \<le> bundles tid logs"
  by (induction logs) (auto simp: update_collected_log_def map_rows_def bundles_Cons)

lemma bundles_pruned:
  assumes "unique_key logs"
  shows "bundles tid (rows_where (\<lambda>i r. \<not> superseded tid keep i r) logs) \<le> 1"
proof -
  let ?S = "{i. \<exists>r. map_of (rows_where (\<lambda>i r. \<not> superseded tid keep i r) logs) i = Some r \<and>
    cl_target_id r = tid \<and> cl_status r = ''completed''}"
  have "?S \<subseteq> {keep}"
    using assms by (auto simp: table_simps superseded_def split: option.splits if_splits)
  then have "card ?S \<le> card {keep}" by (intro card_mono) simp
  then show ?thesis using assms by (simp add: bundles_def count_where_card)
qed

lemma store_bundle_eq:
  assumes "map_of (ls_locks s) (p, tid) = Some (i, path, ph)"
  obtains f where "ls_logs (store_bundle p tid bytes duration s) = update_collected_log i f (ls_logs s)"
    "\<And>r. cl_target_id (f r) = cl_target_id r" "\<And>r. cl_status (f r) = ''completed''"
    "\<And>key. map_of (ls_locks (store_bundle p tid bytes duration s)) key =
      (if key = (p, tid) then Some (i, path, Pruning) else map_of (ls_locks s) key)"
  using assms
  by (intro that [of "\<lambda>r. r\<lparr>cl_status := ''completed'', cl_file_size_bytes := Some (int bytes), cl_duration_ms := Some duration\<rparr>"])
    (simp_all add: store_bundle_def map_of_relock)

lemma fail_collection_eq:
  assumes "map_of (ls_locks s) (p, tid) = Some (i, path, ph)"
  obtains f where "ls_logs (fail_collection p tid err duration s) = update_collected_log i f (ls_logs s)"
    "\<And>r. cl_target_id (f r) = cl_target_id r" "\<And>r. cl_status (f r) = ''failed''"
    "\<And>key. map_of (ls_locks (fail_collection p tid err duration s)) key =
      (if key = (p, tid) then None else map_of (ls_locks s) key)"
  using assms
  by (intro that [of "\<lambda>r. r\<lparr>cl_status := ''failed'', cl_error_message := Some err, cl_duration_ms := Some duration\<rparr>"])
    (simp_all add: fail_collection_def)

lemma prune_older_eq:
  assumes "map_of (ls_locks s) (p, tid) = Some (i, path, ph)"
  shows "ls_logs (prune_older p tid unlinked s) = rows_where (\<lambda>j r. \<not> superseded tid i j r) (ls_logs s)"
    and "map_of (ls_locks (prune_older p tid unlinked s)) key = (if key = (p, tid) then None else map_of (ls_locks s) key)"
  using assms by (simp_all add: prune_older_def delete_prior_target_logs_def)

text \<open>A collection that settles its record and leaves \<open>Writing\<close>.\<close>

lemma settle_inv:
  assumes inv: "log_inv k lost s" and lock: "map_of (ls_locks s) (p, tid) = Some (i, path, Writing)"
    and logs: "ls_logs s' = update_collected_log i f (ls_logs s)" "\<And>r. cl_target_id (f r) = cl_target_id r"
      "\<And>r. cl_status (f r) \<noteq> ''collecting''"
    and locks: "\<And>key. key \<noteq> (p, tid) \<Longrightarrow> map_of (ls_locks s') key = map_of (ls_locks s) key"
      "\<And>a b. map_of (ls_locks s') (p, tid) \<noteq> Some (a, b, Writing)"
    and bound: "\<And>t. bundles t (ls_logs s') \<le> 1 + pruning t s' + k t"
  shows "log_inv k lost s'"
proof -
  have old: "map_of (ls_locks s) key = Some (j, a, Writing) \<and> key \<noteq> (p, tid)"
    if "map_of (ls_locks s') key = Some (j, a, Writing)" for key j a
    using that locks by (cases "key = (p, tid)") auto
  have other: "j \<noteq> i" if "map_of (ls_locks s') key = Some (j, a, Writing)" for key j a
    using old [OF that] lock inv unfolding log_inv_def distinct_writers_def by metis
  have "distinct_writers s'" using old inv unfolding log_inv_def distinct_writers_def by metis
  moreover have "writers_ok s'"
    unfolding writers_ok_def
  proof (intro allI impI)
    fix p' t j a assume l: "map_of (ls_locks s') (p', t) = Some (j, a, Writing)"
    obtain r where r: "(j, r) \<in> set (ls_logs s)" "cl_target_id r = t" "cl_status r = ''collecting''"
      using writer_row [OF inv] old [OF l] by blast
    moreover have "(j, r) \<in> set (ls_logs s')" using r(1) other [OF l] by (force simp: logs(1) set_update)
    ultimately show "\<exists>r. (j, r) \<in> set (ls_logs s') \<and> cl_target_id r = t \<and> cl_status r = ''collecting''" by blast
  qed
  moreover have "collecting_ok lost s'"
    unfolding collecting_ok_def
  proof (intro allI impI)
    fix j r assume j: "(j, r) \<in> set (ls_logs s')" "cl_status r = ''collecting''"
    then have "j \<noteq> i" "(j, r) \<in> set (ls_logs s)" using logs(3) by (auto simp: logs(1) set_update split: if_splits)
    then consider "j \<in> lost" | p' a where "map_of (ls_locks s) (p', cl_target_id r) = Some (j, a, Writing)"
      using inv j(2) unfolding log_inv_def collecting_ok_def by blast
    then show "j \<in> lost \<or> (\<exists>p path. map_of (ls_locks s') (p, cl_target_id r) = Some (j, path, Writing))"
    proof cases
      case 2
      then have "(p', cl_target_id r) \<noteq> (p, tid)" using lock \<open>j \<noteq> i\<close> by auto
      then show ?thesis using 2 locks(1) by metis
    qed blast
  qed
  ultimately show ?thesis using inv bound by (simp add: log_inv_def logs(1))
qed

text \<open>The prunes of a target before and after one of its locks changes.\<close>

lemma pruning_split: "pruning t s = (if is_pruning s (Api, t) then 1 else 0) + (if is_pruning s (Collector, t) then 1 else 0)"
  by (simp add: pruning_def)

lemma pruning_change:
  assumes "\<And>key. key \<noteq> (p, tid) \<Longrightarrow> map_of (ls_locks s') key = map_of (ls_locks s) key"
  shows "t \<noteq> tid \<Longrightarrow> pruning t s' = pruning t s"
    and "pruning tid s' + (if is_pruning s (p, tid) then 1 else 0) = pruning tid s + (if is_pruning s' (p, tid) then 1 else 0)"
proof -
  have same: "is_pruning s' key = is_pruning s key" if "key \<noteq> (p, tid)" for key
    using assms [OF that] by (simp add: is_pruning_def)
  show "t \<noteq> tid \<Longrightarrow> pruning t s' = pruning t s" by (simp add: pruning_split same)
  show "pruning tid s' + (if is_pruning s (p, tid) then 1 else 0) = pruning tid s + (if is_pruning s' (p, tid) then 1 else 0)"
    by (cases p) (simp_all add: pruning_split same)
qed

lemma store_bundle_inv:
  assumes inv: "log_inv k lost s" and lock: "map_of (ls_locks s) (p, tid) = Some (i, path, Writing)"
  shows "log_inv k lost (store_bundle p tid bytes duration s)"
proof -
  let ?s = "store_bundle p tid bytes duration s"
  obtain f where f: "ls_logs ?s = update_collected_log i f (ls_logs s)"
    "\<And>r. cl_target_id (f r) = cl_target_id r" "\<And>r. cl_status (f r) = ''completed''"
    "\<And>key. map_of (ls_locks ?s) key = (if key = (p, tid) then Some (i, path, Pruning) else map_of (ls_locks s) key)"
    using store_bundle_eq [OF lock] by metis
  have ph: "\<not> is_pruning s (p, tid)" "is_pruning ?s (p, tid)" using lock f(4) by (simp_all add: is_pruning_def)
  have pr: "pruning t ?s = pruning t s + (if t = tid then 1 else 0)" for t
    using pruning_change(1) [of p tid ?s s t] pruning_change(2) [of p tid ?s s] f(4) ph by (cases "t = tid") auto
  have "bundles t (ls_logs ?s) \<le> bundles t (ls_logs s) + (if t = tid then 1 else 0)" for t
    unfolding f(1) by (rule bundles_update) (use inv written_row [OF inv lock] f(2) in \<open>auto simp: log_inv_def\<close>)
  moreover have "bundles t (ls_logs s) \<le> 1 + pruning t s + k t" for t using inv by (simp add: log_inv_def)
  ultimately have "bundles t (ls_logs ?s) \<le> 1 + pruning t ?s + k t" for t
    unfolding pr by (smt (verit) add.assoc add.commute add_le_mono1 le_trans)
  then show ?thesis by (intro settle_inv [OF inv lock f(1, 2)]) (auto simp: f(3, 4))
qed

lemma fail_collection_inv:
  assumes inv: "log_inv k lost s" and lock: "map_of (ls_locks s) (p, tid) = Some (i, path, Writing)"
  shows "log_inv k lost (fail_collection p tid err duration s)"
proof -
  let ?s = "fail_collection p tid err duration s"
  obtain f where f: "ls_logs ?s = update_collected_log i f (ls_logs s)"
    "\<And>r. cl_target_id (f r) = cl_target_id r" "\<And>r. cl_status (f r) = ''failed''"
    "\<And>key. map_of (ls_locks ?s) key = (if key = (p, tid) then None else map_of (ls_locks s) key)"
    using fail_collection_eq [OF lock] by metis
  have ph: "\<not> is_pruning s (p, tid)" "\<not> is_pruning ?s (p, tid)" using lock f(4) by (simp_all add: is_pruning_def)
  have pr: "pruning t ?s = pruning t s" for t
    using pruning_change(1) [of p tid ?s s t] pruning_change(2) [of p tid ?s s] f(4) ph by (cases "t = tid") auto
  have "bundles t (ls_logs ?s) \<le> 1 + pruning t ?s + k t" for t
    using bundles_failed [of f t i "ls_logs s"] f(3) inv order.trans unfolding f(1) pr log_inv_def by blast
  then show ?thesis by (intro settle_inv [OF inv lock f(1, 2)]) (auto simp: f(3, 4))
qed

text \<open>A collection that leaves its lock without settling its record.\<close>

lemma leave_inv:
  assumes inv: "log_inv k lost s"
    and logs: "ls_logs s' = rows_where P (ls_logs s)" "\<And>j r. cl_status r = ''collecting'' \<Longrightarrow> P j r"
    and locks: "\<And>key. map_of (ls_locks s') key = (if key = (p, tid) then None else map_of (ls_locks s) key)"
    and left: "\<And>i path. map_of (ls_locks s) (p, tid) = Some (i, path, Writing) \<Longrightarrow> i \<in> lost'" "lost \<subseteq> lost'"
    and bound: "\<And>t. bundles t (ls_logs s') \<le> 1 + pruning t s' + k' t"
  shows "log_inv k' lost' s'"
proof -
  have "writers_ok s'"
    unfolding writers_ok_def
  proof (intro allI impI)
    fix p' t j a assume "map_of (ls_locks s') (p', t) = Some (j, a, Writing)"
    then have "map_of (ls_locks s) (p', t) = Some (j, a, Writing)" by (simp add: locks split: if_splits)
    then obtain r where "(j, r) \<in> set (ls_logs s)" "cl_target_id r = t" "cl_status r = ''collecting''"
      by (rule writer_row [OF inv])
    with logs(2) show "\<exists>r. (j, r) \<in> set (ls_logs s') \<and> cl_target_id r = t \<and> cl_status r = ''collecting''"
      by (auto simp: logs(1) set_rows_where)
  qed
  moreover have "collecting_ok lost' s'"
    unfolding collecting_ok_def
  proof (intro allI impI)
    fix j r assume "(j, r) \<in> set (ls_logs s')" "cl_status r = ''collecting''"
    then consider "j \<in> lost" | p' a where "map_of (ls_locks s) (p', cl_target_id r) = Some (j, a, Writing)"
      using inv unfolding log_inv_def collecting_ok_def logs(1) set_rows_where by blast
    then show "j \<in> lost' \<or> (\<exists>p path. map_of (ls_locks s') (p, cl_target_id r) = Some (j, path, Writing))"
    proof cases
      case 2
      then show ?thesis using left(1) locks [of "(p', cl_target_id r)"] by (cases "(p', cl_target_id r) = (p, tid)") auto
    qed (use left(2) in blast)
  qed
  moreover have "distinct_writers s'"
    using inv unfolding log_inv_def distinct_writers_def locks by (metis option.distinct(1))
  ultimately show ?thesis using inv bound by (simp add: log_inv_def logs(1))
qed

lemma rows_where_True: "rows_where (\<lambda>_ _. True) logs = logs"
  by (simp add: rows_where_def)

lemma cut_off_inv:
  assumes inv: "log_inv k lost s" and lock: "map_of (ls_locks s) (p, tid) = Some (i, path, Writing)"
  shows "log_inv k (insert i lost) (release_lock p tid s)"
proof -
  have ph: "\<not> is_pruning s (p, tid)" "\<not> is_pruning (release_lock p tid s) (p, tid)" using lock by (simp_all add: is_pruning_def)
  have pr: "pruning t (release_lock p tid s) = pruning t s" for t
    using pruning_change(1) [of p tid "release_lock p tid s" s t] pruning_change(2) [of p tid "release_lock p tid s" s] ph by (cases "t = tid") auto
  show ?thesis
    by (rule leave_inv [OF inv, where P = "\<lambda>_ _. True" and p = p and tid = tid])
      (use inv lock pr in \<open>auto simp: rows_where_True log_inv_def\<close>)
qed

lemma prune_skipped_inv:
  assumes inv: "log_inv k lost s" and lock: "map_of (ls_locks s) (p, tid) = Some (i, path, Pruning)"
  shows "log_inv (k(tid := k tid + 1)) lost (release_lock p tid s)"
proof -
  have ph: "is_pruning s (p, tid)" "\<not> is_pruning (release_lock p tid s) (p, tid)" using lock by (simp_all add: is_pruning_def)
  have pr: "pruning t (release_lock p tid s) + (if t = tid then 1 else 0) = pruning t s" for t
    using pruning_change(1) [of p tid "release_lock p tid s" s t] pruning_change(2) [of p tid "release_lock p tid s" s] ph by (cases "t = tid") auto
  have b: "bundles t (ls_logs s) \<le> 1 + pruning t s + k t" for t using inv by (simp add: log_inv_def)
  have "bundles t (ls_logs s) \<le> 1 + pruning t (release_lock p tid s) + (k(tid := k tid + 1)) t" for t
    using b [of t] pr [of t] by (cases "t = tid") simp_all
  then show ?thesis
    by (intro leave_inv [OF inv, where P = "\<lambda>_ _. True" and p = p and tid = tid])
      (use lock in \<open>auto simp: rows_where_True\<close>)
qed

lemma prune_older_inv:
  assumes inv: "log_inv k lost s" and lock: "map_of (ls_locks s) (p, tid) = Some (i, path, Pruning)"
  shows "log_inv (k(tid := 0)) lost (prune_older p tid unlinked s)"
proof -
  let ?s = "prune_older p tid unlinked s"
  note eq = prune_older_eq [OF lock, of unlinked]
  have "bundles t (ls_logs ?s) \<le> 1 + pruning t ?s + (k(tid := 0)) t" for t
  proof (cases "t = tid")
    case True
    then show ?thesis using bundles_pruned [of "ls_logs s" tid i] inv by (simp add: eq log_inv_def trans_le_add1)
  next
    case False
    then have "pruning t ?s = pruning t s" using pruning_change(1) [of p tid ?s s t] eq(2) by simp
    moreover have "bundles t (ls_logs s) \<le> 1 + pruning t s + k t" using inv by (simp add: log_inv_def)
    ultimately show ?thesis using bundles_rows_where [of t _ "ls_logs s"] False order.trans by (fastforce simp: eq)
  qed
  then show ?thesis
    by (intro leave_inv [OF inv eq(1) _ eq(2)]) (use lock in \<open>auto simp: superseded_def\<close>)
qed

text \<open>Retention removes exactly the expired records.\<close>

lemma delete_expired_loop_exact:
  assumes "0 < chunk" "unique_key logs"
  shows "snd (delete_expired_loop chunk cutoff logs) = rows_where (\<lambda>_ r. cutoff \<le> cl_collected_at r) logs"
  using assms
proof (induction chunk cutoff logs rule: delete_expired_loop.induct)
  case (1 chunk cutoff logs)
  let ?old = "rows_where (\<lambda>_ r. cl_collected_at r < cutoff) logs"
  let ?e = "expired_logs chunk cutoff logs" and ?logs1 = "rows_where (\<lambda>i _. i \<notin> fst ` set (expired_logs chunk cutoff logs)) logs"
  have kept: "rows_where (\<lambda>_ r. cutoff \<le> cl_collected_at r) ?logs1 = rows_where (\<lambda>_ r. cutoff \<le> cl_collected_at r) logs"
  proof -
    have "i \<notin> fst ` set ?e" if "(i, r) \<in> set logs" "cutoff \<le> cl_collected_at r" for i r
    proof
      assume "i \<in> fst ` set ?e"
      then obtain q where q: "(i, q) \<in> set logs" "cl_collected_at q < cutoff" using expired_logs_subset by fastforce
      then have "q = r" using that(1) 1(3) by (metis eq_key_imp_eq_value)
      then show False using q(2) that(2) by simp
    qed
    then show ?thesis by (auto simp: rows_where_def intro!: filter_cong)
  qed
  consider "?e = []" | "?e \<noteq> []" "length ?e < chunk" | "?e \<noteq> []" "\<not> length ?e < chunk" by blast
  then show ?case
  proof cases
    case 1
    then have "?old = []" using \<open>0 < chunk\<close> by (auto simp: expired_logs_def) (metis length_0_conv length_sort)
    then show ?thesis using 1 by (auto simp: delete_expired_loop.simps [of chunk cutoff logs] rows_where_def filter_empty_conv not_less intro!: filter_True [symmetric])
  next
    case 2
    then have "set ?e = set ?old" by (auto simp: expired_logs_def)
    then have old: "(i, r) \<in> set ?e" if "(i, r) \<in> set logs" "cl_collected_at r < cutoff" for i r
      using that by (simp add: set_rows_where)
    have "cutoff \<le> cl_collected_at r" if "(i, r) \<in> set ?logs1" for i r
      using that old [of i r] by (force simp: set_rows_where)
    then have "?logs1 = rows_where (\<lambda>_ r. cutoff \<le> cl_collected_at r) ?logs1"
      by (intro filter_True [symmetric, of _ "\<lambda>(_, r). cutoff \<le> cl_collected_at r", folded rows_where_def]) auto
    then show ?thesis using 2 kept by (simp add: delete_expired_loop.simps [of chunk cutoff logs] Let_def)
  next
    case 3
    then have "snd (delete_expired_loop chunk cutoff ?logs1) = rows_where (\<lambda>_ r. cutoff \<le> cl_collected_at r) ?logs1"
      using 1(1) [OF refl _ refl] 1(2, 3) by simp
    then show ?thesis using 3 kept by (simp add: delete_expired_loop.simps [of chunk cutoff logs] Let_def case_prod_beta)
  qed
qed

lemma policy_on_alert_inv: "log_inv k lost s \<Longrightarrow> log_inv k lost (policy_on_alert cfg d targets a now stamp s)"
  by (auto simp: policy_on_alert_def split: option.splits sum.splits intro: start_collection_inv)

definition no_logs :: log_state where
  "no_logs = \<lparr>ls_logs = [], ls_locks = [], ls_files = []\<rparr>"

lemma log_run_inv: "log_run d targets k lost s \<Longrightarrow> log_inv k lost s"
proof (induction rule: log_run.induct)
  case run_start
  show ?case by (simp add: log_inv_def distinct_writers_def writers_ok_def collecting_ok_def bundles_def count_where_def rows_where_def)
next
  case (run_delete k lost s log_id)
  then show ?case by (auto simp: delete_collected_log_def intro!: delete_inv)
next
  case (run_expire k lost s now days)
  then have "snd (delete_expired_logs now days (ls_logs s)) = rows_where (\<lambda>_ r. now - days * 86400000000 \<le> cl_collected_at r) (ls_logs s)"
    by (simp add: delete_expired_logs_def MAX_LOG_PAGE_SIZE_def delete_expired_loop_exact log_inv_def)
  then show ?case using run_expire by (auto intro!: delete_inv)
qed (auto simp del: fun_upd_apply intro: policy_on_alert_inv start_collection_inv store_bundle_inv fail_collection_inv cut_off_inv
    prune_older_inv prune_skipped_inv [unfolded Suc_eq_plus1 [symmetric]])

section \<open>Guarantees\<close>


text \<open>A target from which an operator collects.\<close>

definition sample_targets :: "(target_id, log_target) db_table" where
  "sample_targets = [(1, \<lparr>lt_name = ''node 1'', lt_host = ''10.0.0.1''\<rparr>)]"

definition sample_log :: collected_log where
  "sample_log = pending_log ''/logs'' 1 \<lparr>lt_name = ''node 1'', lt_host = ''10.0.0.1''\<rparr> ''manual'' None 0 ''a''"

definition sample_running :: log_state where
  "sample_running = no_logs\<lparr>ls_logs := [(1, sample_log)], ls_locks := [((Api, 1), (1, cl_file_path sample_log, Writing))]\<rparr>"

lemma sample_start: "start_collection ''/logs'' sample_targets Api 1 ''manual'' None 0 ''a'' no_logs = Inr sample_running"
  by code_simp

text \<open>
  An operator's collection and one of the policy, both of target 1, have stored their bundles
  and have yet to prune.
\<close>

definition sample_crossing :: log_state where
  "sample_crossing = store_bundle Collector 1 20 0 (store_bundle Api 1 10 0
     (policy_on_alert \<lparr>pc_enabled = True, pc_operating_mode = ''Enabled'', pc_rearm_seconds = 0, pc_trigger_severities = [''Critical''],
         pc_trigger_message_ids = []\<rparr> ''/logs'' sample_targets
       \<lparr>pa_target_id = Some 1, pa_severity = Some ''critical'', pa_message_id = None\<rparr> 5 ''b'' sample_running))"

lemma sample_crossing_run: "log_run ''/logs'' sample_targets (\<lambda>_. 0) {} sample_crossing"
proof -
  have "log_run ''/logs'' sample_targets (\<lambda>_. 0) {} no_logs" unfolding no_logs_def by (rule run_start)
  then have "log_run ''/logs'' sample_targets (\<lambda>_. 0) {} sample_running" by (rule run_operator [OF _ _ sample_start]) simp
  then show ?thesis
    unfolding sample_crossing_def
    by (intro run_store [where i = 2 and path = "''/logs/node_1_all_logs_b.tar.gz''"]
        run_store [where i = 1 and path = "''/logs/node_1_all_logs_a.tar.gz''"] run_policy) (assumption | code_simp)+
qed

lemma sample_crossing_rows:
  "count_where (\<lambda>_ r. cl_target_id r = 1 \<and> cl_status r = ''completed'') (ls_logs sample_crossing) = 2"
  "map_of (ls_locks sample_crossing) (Api, 1) = Some (1, ''/logs/node_1_all_logs_a.tar.gz'', Pruning)"
  "map_of (ls_locks sample_crossing) (Collector, 1) = Some (2, ''/logs/node_1_all_logs_b.tar.gz'', Pruning)"
  by code_simp+


text \<open>
  The two processes have separate locks, and a prune keeps only its own record: when the
  collections of a target overlap so that both bundles are stored before either prune, each
  prune deletes the other's bundle, and none is left.
\<close>

lemma crossing_prunes_lose_both:
  assumes "map_of (ls_locks s) (Api, tid) = Some (i, a, Pruning)"
    and "map_of (ls_locks s) (Collector, tid) = Some (j, b, Pruning)" and "i \<noteq> j"
  shows "count_where (\<lambda>_ r. cl_target_id r = tid \<and> cl_status r = ''completed'')
    (ls_logs (prune_older Collector tid v (prune_older Api tid u s))) = 0"
proof -
  have "map_of (ls_locks (prune_older Api tid u s)) (Collector, tid) = Some (j, b, Pruning)"
    using assms(2) by (simp add: prune_older_eq [OF assms(1)])
  then show ?thesis
    using assms(3) by (auto simp: prune_older_eq [OF assms(1)] prune_older_eq(1) [of "prune_older Api tid u s"] count_where_def
        rows_where_def filter_empty_conv superseded_def case_prod_beta)
qed

lemma crossing_prunes_lose_both_witness:
  "count_where (\<lambda>_ r. cl_target_id r = 1 \<and> cl_status r = ''completed'') (ls_logs sample_crossing) = 2 \<and>
   count_where (\<lambda>_ r. cl_target_id r = 1 \<and> cl_status r = ''completed'')
     (ls_logs (prune_older Collector 1 (\<lambda>_. True) (prune_older Api 1 (\<lambda>_. True) sample_crossing))) = 0"
  using crossing_prunes_lose_both [OF sample_crossing_rows(2, 3)] sample_crossing_rows(1) by simp

text \<open>The rearm window is that of the latest policy collection that did not fail.\<close>

definition holds_off :: "target_id \<Rightarrow> collected_log \<Rightarrow> bool" where
  "holds_off tid r \<longleftrightarrow> cl_target_id r = tid \<and> cl_trigger r = ''policy'' \<and> cl_status r \<noteq> ''failed''"

lemma fold_max_ge: "u \<in> insert m (set ts) \<Longrightarrow> u \<le> fold max ts (m :: int)"
proof (induction ts arbitrary: m u)
  case (Cons t ts)
  have "max t m \<le> fold max ts (max t m)" by (rule Cons.IH) simp
  moreover have "u \<in> set ts \<Longrightarrow> u \<le> fold max ts (max t m)" by (rule Cons.IH) simp
  ultimately show ?case using Cons.prems by auto
qed simp

lemma fold_max_in: "fold max ts (m :: int) \<in> insert m (set ts)"
proof (induction ts arbitrary: m)
  case (Cons t ts)
  then show ?case using Cons [of "max t m"] by (auto simp: max_def split: if_splits)
qed simp

lemma rearm_active_iff:
  "rearm_active cfg now tid logs \<longleftrightarrow>
     (\<exists>(i, r) \<in> set logs. holds_off tid r \<and> now - cl_collected_at r < pc_rearm_seconds cfg)"
proof -
  let ?times = "map (cl_collected_at \<circ> snd) (rows_where (\<lambda>_ r. holds_off tid r) logs)"
  have times: "t \<in> set ?times \<longleftrightarrow> (\<exists>(i, r) \<in> set logs. holds_off tid r \<and> cl_collected_at r = t)" for t
    by (force simp: set_rows_where)
  have "rearm_active cfg now tid logs \<longleftrightarrow> (\<exists>t \<in> set ?times. now - t < pc_rearm_seconds cfg)"
  proof (cases ?times)
    case Nil
    then show ?thesis by (simp add: rearm_active_def get_last_policy_collection_time_def holds_off_def [abs_def])
  next
    case (Cons t ts)
    then have "rearm_active cfg now tid logs \<longleftrightarrow> now - fold max ts t < pc_rearm_seconds cfg"
      by (simp add: rearm_active_def get_last_policy_collection_time_def holds_off_def [abs_def])
    moreover have "fold max ts t \<in> set ?times" unfolding Cons using fold_max_in [of ts t] by simp
    moreover have "u \<le> fold max ts t" if "u \<in> set ?times" for u using that fold_max_ge [of u t ts] unfolding Cons by simp
    ultimately show ?thesis by force
  qed
  then show ?thesis unfolding Bex_def times by fast
qed

text \<open>
  The policy starts a collection exactly when it is enabled and collecting, the alert has
  a triggering severity and message id and names a known target that it is not collecting from,
  and every policy collection of that target that did not fail is at least the rearm time old.
\<close>

lemma policy_collects_iff:
  "policy_on_alert cfg d targets a now stamp s \<noteq> s \<longleftrightarrow>
     pc_enabled cfg \<and> pc_operating_mode cfg = ''Enabled'' \<and> severity_matches cfg a \<and> message_id_matches cfg a \<and>
     (\<exists>tid. pa_target_id a = Some tid \<and> tid \<in> fst ` set targets \<and> (Collector, tid) \<notin> fst ` set (ls_locks s) \<and>
       (\<forall>(i, r) \<in> set (ls_logs s). holds_off tid r \<longrightarrow> pc_rearm_seconds cfg \<le> now - cl_collected_at r))"
proof -
  let ?start = "\<lambda>tid. start_collection d targets Collector tid ''policy'' (pa_message_id a) now stamp s"
  have started: "(case ?start tid of Inl _ \<Rightarrow> s | Inr s' \<Rightarrow> s') \<noteq> s \<longleftrightarrow>
      tid \<in> fst ` set targets \<and> (Collector, tid) \<notin> fst ` set (ls_locks s)" for tid
  proof (cases "?start tid")
    case (Inl e)
    then show ?thesis
      by (auto simp: start_collection_def create_collected_log_def Let_def map_of_eq_None_iff split: option.splits if_splits)
  next
    case (Inr s')
    then obtain r path where "ls_logs s' = ls_logs s @ [(new_log_id (ls_logs s), r)]" "map_of (ls_locks s) (Collector, tid) = None"
      by (rule start_collection_cases)
    moreover have "tid \<in> fst ` set targets"
      using Inr by (cases "map_of targets tid") (auto simp: start_collection_def dest!: map_of_SomeD intro: rev_image_eqI)
    ultimately show ?thesis using Inr by (auto simp: map_of_eq_None_iff)
  qed
  have idle: "\<not> rearm_active cfg now tid (ls_logs s) \<longleftrightarrow>
      (\<forall>(i, r) \<in> set (ls_logs s). holds_off tid r \<longrightarrow> pc_rearm_seconds cfg \<le> now - cl_collected_at r)" for tid
    by (fastforce simp: rearm_active_iff)
  show ?thesis
  proof (cases "policy_target cfg a now (ls_logs s)")
    case None
    then show ?thesis
      by (auto simp: policy_on_alert_def policy_target_def simp flip: idle split: if_splits option.splits)
  next
    case (Some tid)
    then have "pc_enabled cfg \<and> pc_operating_mode cfg = ''Enabled'' \<and> severity_matches cfg a \<and> message_id_matches cfg a \<and>
        pa_target_id a = Some tid \<and> \<not> rearm_active cfg now tid (ls_logs s)"
      by (auto simp: policy_target_def split: if_splits option.splits)
    then show ?thesis using started [of tid] by (simp add: policy_on_alert_def Some flip: idle)
  qed
qed

definition sample_policy :: policy_config where
  "sample_policy = \<lparr>pc_enabled = True, pc_operating_mode = ''Enabled'', pc_rearm_seconds = 7200000000,
     pc_trigger_severities = [''Critical'', ''Fatal''], pc_trigger_message_ids = []\<rparr>"

definition sample_alert :: policy_alert where
  "sample_alert = \<lparr>pa_target_id = Some 1, pa_severity = Some ''critical'', pa_message_id = None\<rparr>"

lemma policy_collects_iff_witness:
  "policy_on_alert sample_policy ''/logs'' sample_targets sample_alert 5 ''b'' no_logs \<noteq> no_logs"
proof -
  have "severity_matches sample_policy sample_alert" "message_id_matches sample_policy sample_alert" by code_simp+
  then show ?thesis
    unfolding policy_collects_iff
    by (auto simp: sample_policy_def sample_alert_def sample_targets_def no_logs_def)
qed

text \<open>
  An operator's collection ends the rearm window: its prune deletes the record of the policy's
  last collection with the bundle it supersedes, and the next triggering alert collects again,
  however recent that collection was.
\<close>

lemma manual_collection_rearms:
  assumes lock: "map_of (ls_locks s) (Api, tid) = Some (i, path, Pruning)" and u: "unique_key (ls_logs s)"
    and own: "\<And>r. (i, r) \<in> set (ls_logs s) \<Longrightarrow> cl_trigger r \<noteq> ''policy''"
    and settled: "\<And>j r. (j, r) \<in> set (ls_logs s) \<Longrightarrow> holds_off tid r \<Longrightarrow> cl_status r = ''completed''"
  shows "\<not> rearm_active cfg now tid (ls_logs (prune_older Api tid unlinked s))"
  using own settled by (fastforce simp: rearm_active_iff prune_older_eq [OF lock] set_rows_where superseded_def holds_off_def)

lemma manual_collection_rearms_witness:
  "rearm_active sample_policy 9 1 (ls_logs sample_crossing) \<and>
   \<not> rearm_active sample_policy 9 1 (ls_logs (prune_older Api 1 (\<lambda>_. True) sample_crossing))"
proof
  show "rearm_active sample_policy 9 1 (ls_logs sample_crossing)" by code_simp
  have rows: "unique_key (ls_logs sample_crossing)"
    "list_all (\<lambda>(i, r). (i = 1 \<longrightarrow> cl_trigger r \<noteq> ''policy'') \<and> cl_status r = ''completed'') (ls_logs sample_crossing)"
    by code_simp+
  then show "\<not> rearm_active sample_policy 9 1 (ls_logs (prune_older Api 1 (\<lambda>_. True) sample_crossing))"
    by (intro manual_collection_rearms [OF sample_crossing_rows(2)]) (auto simp: list_all_iff)
qed

end
