(* ===== verification/Metric_Discovery.thy ===== *)
theory Metric_Discovery
  imports Py_Json Py_Time
begin

text \<open>
  Finding metrics in a report, \<open>collector/src/parser/\<close>: extraction by schema (\<open>extractor.py\<close>,
  \<open>schema.py\<close>) with its cache of compiled patterns, and the automatic discovery that walks the
  document (\<open>discovery.py\<close>). The JSONPath library is an argument: what it makes of a pattern, and
  what the compiled pattern finds in a document. Texts are ASCII.
\<close>

section \<open>Schemas\<close>

record field_definition =
  fd_json_key :: string
  fd_metric_name :: string
  fd_type :: string
  fd_unit :: string

record tag_definition =
  td_json_key :: string
  td_tag_name :: string

record metric_schema =
  ms_name :: string
  ms_description :: string
  ms_path_pattern :: string
  ms_fields :: "field_definition list"
  ms_tags_from :: "tag_definition list"

record auto_discovery_config =
  ad_enabled :: bool
  ad_include_patterns :: "string list"
  ad_exclude_patterns :: "string list"
  ad_default_type :: string
  ad_max_depth :: int

record schema_config =
  sc_schemas :: "metric_schema list"
  sc_auto_discovery :: auto_discovery_config

definition get_default_config :: schema_config where
  "get_default_config =
     \<lparr>sc_schemas = [],
      sc_auto_discovery =
        \<lparr>ad_enabled = True,
         ad_include_patterns = [''*Temp*'', ''*Temperature*'', ''*Watts*'', ''*Power*'', ''*Percent*'', ''*Util*'', ''*Bytes*'',
           ''*MHz*'', ''*Clock*'', ''*Count*'', ''*Rate*''],
         ad_exclude_patterns = [''*Timestamp*'', ''*Version*'', ''*Serial*'', ''*UUID*'', ''*Name*'', ''*ID*'', ''*Description*''],
         ad_default_type = ''gauge'', ad_max_depth = 50\<rparr>\<rparr>"

definition get_schema_by_name :: "schema_config \<Rightarrow> string \<Rightarrow> metric_schema option" where
  "get_schema_by_name c name = find (\<lambda>s. ms_name s = name) (sc_schemas c)"

section \<open>Numbers\<close>

definition TRUE_WORDS :: "string list" where
  "TRUE_WORDS = [''true'', ''yes'', ''on'', ''enabled'', ''ok'', ''healthy'']"

definition FALSE_WORDS :: "string list" where
  "FALSE_WORDS = [''false'', ''no'', ''off'', ''disabled'', ''error'', ''unhealthy'']"

fun finite_value :: "py_float \<Rightarrow> rat option" where
  "finite_value (Finite r) = Some r"
| "finite_value _ = None"

definition word_value :: "string \<Rightarrow> rat option" where
  "word_value s =
     (if py_lower s \<in> set TRUE_WORDS then Some 1 else if py_lower s \<in> set FALSE_WORDS then Some 0 else None)"

definition text_value :: "string \<Rightarrow> rat option" where
  "text_value s = (case float_of_text s of Some f \<Rightarrow> finite_value f | None \<Rightarrow> word_value s)"

text \<open>\<open>_to_numeric\<close>, of the extractor and of the discovery alike.\<close>

fun to_numeric :: "json \<Rightarrow> rat option" where
  "to_numeric (JBool b) = Some (if b then 1 else 0)"
| "to_numeric (JInt i) = float_of_int i"
| "to_numeric (JFloat f) = finite_value f"
| "to_numeric (JStr s) = text_value s"
| "to_numeric _ = None"

fun is_numeric :: "json \<Rightarrow> bool" where
  "is_numeric (JBool b) = True"
| "is_numeric (JInt i) = (float_of_int i \<noteq> None)"
| "is_numeric (JFloat f) = is_finite f"
| "is_numeric (JStr s) =
     (case float_of_text s of
        Some f \<Rightarrow> is_finite f
      | None \<Rightarrow> py_lower s \<in> set [''true'', ''false'', ''yes'', ''no'', ''on'', ''off'', ''enabled'', ''disabled'', ''ok'', ''error'',
          ''healthy'', ''unhealthy''])"
| "is_numeric _ = False"

section \<open>Extraction by schema\<close>

record extracted_metric =
  xm_name :: string
  xm_value :: rat
  xm_timestamp :: instant
  xm_metric_type :: string
  xm_unit :: string
  xm_tags :: "string dict"

text \<open>
  \<open>jsonpath_parse\<close>: a compiled pattern, whose \<open>find\<close> may raise, a \<open>JsonPathParserError\<close>, or
  another exception, which the code does not catch.
\<close>

type_synonym finder = "json \<Rightarrow> json list option"

datatype compile_result = Compiled finder | Parser_Error | Other_Exception

type_synonym jsonpath = "string \<Rightarrow> compile_result"
type_synonym pattern_cache = "(string \<times> finder option) list"

definition get_compiled_pattern :: "jsonpath \<Rightarrow> string \<Rightarrow> pattern_cache \<Rightarrow> finder option option \<times> pattern_cache" where
  "get_compiled_pattern jp pattern cache =
     (case map_of cache pattern of
        Some c \<Rightarrow> (Some c, cache)
      | None \<Rightarrow>
          (case jp pattern of
             Compiled f \<Rightarrow> (Some (Some f), AList.update pattern (Some f) cache)
           | Parser_Error \<Rightarrow> (Some None, AList.update pattern None cache)
           | Other_Exception \<Rightarrow> (None, cache)))"

definition match_tags :: "metric_schema \<Rightarrow> json dict \<Rightarrow> string dict \<Rightarrow> string dict" where
  "match_tags schema d base =
     fold (\<lambda>td tags. case map_of d (td_json_key td) of
             None \<Rightarrow> tags
           | Some v \<Rightarrow> if v = JNull then tags else AList.update (td_tag_name td) (py_str v) tags)
       (ms_tags_from schema) base"

definition field_metric :: "instant \<Rightarrow> string dict \<Rightarrow> json dict \<Rightarrow> field_definition \<Rightarrow> extracted_metric option" where
  "field_metric ts tags d fd =
     Option.bind (map_of d (fd_json_key fd)) (\<lambda>v.
       map_option (\<lambda>x. \<lparr>xm_name = fd_metric_name fd, xm_value = x, xm_timestamp = ts, xm_metric_type = fd_type fd,
                       xm_unit = fd_unit fd, xm_tags = tags\<rparr>) (to_numeric v))"

definition extract_match :: "metric_schema \<Rightarrow> instant \<Rightarrow> string dict \<Rightarrow> json \<Rightarrow> extracted_metric list" where
  "extract_match schema ts base m =
     (case m of
        JObj d \<Rightarrow> List.map_filter (field_metric ts (match_tags schema d base) d) (ms_fields schema)
      | _ \<Rightarrow> [])"

text \<open>\<open>None\<close> is an exception; the patterns compiled so far stay cached.\<close>

definition extract_with_schema ::
  "jsonpath \<Rightarrow> json \<Rightarrow> instant \<Rightarrow> string dict \<Rightarrow> metric_schema \<Rightarrow> pattern_cache \<Rightarrow> extracted_metric list option \<times> pattern_cache" where
  "extract_with_schema jp data ts base schema cache =
     (case get_compiled_pattern jp (ms_path_pattern schema) cache of
        (None, cache') \<Rightarrow> (None, cache')
      | (Some None, cache') \<Rightarrow> (Some [], cache')
      | (Some (Some f), cache') \<Rightarrow> (map_option (\<lambda>ms. concat (map (extract_match schema ts base) ms)) (f data), cache'))"

fun extract_schemas ::
  "jsonpath \<Rightarrow> json \<Rightarrow> instant \<Rightarrow> string dict \<Rightarrow> metric_schema list \<Rightarrow> pattern_cache \<Rightarrow> extracted_metric list option \<times> pattern_cache" where
  "extract_schemas jp data ts base [] cache = (Some [], cache)"
| "extract_schemas jp data ts base (s # ss) cache =
     (case extract_with_schema jp data ts base s cache of
        (None, cache') \<Rightarrow> (None, cache')
      | (Some ms, cache') \<Rightarrow>
          (case extract_schemas jp data ts base ss cache' of
             (None, cache2) \<Rightarrow> (None, cache2)
           | (Some rest, cache2) \<Rightarrow> (Some (ms @ rest), cache2)))"

definition base_tags :: "string \<Rightarrow> string dict \<Rightarrow> string dict" where
  "base_tags host extra = dict_update [(''host'', host)] extra"

definition extract_from_data ::
  "jsonpath \<Rightarrow> metric_schema list \<Rightarrow> json \<Rightarrow> string \<Rightarrow> string dict \<Rightarrow> instant \<Rightarrow> pattern_cache
   \<Rightarrow> extracted_metric list option \<times> pattern_cache" where
  "extract_from_data jp schemas data host extra ts = extract_schemas jp data ts (base_tags host extra) schemas"

section \<open>Shell patterns\<close>

text \<open>
  \<open>fnmatch.fnmatch\<close>: \<open>*\<close>, \<open>?\<close>, and sets in brackets with ranges, negated by a leading \<open>!\<close>; a
  closing bracket in first place is a member, an unclosed bracket stands for itself.
\<close>

fun in_ranges :: "char \<Rightarrow> string \<Rightarrow> bool" where
  "in_ranges c (a # d # b # r) =
     (if d = CHR ''-'' then a \<le> c \<and> c \<le> b \<or> in_ranges c r else c = a \<or> in_ranges c (d # b # r))"
| "in_ranges c (a # r) = (c = a \<or> in_ranges c r)"
| "in_ranges c [] = False"

definition in_brackets :: "string \<Rightarrow> char \<Rightarrow> bool" where
  "in_brackets stuff c = (if starts_with stuff ''!'' then \<not> in_ranges c (tl stuff) else in_ranges c stuff)"

definition bracket_end :: "string \<Rightarrow> nat option" where
  "bracket_end ps =
     (let i = (if starts_with ps ''!'' then 1 else 0);
          j = (if starts_with (drop i ps) '']'' then i + 1 else i);
          k = j + length (takeWhile (\<lambda>c. c \<noteq> CHR '']'') (drop j ps))
      in if k < length ps then Some k else None)"

function fn_match :: "string \<Rightarrow> string \<Rightarrow> bool" where
  "fn_match [] s = (s = [])"
| "fn_match (p # ps) s =
     (if p = CHR ''*'' then fn_match ps s \<or> (case s of [] \<Rightarrow> False | _ # t \<Rightarrow> fn_match (p # ps) t)
      else if s = [] then False
      else if p = CHR ''?'' then fn_match ps (tl s)
      else if p = CHR ''['' \<and> bracket_end ps \<noteq> None
      then in_brackets (take (the (bracket_end ps)) ps) (hd s) \<and> fn_match (drop (Suc (the (bracket_end ps))) ps) (tl s)
      else hd s = p \<and> fn_match ps (tl s))"
  by pat_completeness auto
termination by (relation "measure (\<lambda>(ps, s). length ps + length s)") auto

declare fn_match.simps(2) [simp del]

definition should_include :: "string \<Rightarrow> auto_discovery_config \<Rightarrow> bool" where
  "should_include key c \<longleftrightarrow>
     \<not> list_ex (\<lambda>p. fn_match p key) (ad_exclude_patterns c) \<and> list_ex (\<lambda>p. fn_match p key) (ad_include_patterns c)"

section \<open>Names of discovered metrics\<close>

definition is_upper :: "char \<Rightarrow> bool" where
  "is_upper c \<longleftrightarrow> (let n = (of_char c :: nat) in 65 \<le> n \<and> n \<le> 90)"

definition name_char :: "char \<Rightarrow> bool" where
  "name_char c \<longleftrightarrow> (let n = (of_char c :: nat) in 97 \<le> n \<and> n \<le> 122 \<or> 48 \<le> n \<and> n \<le> 57)"

fun camel_to_snake :: "string \<Rightarrow> string" where
  "camel_to_snake [] = []"
| "camel_to_snake (c # s) = c # concat (map (\<lambda>x. if is_upper x then [CHR ''_'', x] else [x]) s)"

fun squeeze :: "string \<Rightarrow> string" where
  "squeeze (a # b # s) = (if a = CHR ''_'' \<and> b = CHR ''_'' then squeeze (b # s) else a # squeeze (b # s))"
| "squeeze s = s"

definition strip_char :: "char \<Rightarrow> string \<Rightarrow> string" where
  "strip_char c s = rstrip_char c (dropWhile (\<lambda>x. x = c) s)"

definition snake_name :: "string \<Rightarrow> string" where
  "snake_name key =
     strip_char CHR ''_'' (squeeze (map (\<lambda>c. if name_char c then c else CHR ''_'') (py_lower (camel_to_snake key))))"

text \<open>Array indices such as \<open>[12]\<close> are removed, then everything but letters and digits.\<close>

function remove_indices :: "string \<Rightarrow> string" where
  "remove_indices [] = []"
| "remove_indices (c # s) =
     (let r = dropWhile dec_digit s
      in if c = CHR ''['' \<and> takeWhile dec_digit s \<noteq> [] \<and> starts_with r '']'' then remove_indices (tl r)
         else c # remove_indices s)"
  by pat_completeness auto
termination
proof (relation "measure length", simp)
  fix c s r
  have "length (dropWhile dec_digit s) \<le> length s" by (rule length_dropWhile_le)
  then show "r = dropWhile dec_digit s \<Longrightarrow> c = CHR ''['' \<and> takeWhile dec_digit s \<noteq> [] \<and> starts_with r '']'' \<Longrightarrow>
    (tl r, c # s) \<in> measure length" by simp
qed simp

declare remove_indices.simps [simp del]

definition path_part :: "string \<Rightarrow> string" where
  "path_part part = filter name_char (remove_indices (py_lower part))"

definition path_prefix :: "string \<Rightarrow> string option" where
  "path_prefix path =
     find (\<lambda>p. p \<noteq> [] \<and> p \<notin> {''telemetry'', ''data'', ''values'', ''items''})
       (map path_part (rev (butlast (split_char CHR ''.'' path))))"

definition key_to_metric_name :: "string \<Rightarrow> string \<Rightarrow> string" where
  "key_to_metric_name key path =
     (case path_prefix path of
        Some part \<Rightarrow> ''discovered_'' @ part @ ''_'' @ snake_name key
      | None \<Rightarrow> ''discovered_'' @ snake_name key)"

section \<open>Discovery\<close>

definition TAG_CANDIDATES :: "(string \<times> string) list" where
  "TAG_CANDIDATES =
     [(''id'', ''id''), (''ID'', ''id''), (''Id'', ''id''), (''name'', ''name''), (''Name'', ''name''), (''GPUID'', ''gpu_id''),
      (''GpuId'', ''gpu_id''), (''gpu_id'', ''gpu_id''), (''DeviceId'', ''device_id''), (''device_id'', ''device_id''),
      (''Index'', ''index''), (''index'', ''index'')]"

fun is_container :: "json \<Rightarrow> bool" where
  "is_container (JObj _) = True"
| "is_container (JList _) = True"
| "is_container _ = False"

definition extract_tags :: "json dict \<Rightarrow> string dict" where
  "extract_tags d =
     fold (\<lambda>(json_key, tag_name) tags. case map_of d json_key of
             None \<Rightarrow> tags
           | Some v \<Rightarrow> if v \<noteq> JNull \<and> \<not> is_container v then AList.update tag_name (py_str v) tags else tags)
       TAG_CANDIDATES []"

record discovered_metric = extracted_metric +
  xm_path :: string

definition child_path :: "string \<Rightarrow> string \<Rightarrow> string" where
  "child_path path key = path @ ''.'' @ key"

definition item_path :: "string \<Rightarrow> nat \<Rightarrow> string" where
  "item_path path i = path @ ''['' @ dec_of_nat i @ '']''"

definition new_discovered :: "auto_discovery_config \<Rightarrow> instant \<Rightarrow> string \<Rightarrow> string dict \<Rightarrow> string \<Rightarrow> rat \<Rightarrow> discovered_metric" where
  "new_discovered c ts path tags key x =
     \<lparr>xm_name = key_to_metric_name key path, xm_value = x, xm_timestamp = ts, xm_metric_type = ad_default_type c,
      xm_unit = [], xm_tags = tags, xm_path = child_path path key\<rparr>"

definition discover_leaf ::
  "auto_discovery_config \<Rightarrow> instant \<Rightarrow> string list \<Rightarrow> string \<Rightarrow> string dict \<Rightarrow> string \<Rightarrow> json \<Rightarrow> discovered_metric list" where
  "discover_leaf c ts excluded path tags key v =
     (if is_numeric v \<and> key \<notin> set excluded \<and> should_include key c
      then (case to_numeric v of
              None \<Rightarrow> []
            | Some x \<Rightarrow> [new_discovered c ts path tags key x])
      else [])"

text \<open>\<open>_walk_json\<close>, with the number of levels that the depth limit still allows.\<close>

fun walk_json ::
  "auto_discovery_config \<Rightarrow> instant \<Rightarrow> string list \<Rightarrow> nat \<Rightarrow> json \<Rightarrow> string \<Rightarrow> string dict \<Rightarrow> discovered_metric list" where
  "walk_json c ts excluded 0 data path tags = []"
| "walk_json c ts excluded (Suc n) (JObj d) path tags =
     (let merged = dict_update tags (extract_tags d)
      in concat (map (\<lambda>(key, v).
           if is_container v then walk_json c ts excluded n v (child_path path key) merged
           else discover_leaf c ts excluded path merged key v) d))"
| "walk_json c ts excluded (Suc n) (JList xs) path tags =
     concat (map (\<lambda>(i, x). walk_json c ts excluded n x (item_path path i) tags) (enumerate 0 xs))"
| "walk_json c ts excluded (Suc n) _ path tags = []"

definition max_levels :: "auto_discovery_config \<Rightarrow> nat \<Rightarrow> nat" where
  "max_levels c fallback = Suc (if 0 < ad_max_depth c then nat (ad_max_depth c) else fallback)"

definition discover ::
  "auto_discovery_config \<Rightarrow> nat \<Rightarrow> json \<Rightarrow> string \<Rightarrow> string dict \<Rightarrow> string list \<Rightarrow> instant \<Rightarrow> discovered_metric list" where
  "discover c fallback data host extra excluded ts =
     (if ad_enabled c then walk_json c ts excluded (max_levels c fallback) data ''$'' (base_tags host extra) else [])"

text \<open>\<open>analyze_structure\<close>.\<close>

record structure_analysis =
  sa_paths :: "string list"
  sa_numeric_fields :: "(string \<times> string \<times> json) list"
  sa_array_paths :: "string list"
  sa_potential_tags :: "string list"

fun is_number :: "json \<Rightarrow> bool" where
  "is_number (JBool _) = True"
| "is_number (JInt _) = True"
| "is_number (JFloat _) = True"
| "is_number _ = False"

fun analyze_node :: "nat \<Rightarrow> json \<Rightarrow> string \<Rightarrow> structure_analysis \<Rightarrow> structure_analysis" where
  "analyze_node 0 data path a = a"
| "analyze_node (Suc n) (JObj d) path a =
     (let tags = map (child_path path) (filter (\<lambda>k. py_lower k \<in> {''id'', ''name'', ''index'', ''gpuid'', ''deviceid''}) (map fst d))
      in fold (\<lambda>(key, v) a.
           if is_number v then a\<lparr>sa_numeric_fields := sa_numeric_fields a @ [(child_path path key, key, v)]\<rparr>
           else if is_container v then analyze_node n v (child_path path key) a
           else a) d (a\<lparr>sa_paths := sa_paths a @ [path], sa_potential_tags := sa_potential_tags a @ tags\<rparr>))"
| "analyze_node (Suc n) (JList (x # xs)) path a =
     analyze_node n x (path @ ''[*]'') (a\<lparr>sa_array_paths := sa_array_paths a @ [path]\<rparr>)"
| "analyze_node (Suc n) _ path a = a"

definition analyze_structure :: "json \<Rightarrow> nat \<Rightarrow> structure_analysis" where
  "analyze_structure data max_depth =
     analyze_node (Suc max_depth) data ''$'' \<lparr>sa_paths = [], sa_numeric_fields = [], sa_array_paths = [], sa_potential_tags = []\<rparr>"

section \<open>Values and names\<close>

text \<open>The two functions on values agree: what counts as numeric has a value.\<close>

lemma is_numeric_iff: "is_numeric v \<longleftrightarrow> to_numeric v \<noteq> None"
proof (cases v)
  case (JFloat f)
  then show ?thesis by (cases f) auto
next
  case (JStr s)
  show ?thesis
  proof (cases "float_of_text s")
    case None
    then show ?thesis using JStr by (auto simp: text_value_def word_value_def TRUE_WORDS_def FALSE_WORDS_def)
  next
    case (Some f)
    then show ?thesis using JStr by (cases f) (auto simp: text_value_def)
  qed
qed auto

lemma set_squeeze: "set (squeeze s) \<subseteq> set s"
  by (induction s rule: squeeze.induct) auto

lemma set_strip_char: "set (strip_char c s) \<subseteq> set s"
  by (auto simp: strip_char_def rstrip_char_def dest!: set_dropWhileD)

definition metric_char :: "char \<Rightarrow> bool" where
  "metric_char c \<longleftrightarrow> name_char c \<or> c = CHR ''_''"

lemma snake_name_chars: "c \<in> set (snake_name key) \<Longrightarrow> metric_char c"
proof -
  let ?s = "map (\<lambda>c. if name_char c then c else CHR ''_'') (py_lower (camel_to_snake key))"
  assume "c \<in> set (snake_name key)"
  then have "c \<in> set ?s" using set_squeeze [of ?s] set_strip_char [of _ "squeeze ?s"] unfolding snake_name_def by blast
  then show ?thesis by (auto simp: metric_char_def split: if_splits)
qed

lemma key_to_metric_name_chars: "c \<in> set (key_to_metric_name key path) \<Longrightarrow> metric_char c"
proof -
  assume c: "c \<in> set (key_to_metric_name key path)"
  have word: "metric_char x" if "x \<in> set ''discovered_''" for x
  proof -
    have "list_all metric_char ''discovered_''" by (simp add: metric_char_def name_char_def)
    then show ?thesis using that by (simp only: list_all_iff)
  qed
  have part: "metric_char x" if "path_prefix path = Some p" "x \<in> set p" for p x
    using find_SomeD [OF that(1) [unfolded path_prefix_def]] that(2) by (auto simp: path_part_def metric_char_def)
  show ?thesis
  proof (cases "path_prefix path")
    case None
    then have "c \<in> set ''discovered_'' \<or> c \<in> set (snake_name key)"
      using c unfolding key_to_metric_name_def by (simp only: option.case set_append Un_iff)
    then show ?thesis using word snake_name_chars by blast
  next
    case (Some p)
    then have "c \<in> set ''discovered_'' \<or> c \<in> set p \<or> c \<in> set ''_'' \<or> c \<in> set (snake_name key)"
      using c unfolding key_to_metric_name_def by (simp only: option.case set_append Un_iff)
    moreover have "\<forall>x \<in> set ''_''. metric_char x" by (simp add: metric_char_def)
    ultimately show ?thesis using word part [OF Some] snake_name_chars by blast
  qed
qed

section \<open>What discovery finds\<close>

text \<open>
  \<open>located doc p t n node q u\<close>: \<open>node\<close> lies \<open>n\<close> levels below \<open>doc\<close>; following it takes the path
  from \<open>p\<close> to \<open>q\<close>, and the tags of the dictionaries on the way, added to \<open>t\<close>, are \<open>u\<close>.
\<close>

inductive located :: "json \<Rightarrow> string \<Rightarrow> string dict \<Rightarrow> nat \<Rightarrow> json \<Rightarrow> string \<Rightarrow> string dict \<Rightarrow> bool" where
  here: "located j p t 0 j p t"
| in_dict: "(k, v) \<in> set d \<Longrightarrow> is_container v \<Longrightarrow> located v (child_path p k) (dict_update t (extract_tags d)) n node q u
    \<Longrightarrow> located (JObj d) p t (Suc n) node q u"
| in_list: "i < length xs \<Longrightarrow> located (xs ! i) (item_path p i) t n node q u \<Longrightarrow> located (JList xs) p t (Suc n) node q u"

inductive_cases located_0E: "located j p t 0 node q u"
inductive_cases located_ObjE: "located (JObj d) p t (Suc n) node q u"
inductive_cases located_ListE: "located (JList xs) p t (Suc n) node q u"
inductive_cases located_SucE: "located j p t (Suc n) node q u"

lemma set_enumerate_walk:
  "m \<in> set (concat (map (\<lambda>(i, x). f i x) (enumerate 0 xs))) \<longleftrightarrow> (\<exists>i < length xs. m \<in> set (f i (xs ! i)))"
proof -
  have "set (enumerate 0 xs) = (\<lambda>i. (i, xs ! i)) ` {..<length xs}" by (auto simp: in_set_enumerate_eq image_iff)
  then show ?thesis by auto
qed

text \<open>The leaf an inner node contributes.\<close>

definition contributes ::
  "auto_discovery_config \<Rightarrow> instant \<Rightarrow> string list \<Rightarrow> json \<Rightarrow> string \<Rightarrow> string dict \<Rightarrow> discovered_metric \<Rightarrow> bool" where
  "contributes c ts excluded node q u m \<longleftrightarrow>
     (\<exists>d k v x. node = JObj d \<and> (k, v) \<in> set d \<and> \<not> is_container v \<and> to_numeric v = Some x \<and> k \<notin> set excluded \<and> should_include k c
        \<and> m = new_discovered c ts q (dict_update u (extract_tags d)) k x)"

lemma discover_leaf_eq:
  "discover_leaf c ts excluded path tags key v =
     (if key \<notin> set excluded \<and> should_include key c
      then map (new_discovered c ts path tags key) (case to_numeric v of None \<Rightarrow> [] | Some x \<Rightarrow> [x]) else [])"
  by (cases "to_numeric v") (simp_all add: discover_leaf_def is_numeric_iff)

lemma set_discover_leaf:
  "m \<in> set (discover_leaf c ts excluded path tags key v) \<longleftrightarrow>
     (\<exists>x. to_numeric v = Some x \<and> key \<notin> set excluded \<and> should_include key c \<and> m = new_discovered c ts path tags key x)"
  by (cases "to_numeric v") (auto simp: discover_leaf_eq)

lemma walk_json_found:
  "m \<in> set (walk_json c ts excluded L doc p t) \<longleftrightarrow>
     (\<exists>n < L. \<exists>node q u. located doc p t n node q u \<and> contributes c ts excluded node q u m)"
proof (induction L arbitrary: doc p t)
  case (Suc L)
  have split: "(\<exists>n < Suc L. P n) \<longleftrightarrow> P 0 \<or> (\<exists>n < L. P (Suc n))" for P using less_Suc_eq_0_disj by auto
  have top: "(\<exists>node q u. located doc p t 0 node q u \<and> contributes c ts excluded node q u m) \<longleftrightarrow> contributes c ts excluded doc p t m"
    by (auto elim: located_0E intro: here)
  show ?case
  proof (cases doc)
    case (JObj d)
    let ?t = "dict_update t (extract_tags d)"
    have below: "located doc p t (Suc n) node q u \<longleftrightarrow>
        (\<exists>(k, v) \<in> set d. is_container v \<and> located v (child_path p k) ?t n node q u)" for n node q u
      using JObj by (auto elim!: located_ObjE intro: in_dict)
    have "m \<in> set (walk_json c ts excluded (Suc L) doc p t) \<longleftrightarrow>
        (\<exists>(k, v) \<in> set d. is_container v \<and> m \<in> set (walk_json c ts excluded L v (child_path p k) ?t))
        \<or> (\<exists>(k, v) \<in> set d. \<not> is_container v \<and> m \<in> set (discover_leaf c ts excluded p ?t k v))"
      using JObj by (auto simp: Let_def split: if_splits)
    moreover have "(\<exists>(k, v) \<in> set d. \<not> is_container v \<and> m \<in> set (discover_leaf c ts excluded p ?t k v))
        \<longleftrightarrow> contributes c ts excluded doc p t m"
      using JObj by (auto simp: set_discover_leaf contributes_def)
    ultimately show ?thesis unfolding split top below Suc.IH by blast
  next
    case (JList xs)
    have below: "located doc p t (Suc n) node q u \<longleftrightarrow>
        (\<exists>i < length xs. located (xs ! i) (item_path p i) t n node q u)" for n node q u
      using JList by (auto elim!: located_ListE intro: in_list)
    have "\<not> contributes c ts excluded doc p t m" using JList by (simp add: contributes_def)
    moreover have "m \<in> set (walk_json c ts excluded (Suc L) doc p t) \<longleftrightarrow>
        (\<exists>i < length xs. m \<in> set (walk_json c ts excluded L (xs ! i) (item_path p i) t))"
      using JList set_enumerate_walk [of m "\<lambda>i x. walk_json c ts excluded L x (item_path p i) t" xs] by simp
    ultimately show ?thesis unfolding split top below Suc.IH by blast
  qed (auto simp: split contributes_def elim: located_0E located_SucE)
qed simp

text \<open>
  (C26) Automatic discovery finds exactly the numeric leaves: a metric is reported iff discovery
  is enabled and some dictionary no deeper than the limit holds, under a key that is included,
  not excluded and not covered by a schema, a value that converts to a finite number. Its name
  and path come from where it was found, its tags from all dictionaries on the way, and its name
  uses only lower-case letters, digits and underscores.
\<close>

theorem discovery_exact:
  "(m \<in> set (discover c fallback data host extra excluded ts) \<longleftrightarrow>
      ad_enabled c
      \<and> (\<exists>n < max_levels c fallback. \<exists>d q u k v x.
            located data ''$'' (base_tags host extra) n (JObj d) q u \<and> (k, v) \<in> set d \<and> \<not> is_container v
            \<and> to_numeric v = Some x \<and> k \<notin> set excluded \<and> should_include k c
            \<and> m = new_discovered c ts q (dict_update u (extract_tags d)) k x))
   \<and> (m \<in> set (discover c fallback data host extra excluded ts) \<longrightarrow> list_all metric_char (xm_name m))"
proof
  show iff: "m \<in> set (discover c fallback data host extra excluded ts) \<longleftrightarrow>
      ad_enabled c
      \<and> (\<exists>n < max_levels c fallback. \<exists>d q u k v x.
            located data ''$'' (base_tags host extra) n (JObj d) q u \<and> (k, v) \<in> set d \<and> \<not> is_container v
            \<and> to_numeric v = Some x \<and> k \<notin> set excluded \<and> should_include k c
            \<and> m = new_discovered c ts q (dict_update u (extract_tags d)) k x)"
    unfolding discover_def contributes_def by (cases "ad_enabled c") (simp add: walk_json_found contributes_def, blast, simp)
  show "m \<in> set (discover c fallback data host extra excluded ts) \<longrightarrow> list_all metric_char (xm_name m)"
    unfolding iff using key_to_metric_name_chars by (auto simp: new_discovered_def list_all_iff)
qed

definition sample_telemetry :: json where
  "sample_telemetry =
     JObj [(''GPUs'', JList [JObj [(''Id'', JStr ''g3''), (''HbmTempC'', JFloat (Finite 65)), (''PowerCap'', JFloat NaN),
       (''TempVersion'', JBool True)]])]"

theorem discovery_exact_witness:
  "\<exists>m. discover (sc_auto_discovery get_default_config) 50 sample_telemetry ''h'' [] [] 0 = [m]
     \<and> xm_name m = ''discovered_hbm_temp_c'' \<and> xm_tags m = [(''host'', ''h''), (''id'', ''g3'')] \<and> list_all metric_char (xm_name m)"
proof -
  let ?ms = "discover (sc_auto_discovery get_default_config) 50 sample_telemetry ''h'' [] [] 0"
  have r: "map xm_name ?ms = [''discovered_hbm_temp_c''] \<and> map xm_tags ?ms = [[(''host'', ''h''), (''id'', ''g3'')]]" by code_simp
  then obtain m where m: "?ms = [m]" by (auto simp: map_eq_Cons_conv)
  then have "list_all metric_char (xm_name m)"
    using discovery_exact [of m "sc_auto_discovery get_default_config" 50 sample_telemetry "''h''" "[]" "[]" 0] by simp
  then show ?thesis using r m by auto
qed

section \<open>Patterns\<close>

definition plain_pattern :: "string \<Rightarrow> bool" where
  "plain_pattern p \<longleftrightarrow> CHR ''*'' \<notin> set p \<and> CHR ''?'' \<notin> set p \<and> CHR ''['' \<notin> set p"

lemma fn_match_plain: "plain_pattern p \<Longrightarrow> fn_match (p @ ps) s \<longleftrightarrow> (\<exists>t. s = p @ t \<and> fn_match ps t)"
proof (induction p arbitrary: s)
  case (Cons c p)
  then have "plain_pattern p" "c \<noteq> CHR ''*''" "c \<noteq> CHR ''?''" "c \<noteq> CHR ''[''" by (auto simp: plain_pattern_def)
  then show ?case using Cons.IH by (cases s) (auto simp: fn_match.simps(2) [of c])
qed simp

lemma fn_match_star: "fn_match (CHR ''*'' # ps) s \<longleftrightarrow> (\<exists>u v. s = u @ v \<and> fn_match ps v)"
proof (induction s)
  case (Cons c s)
  have "fn_match (CHR ''*'' # ps) (c # s) \<longleftrightarrow> fn_match ps (c # s) \<or> fn_match (CHR ''*'' # ps) s" by (simp add: fn_match.simps(2))
  then show ?case unfolding Cons.IH by (metis append_Cons append_Nil append_eq_Cons_conv)
qed (simp add: fn_match.simps(2))

text \<open>A pattern such as \<open>*Temp*\<close> means that the key contains the word.\<close>

lemma fn_match_contains: "plain_pattern w \<Longrightarrow> fn_match (''*'' @ w @ ''*'') key \<longleftrightarrow> contains key w"
proof -
  assume "plain_pattern w"
  then have "fn_match (w @ ''*'') s \<longleftrightarrow> (\<exists>t. s = w @ t)" for s by (auto simp: fn_match_plain fn_match_star)
  then show ?thesis by (auto simp: fn_match_star contains_iff)
qed

lemma default_include:
  "should_include key (sc_auto_discovery get_default_config) \<longleftrightarrow>
     list_ex (contains key) [''Temp'', ''Temperature'', ''Watts'', ''Power'', ''Percent'', ''Util'', ''Bytes'', ''MHz'', ''Clock'', ''Count'', ''Rate'']
     \<and> \<not> list_ex (contains key) [''Timestamp'', ''Version'', ''Serial'', ''UUID'', ''Name'', ''ID'', ''Description'']"
proof -
  have star: "fn_match (CHR ''*'' # w @ ''*'') key \<longleftrightarrow> contains key w" if "plain_pattern w" for w
    using fn_match_contains [OF that] by simp
  have ex: "list_ex (\<lambda>p. fn_match p key) (map (\<lambda>w. CHR ''*'' # w @ ''*'') ws) \<longleftrightarrow> list_ex (contains key) ws" if "list_all plain_pattern ws" for ws
    using that by (induction ws) (simp_all add: star)
  show ?thesis
    using ex [of "[''Temp'', ''Temperature'', ''Watts'', ''Power'', ''Percent'', ''Util'', ''Bytes'', ''MHz'', ''Clock'', ''Count'', ''Rate'']"]
      ex [of "[''Timestamp'', ''Version'', ''Serial'', ''UUID'', ''Name'', ''ID'', ''Description'']"]
    unfolding should_include_def get_default_config_def by (simp add: plain_pattern_def) blast
qed

section \<open>The cache of compiled patterns\<close>

definition cache_ok :: "jsonpath \<Rightarrow> pattern_cache \<Rightarrow> bool" where
  "cache_ok jp cache \<longleftrightarrow>
     (\<forall>p c. map_of cache p = Some c \<longrightarrow> jp p = (case c of Some f \<Rightarrow> Compiled f | None \<Rightarrow> Parser_Error))"

text \<open>What a schema yields, without the cache.\<close>

definition schema_metrics :: "jsonpath \<Rightarrow> json \<Rightarrow> instant \<Rightarrow> string dict \<Rightarrow> metric_schema \<Rightarrow> extracted_metric list option" where
  "schema_metrics jp data ts base s =
     (case jp (ms_path_pattern s) of
        Compiled f \<Rightarrow> map_option (\<lambda>ms. concat (map (extract_match s ts base) ms)) (f data)
      | Parser_Error \<Rightarrow> Some []
      | Other_Exception \<Rightarrow> None)"

lemma extract_with_schema_cache:
  assumes "cache_ok jp cache"
  shows "fst (extract_with_schema jp data ts base s cache) = schema_metrics jp data ts base s
    \<and> cache_ok jp (snd (extract_with_schema jp data ts base s cache))"
proof (cases "map_of cache (ms_path_pattern s)")
  case None
  then show ?thesis
    using assms by (auto simp: extract_with_schema_def get_compiled_pattern_def schema_metrics_def cache_ok_def map_of_update
        split: compile_result.splits)
next
  case (Some c)
  then have "jp (ms_path_pattern s) = (case c of Some f \<Rightarrow> Compiled f | None \<Rightarrow> Parser_Error)" using assms by (auto simp: cache_ok_def)
  then show ?thesis
    using assms Some by (cases c) (auto simp: extract_with_schema_def get_compiled_pattern_def schema_metrics_def)
qed

lemma extract_schemas_cache:
  "cache_ok jp cache \<Longrightarrow>
     fst (extract_schemas jp data ts base ss cache) = map_option concat (those (map (schema_metrics jp data ts base) ss))
     \<and> cache_ok jp (snd (extract_schemas jp data ts base ss cache))"
proof (induction ss arbitrary: cache)
  case (Cons s ss)
  obtain r cache' where one: "extract_with_schema jp data ts base s cache = (r, cache')" by fastforce
  then have r: "r = schema_metrics jp data ts base s" "cache_ok jp cache'"
    using extract_with_schema_cache [OF Cons.prems, of data ts base s] by auto
  obtain r2 cache2 where two: "extract_schemas jp data ts base ss cache' = (r2, cache2)" by fastforce
  then have "r2 = map_option concat (those (map (schema_metrics jp data ts base) ss))" "cache_ok jp cache2"
    using Cons.IH [OF r(2)] by auto
  then show ?case using one two r by (auto split: option.splits)
qed simp

lemma those_map: "those (map f xs) = (if \<exists>x \<in> set xs. f x = None then None else Some (map (\<lambda>x. the (f x)) xs))"
  by (induction xs) (auto split: option.splits)

text \<open>
  The cache of compiled patterns never shows: for every cache built up by earlier calls,
  extraction yields what the patterns yield when each is compiled afresh, in the order of the
  schemas. A pattern that does not parse costs its schema alone, but any other exception of a
  pattern, or of its search, loses the metrics of all schemas.
\<close>

lemma pattern_cache_transparent:
  assumes "cache_ok jp cache"
  shows "fst (extract_from_data jp schemas data host extra ts cache) =
      (if \<exists>s \<in> set schemas. schema_metrics jp data ts (base_tags host extra) s = None then None
       else Some (concat (map (\<lambda>s. the (schema_metrics jp data ts (base_tags host extra) s)) schemas)))
    \<and> cache_ok jp (snd (extract_from_data jp schemas data host extra ts cache))"
  using extract_schemas_cache [OF assms, of data ts "base_tags host extra" schemas]
  by (simp add: extract_from_data_def those_map)

definition sample_jsonpath :: jsonpath where
  "sample_jsonpath p = (if p = ''$'' then Compiled (\<lambda>j. Some [j]) else if p = ''$['' then Parser_Error else Other_Exception)"

definition sample_schema :: "string \<Rightarrow> metric_schema" where
  "sample_schema p = \<lparr>ms_name = ''s'', ms_description = [], ms_path_pattern = p,
     ms_fields = [\<lparr>fd_json_key = ''v'', fd_metric_name = ''m'', fd_type = ''gauge'', fd_unit = []\<rparr>], ms_tags_from = []\<rparr>"

lemma pattern_cache_transparent_witness:
  "cache_ok sample_jsonpath [(''$['', None)]
   \<and> map_option (map xm_value)
       (fst (extract_from_data sample_jsonpath [sample_schema ''$['', sample_schema ''$''] (JObj [(''v'', JBool True)]) ''h'' [] 0 [(''$['', None)]))
     = Some [1]
   \<and> fst (extract_from_data sample_jsonpath [sample_schema ''$'', sample_schema ''?''] (JObj [(''v'', JBool True)]) ''h'' [] 0 [(''$['', None)])
     = None"
proof -
  have ok: "cache_ok sample_jsonpath [(''$['', None)]" by (simp add: cache_ok_def sample_jsonpath_def)
  note eval = sample_schema_def schema_metrics_def sample_jsonpath_def extract_match_def field_metric_def List.map_filter_def
  have "map_option (map xm_value)
       (fst (extract_from_data sample_jsonpath [sample_schema ''$['', sample_schema ''$''] (JObj [(''v'', JBool True)]) ''h'' [] 0 [(''$['', None)]))
     = Some [1]"
    using pattern_cache_transparent [OF ok, of "[sample_schema ''$['', sample_schema ''$'']" "JObj [(''v'', JBool True)]" "''h''" "[]" 0]
    by (simp add: eval)
  moreover have "fst (extract_from_data sample_jsonpath [sample_schema ''$'', sample_schema ''?''] (JObj [(''v'', JBool True)]) ''h'' [] 0
      [(''$['', None)]) = None"
    using pattern_cache_transparent [OF ok, of "[sample_schema ''$'', sample_schema ''?'']" "JObj [(''v'', JBool True)]" "''h''" "[]" 0]
    by (simp add: eval)
  ultimately show ?thesis using ok by blast
qed

end
