(* ===== verification/Blob_Unpacker.thy ===== *)
theory Blob_Unpacker
  imports Py_Text Py_Time
begin

text \<open>
  \<open>collector/src/parser/unpacker.py\<close>: unpacking a telemetry blob into a fresh directory below
  the temporary directory, and the removal of what was unpacked. Bytes are \<open>char\<close>s. The archive
  readers of the standard library (\<open>zipfile\<close>, \<open>gzip\<close>, \<open>tarfile\<close>) are arguments: the members they
  list and the data or the failure they deliver. So are the random part of the directory name
  and the names the file system refuses. The temporary directory is a table of directories, each
  a table of files; deleting succeeds.
\<close>

section \<open>Names of files\<close>

text \<open>\<open>Path(s).name\<close>; \<open>stem\<close> and \<open>suffix\<close> of a name.\<close>

definition path_name :: "string \<Rightarrow> string" where
  "path_name s =
     (let parts = filter (\<lambda>p. p \<noteq> [] \<and> p \<noteq> ''.'') (split_char CHR ''/'' s)
      in if parts = [] then [] else last parts)"

definition name_suffix :: "string \<Rightarrow> string" where
  "name_suffix n =
     (let ext = rev (takeWhile (\<lambda>c. c \<noteq> CHR ''.'') (rev n))
      in if CHR ''.'' \<in> set n \<and> ext \<noteq> [] \<and> Suc (length ext) < length n then ''.'' @ ext else [])"

definition name_stem :: "string \<Rightarrow> string" where
  "name_stem n = take (length n - length (name_suffix n)) n"

text \<open>\<open>os.path.basename\<close>.\<close>

definition os_basename :: "string \<Rightarrow> string" where
  "os_basename s = last (split_char CHR ''/'' s)"

definition safe_char :: "char \<Rightarrow> bool" where
  "safe_char c \<longleftrightarrow>
     (let n = (of_char c :: nat) in 97 \<le> n \<and> n \<le> 122 \<or> 65 \<le> n \<and> n \<le> 90 \<or> 48 \<le> n \<and> n \<le> 57 \<or> n = 95 \<or> n = 45)"

definition safe_target_name :: "string \<Rightarrow> string" where
  "safe_target_name t =
     (let s = take 50 (map (\<lambda>c. if safe_char c then c else CHR ''_'') t) in if s = [] then ''unknown'' else s)"

section \<open>Extracted files\<close>

type_synonym folder = "(string \<times> string) list"

record temp_folder =
  tf_files :: folder
  tf_mtime :: instant

record extracted_file =
  ef_folder :: string
  ef_file :: string
  ef_original_name :: string
  ef_size :: nat
  ef_report_type :: string

definition new_extracted :: "string \<Rightarrow> string \<Rightarrow> string \<Rightarrow> nat \<Rightarrow> extracted_file" where
  "new_extracted d file original n =
     \<lparr>ef_folder = d, ef_file = file, ef_original_name = original, ef_size = n,
      ef_report_type = (let s = name_stem (path_name original) in if s = [] then ''telemetry'' else s)\<rparr>"

text \<open>
  What a library delivers as it is read: chunks of bytes, then the end or an exception. A tar
  reader fails with \<open>TarError\<close> or \<open>OSError\<close>, or with another exception, maybe after some of the
  bytes of the member.
\<close>

record byte_stream =
  bs_chunks :: "string list"
  bs_raises :: bool

record zip_info =
  zi_filename :: string
  zi_stream :: byte_stream

datatype tar_fault = Tar_Or_Os_Error | Other_Fault

datatype tar_kind = Tar_Dir | Tar_File | Tar_Other

record tar_member =
  tm_name :: string
  tm_kind :: tar_kind
  tm_size :: nat
  tm_bytes :: string
  tm_fault :: "tar_fault option"

record archive_lib =
  zip_infolist :: "string \<Rightarrow> zip_info list option"
  gunzip :: "string \<Rightarrow> byte_stream"
  tar_members :: "string \<Rightarrow> tar_fault + tar_member list"
  is_utf8 :: "string \<Rightarrow> bool"
  can_write :: "string \<Rightarrow> bool"

datatype unpack_exn = Value_Error | Other_Error

definition MAX_DECOMPRESSED_SIZE :: nat where
  "MAX_DECOMPRESSED_SIZE = 500 * 1024 * 1024"

definition over_limit :: "nat \<Rightarrow> bool" where
  "over_limit n \<longleftrightarrow> MAX_DECOMPRESSED_SIZE < n"

lemma over_limit_code [code]: "over_limit n \<longleftrightarrow> 524288000 < int n"
  by (simp add: over_limit_def MAX_DECOMPRESSED_SIZE_def)

section \<open>A free name\<close>

text \<open>\<open>(extract_dir / n).exists()\<close>: the directory itself and its parent exist.\<close>

definition exists_in :: "folder \<Rightarrow> string \<Rightarrow> bool" where
  "exists_in fs n \<longleftrightarrow> n \<in> fst ` set fs \<or> n \<in> {[], ''.'', ''..''}"

definition numbered :: "string \<Rightarrow> string \<Rightarrow> nat \<Rightarrow> string" where
  "numbered stem suffix k = stem @ ''_'' @ dec_of_nat k @ suffix"

lemma numbered_inject: "numbered stem suffix j = numbered stem suffix k \<longleftrightarrow> j = k"
  by (simp add: numbered_def)

lemma finite_taken: "finite {j. exists_in fs (numbered stem suffix j)}"
proof -
  have "inj (numbered stem suffix)" by (simp add: inj_def numbered_inject)
  moreover have "finite (fst ` set fs \<union> {[], ''.'', ''..''})" by simp
  ultimately have "finite (numbered stem suffix -` (fst ` set fs \<union> {[], ''.'', ''..''}))" by (rule finite_vimageI [rotated])
  then show ?thesis by (simp add: exists_in_def vimage_def)
qed

text \<open>The loop that counts up ends: only finitely many numbered names are taken.\<close>

function free_number :: "folder \<Rightarrow> string \<Rightarrow> string \<Rightarrow> nat \<Rightarrow> nat" where
  "free_number fs stem suffix k =
     (if exists_in fs (numbered stem suffix k) then free_number fs stem suffix (Suc k) else k)"
  by pat_completeness auto
termination
proof (relation "measure (\<lambda>(fs, stem, suffix, k). card {j. k \<le> j \<and> exists_in fs (numbered stem suffix j)})", simp)
  fix fs stem suffix k
  assume taken: "exists_in fs (numbered stem suffix k)"
  have "{j. Suc k \<le> j \<and> exists_in fs (numbered stem suffix j)} \<subset> {j. k \<le> j \<and> exists_in fs (numbered stem suffix j)}"
    using taken by (auto simp: Suc_le_eq)
  moreover have "finite {j. k \<le> j \<and> exists_in fs (numbered stem suffix j)}"
    by (rule finite_subset [OF _ finite_taken [of fs stem suffix]]) auto
  ultimately show "((fs, stem, suffix, Suc k), fs, stem, suffix, k)
      \<in> measure (\<lambda>(fs, stem, suffix, k). card {j. k \<le> j \<and> exists_in fs (numbered stem suffix j)})"
    by (simp add: psubset_card_mono)
qed

declare free_number.simps [simp del]

text \<open>
  The name a member gets. Joining an empty name is the directory itself, whose own name then
  gives the stem.
\<close>

definition free_name :: "string \<Rightarrow> folder \<Rightarrow> string \<Rightarrow> string" where
  "free_name d fs base =
     (if exists_in fs base
      then (let n = (if base = [] then d else base); stem = name_stem n; suffix = name_suffix n
            in numbered stem suffix (free_number fs stem suffix 1))
      else base)"

section \<open>Archives\<close>

type_synonym extraction = "(unpack_exn + extracted_file list) \<times> folder"

text \<open>Read until the end, counting against the limit.\<close>

fun read_limited :: "nat \<Rightarrow> string list \<Rightarrow> nat option" where
  "read_limited n [] = Some n"
| "read_limited n (c # cs) =
     (if over_limit (n + length c) then None else read_limited (n + length c) cs)"

fun extract_zip_members ::
  "archive_lib \<Rightarrow> string \<Rightarrow> zip_info list \<Rightarrow> nat \<Rightarrow> extracted_file list \<Rightarrow> folder \<Rightarrow> extraction" where
  "extract_zip_members lib d [] n acc fs = (Inr acc, fs)"
| "extract_zip_members lib d (info # infos) n acc fs =
     (if ends_with (zi_filename info) ''/'' \<or> starts_with (zi_filename info) ''__MACOSX'' \<or> starts_with (zi_filename info) ''.''
      then extract_zip_members lib d infos n acc fs
      else
        (let file = free_name d fs (path_name (zi_filename info));
             bytes = concat (bs_chunks (zi_stream info))
         in if \<not> can_write lib file then (Inl Other_Error, fs)
            else case read_limited n (bs_chunks (zi_stream info)) of
                   None \<Rightarrow> (Inl Value_Error, fs)
                 | Some n' \<Rightarrow>
                     if bs_raises (zi_stream info) then (Inl Other_Error, fs @ [(file, bytes)])
                     else extract_zip_members lib d infos n'
                            (acc @ [new_extracted d file (zi_filename info) (length bytes)]) (fs @ [(file, bytes)])))"

definition extract_zip :: "archive_lib \<Rightarrow> string \<Rightarrow> string \<Rightarrow> extraction" where
  "extract_zip lib d content =
     (case zip_infolist lib content of
        None \<Rightarrow> (Inl Other_Error, [])
      | Some infos \<Rightarrow> extract_zip_members lib d infos 0 [] [])"

fun fault_exn :: "tar_fault \<Rightarrow> unpack_exn" where
  "fault_exn Tar_Or_Os_Error = Value_Error"
| "fault_exn Other_Fault = Other_Error"

fun extract_tar_members ::
  "archive_lib \<Rightarrow> string \<Rightarrow> tar_member list \<Rightarrow> nat \<Rightarrow> extracted_file list \<Rightarrow> folder \<Rightarrow> extraction" where
  "extract_tar_members lib d [] n acc fs = (Inr acc, fs)"
| "extract_tar_members lib d (m # ms) n acc fs =
     (if tm_kind m \<noteq> Tar_File then extract_tar_members lib d ms n acc fs
      else if over_limit (tm_size m) then (Inl Value_Error, fs)
      else if over_limit (n + tm_size m) then (Inl Value_Error, fs)
      else
        (let base = os_basename (tm_name m); n' = n + tm_size m
         in if base = [] \<or> starts_with base ''.'' then extract_tar_members lib d ms n' acc fs
            else
              (let file = free_name d fs base
               in if \<not> can_write lib file then (Inl Value_Error, fs)
                  else case tm_fault m of
                         Some fault \<Rightarrow> (Inl (fault_exn fault), fs @ [(file, tm_bytes m)])
                       | None \<Rightarrow>
                           extract_tar_members lib d ms n' (acc @ [new_extracted d file base (tm_size m)])
                             (fs @ [(file, tm_bytes m)]))))"

definition extract_tar :: "archive_lib \<Rightarrow> string \<Rightarrow> string \<Rightarrow> extraction" where
  "extract_tar lib d content =
     (case tar_members lib content of
        Inl fault \<Rightarrow> (Inl (fault_exn fault), [])
      | Inr ms \<Rightarrow> extract_tar_members lib d ms 0 [] [])"

definition is_zip :: "string \<Rightarrow> bool" where
  "is_zip content \<longleftrightarrow> take 4 content = [CHR ''P'', CHR ''K'', CHR 0x03, CHR 0x04]"

definition is_gzip :: "string \<Rightarrow> bool" where
  "is_gzip content \<longleftrightarrow> take 2 content = [CHR 0x1F, CHR 0x8B]"

definition is_tar :: "string \<Rightarrow> bool" where
  "is_tar content \<longleftrightarrow> 262 \<le> length content \<and> take 5 (drop 257 content) = ''ustar''"

text \<open>One file with the whole content, \<open>.json\<close> when it is text; it replaces one of the same name.\<close>

definition telemetry_name :: "archive_lib \<Rightarrow> string \<Rightarrow> string \<Rightarrow> string" where
  "telemetry_name lib target content = target @ ''_telemetry'' @ (if is_utf8 lib content then ''.json'' else ''.bin'')"

definition save_raw :: "archive_lib \<Rightarrow> string \<Rightarrow> string \<Rightarrow> string \<Rightarrow> folder \<Rightarrow> extraction" where
  "save_raw lib d target content fs =
     (let file = telemetry_name lib target content
      in if can_write lib file
         then (Inr [new_extracted d file file (length content)], AList.update file content fs)
         else (Inl Other_Error, fs))"

text \<open>Whatever fails here ends in the handler of \<open>unpack\<close>.\<close>

definition extract_gzip :: "archive_lib \<Rightarrow> string \<Rightarrow> string \<Rightarrow> string \<Rightarrow> extraction" where
  "extract_gzip lib d target content =
     (let stream = gunzip lib content; bytes = concat (bs_chunks stream)
      in case read_limited 0 (bs_chunks stream) of
           None \<Rightarrow> (Inl Value_Error, [])
         | Some _ \<Rightarrow>
             if bs_raises stream then (Inl Value_Error, [])
             else if is_tar bytes then extract_tar lib d bytes
             else save_raw lib d target bytes [])"

definition try_extract_tar_direct :: "archive_lib \<Rightarrow> string \<Rightarrow> string \<Rightarrow> (unpack_exn + extracted_file list option) \<times> folder" where
  "try_extract_tar_direct lib d content =
     (case extract_tar lib d content of
        (Inl Value_Error, fs) \<Rightarrow> (Inr None, fs)
      | (Inl Other_Error, fs) \<Rightarrow> (Inl Other_Error, fs)
      | (Inr files, fs) \<Rightarrow> (Inr (Some files), fs))"

section \<open>Unpacking\<close>

text \<open>The magic bytes decide; without them, words of the content type; else tar, then raw.\<close>

definition extract_blob :: "archive_lib \<Rightarrow> string \<Rightarrow> string \<Rightarrow> string \<Rightarrow> string \<Rightarrow> extraction" where
  "extract_blob lib d target content content_type =
     (let ct = py_lower content_type
      in if is_zip content then extract_zip lib d content
         else if is_gzip content then extract_gzip lib d target content
         else if is_tar content then extract_tar lib d content
         else if contains ct ''zip'' then extract_zip lib d content
         else if contains ct ''gzip'' \<or> contains ct ''gz'' then extract_gzip lib d target content
         else if contains ct ''tar'' \<or> contains ct ''application/x-tar'' then extract_tar lib d content
         else case try_extract_tar_direct lib d content of
                (Inl e, fs) \<Rightarrow> (Inl e, fs)
              | (Inr (Some files), fs) \<Rightarrow> (Inr files, fs)
              | (Inr None, fs) \<Rightarrow> save_raw lib d target content fs)"

record unpacker =
  cleanup_after_parse :: bool
  max_blob_size :: nat

type_synonym temp_dir = "(string \<times> temp_folder) list"

text \<open>
  \<open>unpack\<close>. \<open>rnd\<close> is the random part of the new directory's name, absent when \<open>mkdtemp\<close> fails,
  which is not inside the \<open>try\<close>.
\<close>

definition unpack ::
  "unpacker \<Rightarrow> archive_lib \<Rightarrow> string option \<Rightarrow> instant \<Rightarrow> string \<Rightarrow> string \<Rightarrow> string \<Rightarrow> temp_dir
   \<Rightarrow> (unpack_exn + extracted_file list) \<times> temp_dir" where
  "unpack u lib rnd now content content_type target_name tmp =
     (if max_blob_size u < length content \<or> content = [] then (Inl Value_Error, tmp)
      else case rnd of
             None \<Rightarrow> (Inl Other_Error, tmp)
           | Some r \<Rightarrow>
               (let d = safe_target_name target_name @ ''_'' @ r
                in case extract_blob lib d (safe_target_name target_name) content content_type of
                     (Inl _, _) \<Rightarrow> (Inl Value_Error, tmp)
                   | (Inr files, fs) \<Rightarrow> (Inr files, tmp @ [(d, \<lparr>tf_files = fs, tf_mtime = now\<rparr>)])))"

section \<open>Removal\<close>

definition unlink :: "instant \<Rightarrow> extracted_file \<Rightarrow> temp_dir \<Rightarrow> temp_dir" where
  "unlink now f =
     map_rows (\<lambda>d t. if d = ef_folder f \<and> ef_file f \<in> fst ` set (tf_files t)
                     then t\<lparr>tf_files := rows_where (\<lambda>n _. n \<noteq> ef_file f) (tf_files t), tf_mtime := now\<rparr> else t)"

definition file_exists :: "temp_dir \<Rightarrow> extracted_file \<Rightarrow> bool" where
  "file_exists tmp f \<longleftrightarrow> (case map_of tmp (ef_folder f) of None \<Rightarrow> False | Some t \<Rightarrow> ef_file f \<in> fst ` set (tf_files t))"

fun unlink_all :: "instant \<Rightarrow> extracted_file list \<Rightarrow> string list \<Rightarrow> temp_dir \<Rightarrow> string list \<times> temp_dir" where
  "unlink_all now [] dirs tmp = (dirs, tmp)"
| "unlink_all now (f # files) dirs tmp =
     (if file_exists tmp f then unlink_all now files (ef_folder f # dirs) (unlink now f tmp)
      else unlink_all now files dirs tmp)"

definition cleanup :: "unpacker \<Rightarrow> instant \<Rightarrow> extracted_file list \<Rightarrow> temp_dir \<Rightarrow> temp_dir" where
  "cleanup u now files tmp =
     (if \<not> cleanup_after_parse u then tmp
      else (let (dirs, tmp') = unlink_all now files [] tmp
            in rows_where (\<lambda>d t. \<not> (d \<in> set dirs \<and> tf_files t = [])) tmp'))"

text \<open>Ages are in microseconds.\<close>

definition cleanup_old_files :: "instant \<Rightarrow> duration \<Rightarrow> temp_dir \<Rightarrow> nat \<times> temp_dir" where
  "cleanup_old_files now max_age tmp =
     (count_where (\<lambda>_ t. max_age < now - tf_mtime t) tmp, rows_where (\<lambda>_ t. \<not> max_age < now - tf_mtime t) tmp)"

section \<open>What is written\<close>

definition plain_name :: "string \<Rightarrow> bool" where
  "plain_name n \<longleftrightarrow> CHR ''/'' \<notin> set n \<and> n \<notin> {[], ''.'', ''..''}"

definition folder_bytes :: "folder \<Rightarrow> nat" where
  "folder_bytes fs = sum_list (map (length \<circ> snd) fs)"

text \<open>\<open>tarfile\<close> delivers as many bytes as the header of the member says, or fails before that.\<close>

definition tar_lib_ok :: "archive_lib \<Rightarrow> bool" where
  "tar_lib_ok lib \<longleftrightarrow>
     (\<forall>content ms. tar_members lib content = Inr ms \<longrightarrow>
        (\<forall>m \<in> set ms. length (tm_bytes m) \<le> tm_size m \<and> (tm_fault m = None \<longrightarrow> length (tm_bytes m) = tm_size m)))"

definition folder_ok :: "string \<Rightarrow> nat \<Rightarrow> folder \<Rightarrow> bool" where
  "folder_ok d n fs \<longleftrightarrow> distinct (map fst fs) \<and> (\<forall>m \<in> fst ` set fs. plain_name m) \<and> folder_bytes fs \<le> n"

definition files_ok :: "string \<Rightarrow> extracted_file list \<Rightarrow> folder \<Rightarrow> bool" where
  "files_ok d files fs \<longleftrightarrow>
     distinct (map ef_file files)
     \<and> (\<forall>f \<in> set files. ef_folder f = d \<and> (\<exists>bytes. map_of fs (ef_file f) = Some bytes \<and> length bytes = ef_size f))"

lemma folder_bytes_simps [simp]:
  "folder_bytes [] = 0" "folder_bytes (fs @ gs) = folder_bytes fs + folder_bytes gs"
  "folder_bytes ((n, b) # fs) = length b + folder_bytes fs"
  by (simp_all add: folder_bytes_def)

lemma split_char_part: "p \<in> set (split_char c s) \<Longrightarrow> c \<notin> set p"
proof (induction s arbitrary: p)
  case (Cons x s)
  then show ?case by (auto split: if_splits list.splits)
qed simp

lemma path_name_no_slash: "CHR ''/'' \<notin> set (path_name s)"
proof -
  let ?parts = "filter (\<lambda>p. p \<noteq> [] \<and> p \<noteq> ''.'') (split_char CHR ''/'' s)"
  have "last ?parts \<in> set (split_char CHR ''/'' s)" if "?parts \<noteq> []" using last_in_set [OF that] by simp
  then show ?thesis using split_char_part by (auto simp: path_name_def Let_def)
qed

lemma os_basename_no_slash: "CHR ''/'' \<notin> set (os_basename s)"
  unfolding os_basename_def by (rule split_char_part [where s = s]) simp

lemma set_name_stem: "set (name_stem n) \<subseteq> set n"
  by (auto simp: name_stem_def dest: in_set_takeD)

lemma set_name_suffix: "set (name_suffix n) \<subseteq> set n"
  by (auto simp: name_suffix_def Let_def dest: set_takeWhileD)

lemma dec_no_slash: "CHR ''/'' \<notin> set (dec_of_nat k)"
proof
  assume "CHR ''/'' \<in> set (dec_of_nat k)"
  then obtain e where "e < 10" "CHR ''/'' = digit_char e" using digit_of_dec by blast
  then have "(of_char CHR ''/'' :: nat) = 48 + e" by (simp add: digit_char_def)
  then show False by simp
qed

lemma free_number_free: "\<not> exists_in fs (numbered stem suffix (free_number fs stem suffix k))"
proof (induction fs stem suffix k rule: free_number.induct)
  case (1 fs stem suffix k)
  then show ?case by (cases "exists_in fs (numbered stem suffix k)") (simp_all add: free_number.simps [of _ _ _ k])
qed

text \<open>A chosen name is new in the directory and stays inside it.\<close>

lemma free_name_new: "\<not> exists_in fs (free_name d fs base)"
  by (simp add: free_name_def Let_def free_number_free)

lemma free_name_plain:
  assumes "CHR ''/'' \<notin> set base" "CHR ''/'' \<notin> set d"
  shows "plain_name (free_name d fs base)"
proof -
  let ?n = "if base = [] then d else base"
  have "CHR ''/'' \<notin> set ?n" using assms by simp
  then have "CHR ''/'' \<notin> set (numbered (name_stem ?n) (name_suffix ?n) k)" for k
    using set_name_stem [of ?n] set_name_suffix [of ?n] dec_no_slash by (auto simp: numbered_def)
  then have "CHR ''/'' \<notin> set (free_name d fs base)" using assms(1) by (simp add: free_name_def Let_def)
  moreover have "free_name d fs base \<notin> {[], ''.'', ''..''}" using free_name_new [of fs d base] by (simp add: exists_in_def)
  ultimately show ?thesis by (simp add: plain_name_def)
qed

lemma read_limited_sum:
  "read_limited n cs = Some n' \<Longrightarrow> n \<le> MAX_DECOMPRESSED_SIZE \<Longrightarrow> n' = n + length (concat cs) \<and> n' \<le> MAX_DECOMPRESSED_SIZE"
  by (induction n cs rule: read_limited.induct) (auto simp: over_limit_def split: if_splits)

lemma folder_ok_snoc:
  assumes "folder_ok d n fs" "n + length bytes \<le> n'" "CHR ''/'' \<notin> set base" "CHR ''/'' \<notin> set d"
  shows "folder_ok d n' (fs @ [(free_name d fs base, bytes)])"
  using assms free_name_new [of fs d base] free_name_plain [OF assms(3,4)]
  by (auto simp: folder_ok_def exists_in_def)

lemma map_of_snoc: "k \<notin> fst ` set fs \<Longrightarrow> map_of (fs @ [(k, v)]) j = (if j = k then Some v else map_of fs j)"
  by (induction fs) auto

lemma files_ok_snoc:
  assumes "files_ok d files fs"
  shows "files_ok d (files @ [new_extracted d (free_name d fs base) original (length bytes)]) (fs @ [(free_name d fs base, bytes)])"
proof -
  have new: "free_name d fs base \<notin> fst ` set fs" using free_name_new [of fs d base] by (simp add: exists_in_def)
  have old: "ef_file f \<in> fst ` set fs" if "f \<in> set files" for f
    using assms that unfolding files_ok_def by (metis map_of_eq_None_iff option.distinct(1))
  have "free_name d fs base \<notin> ef_file ` set files" using old new by force
  moreover have "map_of (fs @ [(free_name d fs base, bytes)]) (ef_file f) = map_of fs (ef_file f)" if "f \<in> set files" for f
    using old [OF that] new map_of_snoc [OF new] by metis
  ultimately show ?thesis using assms new by (auto simp: files_ok_def new_extracted_def map_of_snoc [OF new] simp del: map_of_append)
qed

lemma folder_ok_mono: "folder_ok d n fs \<Longrightarrow> n \<le> n' \<Longrightarrow> folder_ok d n' fs"
  by (simp add: folder_ok_def)

lemma extract_zip_members_ok:
  assumes "extract_zip_members lib d infos n acc fs = (Inr files, gs)"
    and "folder_ok d n fs" "files_ok d acc fs" "n \<le> MAX_DECOMPRESSED_SIZE" "CHR ''/'' \<notin> set d"
  shows "folder_ok d MAX_DECOMPRESSED_SIZE gs \<and> files_ok d files gs"
  using assms
proof (induction infos arbitrary: n acc fs)
  case Nil
  then show ?case using folder_ok_mono by auto
next
  case (Cons info infos)
  let ?file = "free_name d fs (path_name (zi_filename info))"
  let ?bytes = "concat (bs_chunks (zi_stream info))"
  show ?case
  proof (cases "ends_with (zi_filename info) ''/'' \<or> starts_with (zi_filename info) ''__MACOSX'' \<or> starts_with (zi_filename info) ''.''")
    case True
    then show ?thesis using Cons.prems by (intro Cons.IH [of n acc fs]) simp_all
  next
    case False
    then obtain n' where n': "read_limited n (bs_chunks (zi_stream info)) = Some n'"
      and rest: "extract_zip_members lib d infos n' (acc @ [new_extracted d ?file (zi_filename info) (length ?bytes)])
        (fs @ [(?file, ?bytes)]) = (Inr files, gs)"
      using Cons.prems(1) by (auto simp: Let_def split: if_splits option.splits)
    have "n' = n + length ?bytes" "n' \<le> MAX_DECOMPRESSED_SIZE" using read_limited_sum [OF n' Cons.prems(4)] by blast+
    then show ?thesis
      using Cons.IH [OF rest] folder_ok_snoc [OF Cons.prems(2) _ path_name_no_slash Cons.prems(5)] files_ok_snoc [OF Cons.prems(3)]
        Cons.prems(5) by simp
  qed
qed

lemma extract_tar_members_ok:
  assumes "extract_tar_members lib d ms n acc fs = (r, gs)"
    and "folder_ok d n fs" "files_ok d acc fs" "n \<le> MAX_DECOMPRESSED_SIZE" "CHR ''/'' \<notin> set d"
    and "\<forall>m \<in> set ms. length (tm_bytes m) \<le> tm_size m \<and> (tm_fault m = None \<longrightarrow> length (tm_bytes m) = tm_size m)"
  shows "folder_ok d MAX_DECOMPRESSED_SIZE gs \<and> (\<forall>files. r = Inr files \<longrightarrow> files_ok d files gs)"
  using assms
proof (induction ms arbitrary: n acc fs)
  case Nil
  then show ?case using folder_ok_mono by auto
next
  case (Cons m ms)
  let ?base = "os_basename (tm_name m)"
  let ?file = "free_name d fs ?base"
  have stop: ?case if "r = Inl e" "gs = fs" for e using that Cons.prems(2, 4) folder_ok_mono by auto
  have grown: "folder_ok d (n + tm_size m) (fs @ [(?file, tm_bytes m)])"
    using Cons.prems(6) by (intro folder_ok_snoc [OF Cons.prems(2) _ os_basename_no_slash Cons.prems(5)]) simp
  consider "tm_kind m \<noteq> Tar_File" | "tm_kind m = Tar_File" "MAX_DECOMPRESSED_SIZE < n + tm_size m"
    | "tm_kind m = Tar_File" "n + tm_size m \<le> MAX_DECOMPRESSED_SIZE" "?base = [] \<or> starts_with ?base ''.''"
    | "tm_kind m = Tar_File" "n + tm_size m \<le> MAX_DECOMPRESSED_SIZE" "\<not> (?base = [] \<or> starts_with ?base ''.'')"
    by linarith
  then show ?case
  proof cases
    case 1
    then show ?thesis using Cons.prems by (intro Cons.IH [of n acc fs]) simp_all
  next
    case 2
    then show ?thesis using Cons.prems(1) by (intro stop [of Value_Error]) (auto simp: over_limit_def split: if_splits)
  next
    case 3
    then show ?thesis
      using Cons.prems folder_ok_mono [OF Cons.prems(2), of "n + tm_size m"]
      by (intro Cons.IH [of "n + tm_size m" acc fs]) (simp_all add: over_limit_def)
  next
    case 4
    then have within: "\<not> over_limit (tm_size m)" "\<not> over_limit (n + tm_size m)" by (simp_all add: over_limit_def)
    show ?thesis
    proof (cases "\<not> can_write lib ?file")
      case True
      then show ?thesis using 4 within Cons.prems(1) by (intro stop [of Value_Error]) auto
    next
      case False
      show ?thesis
      proof (cases "tm_fault m")
        case None
        then have rest: "extract_tar_members lib d ms (n + tm_size m) (acc @ [new_extracted d ?file ?base (tm_size m)])
            (fs @ [(?file, tm_bytes m)]) = (r, gs)" using False 4 within Cons.prems(1) by (simp add: Let_def)
        have "files_ok d (acc @ [new_extracted d ?file ?base (tm_size m)]) (fs @ [(?file, tm_bytes m)])"
          using files_ok_snoc [OF Cons.prems(3), of ?base ?base "tm_bytes m"] Cons.prems(6) None by simp
        then show ?thesis using Cons.IH [OF rest grown] 4 Cons.prems(5, 6) by simp
      next
        case (Some fault)
        then have "r = Inl (fault_exn fault)" "gs = fs @ [(?file, tm_bytes m)]" using False 4 within Cons.prems(1) by auto
        then show ?thesis using folder_ok_mono [OF grown] 4 by simp
      qed
    qed
  qed
qed

lemma nothing_ok [simp]: "folder_ok d n []" "files_ok d [] fs"
  by (simp_all add: folder_ok_def files_ok_def)

lemma extract_tar_ok:
  assumes "extract_tar lib d content = (r, gs)" "tar_lib_ok lib" "CHR ''/'' \<notin> set d"
  shows "folder_ok d MAX_DECOMPRESSED_SIZE gs \<and> (\<forall>files. r = Inr files \<longrightarrow> files_ok d files gs)"
proof (cases "tar_members lib content")
  case (Inl fault)
  then show ?thesis using assms(1) by (auto simp: extract_tar_def)
next
  case (Inr ms)
  then show ?thesis
    using assms extract_tar_members_ok [of lib d ms 0 "[]" "[]" r gs] by (auto simp: extract_tar_def tar_lib_ok_def)
qed

lemma extract_zip_ok:
  assumes "extract_zip lib d content = (Inr files, gs)" "CHR ''/'' \<notin> set d"
  shows "folder_ok d MAX_DECOMPRESSED_SIZE gs \<and> files_ok d files gs"
  using assms extract_zip_members_ok [of lib d _ 0 "[]" "[]" files gs] by (auto simp: extract_zip_def split: option.splits)

lemma telemetry_name_plain: "CHR ''/'' \<notin> set target \<Longrightarrow> plain_name (telemetry_name lib target content)"
proof -
  assume "CHR ''/'' \<notin> set target"
  moreover have "10 \<le> length (telemetry_name lib target content)" by (simp add: telemetry_name_def)
  then have "telemetry_name lib target content \<notin> {[], ''.'', ''..''}" by auto
  ultimately show ?thesis by (simp add: plain_name_def telemetry_name_def)
qed

lemma folder_bytes_update: "folder_bytes (AList.update k v fs) \<le> folder_bytes fs + length v"
  by (induction fs) auto

lemma save_raw_ok:
  assumes "save_raw lib d target content fs = (Inr files, gs)" "folder_ok d n fs" "CHR ''/'' \<notin> set target"
  shows "folder_ok d (n + length content) gs \<and> files_ok d files gs"
proof -
  let ?file = "telemetry_name lib target content"
  have r: "files = [new_extracted d ?file ?file (length content)]" "gs = AList.update ?file content fs"
    using assms(1) by (auto simp: save_raw_def Let_def split: if_splits)
  have "folder_bytes gs \<le> n + length content"
    using folder_bytes_update [of ?file content fs] assms(2) r(2) by (auto simp: folder_ok_def intro: order_trans)
  moreover have "\<forall>m \<in> fst ` set gs. plain_name m"
    using assms(2) telemetry_name_plain [OF assms(3)] r(2) by (auto simp: folder_ok_def dom_update)
  ultimately show ?thesis
    using assms(2) r by (simp add: folder_ok_def files_ok_def new_extracted_def map_of_update)
qed

lemma extract_blob_ok:
  assumes "extract_blob lib d target content ctype = (Inr files, gs)" "tar_lib_ok lib" "CHR ''/'' \<notin> set d" "CHR ''/'' \<notin> set target"
  shows "folder_ok d (MAX_DECOMPRESSED_SIZE + length content) gs \<and> files_ok d files gs"
proof -
  have widen: "folder_ok d (MAX_DECOMPRESSED_SIZE + length content) gs" if "folder_ok d MAX_DECOMPRESSED_SIZE gs"
    using folder_ok_mono [OF that] by simp
  have zip: ?thesis if "extract_zip lib d content = (Inr files, gs)"
    using extract_zip_ok [OF that assms(3)] widen by simp
  have tar: ?thesis if "extract_tar lib d c = (Inr files, gs)" for c
    using extract_tar_ok [OF that assms(2, 3)] widen by simp
  have gz: ?thesis if gz: "extract_gzip lib d target content = (Inr files, gs)"
  proof -
    let ?bytes = "concat (bs_chunks (gunzip lib content))"
    have lim: "length ?bytes \<le> MAX_DECOMPRESSED_SIZE"
      using gz read_limited_sum [of 0 "bs_chunks (gunzip lib content)"]
      by (auto simp: extract_gzip_def Let_def split: option.splits if_splits)
    show ?thesis
    proof (cases "is_tar ?bytes")
      case True
      then show ?thesis using gz tar by (auto simp: extract_gzip_def Let_def split: option.splits if_splits)
    next
      case False
      then have "save_raw lib d target ?bytes [] = (Inr files, gs)"
        using gz by (auto simp: extract_gzip_def Let_def split: option.splits if_splits)
      from save_raw_ok [OF this, of 0] show ?thesis using assms(4) lim folder_ok_mono widen by auto
    qed
  qed
  have raw: ?thesis if "try_extract_tar_direct lib d content = (Inr None, fs)" "save_raw lib d target content fs = (Inr files, gs)" for fs
  proof -
    obtain r hs where ex: "extract_tar lib d content = (r, hs)" by fastforce
    then have "hs = fs"
      using that(1) by (auto simp: try_extract_tar_direct_def split: sum.splits unpack_exn.splits)
    then show ?thesis using extract_tar_ok [OF ex assms(2, 3)] save_raw_ok [OF that(2) _ assms(4)] by blast
  qed
  have direct: ?thesis if "try_extract_tar_direct lib d content = (Inr (Some files), gs)"
    using that tar by (auto simp: try_extract_tar_direct_def split: prod.splits sum.splits unpack_exn.splits)
  show ?thesis
    using assms(1) zip gz tar raw direct unfolding extract_blob_def Let_def
    by (auto split: if_splits prod.splits sum.splits option.splits)
qed

lemma safe_target_no_slash: "CHR ''/'' \<notin> set (safe_target_name t)"
proof -
  have "\<not> safe_char CHR ''/''" by (simp add: safe_char_def)
  then show ?thesis by (auto simp: safe_target_name_def Let_def dest!: in_set_takeD)
qed

lemma unpack_ok:
  assumes "unpack u lib (Some rnd) now content ctype target tmp = (Inr files, tmp')" "tar_lib_ok lib" "CHR ''/'' \<notin> set rnd"
  shows "\<exists>fs. tmp' = tmp @ [(safe_target_name target @ ''_'' @ rnd, \<lparr>tf_files = fs, tf_mtime = now\<rparr>)]
    \<and> folder_ok (safe_target_name target @ ''_'' @ rnd) (MAX_DECOMPRESSED_SIZE + max_blob_size u) fs
    \<and> files_ok (safe_target_name target @ ''_'' @ rnd) files fs"
proof -
  let ?d = "safe_target_name target @ ''_'' @ rnd"
  obtain fs where fs: "extract_blob lib ?d (safe_target_name target) content ctype = (Inr files, fs)"
    "tmp' = tmp @ [(?d, \<lparr>tf_files = fs, tf_mtime = now\<rparr>)]" "length content \<le> max_blob_size u"
    using assms(1) by (auto simp: unpack_def Let_def split: if_splits prod.splits sum.splits)
  then show ?thesis
    using extract_blob_ok [OF fs(1) assms(2)] assms(3) safe_target_no_slash folder_ok_mono by auto
qed

text \<open>
  (C25) Unpacking a blob, whatever archive it holds, writes only into the new directory: every
  file has a plain name there (no separator, not the directory or its parent), no two files
  share one, each file reported is on disk with the size reported, and together they are no
  larger than the limit of 500 MB plus the blob. When unpacking fails nothing is left behind.
\<close>

theorem unpack_contained:
  assumes "tar_lib_ok lib" "CHR ''/'' \<notin> set rnd"
  shows "case unpack u lib (Some rnd) now content ctype target tmp of
           (Inl e, tmp') \<Rightarrow> e = Value_Error \<and> tmp' = tmp
         | (Inr files, tmp') \<Rightarrow>
             \<exists>fs. tmp' = tmp @ [(safe_target_name target @ ''_'' @ rnd, \<lparr>tf_files = fs, tf_mtime = now\<rparr>)]
                  \<and> (\<forall>n \<in> fst ` set fs. plain_name n) \<and> distinct (map fst fs)
                  \<and> folder_bytes fs \<le> MAX_DECOMPRESSED_SIZE + max_blob_size u
                  \<and> files_ok (safe_target_name target @ ''_'' @ rnd) files fs"
proof -
  obtain r tmp' where un: "unpack u lib (Some rnd) now content ctype target tmp = (r, tmp')" by fastforce
  show ?thesis
  proof (cases r)
    case (Inl e)
    then show ?thesis using un by (auto simp: unpack_def Let_def split: if_splits prod.splits sum.splits)
  next
    case (Inr files)
    then show ?thesis using un unpack_ok [OF un [unfolded Inr] assms] by (auto simp: folder_ok_def)
  qed
qed

definition sample_zip_lib :: archive_lib where
  "sample_zip_lib =
     \<lparr>zip_infolist = (\<lambda>_. Some (map (\<lambda>n. \<lparr>zi_filename = n, zi_stream = \<lparr>bs_chunks = [''ab'', ''c''], bs_raises = False\<rparr>\<rparr>)
         [''x/../etc/a.json'', ''b/a.json'', ''q/..''])),
      gunzip = (\<lambda>_. \<lparr>bs_chunks = [], bs_raises = True\<rparr>), tar_members = (\<lambda>_. Inl Tar_Or_Os_Error),
      is_utf8 = (\<lambda>_. True), can_write = (\<lambda>_. True)\<rparr>"

theorem unpack_contained_witness:
  "\<exists>files fs. unpack \<lparr>cleanup_after_parse = True, max_blob_size = 100\<rparr> sample_zip_lib (Some ''7'') 0
       [CHR ''P'', CHR ''K'', CHR 0x03, CHR 0x04] [] ''n1'' []
       = (Inr files, [(''n1_7'', \<lparr>tf_files = fs, tf_mtime = 0\<rparr>)])
     \<and> map fst fs = [''a.json'', ''a_1.json'', ''.._1''] \<and> distinct (map fst fs)"
proof -
  let ?r = "unpack \<lparr>cleanup_after_parse = True, max_blob_size = 100\<rparr> sample_zip_lib (Some ''7'') 0
       [CHR ''P'', CHR ''K'', CHR 0x03, CHR 0x04] [] ''n1'' []"
  have ok: "tar_lib_ok sample_zip_lib" by (simp add: tar_lib_ok_def sample_zip_lib_def)
  have r: "(case ?r of (Inr files, tmp) \<Rightarrow> map (\<lambda>(_, t). map fst (tf_files t)) tmp = [[''a.json'', ''a_1.json'', ''.._1'']] | _ \<Rightarrow> False)"
    by code_simp
  then obtain files tmp where q: "?r = (Inr files, tmp)"
    and n: "map (\<lambda>(_, t). map fst (tf_files t)) tmp = [[''a.json'', ''a_1.json'', ''.._1'']]"
    by (auto split: prod.splits sum.splits)
  have name: "safe_target_name ''n1'' = ''n1''" by code_simp
  have "\<exists>fs. tmp = [(safe_target_name ''n1'' @ ''_'' @ ''7'', \<lparr>tf_files = fs, tf_mtime = 0\<rparr>)] \<and> distinct (map fst fs)"
    using unpack_contained [where lib = sample_zip_lib and rnd = "''7''"
        and u = "\<lparr>cleanup_after_parse = True, max_blob_size = 100\<rparr>" and tmp = "[]" and target = "''n1''" and ctype = "[]"
        and now = 0 and content = "[CHR ''P'', CHR ''K'', CHR 0x03, CHR 0x04]"] ok q by auto
  then show ?thesis using q n name by auto
qed

section \<open>What is left\<close>

lemma unlink_append:
  assumes "d \<notin> fst ` set tmp" "ef_folder f = d" "ef_file f \<in> fst ` set (tf_files t)"
  shows "unlink now f (tmp @ [(d, t)]) =
    tmp @ [(d, t\<lparr>tf_files := rows_where (\<lambda>n _. n \<noteq> ef_file f) (tf_files t), tf_mtime := now\<rparr>)]"
proof -
  have "unlink now f tmp = tmp" using assms(1, 2) by (force simp: unlink_def map_rows_def intro!: map_idI)
  then show ?thesis using assms(2, 3) by (simp add: unlink_def map_rows_def)
qed

lemma file_exists_append: "d \<notin> fst ` set tmp \<Longrightarrow> ef_folder f = d \<Longrightarrow> file_exists (tmp @ [(d, t)]) f \<longleftrightarrow> ef_file f \<in> fst ` set (tf_files t)"
  by (simp add: file_exists_def map_of_snoc del: map_of_append)

lemma rows_where_twice: "rows_where P (rows_where Q t) = rows_where (\<lambda>k v. Q k v \<and> P k v) t"
  by (simp add: rows_where_def conj_commute split_def)

lemma unlink_all_append:
  assumes "d \<notin> fst ` set tmp" "\<forall>f \<in> set files. ef_folder f = d \<and> ef_file f \<in> fst ` set (tf_files t)" "distinct (map ef_file files)"
  shows "\<exists>dirs'. set dirs' = set dirs \<union> (if files = [] then {} else {d})
    \<and> unlink_all now files dirs (tmp @ [(d, t)]) =
        (dirs', tmp @ [(d, t\<lparr>tf_files := rows_where (\<lambda>n _. n \<notin> ef_file ` set files) (tf_files t),
                             tf_mtime := if files = [] then tf_mtime t else now\<rparr>)])"
  using assms
proof (induction files arbitrary: dirs t)
  case Nil
  have "rows_where (\<lambda>_ _. True) fs = fs" for fs :: folder by (simp add: rows_where_def)
  then show ?case by simp
next
  case (Cons f files)
  let ?t = "t\<lparr>tf_files := rows_where (\<lambda>n _. n \<noteq> ef_file f) (tf_files t), tf_mtime := now\<rparr>"
  have "fst ` set (tf_files ?t) = fst ` set (tf_files t) - {ef_file f}" by (force simp: set_rows_where)
  moreover have "\<forall>g \<in> set files. ef_file g \<noteq> ef_file f" using Cons.prems(3) by (auto simp: image_iff)
  ultimately have "\<forall>g \<in> set files. ef_folder g = d \<and> ef_file g \<in> fst ` set (tf_files ?t)" using Cons.prems(2) by simp
  moreover have "distinct (map ef_file files)" using Cons.prems(3) by simp
  ultimately obtain dirs' where dirs': "set dirs' = set (d # dirs) \<union> (if files = [] then {} else {d})"
    "unlink_all now files (d # dirs) (tmp @ [(d, ?t)]) =
        (dirs', tmp @ [(d, ?t\<lparr>tf_files := rows_where (\<lambda>n _. n \<notin> ef_file ` set files) (tf_files ?t),
                              tf_mtime := if files = [] then tf_mtime ?t else now\<rparr>)])"
    using Cons.IH [OF Cons.prems(1), of ?t "d # dirs"] by blast
  have step: "unlink_all now (f # files) dirs (tmp @ [(d, t)]) = unlink_all now files (d # dirs) (tmp @ [(d, ?t)])"
    using Cons.prems(1, 2) by (simp add: unlink_append file_exists_append)
  show ?case unfolding step by (rule exI [of _ dirs']) (auto simp: dirs' rows_where_twice)
qed

text \<open>
  What one unpacking leaves in the temporary directory after its clean-up: every file it
  reported is gone, and so is the directory, unless an archive that broke off left files there
  that were never reported; then just those stay. If nothing was reported the directory stays,
  empty or not. Either way the periodic clean-up removes the directory once it is older than the
  maximal age, and all other directories are as before.
\<close>

lemma temp_files_reclaimed:
  assumes "tar_lib_ok lib" "CHR ''/'' \<notin> set rnd" "cleanup_after_parse u"
    and fresh: "safe_target_name target @ ''_'' @ rnd \<notin> fst ` set tmp"
    and un: "unpack u lib (Some rnd) now content ctype target tmp = (Inr files, tmp')"
    and "now \<le> now1" "max_age < now2 - now1"
  shows "\<exists>fs. map_of tmp' (safe_target_name target @ ''_'' @ rnd) = Some \<lparr>tf_files = fs, tf_mtime = now\<rparr>
       \<and> cleanup u now1 files tmp' =
           (let rest = rows_where (\<lambda>n _. n \<notin> ef_file ` set files) fs
            in if files = [] then tmp'
               else if rest = [] then tmp
               else tmp @ [(safe_target_name target @ ''_'' @ rnd, \<lparr>tf_files = rest, tf_mtime = now1\<rparr>)])
       \<and> snd (cleanup_old_files now2 max_age (cleanup u now1 files tmp')) = snd (cleanup_old_files now2 max_age tmp)"
proof -
  let ?d = "safe_target_name target @ ''_'' @ rnd"
  obtain fs where tmp': "tmp' = tmp @ [(?d, \<lparr>tf_files = fs, tf_mtime = now\<rparr>)]" and ok: "files_ok ?d files fs"
    using unpack_ok [OF un assms(1, 2)] by blast
  let ?rest = "rows_where (\<lambda>n _. n \<notin> ef_file ` set files) fs"
  have listed: "\<forall>f \<in> set files. ef_folder f = ?d \<and> ef_file f \<in> fst ` set fs" "distinct (map ef_file files)"
    using ok unfolding files_ok_def by (metis map_of_eq_None_iff option.distinct(1))+
  have others: "rows_where (\<lambda>e t. \<not> (e = ?d \<and> tf_files t = [])) tmp = tmp"
    using fresh by (force simp: rows_where_def intro!: filter_True)
  obtain dirs where dirs: "set dirs = (if files = [] then {} else {?d})"
    "unlink_all now1 files [] tmp' =
        (dirs, tmp @ [(?d, \<lparr>tf_files = ?rest, tf_mtime = if files = [] then now else now1\<rparr>)])"
    using unlink_all_append [OF fresh, of files "\<lparr>tf_files = fs, tf_mtime = now\<rparr>" "[]" now1] listed unfolding tmp' by auto
  have clean: "cleanup u now1 files tmp' =
      (if files = [] then tmp' else if ?rest = [] then tmp else tmp @ [(?d, \<lparr>tf_files = ?rest, tf_mtime = now1\<rparr>)])"
    using dirs others assms(3) by (auto simp: cleanup_def tmp' rows_where_def)
  have "snd (cleanup_old_files now2 max_age (cleanup u now1 files tmp')) = snd (cleanup_old_files now2 max_age tmp)"
    using assms(6, 7) unfolding clean by (simp add: cleanup_old_files_def tmp' rows_where_def)
  moreover have "map_of tmp' ?d = Some \<lparr>tf_files = fs, tf_mtime = now\<rparr>"
    using fresh by (simp add: tmp' map_of_snoc del: map_of_append)
  ultimately show ?thesis using clean by (auto simp: Let_def)
qed

text \<open>A tar archive that breaks off after its first file: the bytes are then kept as one raw file.\<close>

definition sample_broken_lib :: archive_lib where
  "sample_broken_lib = sample_zip_lib\<lparr>tar_members := (\<lambda>_. Inr
     [\<lparr>tm_name = ''a'', tm_kind = Tar_File, tm_size = 1, tm_bytes = ''x'', tm_fault = None\<rparr>,
      \<lparr>tm_name = ''b'', tm_kind = Tar_File, tm_size = 9, tm_bytes = ''y'', tm_fault = Some Tar_Or_Os_Error\<rparr>])\<rparr>"

lemma temp_files_reclaimed_witness:
  "\<exists>files tmp'. unpack \<lparr>cleanup_after_parse = True, max_blob_size = 100\<rparr> sample_broken_lib (Some ''7'') 0 ''{}'' [] ''n1'' [] = (Inr files, tmp')
     \<and> map ef_file files = [''n1_telemetry.json'']
     \<and> cleanup \<lparr>cleanup_after_parse = True, max_blob_size = 100\<rparr> 1 files tmp' = [(''n1_7'', \<lparr>tf_files = [(''a'', ''x''), (''b'', ''y'')], tf_mtime = 1\<rparr>)]
     \<and> snd (cleanup_old_files 12 10 (cleanup \<lparr>cleanup_after_parse = True, max_blob_size = 100\<rparr> 1 files tmp')) = []"
proof -
  let ?u = "\<lparr>cleanup_after_parse = True, max_blob_size = 100\<rparr>"
  let ?r = "unpack ?u sample_broken_lib (Some ''7'') 0 ''{}'' [] ''n1'' []"
  have ok: "tar_lib_ok sample_broken_lib" by (simp add: tar_lib_ok_def sample_broken_lib_def)
  have r: "(case ?r of (Inr files, tmp') \<Rightarrow> map ef_file files = [''n1_telemetry.json'']
      \<and> cleanup ?u 1 files tmp' = [(''n1_7'', \<lparr>tf_files = [(''a'', ''x''), (''b'', ''y'')], tf_mtime = 1\<rparr>)] | _ \<Rightarrow> False)"
    by code_simp
  then obtain files tmp' where q: "?r = (Inr files, tmp')" and n: "map ef_file files = [''n1_telemetry.json'']"
    "cleanup ?u 1 files tmp' = [(''n1_7'', \<lparr>tf_files = [(''a'', ''x''), (''b'', ''y'')], tf_mtime = 1\<rparr>)]"
    by (auto split: prod.splits sum.splits)
  have "snd (cleanup_old_files 12 10 (cleanup ?u 1 files tmp')) = snd (cleanup_old_files 12 10 [])"
    using temp_files_reclaimed [OF ok _ _ _ q, of 1 10 12] by auto
  then show ?thesis using q n by (simp add: cleanup_old_files_def rows_where_def)
qed

end
