(* ===== verification/Poller.thy ===== *)
theory Poller
  imports Py_Json Py_Time
begin

text \<open>
  The polling of BMCs, \<open>collector/src/redfish/poller.py\<close>, with the operations of the repository
  it uses: which reports a target is asked for, one poll with its fallback, the schedule with
  its jitter and circuit breaker, the batched status updates. Times are seconds of the
  monotonic clock. The random draws, the replies of the BMC and the fate of a database write
  are arguments. A column with JSON text holds a list of reports or a dictionary of tags when it
  is readable.
\<close>

section \<open>Targets and reports\<close>

datatype 'a json_column = NoText | BadText | JsonText 'a

record metric_report =
  mr_uri :: "string option"
  mr_report_type :: "string option"

record target_config =
  pt_id :: target_id
  pt_name :: string
  pt_host :: string
  pt_connection_mode :: string
  pt_poll_interval_override :: "int option"
  pt_consecutive_failures :: int
  pt_tags :: "(string \<times> string) list json_column"
  pt_metric_reports_override :: "metric_report list json_column"
  pt_metric_discovery_mode :: string
  pt_discovered_reports :: "metric_report list json_column"

datatype poll_exception = Json_Error | Decrypt_Error | Bmc_Error string | Unbound_Local

fun load_column :: "'a json_column \<Rightarrow> 'a \<Rightarrow> poll_exception + 'a" where
  "load_column NoText dflt = Inr dflt"
| "load_column BadText dflt = Inl Json_Error"
| "load_column (JsonText v) dflt = Inr v"

definition get_target_tags :: "target_config \<Rightarrow> poll_exception + (string \<times> string) list" where
  "get_target_tags t = load_column (pt_tags t) []"

text \<open>No reports and an empty list of them are the same to every caller.\<close>

definition get_target_metric_reports :: "target_config \<Rightarrow> poll_exception + metric_report list" where
  "get_target_metric_reports t = load_column (pt_metric_reports_override t) []"

definition get_discovered_metric_reports :: "target_config \<Rightarrow> poll_exception + metric_report list" where
  "get_discovered_metric_reports t =
     (if pt_metric_discovery_mode t \<noteq> ''auto'' then Inr [] else load_column (pt_discovered_reports t) [])"

definition opt_str :: "string option \<Rightarrow> string" where
  "opt_str v = (case v of None \<Rightarrow> [] | Some s \<Rightarrow> s)"

definition is_aggregate :: "metric_report \<Rightarrow> bool" where
  "is_aggregate r \<longleftrightarrow>
     py_lower (opt_str (mr_report_type r)) \<in> {''all'', ''comprehensive''} \<or> ends_with (py_lower (opt_str (mr_uri r))) ''/all''"

fun union_reports :: "string list \<Rightarrow> metric_report list \<Rightarrow> metric_report list" where
  "union_reports seen [] = []"
| "union_reports seen (r # rs) =
     (let u = opt_str (mr_uri r)
      in if u \<noteq> [] \<and> u \<notin> set seen then r # union_reports (u # seen) rs else union_reports seen rs)"

definition merge_reports :: "metric_report list \<Rightarrow> metric_report list \<Rightarrow> metric_report list" where
  "merge_reports discovered defaults = sort_key is_aggregate (union_reports [] (discovered @ defaults))"

definition resolve_metric_reports :: "target_config \<Rightarrow> metric_report list \<Rightarrow> poll_exception + metric_report list" where
  "resolve_metric_reports t global_default =
     (case get_target_metric_reports t of
        Inl e \<Rightarrow> Inl e
      | Inr override \<Rightarrow>
          if override \<noteq> [] then Inr override
          else
            (case get_discovered_metric_reports t of
               Inl e \<Rightarrow> Inl e
             | Inr discovered \<Rightarrow>
                 Inr (if discovered = [] then global_default else merge_reports discovered global_default)))"

section \<open>One poll\<close>

datatype fetch_outcome = Got json | GetFailed | GetRaised

record collect_response =
  rs_success :: bool
  rs_content :: "char list"
  rs_error :: "string option"

record poll_env =
  pe_decrypts :: bool
  pe_connects :: bool
  pe_fetch :: "metric_report \<Rightarrow> fetch_outcome"
  pe_collect :: "string + collect_response"

record poll_result =
  pr_target_id :: target_id
  pr_target_name :: string
  pr_target_host :: string
  pr_success :: bool
  pr_content :: "char list"
  pr_error :: "string option"
  pr_tags :: "(string \<times> string) list"
  pr_data :: "(string \<times> json) list option"
  pr_method :: string
  pr_reports_succeeded :: nat
  pr_reports_expected :: nat

definition failed_result :: "target_config \<Rightarrow> (string \<times> string) list \<Rightarrow> string \<Rightarrow> poll_result" where
  "failed_result t tags msg =
     \<lparr>pr_target_id = pt_id t, pr_target_name = pt_name t, pr_target_host = pt_host t, pr_success = False, pr_content = [],
      pr_error = Some msg, pr_tags = tags, pr_data = None, pr_method = ''task'', pr_reports_succeeded = 0, pr_reports_expected = 0\<rparr>"

fun exception_text :: "poll_exception \<Rightarrow> string" where
  "exception_text (Bmc_Error msg) = msg"
| "exception_text _ = ''error''"

text \<open>
  The reports that came back, in the order of the configuration. A report without an address
  or a type raises in its fetch, which counts as failed.
\<close>

definition fetch_report :: "poll_env \<Rightarrow> metric_report \<Rightarrow> (string \<times> json) option" where
  "fetch_report env r =
     (case (mr_uri r, mr_report_type r) of
        (Some _, Some rtype) \<Rightarrow> (case pe_fetch env r of Got doc \<Rightarrow> Some (rtype, doc) | _ \<Rightarrow> None)
      | _ \<Rightarrow> None)"

text \<open>
  The body of the \<open>try\<close> after the tags are read. The second component says whether the client
  of the target is in the cache afterwards.
\<close>

definition poll_body ::
  "metric_report list \<Rightarrow> poll_env \<Rightarrow> target_config \<Rightarrow> (string \<times> string) list \<Rightarrow> bool \<Rightarrow> (poll_exception + poll_result) \<times> bool" where
  "poll_body defaults env t tags cached =
     (case resolve_metric_reports t defaults of
        Inl e \<Rightarrow> (Inl e, cached)
      | Inr reports \<Rightarrow>
          if \<not> pe_decrypts env then (Inl Decrypt_Error, cached)
          else if \<not> cached \<and> \<not> pe_connects env
          then (Inr (failed_result t tags ''Failed to establish Redfish client connection''), False)
          else
            (let report_tuples = List.map_filter (fetch_report env) reports;
                 result = \<lparr>pr_target_id = pt_id t, pr_target_name = pt_name t, pr_target_host = pt_host t, pr_success = True,
                   pr_content = [], pr_error = None, pr_tags = tags, pr_data = None, pr_method = ''task'',
                   pr_reports_succeeded = length report_tuples, pr_reports_expected = length reports\<rparr>
             in if report_tuples \<noteq> [] then (Inr (result\<lparr>pr_data := Some report_tuples, pr_method := ''get''\<rparr>), True)
                else case pe_collect env of
                       Inl msg \<Rightarrow> (Inl (Bmc_Error msg), True)
                     | Inr r \<Rightarrow>
                         (Inr (result\<lparr>pr_success := rs_success r, pr_content := rs_content r, pr_error := rs_error r\<rparr>), rs_success r)))"

text \<open>
  \<open>_poll_target\<close>. The handler of the \<open>try\<close> names \<open>target_tags\<close>, which is not bound when reading
  the tags is what raised.
\<close>

definition poll_target :: "metric_report list \<Rightarrow> poll_env \<Rightarrow> target_config \<Rightarrow> bool \<Rightarrow> (poll_exception + poll_result) \<times> bool" where
  "poll_target defaults env t cached =
     (case get_target_tags t of
        Inl _ \<Rightarrow> (Inl Unbound_Local, False)
      | Inr tags \<Rightarrow>
          (case poll_body defaults env t tags cached of
             (Inl e, _) \<Rightarrow> (Inr (failed_result t tags (exception_text e)), False)
           | (Inr result, kept) \<Rightarrow> (Inr result, kept)))"

section \<open>Status rows\<close>

record status_row =
  st_last_poll_status :: "string option"
  st_consecutive_failures :: int
  st_last_error_message :: "string option"

type_synonym status_updates = "(target_id \<times> (string \<times> string option)) list"

definition apply_status :: "string \<times> string option \<Rightarrow> status_row \<Rightarrow> status_row" where
  "apply_status u r =
     (if fst u = ''success''
      then r\<lparr>st_last_poll_status := Some (fst u), st_consecutive_failures := 0, st_last_error_message := None\<rparr>
      else r\<lparr>st_last_poll_status := Some (fst u), st_consecutive_failures := st_consecutive_failures r + 1,
             st_last_error_message := snd u\<rparr>)"

definition update_poll_status :: "target_id \<Rightarrow> string \<times> string option \<Rightarrow> (target_id, status_row) db_table \<Rightarrow> (target_id, status_row) db_table" where
  "update_poll_status tid u = map_rows (\<lambda>i r. if i = tid then apply_status u r else r)"

text \<open>One bulk update for the successes, then one per error, whose stored status is \<open>error\<close>.\<close>

definition update_poll_status_batch :: "status_updates \<Rightarrow> (target_id, status_row) db_table \<Rightarrow> (target_id, status_row) db_table" where
  "update_poll_status_batch updates rows =
     (let success_ids = map fst (filter (\<lambda>(_, st, _). st = ''success'') updates);
          error_rows = map (\<lambda>(tid, _, err). (tid, err)) (filter (\<lambda>(_, st, _). st \<noteq> ''success'') updates)
      in fold (\<lambda>(tid, err). update_poll_status tid (''error'', err)) error_rows
           (map_rows (\<lambda>i r. if i \<in> set success_ids then apply_status (''success'', None) r else r) rows))"

section \<open>The poller\<close>

text \<open>
  \<open>po_starts\<close> is a record the code does not keep: the scheduled polls started, with their times.
  The starts of a target leave it together with its schedule entry, when a pass does not find
  the target among the active ones.
\<close>

record poller =
  po_next :: "(target_id \<times> rat) list"
  po_inflight :: "target_id list"
  po_pending :: status_updates
  po_queue :: "poll_result list"
  po_clients :: "target_id list"
  po_started :: nat
  po_completed :: nat
  po_last_completed :: "rat option"
  po_dropped :: nat
  po_starts :: "(target_id \<times> rat) list"

definition QUEUE_SIZE :: nat where
  "QUEUE_SIZE = 1000"

definition CIRCUIT_BREAKER_THRESHOLD :: int where
  "CIRCUIT_BREAKER_THRESHOLD = 5"

definition CIRCUIT_BREAKER_RECHECK_MULTIPLIER :: int where
  "CIRCUIT_BREAKER_RECHECK_MULTIPLIER = 6"

definition base_interval :: "int \<Rightarrow> target_config \<Rightarrow> int" where
  "base_interval poll_interval t =
     (case pt_poll_interval_override t of Some o' \<Rightarrow> if 0 < o' then o' else poll_interval | None \<Rightarrow> poll_interval)"

definition get_target_interval :: "int \<Rightarrow> target_config \<Rightarrow> bool \<Rightarrow> int" where
  "get_target_interval poll_interval t poll_succeeded =
     (let effective_failures = (if poll_succeeded then 0 else pt_consecutive_failures t + 1)
      in if CIRCUIT_BREAKER_THRESHOLD \<le> effective_failures
         then base_interval poll_interval t * CIRCUIT_BREAKER_RECHECK_MULTIPLIER
         else base_interval poll_interval t)"

text \<open>
  The draws of one pass for a target: a start in [0, 1] and a jitter in [-1, 1], which
  \<open>random.uniform\<close> scales. \<open>fmod\<close> is Python's modulo of floats.
\<close>

type_synonym draws = "target_id \<Rightarrow> rat \<times> rat"

definition draws_ok :: "draws \<Rightarrow> bool" where
  "draws_ok rnd \<longleftrightarrow> (\<forall>i. 0 \<le> fst (rnd i) \<and> fst (rnd i) \<le> 1 \<and> -1 \<le> snd (rnd i) \<and> snd (rnd i) \<le> 1)"

definition fmod :: "rat \<Rightarrow> rat \<Rightarrow> rat" where
  "fmod x y = x - y * of_int \<lfloor>x / y\<rfloor>"

definition first_offset :: "int \<Rightarrow> rat \<Rightarrow> rat \<times> rat \<Rightarrow> nat \<times> target_config \<Rightarrow> rat" where
  "first_offset poll_interval stagger rnd x =
     (let interval = of_int (get_target_interval poll_interval (snd x) True);
          offset = fmod (fst rnd * (interval / 10) + of_nat (fst x) * stagger) interval
      in max 0 (offset + snd rnd * (interval / 100)))"

definition schedule_new_targets :: "int \<Rightarrow> rat \<Rightarrow> draws \<Rightarrow> target_config list \<Rightarrow> poller \<Rightarrow> poller" where
  "schedule_new_targets poll_interval now rnd ts p =
     (let stagger = of_int poll_interval / of_nat (length ts)
      in p\<lparr>po_next := fold (\<lambda>x. AList.update (pt_id (snd x)) (now + first_offset poll_interval stagger (rnd (pt_id (snd x))) x))
            (enumerate 0 ts) (po_next p)\<rparr>)"

text \<open>The initial schedule has no random start, and keeps what is scheduled already.\<close>

definition initialize_staggered_schedule :: "int \<Rightarrow> rat \<Rightarrow> draws \<Rightarrow> target_config list \<Rightarrow> poller \<Rightarrow> poller" where
  "initialize_staggered_schedule poll_interval now rnd targets p =
     (let poll_targets = filter (\<lambda>t. pt_connection_mode t \<noteq> ''sse'') targets;
          stagger = of_int poll_interval / of_nat (length poll_targets)
      in p\<lparr>po_next := fold (\<lambda>x nxt. if map_of nxt (pt_id (snd x)) \<noteq> None then nxt
              else AList.update (pt_id (snd x))
                (now + first_offset poll_interval stagger (0, snd (rnd (pt_id (snd x)))) x) nxt)
            (enumerate 0 poll_targets) (po_next p)\<rparr>)"

definition candidates :: "target_config list \<Rightarrow> poller \<Rightarrow> target_config list" where
  "candidates targets p = filter (\<lambda>t. pt_connection_mode t \<noteq> ''sse'' \<and> pt_id t \<notin> set (po_inflight p)) targets"

definition due_targets :: "rat \<Rightarrow> target_config list \<Rightarrow> poller \<Rightarrow> target_config list" where
  "due_targets now targets p =
     filter (\<lambda>t. case map_of (po_next p) (pt_id t) of None \<Rightarrow> False | Some n \<Rightarrow> n \<le> now) (candidates targets p)"

definition new_targets :: "target_config list \<Rightarrow> poller \<Rightarrow> target_config list" where
  "new_targets targets p = filter (\<lambda>t. map_of (po_next p) (pt_id t) = None) (candidates targets p)"

definition drop_stale :: "target_id set \<Rightarrow> poller \<Rightarrow> poller" where
  "drop_stale active p =
     p\<lparr>po_next := filter (\<lambda>x. fst x \<in> active) (po_next p), po_clients := filter (\<lambda>i. i \<in> active) (po_clients p),
       po_starts := filter (\<lambda>x. fst x \<in> active) (po_starts p)\<rparr>"

definition start_poll :: "int \<Rightarrow> rat \<Rightarrow> draws \<Rightarrow> target_config \<Rightarrow> poller \<Rightarrow> poller" where
  "start_poll poll_interval now rnd t p =
     (let interval = of_int (get_target_interval poll_interval t True)
      in p\<lparr>po_next := AList.update (pt_id t) (now + interval + snd (rnd (pt_id t)) * (interval / 50)) (po_next p),
           po_inflight := po_inflight p @ [pt_id t], po_started := Suc (po_started p),
           po_starts := po_starts p @ [(pt_id t, now)]\<rparr>)"

definition schedule_due_polls :: "int \<Rightarrow> rat \<Rightarrow> draws \<Rightarrow> target_config list \<Rightarrow> poller \<Rightarrow> poller" where
  "schedule_due_polls poll_interval now rnd targets p =
     (if targets = [] then p
      else
        (let new = new_targets targets p;
             due = due_targets now targets p;
             p1 = (if new = [] then p else schedule_new_targets poll_interval now rnd new p);
             p2 = drop_stale (pt_id ` set targets) p1
         in fold (start_poll poll_interval now rnd) due p2))"

text \<open>
  The end of a poll: what \<open>_run_poll\<close> does with the outcome, and the removal of the task.
  \<open>fresh\<close> is the target as it is read again after a failure, \<open>None\<close> when it is gone or the read
  raises.
\<close>

definition run_poll_end ::
  "int \<Rightarrow> rat \<Rightarrow> rat \<Rightarrow> target_id \<Rightarrow> (poll_exception + poll_result) \<times> bool \<Rightarrow> target_config option \<Rightarrow> poller \<Rightarrow> poller" where
  "run_poll_end poll_interval now jitter tid outcome fresh p =
     (let p1 = p\<lparr>po_inflight := remove1 tid (po_inflight p), po_completed := Suc (po_completed p), po_last_completed := Some now,
                po_clients := (if snd outcome then List.insert tid (po_clients p) else removeAll tid (po_clients p))\<rparr>
      in case fst outcome of
           Inl _ \<Rightarrow> p1
         | Inr result \<Rightarrow>
             (let p2 = (if length (po_queue p1) < QUEUE_SIZE then p1\<lparr>po_queue := po_queue p1 @ [result]\<rparr>
                        else p1\<lparr>po_dropped := Suc (po_dropped p1)\<rparr>);
                  p3 = p2\<lparr>po_pending := AList.update tid (if pr_success result then ''success'' else ''error'', pr_error result)
                            (po_pending p2)\<rparr>
              in if pr_success result then p3
                 else case fresh of
                        None \<Rightarrow> p3
                      | Some t \<Rightarrow>
                          (let interval = of_int (get_target_interval poll_interval t False)
                           in p3\<lparr>po_next := AList.update tid (now + interval + jitter * (interval / 50)) (po_next p3)\<rparr>)))"

text \<open>
  A poll on demand: it does not look at what is in flight or scheduled and leaves both alone;
  only the client cache and the stored status change. \<open>writes\<close> says whether the status is
  written, an error there is ignored.
\<close>

definition poll_single ::
  "metric_report list \<Rightarrow> poll_env \<Rightarrow> bool \<Rightarrow> (target_id, target_config) db_table \<Rightarrow> target_id \<Rightarrow>
   poller \<times> (target_id, status_row) db_table \<Rightarrow>
   (poll_exception + poll_result option) \<times> poller \<times> (target_id, status_row) db_table" where
  "poll_single defaults env writes targets tid = (\<lambda>(p, rows).
     case map_of targets tid of
       None \<Rightarrow> (Inr None, p, rows)
     | Some tg \<Rightarrow>
         (let (outcome, kept) = poll_target defaults env tg (tid \<in> set (po_clients p));
              p' = p\<lparr>po_clients := (if kept then List.insert tid (po_clients p) else removeAll tid (po_clients p))\<rparr>
          in case outcome of
               Inl e \<Rightarrow> (Inl e, p', rows)
             | Inr result \<Rightarrow>
                 (Inr (Some result), p',
                  if writes
                  then update_poll_status tid (if pr_success result then ''success'' else ''error'', pr_error result) rows
                  else rows)))"

text \<open>The status writer: it takes the pending updates, and puts them back under newer ones when the write fails.\<close>

definition take_pending :: "poller \<Rightarrow> status_updates \<times> poller" where
  "take_pending p = (po_pending p, p\<lparr>po_pending := []\<rparr>)"

definition put_back :: "status_updates \<Rightarrow> poller \<Rightarrow> poller" where
  "put_back updates p =
     p\<lparr>po_pending := fold (\<lambda>(tid, v) d. if map_of d tid \<noteq> None then d else AList.update tid v d) updates (po_pending p)\<rparr>"

text \<open>
  \<open>get_results\<close> takes one result after the other until none arrives within the timeout. The
  arrivals it meets are given with the time it waits for each, zero for one already queued;
  \<open>Waiting\<close> means that the call has not returned when they are used up.
\<close>

definition queue_get :: "poller \<Rightarrow> (poll_result \<times> poller) option" where
  "queue_get p = (case po_queue p of [] \<Rightarrow> None | r # q \<Rightarrow> Some (r, p\<lparr>po_queue := q\<rparr>))"

type_synonym 'r arrivals = "(rat \<times> 'r) list"

datatype 'r get_outcome = Returned "'r list" "'r arrivals" | Waiting "'r list"

fun get_results :: "rat \<Rightarrow> 'r arrivals \<Rightarrow> 'r list \<Rightarrow> 'r get_outcome" where
  "get_results timeout [] acc = Waiting acc"
| "get_results timeout ((w, r) # arrivals) acc =
     (if w < timeout then get_results timeout arrivals (acc @ [r]) else Returned acc ((w - timeout, r) # arrivals))"

text \<open>The health signal; the time since the last poll is rounded to tenths of a second.\<close>

definition is_making_progress :: "bool \<Rightarrow> int \<Rightarrow> rat \<Rightarrow> poller \<Rightarrow> bool" where
  "is_making_progress running poll_interval now p \<longleftrightarrow>
     running \<and>
     (case po_last_completed p of
        None \<Rightarrow> True
      | Some t \<Rightarrow> of_int (round (10 * (now - t))) / 10 < (of_int (max 600 (poll_interval * 3)) :: rat))"

section \<open>The reports of a target\<close>

abbreviation report_uri :: "metric_report \<Rightarrow> string" where
  "report_uri r \<equiv> opt_str (mr_uri r)"

lemma union_reports_uris:
  "report_uri ` set (union_reports seen rs) = {u \<in> report_uri ` set rs. u \<noteq> [] \<and> u \<notin> set seen}"
  by (induction seen rs rule: union_reports.induct) (auto simp: Let_def)

lemma union_reports_distinct: "distinct (map report_uri (union_reports seen rs))"
proof (induction seen rs rule: union_reports.induct)
  case (2 seen r rs)
  then show ?case
    using union_reports_uris [of "report_uri r # seen" rs] by (auto simp: Let_def)
qed simp

lemma union_reports_first:
  "r \<in> set (union_reports seen rs) \<Longrightarrow> find (\<lambda>x. report_uri x = report_uri r) rs = Some r"
proof (induction seen rs rule: union_reports.induct)
  case (2 seen x rs)
  have "report_uri r \<noteq> report_uri x" if "r \<in> set (union_reports (report_uri x # seen) rs)"
    using union_reports_uris [of "report_uri x # seen" rs] that by auto
  moreover have "report_uri r \<noteq> report_uri x" if "r \<in> set (union_reports seen rs)" "report_uri x \<in> set seen \<or> report_uri x = []"
    using imageI [OF that(1), of report_uri] that(2) unfolding union_reports_uris [of seen rs] by auto
  ultimately show ?case using 2 by (auto simp: Let_def split: if_splits)
qed simp

text \<open>
  Without an override a target is asked for the union of what it listed and the default
  reports: every address of either list once, in the version that comes first (its own), the
  specific reports before the aggregate ones.
\<close>

lemma merge_reports_union:
  "report_uri ` set (merge_reports discovered defaults) = report_uri ` set (discovered @ defaults) - {[]} \<and>
   distinct (map report_uri (merge_reports discovered defaults)) \<and>
   (\<forall>r \<in> set (merge_reports discovered defaults). find (\<lambda>x. report_uri x = report_uri r) (discovered @ defaults) = Some r) \<and>
   sorted (map is_aggregate (merge_reports discovered defaults))"
proof (intro conjI ballI)
  let ?u = "union_reports [] (discovered @ defaults)"
  show "report_uri ` set (merge_reports discovered defaults) = report_uri ` set (discovered @ defaults) - {[]}"
    using union_reports_uris [of "[]" "discovered @ defaults"] by (auto simp: merge_reports_def)
  have "mset (map report_uri (merge_reports discovered defaults)) = mset (map report_uri ?u)" by (simp add: merge_reports_def)
  then show "distinct (map report_uri (merge_reports discovered defaults))"
    using union_reports_distinct mset_eq_imp_distinct_iff by blast
  show "find (\<lambda>x. report_uri x = report_uri r) (discovered @ defaults) = Some r"
    if "r \<in> set (merge_reports discovered defaults)" for r
    using that union_reports_first [of r "[]" "discovered @ defaults"] by (simp add: merge_reports_def)
  show "sorted (map is_aggregate (merge_reports discovered defaults))" by (simp add: merge_reports_def)
qed

definition sample_report :: "string \<Rightarrow> string \<Rightarrow> metric_report" where
  "sample_report uri rtype = \<lparr>mr_uri = Some uri, mr_report_type = Some rtype\<rparr>"

lemma merge_reports_union_witness:
  "find (\<lambda>x. report_uri x = ''/r/All'') ([sample_report ''/r/All'' ''All''] @ [sample_report ''/r/Temp'' ''temp'']) =
     Some (sample_report ''/r/All'' ''All'')"
proof -
  have "sample_report ''/r/All'' ''All'' \<in> set (merge_reports [sample_report ''/r/All'' ''All''] [sample_report ''/r/Temp'' ''temp''])"
    by code_simp
  moreover have "report_uri (sample_report ''/r/All'' ''All'') = ''/r/All''" by code_simp
  ultimately show ?thesis
    using merge_reports_union [of "[sample_report ''/r/All'' ''All'']" "[sample_report ''/r/Temp'' ''temp'']"] by metis
qed

text \<open>A failed write of the statuses loses none: the newest of each target stays pending.\<close>

lemma put_back_newest:
  assumes "distinct (map fst updates)"
  shows "map_of (po_pending (put_back updates p)) tid =
    (case map_of (po_pending p) tid of Some v \<Rightarrow> Some v | None \<Rightarrow> map_of updates tid)"
proof -
  have "map_of (fold (\<lambda>(tid, v) d. if map_of d tid \<noteq> None then d else AList.update tid v d) updates d) tid =
      (case map_of d tid of Some v \<Rightarrow> Some v | None \<Rightarrow> map_of updates tid)" for d :: status_updates
    using assms
  proof (induction updates arbitrary: d)
    case (Cons x updates)
    obtain k v where x: "x = (k, v)" by (cases x)
    have "map_of updates k = None" using Cons.prems x by (simp add: map_of_eq_None_iff)
    then show ?case
      using Cons x by (cases "map_of d k"; cases "tid = k") (simp_all add: table_simps del: map_of_eq_None_iff split: option.splits)
  qed (simp split: option.splits)
  then show ?thesis by (simp add: put_back_def)
qed

section \<open>Pacing\<close>

text \<open>
  What a pass finds in the database: any rows with distinct keys. \<open>lo\<close> bounds the intervals of
  a target from below over the whole run; targets may come and go and their rows and intervals
  change from step to step.
\<close>

definition fleet :: "int \<Rightarrow> (target_id \<Rightarrow> int) \<Rightarrow> target_config list \<Rightarrow> bool" where
  "fleet poll_interval lo targets \<longleftrightarrow>
     distinct (map pt_id targets) \<and> (\<forall>t \<in> set targets. lo (pt_id t) \<le> base_interval poll_interval t)"

definition reread :: "int \<Rightarrow> (target_id \<Rightarrow> int) \<Rightarrow> target_id \<Rightarrow> target_config option \<Rightarrow> bool" where
  "reread poll_interval lo tid fresh \<longleftrightarrow> (\<forall>t. fresh = Some t \<longrightarrow> lo tid \<le> base_interval poll_interval t)"

text \<open>
  A step at a time that does not decrease: a pass of the scheduler, the end of a scheduled
  poll, a poll on demand, the status writer and the consumer of the results.
\<close>

inductive poll_step ::
  "int \<Rightarrow> metric_report list \<Rightarrow> (target_id \<Rightarrow> int) \<Rightarrow> poller \<times> rat \<Rightarrow> poller \<times> rat \<Rightarrow> bool"
  for poll_interval defaults lo where
  tick: "draws_ok rnd \<Longrightarrow> fleet poll_interval lo targets \<Longrightarrow> t \<le> now \<Longrightarrow>
    poll_step poll_interval defaults lo (p, t) (schedule_due_polls poll_interval now rnd targets p, now)"
| poll_end: "tid \<in> set (po_inflight p) \<Longrightarrow> pt_id tg = tid \<Longrightarrow> reread poll_interval lo tid fresh \<Longrightarrow> -1 \<le> jitter \<Longrightarrow> jitter \<le> 1 \<Longrightarrow> t \<le> now \<Longrightarrow>
    poll_step poll_interval defaults lo (p, t)
      (run_poll_end poll_interval now jitter tid (poll_target defaults env tg cached) fresh p, now)"
| on_demand: "poll_single defaults env writes targets tid (p, rows) = (outcome, p', rows') \<Longrightarrow>
    poll_step poll_interval defaults lo (p, t) (p', t)"
| take_status: "poll_step poll_interval defaults lo (p, t) (snd (take_pending p), t)"
| write_failed: "poll_step poll_interval defaults lo (p, t) (put_back updates p, t)"
| consume: "queue_get p = Some (r, p') \<Longrightarrow> poll_step poll_interval defaults lo (p, t) (p', t)"

definition gap :: "(target_id \<Rightarrow> int) \<Rightarrow> target_id \<Rightarrow> rat" where
  "gap lo i = 49 / 50 * of_int (lo i)"

definition paced :: "(target_id \<Rightarrow> int) \<Rightarrow> (target_id \<times> rat) list \<Rightarrow> bool" where
  "paced lo starts \<longleftrightarrow> sorted_wrt (\<lambda>a b. fst a = fst b \<longrightarrow> snd a + gap lo (fst a) \<le> snd b) starts"

definition held_off :: "(target_id \<Rightarrow> int) \<Rightarrow> poller \<Rightarrow> rat \<Rightarrow> bool" where
  "held_off lo p t \<longleftrightarrow>
     (\<forall>(i, l) \<in> set (po_starts p). l \<le> t \<and> (\<exists>n. map_of (po_next p) i = Some n \<and> l + gap lo i \<le> n))"

definition poller_inv :: "(target_id \<Rightarrow> int) \<Rightarrow> poller \<times> rat \<Rightarrow> bool" where
  "poller_inv lo s \<longleftrightarrow>
     distinct (po_inflight (fst s)) \<and> po_started (fst s) = po_completed (fst s) + length (po_inflight (fst s)) \<and>
     length (po_queue (fst s)) \<le> QUEUE_SIZE \<and> paced lo (po_starts (fst s)) \<and> held_off lo (fst s) (snd s)"

lemma map_of_fold_update:
  assumes "i \<notin> f ` set xs"
  shows "map_of (fold (\<lambda>x. AList.update (f x) (g x)) xs d) i = map_of d i"
  using assms by (induction xs arbitrary: d) (auto simp: table_simps)

lemma schedule_new_next:
  assumes "map_of (po_next p) i \<noteq> None"
  shows "map_of (po_next (schedule_new_targets poll_interval now rnd (new_targets targets p) p)) i = map_of (po_next p) i"
proof -
  have "i \<notin> (\<lambda>x. pt_id (snd x)) ` set (enumerate 0 (new_targets targets p))"
    using assms by (auto simp: new_targets_def dest!: in_set_enumerate_eq [THEN iffD1] nth_mem)
  then show ?thesis by (simp add: schedule_new_targets_def Let_def map_of_fold_update)
qed

lemma drop_stale_next: "i \<in> active \<Longrightarrow> map_of (po_next (drop_stale active p)) i = map_of (po_next p) i"
proof -
  have "i \<in> active \<Longrightarrow> map_of (filter (\<lambda>x. fst x \<in> active) d) i = map_of d i" for d :: "(target_id \<times> rat) list"
    by (induction d) auto
  then show "i \<in> active \<Longrightarrow> map_of (po_next (drop_stale active p)) i = map_of (po_next p) i" by (simp add: drop_stale_def)
qed

lemma jitter_gap:
  assumes "0 \<le> i" "-1 \<le> j"
  shows "49 / 50 * (i :: rat) \<le> i + j * (i / 50)"
proof -
  have "- (i / 50) \<le> j * (i / 50)" using mult_right_mono [OF assms(2), of "i / 50"] assms(1) by simp
  then show ?thesis by simp
qed

definition startable :: "rat \<Rightarrow> poller \<Rightarrow> target_id \<Rightarrow> bool" where
  "startable now p i \<longleftrightarrow> i \<notin> set (po_inflight p) \<and> (\<exists>n. map_of (po_next p) i = Some n \<and> n \<le> now)"

lemma start_poll_fields [simp]:
  "po_next (start_poll poll_interval now rnd t p) =
     AList.update (pt_id t) (now + (of_int (get_target_interval poll_interval t True) +
       snd (rnd (pt_id t)) * (of_int (get_target_interval poll_interval t True) / 50))) (po_next p)"
  "po_inflight (start_poll poll_interval now rnd t p) = po_inflight p @ [pt_id t]"
  "po_started (start_poll poll_interval now rnd t p) = Suc (po_started p)"
  "po_completed (start_poll poll_interval now rnd t p) = po_completed p"
  "po_starts (start_poll poll_interval now rnd t p) = po_starts p @ [(pt_id t, now)]"
  "po_queue (start_poll poll_interval now rnd t p) = po_queue p"
  by (simp_all add: start_poll_def Let_def add.assoc)

lemma start_poll_inv:
  assumes inv: "poller_inv lo (p, now)" and start: "startable now p (pt_id t)" and rnd: "draws_ok rnd"
    and lo: "lo (pt_id t) \<le> base_interval poll_interval t" "0 \<le> lo (pt_id t)"
  shows "poller_inv lo (start_poll poll_interval now rnd t p, now)"
proof -
  let ?i = "pt_id t" and ?p = "start_poll poll_interval now rnd t p"
  let ?n = "get_target_interval poll_interval t True"
  have interval: "lo ?i \<le> ?n"
    using lo(1) by (simp add: get_target_interval_def CIRCUIT_BREAKER_THRESHOLD_def)
  have "49 / 50 * of_int ?n \<le> of_int ?n + snd (rnd ?i) * (of_int ?n / 50)"
    using jitter_gap [of "of_int ?n" "snd (rnd ?i)"] rnd lo(2) interval by (simp add: draws_ok_def)
  moreover have "gap lo ?i \<le> 49 / 50 * of_int ?n" using interval by (simp add: gap_def)
  ultimately have next_i: "\<exists>n. map_of (po_next ?p) ?i = Some n \<and> now + gap lo ?i \<le> n"
    by (simp add: table_simps)
  have next_j: "map_of (po_next ?p) j = map_of (po_next p) j" if "j \<noteq> ?i" for j
    using that by (simp add: table_simps)
  have old: "l + gap lo ?i \<le> now" if "(?i, l) \<in> set (po_starts p)" for l
    using inv start that unfolding poller_inv_def held_off_def startable_def by fastforce
  have "0 \<le> gap lo ?i" using lo(2) by (simp add: gap_def)
  have "paced lo (po_starts ?p)" using inv old by (auto simp: poller_inv_def paced_def sorted_wrt_append)
  moreover have "held_off lo ?p now"
    unfolding held_off_def
  proof clarify
    fix j l assume j: "(j, l) \<in> set (po_starts ?p)"
    then consider "(j, l) = (?i, now)" | "(j, l) \<in> set (po_starts p)" "j = ?i" | "(j, l) \<in> set (po_starts p)" "j \<noteq> ?i"
      by auto
    then show "l \<le> now \<and> (\<exists>n. map_of (po_next ?p) j = Some n \<and> l + gap lo j \<le> n)"
    proof cases
      case 1
      then show ?thesis using start next_i by (simp add: startable_def)
    next
      case 2
      then show ?thesis using start next_i old [of l] \<open>0 \<le> gap lo ?i\<close> by (fastforce simp: startable_def)
    next
      case 3
      then show ?thesis using inv next_j unfolding poller_inv_def held_off_def by fastforce
    qed
  qed
  ultimately show ?thesis using inv start by (auto simp: poller_inv_def startable_def)
qed

lemma start_poll_startable:
  "startable now p j \<Longrightarrow> j \<noteq> pt_id t \<Longrightarrow> startable now (start_poll poll_interval now rnd t p) j"
  by (auto simp: startable_def table_simps)

lemma start_polls_inv:
  assumes "poller_inv lo (p, now)" "draws_ok rnd" "distinct (map pt_id due)"
    "\<forall>t \<in> set due. startable now p (pt_id t) \<and> lo (pt_id t) \<le> base_interval poll_interval t \<and> 0 \<le> lo (pt_id t)"
  shows "poller_inv lo (fold (start_poll poll_interval now rnd) due p, now)"
  using assms
proof (induction due arbitrary: p)
  case (Cons t due)
  have "poller_inv lo (start_poll poll_interval now rnd t p, now)" using Cons.prems by (intro start_poll_inv) auto
  moreover have "\<forall>u \<in> set due. startable now (start_poll poll_interval now rnd t p) (pt_id u)"
  proof
    fix u assume u: "u \<in> set due"
    then have "pt_id u \<noteq> pt_id t" using Cons.prems(3) by (metis distinct.simps(2) imageI list.set_map list.simps(9))
    then show "startable now (start_poll poll_interval now rnd t p) (pt_id u)"
      using Cons.prems(4) u by (auto intro: start_poll_startable)
  qed
  ultimately show ?case using Cons.IH Cons.prems by simp
qed simp

lemma poller_inv_next:
  assumes inv: "poller_inv lo (p, t)" and "t \<le> now" and
    same: "\<And>i. i \<in> A \<Longrightarrow> map_of (po_next p) i \<noteq> None \<Longrightarrow> map_of (po_next q) i = map_of (po_next p) i" and
    starts: "po_starts q = filter (\<lambda>x. fst x \<in> A) (po_starts p)" and
    rest: "po_inflight q = po_inflight p" "po_started q = po_started p" "po_completed q = po_completed p"
      "length (po_queue q) \<le> length (po_queue p)"
  shows "poller_inv lo (q, now)"
proof -
  have "held_off lo q now"
    unfolding held_off_def starts
  proof clarify
    fix i l assume "(i, l) \<in> set (filter (\<lambda>x. fst x \<in> A) (po_starts p))"
    then have "i \<in> A" "(i, l) \<in> set (po_starts p)" by auto
    then obtain n where "l \<le> t" "map_of (po_next p) i = Some n" "l + gap lo i \<le> n"
      using inv unfolding poller_inv_def held_off_def by fastforce
    then show "l \<le> now \<and> (\<exists>n. map_of (po_next q) i = Some n \<and> l + gap lo i \<le> n)"
      using same [of i] \<open>t \<le> now\<close> \<open>i \<in> A\<close> by auto
  qed
  moreover have "paced lo (po_starts q)" using inv by (simp add: starts poller_inv_def paced_def sorted_wrt_filter)
  ultimately show ?thesis using inv rest by (auto simp: poller_inv_def)
qed

lemma schedule_inv:
  assumes inv: "poller_inv lo (p, t)" and "t \<le> now" and rnd: "draws_ok rnd" and fleet: "fleet poll_interval lo targets"
    and lo: "\<forall>i. 0 \<le> lo i"
  shows "poller_inv lo (schedule_due_polls poll_interval now rnd targets p, now)"
proof (cases "targets = []")
  case True
  then show ?thesis using poller_inv_next [OF inv \<open>t \<le> now\<close>, of UNIV p] by (simp add: schedule_due_polls_def)
next
  case False
  let ?new = "new_targets targets p" and ?due = "due_targets now targets p" and ?ids = "pt_id ` set targets"
  define p1 where "p1 = (if ?new = [] then p else schedule_new_targets poll_interval now rnd ?new p)"
  define p2 where "p2 = drop_stale ?ids p1"
  have keep: "map_of (po_next p2) i = map_of (po_next p) i" if "i \<in> ?ids" "map_of (po_next p) i \<noteq> None" for i
    using that by (simp add: p2_def p1_def drop_stale_next schedule_new_next)
  have p2: "po_inflight p2 = po_inflight p" "po_started p2 = po_started p" "po_completed p2 = po_completed p"
    "po_starts p2 = filter (\<lambda>x. fst x \<in> ?ids) (po_starts p)" "po_queue p2 = po_queue p"
    by (simp_all add: p2_def p1_def drop_stale_def schedule_new_targets_def Let_def)
  have "poller_inv lo (p2, now)"
    by (rule poller_inv_next [OF inv \<open>t \<le> now\<close> keep p2(4)]) (simp_all add: p2)
  moreover have "distinct (map pt_id ?due)"
    using fleet by (auto simp: fleet_def due_targets_def candidates_def intro: distinct_map_filter)
  moreover have "startable now p2 (pt_id u) \<and> lo (pt_id u) \<le> base_interval poll_interval u \<and> 0 \<le> lo (pt_id u)"
    if "u \<in> set ?due" for u
  proof -
    from that have u: "u \<in> set targets" "pt_id u \<notin> set (po_inflight p)" "\<exists>n. map_of (po_next p) (pt_id u) = Some n \<and> n \<le> now"
      by (auto simp: due_targets_def candidates_def split: option.splits)
    then show ?thesis using keep [of "pt_id u"] fleet lo by (auto simp: startable_def p2 fleet_def)
  qed
  ultimately have "poller_inv lo (fold (start_poll poll_interval now rnd) ?due p2, now)"
    using rnd by (intro start_polls_inv) auto
  then show ?thesis using False by (simp add: schedule_due_polls_def Let_def p2_def p1_def)
qed

lemma run_poll_end_fields [simp]:
  "po_inflight (run_poll_end poll_interval now jitter tid outcome fresh p) = remove1 tid (po_inflight p)"
  "po_started (run_poll_end poll_interval now jitter tid outcome fresh p) = po_started p"
  "po_completed (run_poll_end poll_interval now jitter tid outcome fresh p) = Suc (po_completed p)"
  "po_starts (run_poll_end poll_interval now jitter tid outcome fresh p) = po_starts p"
  by (auto simp: run_poll_end_def Let_def split: sum.splits option.splits)

lemma run_poll_end_queue:
  "length (po_queue p) \<le> QUEUE_SIZE \<Longrightarrow> length (po_queue (run_poll_end poll_interval now jitter tid outcome fresh p)) \<le> QUEUE_SIZE"
  by (auto simp: run_poll_end_def Let_def split: sum.splits option.splits)

lemma run_poll_end_next:
  assumes "reread poll_interval lo tid fresh" "0 \<le> lo tid" "-1 \<le> jitter"
  shows "po_next (run_poll_end poll_interval now jitter tid outcome fresh p) = po_next p \<or>
    (\<exists>n. po_next (run_poll_end poll_interval now jitter tid outcome fresh p) = AList.update tid n (po_next p) \<and> now + gap lo tid \<le> n)"
proof -
  have "now + gap lo tid \<le> now + of_int (get_target_interval poll_interval t False) + jitter * (of_int (get_target_interval poll_interval t False) / 50)"
    if "fresh = Some t" for t
  proof -
    let ?i = "of_int (get_target_interval poll_interval t False) :: rat"
    have "lo tid \<le> get_target_interval poll_interval t False"
      using assms(1, 2) that by (auto simp: reread_def get_target_interval_def CIRCUIT_BREAKER_RECHECK_MULTIPLIER_def Let_def)
    then have "gap lo tid \<le> 49 / 50 * ?i" "0 \<le> ?i" using assms(2) by (simp_all add: gap_def)
    then show ?thesis using jitter_gap [of ?i jitter] assms(3) by linarith
  qed
  then show ?thesis by (auto simp: run_poll_end_def Let_def split: sum.splits option.splits)
qed

lemma run_poll_end_inv:
  assumes inv: "poller_inv lo (p, t)" and "t \<le> now" "tid \<in> set (po_inflight p)"
    and fresh: "reread poll_interval lo tid fresh" "0 \<le> lo tid" "-1 \<le> jitter"
  shows "poller_inv lo (run_poll_end poll_interval now jitter tid outcome fresh p, now)"
proof -
  let ?q = "run_poll_end poll_interval now jitter tid outcome fresh p"
  have "held_off lo ?q now"
    unfolding held_off_def run_poll_end_fields
  proof clarify
    fix i l assume "(i, l) \<in> set (po_starts p)"
    then obtain n where n: "l \<le> t" "map_of (po_next p) i = Some n" "l + gap lo i \<le> n"
      using inv unfolding poller_inv_def held_off_def by fastforce
    show "l \<le> now \<and> (\<exists>n. map_of (po_next ?q) i = Some n \<and> l + gap lo i \<le> n)"
      using run_poll_end_next [OF fresh, of now outcome p]
    proof
      assume "po_next ?q = po_next p"
      then show ?thesis using n \<open>t \<le> now\<close> by auto
    next
      assume "\<exists>m. po_next ?q = AList.update tid m (po_next p) \<and> now + gap lo tid \<le> m"
      then show ?thesis using n \<open>t \<le> now\<close> by (cases "i = tid") (auto simp: table_simps)
    qed
  qed
  moreover have "length (po_inflight p) = Suc (length (remove1 tid (po_inflight p)))"
    using assms(3) by (simp add: length_remove1) (metis Suc_pred length_pos_if_in_set)
  ultimately show ?thesis using inv run_poll_end_queue by (auto simp: poller_inv_def)
qed

lemma poll_step_inv:
  assumes "poll_step poll_interval defaults lo s s'" "poller_inv lo s" "\<forall>i. 0 \<le> lo i"
  shows "poller_inv lo s'"
  using assms
proof cases
  case tick
  then show ?thesis using assms(2, 3) by (auto intro: schedule_inv)
next
  case poll_end
  then show ?thesis using assms(2, 3) by (auto intro!: run_poll_end_inv)
next
  case on_demand
  then show ?thesis using assms(2)
    by (auto simp: poll_single_def poller_inv_def held_off_def Let_def split: option.splits prod.splits sum.splits)
next
  case consume
  then show ?thesis using assms(2) by (auto simp: queue_get_def poller_inv_def held_off_def split: list.splits)
qed (use assms(2) in \<open>simp_all add: take_pending_def put_back_def poller_inv_def held_off_def\<close>)

definition idle_poller :: poller where
  "idle_poller = \<lparr>po_next = [], po_inflight = [], po_pending = [], po_queue = [], po_clients = [], po_started = 0,
     po_completed = 0, po_last_completed = None, po_dropped = 0, po_starts = []\<rparr>"

lemma poll_steps_inv:
  assumes "(poll_step poll_interval defaults lo)\<^sup>*\<^sup>* (initialize_staggered_schedule poll_interval t0 rnd targets idle_poller, t0) s"
    "\<forall>i. 0 \<le> lo i"
  shows "poller_inv lo s"
  using assms(1)
proof (induction rule: rtranclp_induct)
  case base
  show ?case
    by (simp add: initialize_staggered_schedule_def idle_poller_def poller_inv_def paced_def held_off_def Let_def)
next
  case (step s s')
  then show ?case using poll_step_inv assms(2) by blast
qed

text \<open>
  (C24) Scheduled polling is paced. In every run, whatever targets come, go and change, whatever
  polls take, fail or drop, whatever polls are made on demand and whatever the draws of the
  jitter are: the scheduler never has two polls of a target in flight, every poll it started
  has ended or is in flight, the queue of results stays within its bound, and two of its starts
  of a target with no pass in between that misses the target among the active ones are at least
  98\% of the target's smallest interval apart. (A target that a pass misses loses its
  schedule; polls on demand are outside both guarantees.)
\<close>

theorem polling_paced:
  assumes "(poll_step poll_interval defaults lo)\<^sup>*\<^sup>* (initialize_staggered_schedule poll_interval t0 rnd targets idle_poller, t0) (p, t)"
    "\<forall>i. 0 \<le> lo i"
  shows "distinct (po_inflight p) \<and> po_started p = po_completed p + length (po_inflight p) \<and> length (po_queue p) \<le> 1000 \<and>
    (\<forall>i j a b. i < j \<and> j < length (po_starts p) \<and> po_starts p ! i = (tid, a) \<and> po_starts p ! j = (tid, b) \<longrightarrow>
      a + 49 / 50 * of_int (lo tid) \<le> b)"
proof -
  have inv: "poller_inv lo (p, t)" using poll_steps_inv [OF assms] .
  have "a + 49 / 50 * of_int (lo tid) \<le> b"
    if "i < j" "j < length (po_starts p)" "po_starts p ! i = (tid, a)" "po_starts p ! j = (tid, b)" for i j a b
    using inv sorted_wrt_nth_less [of _ "po_starts p" i j] that by (fastforce simp: poller_inv_def paced_def gap_def)
  then show ?thesis using inv by (auto simp: poller_inv_def QUEUE_SIZE_def)
qed

definition sample_poll_target :: target_config where
  "sample_poll_target = \<lparr>pt_id = 1, pt_name = ''n'', pt_host = ''h'', pt_connection_mode = ''direct'', pt_poll_interval_override = None,
     pt_consecutive_failures = 0, pt_tags = NoText, pt_metric_reports_override = NoText, pt_metric_discovery_mode = ''auto'',
     pt_discovered_reports = NoText\<rparr>"

definition sample_draws :: draws where
  "sample_draws i = (0, 0)"

theorem polling_paced_witness:
  "po_started (schedule_due_polls 300 0 sample_draws [sample_poll_target]
       (initialize_staggered_schedule 300 0 sample_draws [sample_poll_target] idle_poller)) =
   po_completed (schedule_due_polls 300 0 sample_draws [sample_poll_target]
       (initialize_staggered_schedule 300 0 sample_draws [sample_poll_target] idle_poller)) + 1"
proof -
  let ?p0 = "initialize_staggered_schedule 300 0 sample_draws [sample_poll_target] idle_poller"
  let ?p1 = "schedule_due_polls 300 0 sample_draws [sample_poll_target] ?p0"
  have "fleet 300 (\<lambda>_. 300) [sample_poll_target]" "draws_ok sample_draws"
    by (simp_all add: fleet_def sample_poll_target_def base_interval_def draws_ok_def sample_draws_def)
  then have "poll_step 300 [] (\<lambda>_. 300) (?p0, 0) (?p1, 0)" by (intro poll_step.tick) auto
  then have "(poll_step 300 [] (\<lambda>_. 300))\<^sup>*\<^sup>* (?p0, 0) (?p1, 0)" by blast
  from polling_paced [OF this] have "po_started ?p1 = po_completed ?p1 + length (po_inflight ?p1)" by simp
  moreover have "length (po_inflight ?p1) = 1" by code_simp
  ultimately show ?thesis by simp
qed

section \<open>Unreadable tags\<close>

lemma bad_tags_outcome: "pt_tags tg = BadText \<Longrightarrow> poll_target defaults env tg cached = (Inl Unbound_Local, False)"
  by (simp add: poll_target_def get_target_tags_def)

text \<open>
  A target whose tags are not readable is polled in vain for ever: its poll ends without a
  status, without a result and without a new time for the next poll, so no failure is counted,
  the circuit breaker never opens, and its stored status stays what it was. Any other
  unreadable column, and any failure of the BMC, is recorded as a failed poll.
\<close>

lemma bad_tags_never_reported:
  "(pt_tags tg = BadText \<longrightarrow>
     run_poll_end poll_interval now jitter (pt_id tg) (poll_target defaults env tg cached) fresh p =
       p\<lparr>po_inflight := remove1 (pt_id tg) (po_inflight p), po_completed := Suc (po_completed p), po_last_completed := Some now,
         po_clients := removeAll (pt_id tg) (po_clients p)\<rparr>) \<and>
   (pt_tags tg \<noteq> BadText \<longrightarrow>
     (\<exists>st. map_of (po_pending (run_poll_end poll_interval now jitter (pt_id tg) (poll_target defaults env tg cached) fresh p)) (pt_id tg) =
       Some st \<and> (pt_metric_reports_override tg = BadText \<longrightarrow> fst st = ''error'')))"
proof (intro conjI impI)
  assume "pt_tags tg = BadText"
  then show "run_poll_end poll_interval now jitter (pt_id tg) (poll_target defaults env tg cached) fresh p =
       p\<lparr>po_inflight := remove1 (pt_id tg) (po_inflight p), po_completed := Suc (po_completed p), po_last_completed := Some now,
         po_clients := removeAll (pt_id tg) (po_clients p)\<rparr>"
    by (simp add: bad_tags_outcome run_poll_end_def)
next
  assume "pt_tags tg \<noteq> BadText"
  then obtain tags where tags: "get_target_tags tg = Inr tags" by (cases "pt_tags tg") (auto simp: get_target_tags_def)
  obtain result kept where r: "poll_target defaults env tg cached = (Inr result, kept)"
    using tags by (cases "poll_body defaults env tg tags cached"; cases "fst (poll_body defaults env tg tags cached)")
      (auto simp: poll_target_def)
  have "\<not> pr_success result" if "pt_metric_reports_override tg = BadText"
    using r tags that
    by (auto simp: poll_target_def poll_body_def resolve_metric_reports_def get_target_metric_reports_def failed_result_def)
  moreover have "map_of (po_pending (run_poll_end poll_interval now jitter (pt_id tg) (Inr result, kept) fresh p)) (pt_id tg) =
      Some (if pr_success result then ''success'' else ''error'', pr_error result)"
    by (auto simp: run_poll_end_def Let_def table_simps split: option.splits)
  ultimately show "\<exists>st. map_of (po_pending (run_poll_end poll_interval now jitter (pt_id tg) (poll_target defaults env tg cached) fresh p)) (pt_id tg) =
       Some st \<and> (pt_metric_reports_override tg = BadText \<longrightarrow> fst st = ''error'')"
    unfolding r by auto
qed

definition sample_env :: poll_env where
  "sample_env = \<lparr>pe_decrypts = True, pe_connects = True, pe_fetch = \<lambda>_. GetFailed, pe_collect = Inl ''down''\<rparr>"

lemma bad_tags_never_reported_witness:
  "po_pending (run_poll_end 300 5 0 1 (poll_target [] sample_env (sample_poll_target\<lparr>pt_tags := BadText\<rparr>) True) None idle_poller) = []"
proof -
  have "pt_tags (sample_poll_target\<lparr>pt_tags := BadText\<rparr>) = BadText" "pt_id (sample_poll_target\<lparr>pt_tags := BadText\<rparr>) = 1"
    "po_pending idle_poller = []"
    by (simp_all add: sample_poll_target_def idle_poller_def)
  then show ?thesis
    using bad_tags_never_reported [of "sample_poll_target\<lparr>pt_tags := BadText\<rparr>" 300 5 0 "[]" sample_env True None idle_poller] by simp
qed

text \<open>The circuit breaker: a failure that makes five or more in a row waits six intervals.\<close>

lemma circuit_breaker_opens:
  assumes "\<not> pr_success result" "4 \<le> pt_consecutive_failures t" "0 \<le> base_interval poll_interval t" "-1 \<le> jitter"
  shows "\<exists>n. map_of (po_next (run_poll_end poll_interval now jitter tid (Inr result, kept) (Some t) p)) tid = Some n \<and>
    now + 49 / 50 * (6 * of_int (base_interval poll_interval t)) \<le> n"
  using assms jitter_gap [of "6 * of_int (base_interval poll_interval t)" jitter]
  by (auto simp: run_poll_end_def Let_def table_simps get_target_interval_def CIRCUIT_BREAKER_THRESHOLD_def
      CIRCUIT_BREAKER_RECHECK_MULTIPLIER_def mult.commute)

end
