(* ===== verification/Metric_Pipeline.thy ===== *)
theory Metric_Pipeline
  imports Metric_Discovery Blob_Unpacker Influx_Exporter Poller
begin

text \<open>
  From a poll to the exporter, \<open>collector/src/collector_main.py\<close>: \<open>_sync_extract_metrics\<close>, which
  turns the reports of one poll, or the blob of a diagnostic task, into metrics,
  \<open>process_poll_result\<close>, which hands them to the exporter, and the task that feeds it with the
  results of the poller. The schemas, the JSONPath library, the archive readers and \<open>json.load\<close> of
  a file are the environment of a call.
\<close>

section \<open>Metrics of one document\<close>

record extract_env =
  ee_jsonpath :: jsonpath
  ee_config :: schema_config
  ee_fallback_depth :: nat
  ee_unpacker :: unpacker
  ee_lib :: archive_lib
  ee_json_load :: "string \<Rightarrow> json option"

definition extra_tags :: "poll_result \<Rightarrow> string dict" where
  "extra_tags r = dict_update [(''target_name'', pr_target_name r)] (pr_tags r)"

definition schema_keys :: "extract_env \<Rightarrow> string list" where
  "schema_keys env = concat (map (\<lambda>s. map fd_json_key (ms_fields s)) (sc_schemas (ee_config env)))"

definition metric_of :: "'a extracted_metric_scheme \<Rightarrow> metric" where
  "metric_of m = \<lparr>mt_name = xm_name m, mt_value = xm_value m, mt_timestamp = xm_timestamp m, mt_tags = xm_tags m,
     mt_metric_type = xm_metric_type m, mt_unit = xm_unit m\<rparr>"

text \<open>By schema, then by discovery; \<open>None\<close> when the extraction raises.\<close>

definition extract_document ::
  "extract_env \<Rightarrow> poll_result \<Rightarrow> instant \<Rightarrow> string \<Rightarrow> json \<Rightarrow> pattern_cache \<Rightarrow> metric list option \<times> pattern_cache" where
  "extract_document env r ts report_type data cache =
     (let tags = AList.update ''report_type'' report_type (extra_tags r);
          discovered = discover (sc_auto_discovery (ee_config env)) (ee_fallback_depth env) data (pr_target_host r) tags (schema_keys env) ts
      in case extract_from_data (ee_jsonpath env) (sc_schemas (ee_config env)) data (pr_target_host r) tags ts cache of
           (None, cache') \<Rightarrow> (None, cache')
         | (Some ms, cache') \<Rightarrow> (Some (map metric_of ms @ map metric_of discovered), cache'))"

section \<open>The reports of one poll\<close>

text \<open>
  The values no earlier report claimed; \<open>None\<close> when a \<open>MetricProperty\<close> is not hashable, which
  raises.
\<close>

definition metric_property :: "json \<Rightarrow> json" where
  "metric_property mv = (case mv of JObj d \<Rightarrow> dict_get d ''MetricProperty'' | _ \<Rightarrow> JNull)"

fun is_dict :: "json \<Rightarrow> bool" where
  "is_dict (JObj _) = True"
| "is_dict _ = False"

fun unique_values :: "json list \<Rightarrow> json list \<Rightarrow> json list option" where
  "unique_values seen [] = Some []"
| "unique_values seen (mv # mvs) =
     (if \<not> is_dict mv then unique_values seen mvs
      else (let p = metric_property mv
            in if \<not> json_truthy p then map_option (Cons mv) (unique_values seen mvs)
               else if \<not> json_hashable p then None
               else if json_member p \<in> set seen then unique_values seen mvs
               else map_option (Cons mv) (unique_values seen mvs)))"

definition claimed_properties :: "json list \<Rightarrow> json list" where
  "claimed_properties mvs = map json_member (filter json_truthy (map metric_property mvs))"

type_synonym report_state = "json list \<times> pattern_cache \<times> metric list"

definition extract_report :: "extract_env \<Rightarrow> poll_result \<Rightarrow> instant \<Rightarrow> string \<times> json \<Rightarrow> report_state \<Rightarrow> report_state" where
  "extract_report env r ts = (\<lambda>(report_type, report) (seen, cache, acc).
     (case report of
        JObj d \<Rightarrow>
          (case dict_get_default d ''MetricValues'' (JList []) of
             JList mvs \<Rightarrow>
               (case unique_values seen mvs of
                  None \<Rightarrow> (seen, cache, acc)
                | Some uv \<Rightarrow>
                    (let seen' = seen @ claimed_properties uv
                     in if uv = [] then (seen', cache, acc)
                        else case extract_document env r ts report_type (JObj (AList.update ''MetricValues'' (JList uv) d)) cache of
                               (None, cache') \<Rightarrow> (seen', cache', acc)
                             | (Some ms, cache') \<Rightarrow> (seen', cache', acc @ ms)))
           | _ \<Rightarrow> (seen, cache, acc))
      | _ \<Rightarrow> (seen, cache, acc)))"

section \<open>The blob of a task\<close>

definition file_content :: "temp_dir \<Rightarrow> extracted_file \<Rightarrow> string option" where
  "file_content tmp f = Option.bind (map_of tmp (ef_folder f)) (\<lambda>t. map_of (tf_files t) (ef_file f))"

text \<open>A file that cannot be read as JSON is skipped; an exception of the extraction ends the loop.\<close>

fun extract_files ::
  "extract_env \<Rightarrow> poll_result \<Rightarrow> instant \<Rightarrow> temp_dir \<Rightarrow> extracted_file list \<Rightarrow> pattern_cache \<Rightarrow> metric list option \<times> pattern_cache" where
  "extract_files env r ts tmp [] cache = (Some [], cache)"
| "extract_files env r ts tmp (f # files) cache =
     (case Option.bind (file_content tmp f) (ee_json_load env) of
        None \<Rightarrow> extract_files env r ts tmp files cache
      | Some data \<Rightarrow>
          (case extract_document env r ts (ef_report_type f) data cache of
             (None, cache') \<Rightarrow> (None, cache')
           | (Some ms, cache') \<Rightarrow>
               (case extract_files env r ts tmp files cache' of
                  (None, cache2) \<Rightarrow> (None, cache2)
                | (Some rest, cache2) \<Rightarrow> (Some (ms @ rest), cache2))))"

text \<open>
  \<open>_sync_extract_metrics\<close>: the metrics and the files to clean up. \<open>unpack\<close> is called with the name
  of the target in the place of the content type.
\<close>

definition sync_extract_metrics ::
  "extract_env \<Rightarrow> string option \<Rightarrow> instant \<Rightarrow> instant \<Rightarrow> poll_result \<Rightarrow> pattern_cache \<times> temp_dir
   \<Rightarrow> (metric list \<times> extracted_file list) \<times> pattern_cache \<times> temp_dir" where
  "sync_extract_metrics env rnd now ts r = (\<lambda>(cache, tmp).
     (case pr_data r of
        Some reports \<Rightarrow>
          (let (_, cache', ms) = fold (extract_report env r ts) reports ([], cache, []) in ((ms, []), cache', tmp))
      | None \<Rightarrow>
          if pr_content r = [] then (([], []), cache, tmp)
          else (case unpack (ee_unpacker env) (ee_lib env) rnd now (pr_content r) (pr_target_name r) ''unknown'' tmp of
                  (Inl _, tmp') \<Rightarrow> (([], []), cache, tmp')
                | (Inr files, tmp') \<Rightarrow>
                    if files = [] then (([], []), cache, tmp')
                    else (case extract_files env r ts tmp' files cache of
                            (None, cache') \<Rightarrow> (([], files), cache', tmp')
                          | (Some ms, cache') \<Rightarrow> ((ms, files), cache', tmp')))))"

section \<open>Handing over\<close>

type_synonym 'p collector_state = "(pattern_cache \<times> temp_dir) \<times> heat_cache \<times> 'p exporter"

text \<open>\<open>process_poll_result\<close>: the number of metrics exported. \<open>ts\<close> is the time of the poll.\<close>

definition process_poll_result ::
  "extract_env \<Rightarrow> (metric \<Rightarrow> 'p) \<Rightarrow> string option \<Rightarrow> instant \<Rightarrow> instant \<Rightarrow> poll_result \<Rightarrow> 'p collector_state \<Rightarrow> nat \<times> 'p collector_state" where
  "process_poll_result env to_point rnd now ts r = (\<lambda>(st, out).
     (if \<not> pr_success r \<or> pr_content r = [] \<and> pr_data r = None then (0, st, out)
      else (let ((metrics, files), cache, tmp) = sync_extract_metrics env rnd now ts r st;
                tmp' = (if files = [] then tmp else cleanup (ee_unpacker env) now files tmp)
            in if metrics = [] then (0, (cache, tmp'), out)
               else (length metrics, (cache, tmp'), write_metrics to_point now metrics out))))"

text \<open>
  \<open>result_processor_task\<close>: the batches its calls of \<open>get_results\<close> return, for the arrivals it meets.
  A call that returns nothing is repeated, so the next result is waited for as long as it takes.
\<close>

lemma get_results_rest: "get_results timeout arrivals acc = Returned rs rest \<Longrightarrow> length rest \<le> length arrivals"
proof (induction arrivals arbitrary: acc)
  case (Cons x arrivals)
  then show ?case by (cases x) (auto split: if_splits dest!: Cons.IH)
qed simp

function processed_batches :: "rat \<Rightarrow> 'r arrivals \<Rightarrow> 'r list list" where
  "processed_batches timeout [] = []"
| "processed_batches timeout ((w, r) # arrivals) =
     (case get_results timeout arrivals [r] of
        Waiting _ \<Rightarrow> []
      | Returned rs rest \<Rightarrow> rs # processed_batches timeout rest)"
  by pat_completeness auto
termination by (relation "measure (\<lambda>(_, arrivals). length arrivals)") (auto dest: get_results_rest)

definition PROCESSOR_TIMEOUT :: rat where
  "PROCESSOR_TIMEOUT = 1"

text \<open>Each batch is processed before the next call; \<open>process\<close> is \<open>process_poll_result\<close> on the state.\<close>

definition result_processor :: "('r \<Rightarrow> 's \<Rightarrow> 's) \<Rightarrow> 'r arrivals \<Rightarrow> 's \<Rightarrow> 's" where
  "result_processor process arrivals = fold (fold process) (processed_batches PROCESSOR_TIMEOUT arrivals)"

section \<open>The first report wins\<close>

lemma extract_document_cache:
  assumes "cache_ok (ee_jsonpath env) cache"
  shows "fst (extract_document env r ts rt data cache) = fst (extract_document env r ts rt data [])
    \<and> cache_ok (ee_jsonpath env) (snd (extract_document env r ts rt data cache))"
proof -
  let ?tags = "AList.update ''report_type'' rt (extra_tags r)"
  let ?x = "\<lambda>cache. extract_from_data (ee_jsonpath env) (sc_schemas (ee_config env)) data (pr_target_host r) ?tags ts cache"
  have "cache_ok (ee_jsonpath env) []" by (simp add: cache_ok_def)
  then have "fst (?x cache) = fst (?x [])" "cache_ok (ee_jsonpath env) (snd (?x cache))"
    using assms extract_schemas_cache by (simp_all add: extract_from_data_def)
  then show ?thesis
    by (cases "?x cache"; cases "?x []") (auto simp: extract_document_def Let_def split: option.splits)
qed

text \<open>The values of a well-formed report, and the properties they name.\<close>

definition hashable_value :: "json \<Rightarrow> bool" where
  "hashable_value mv \<longleftrightarrow> is_dict mv \<and> json_truthy (metric_property mv) \<longrightarrow> json_hashable (metric_property mv)"

definition report_values :: "json \<Rightarrow> json list option" where
  "report_values report =
     (case report of
        JObj d \<Rightarrow>
          (case dict_get_default d ''MetricValues'' (JList []) of
             JList mvs \<Rightarrow> if list_all hashable_value mvs then Some mvs else None
           | _ \<Rightarrow> None)
      | _ \<Rightarrow> None)"

definition report_properties :: "json \<Rightarrow> json set" where
  "report_properties report =
     (case report_values report of None \<Rightarrow> {} | Some mvs \<Rightarrow> set (claimed_properties (filter is_dict mvs)))"

definition unclaimed :: "json set \<Rightarrow> json \<Rightarrow> bool" where
  "unclaimed S mv \<longleftrightarrow> is_dict mv \<and> (json_truthy (metric_property mv) \<longrightarrow> json_member (metric_property mv) \<notin> S)"

definition with_values :: "json \<Rightarrow> json list \<Rightarrow> json" where
  "with_values report uv = (case report of JObj d \<Rightarrow> JObj (AList.update ''MetricValues'' (JList uv) d) | _ \<Rightarrow> report)"

text \<open>What a report contributes when the properties \<open>S\<close> are taken.\<close>

definition report_share :: "extract_env \<Rightarrow> poll_result \<Rightarrow> instant \<Rightarrow> json set \<Rightarrow> string \<times> json \<Rightarrow> metric list" where
  "report_share env r ts S = (\<lambda>(rt, report).
     (case report_values report of
        None \<Rightarrow> []
      | Some mvs \<Rightarrow>
          if filter (unclaimed S) mvs = [] then []
          else (case fst (extract_document env r ts rt (with_values report (filter (unclaimed S) mvs)) []) of None \<Rightarrow> [] | Some ms \<Rightarrow> ms)))"

lemma unique_values_eq:
  "unique_values seen mvs = (if list_all hashable_value mvs then Some (filter (unclaimed (set seen)) mvs) else None)"
proof (induction mvs)
  case (Cons mv mvs)
  then show ?case by (simp add: hashable_value_def [of mv] unclaimed_def [of _ mv] Let_def)
qed simp

lemma set_claimed_properties:
  "set (claimed_properties mvs) = {json_member (metric_property mv) | mv. mv \<in> set mvs \<and> json_truthy (metric_property mv)}"
  by (auto simp: claimed_properties_def)

lemma claimed_together:
  "S \<union> set (claimed_properties (filter (unclaimed S) mvs)) = S \<union> set (claimed_properties (filter is_dict mvs))"
  by (auto simp: set_claimed_properties unclaimed_def)

lemma extract_report_step:
  assumes "cache_ok (ee_jsonpath env) cache"
  shows "\<exists>seen' cache'. extract_report env r ts x (seen, cache, acc) = (seen', cache', acc @ report_share env r ts (set seen) x)
    \<and> set seen' = set seen \<union> report_properties (snd x) \<and> cache_ok (ee_jsonpath env) cache'"
proof -
  obtain rt report where x: "x = (rt, report)" by fastforce
  show ?thesis
  proof (cases "report_values report")
    case None
    then have "extract_report env r ts x (seen, cache, acc) = (seen, cache, acc)"
      unfolding extract_report_def x report_values_def by (auto simp: unique_values_eq split: json.splits if_splits)
    then show ?thesis using None assms by (simp add: x report_share_def report_properties_def)
  next
    case (Some mvs)
    let ?uv = "filter (unclaimed (set seen)) mvs"
    obtain d where d: "report = JObj d" "dict_get_default d ''MetricValues'' (JList []) = JList mvs" "list_all hashable_value mvs"
      using Some by (auto simp: report_values_def split: json.splits if_splits)
    have claims: "set (seen @ claimed_properties ?uv) = set seen \<union> report_properties report"
      using Some claimed_together [of "set seen" mvs] by (simp add: report_properties_def)
    show ?thesis
    proof (cases "?uv = []")
      case True
      then have "extract_report env r ts x (seen, cache, acc) = (seen @ claimed_properties ?uv, cache, acc)"
        unfolding extract_report_def x using d by (simp add: unique_values_eq Let_def)
      then show ?thesis using True Some assms claims by (simp add: x report_share_def)
    next
      case False
      obtain o1 cache' where ex: "extract_document env r ts rt (with_values report ?uv) cache = (o1, cache')" by fastforce
      then have o1: "o1 = fst (extract_document env r ts rt (with_values report ?uv) [])" "cache_ok (ee_jsonpath env) cache'"
        using extract_document_cache [OF assms, of r ts rt "with_values report ?uv"] by auto
      have "extract_report env r ts x (seen, cache, acc) =
          (seen @ claimed_properties ?uv, cache', acc @ (case o1 of None \<Rightarrow> [] | Some ms \<Rightarrow> ms))"
        unfolding extract_report_def x using d False ex by (simp add: unique_values_eq Let_def with_values_def split: option.splits)
      then show ?thesis using False Some o1 claims by (simp add: x report_share_def)
    qed
  qed
qed

fun report_shares :: "extract_env \<Rightarrow> poll_result \<Rightarrow> instant \<Rightarrow> json set \<Rightarrow> (string \<times> json) list \<Rightarrow> metric list" where
  "report_shares env r ts S [] = []"
| "report_shares env r ts S (x # xs) = report_share env r ts S x @ report_shares env r ts (S \<union> report_properties (snd x)) xs"

lemma fold_extract_report:
  "cache_ok (ee_jsonpath env) cache \<Longrightarrow>
     \<exists>seen' cache'. fold (extract_report env r ts) xs (seen, cache, acc) = (seen', cache', acc @ report_shares env r ts (set seen) xs)"
proof (induction xs arbitrary: seen cache acc)
  case (Cons x xs)
  obtain seen1 cache1 where one: "extract_report env r ts x (seen, cache, acc) = (seen1, cache1, acc @ report_share env r ts (set seen) x)"
    "set seen1 = set seen \<union> report_properties (snd x)" "cache_ok (ee_jsonpath env) cache1"
    using extract_report_step [OF Cons.prems] by metis
  then show ?case using Cons.IH [OF one(3), of seen1 "acc @ report_share env r ts (set seen) x"] by auto
qed simp

lemma report_shares_nth:
  "report_shares env r ts S xs =
     concat (map (\<lambda>i. report_share env r ts (S \<union> (\<Union>j < i. report_properties (snd (xs ! j)))) (xs ! i)) [0..<length xs])"
proof (induction xs arbitrary: S)
  case (Cons x xs)
  have "[0..<length (x # xs)] = 0 # map Suc [0..<length xs]" by (simp add: map_Suc_upt upt_conv_Cons del: upt_Suc)
  moreover have "(\<Union>j < Suc i. report_properties (snd ((x # xs) ! j))) = report_properties (snd x) \<union> (\<Union>j < i. report_properties (snd (xs ! j)))" for i
    by (auto simp: lessThan_Suc_eq_insert_0)
  ultimately show ?case by (simp add: Cons.IH comp_def Un_assoc del: upt_Suc)
qed simp

lemma report_shares_filter:
  "report_shares env r ts S (filter (\<lambda>x. report_values (snd x) \<noteq> None) xs) = report_shares env r ts S xs"
  by (induction xs arbitrary: S) (auto simp: report_share_def report_properties_def)

lemma report_share_data [simp]: "report_share env (r\<lparr>pr_data := d\<rparr>) ts = report_share env r ts"
proof -
  have same: "extract_document env (r\<lparr>pr_data := d\<rparr>) ts = extract_document env r ts"
    by (simp add: extract_document_def extra_tags_def fun_eq_iff)
  show ?thesis unfolding report_share_def same by (rule refl)
qed

lemma sync_reports:
  assumes "cache_ok (ee_jsonpath env) cache" "pr_data r = Some reports"
  shows "fst (sync_extract_metrics env rnd now ts r (cache, tmp)) = (report_shares env r ts {} reports, [])"
  using fold_extract_report [OF assms(1), of r ts reports "[]" "[]"] assms(2) by (auto simp: sync_extract_metrics_def)

text \<open>
  (C27) The reports of one poll are combined so that the first report to name a
  \<open>MetricProperty\<close> delivers it: each report contributes just its values whose property no earlier
  well-formed report named. A report that is no dictionary, has no list of values or names an
  unhashable property costs only itself: the others yield what they would without it.
\<close>

theorem first_report_wins:
  assumes "cache_ok (ee_jsonpath env) cache" "pr_data r = Some reports"
  shows "fst (sync_extract_metrics env rnd now ts r (cache, tmp)) =
      (concat (map (\<lambda>i. report_share env r ts (\<Union>j < i. report_properties (snd (reports ! j))) (reports ! i)) [0..<length reports]), [])
    \<and> fst (sync_extract_metrics env rnd now ts (r\<lparr>pr_data := Some (filter (\<lambda>x. report_values (snd x) \<noteq> None) reports)\<rparr>) (cache, tmp))
      = fst (sync_extract_metrics env rnd now ts r (cache, tmp))"
proof -
  have same: "report_shares env (r\<lparr>pr_data := d\<rparr>) ts S xs = report_shares env r ts S xs" for d S xs
    by (induction xs arbitrary: S) simp_all
  let ?ok = "filter (\<lambda>x. report_values (snd x) \<noteq> None) reports"
  have upd: "pr_data (r\<lparr>pr_data := Some ?ok\<rparr>) = Some ?ok" by simp
  have "fst (sync_extract_metrics env rnd now ts (r\<lparr>pr_data := Some ?ok\<rparr>) (cache, tmp)) = (report_shares env r ts {} reports, [])"
    using sync_reports [OF assms(1) upd, of rnd now ts tmp] same report_shares_filter [of env r ts "{}" reports] by simp
  then show ?thesis
    using sync_reports [OF assms, of rnd now ts tmp] report_shares_nth [of env r ts "{}" reports] by simp
qed

definition sample_extract_env :: extract_env where
  "sample_extract_env =
     \<lparr>ee_jsonpath = sample_jsonpath, ee_config = get_default_config, ee_fallback_depth = 50,
      ee_unpacker = \<lparr>cleanup_after_parse = True, max_blob_size = 100\<rparr>,
      ee_lib = \<lparr>zip_infolist = (\<lambda>_. None), gunzip = (\<lambda>_. \<lparr>bs_chunks = [], bs_raises = True\<rparr>), tar_members = (\<lambda>_. Inl Tar_Or_Os_Error),
        is_utf8 = (\<lambda>_. True), can_write = (\<lambda>_. True)\<rparr>,
      ee_json_load = (\<lambda>_. Some (JObj [(''TempOk'', JBool True)]))\<rparr>"

definition sample_poll :: "string \<Rightarrow> string \<Rightarrow> (string \<times> json) list option \<Rightarrow> poll_result" where
  "sample_poll name content reports =
     \<lparr>pr_target_id = 1, pr_target_name = name, pr_target_host = ''h'', pr_success = True, pr_content = content, pr_error = None,
      pr_tags = [], pr_data = reports, pr_method = ''get'', pr_reports_succeeded = 0, pr_reports_expected = 0\<rparr>"

definition sample_value :: "string \<Rightarrow> rat \<Rightarrow> json" where
  "sample_value prop x = JObj [(''MetricProperty'', JStr prop), (''TempValue'', JFloat (Finite x))]"

text \<open>Three reports: the first is broken, the second and third both carry property \<open>a\<close>.\<close>

definition sample_reports :: "(string \<times> json) list" where
  "sample_reports =
     [(''r1'', JObj [(''MetricValues'', JNull)]),
      (''r2'', JObj [(''MetricValues'', JList [sample_value ''a'' 1])]),
      (''r3'', JObj [(''MetricValues'', JList [sample_value ''a'' 2, sample_value ''b'' 3])])]"

theorem first_report_wins_witness:
  "map mt_value (fst (fst (sync_extract_metrics sample_extract_env None 0 0 (sample_poll ''n'' [] (Some sample_reports)) ([], [])))) = [1, 3]
   \<and> map mt_value (fst (fst (sync_extract_metrics sample_extract_env None 0 0
        ((sample_poll ''n'' [] (Some sample_reports))\<lparr>pr_data := Some (filter (\<lambda>x. report_values (snd x) \<noteq> None) sample_reports)\<rparr>) ([], [])))) = [1, 3]"
proof -
  have ok: "cache_ok (ee_jsonpath sample_extract_env) []" by (simp add: cache_ok_def)
  have r: "map mt_value (fst (fst (sync_extract_metrics sample_extract_env None 0 0 (sample_poll ''n'' [] (Some sample_reports)) ([], [])))) = [1, 3]"
    by code_simp
  have d: "pr_data (sample_poll ''n'' [] (Some sample_reports)) = Some sample_reports" by (simp add: sample_poll_def)
  show ?thesis using first_report_wins [OF ok d, of None 0 0 "[]"] r by simp
qed

section \<open>The name of the target as content type\<close>

lemma raw_file_stem: "ef_report_type (new_extracted d ''unknown_telemetry.json'' ''unknown_telemetry.json'' n) = ''unknown_telemetry''"
proof -
  have "(let s = name_stem (path_name ''unknown_telemetry.json'') in if s = [] then ''telemetry'' else s) = ''unknown_telemetry''" by code_simp
  then show ?thesis by (simp only: new_extracted_def extracted_file.simps)
qed

lemma raw_unpacked:
  assumes raw: "\<not> is_zip content" "\<not> is_gzip content" "\<not> is_tar content" "content \<noteq> []" "length content \<le> max_blob_size u"
    and refused: "zip_infolist lib content = None" "bs_raises (gunzip lib content)" "tar_members lib content = Inl Tar_Or_Os_Error"
    and "is_utf8 lib content" "can_write lib ''unknown_telemetry.json''"
  shows "unpack u lib (Some rnd) now content ctype ''unknown'' tmp =
    (if contains (py_lower ctype) ''zip'' \<or> contains (py_lower ctype) ''gz'' \<or> contains (py_lower ctype) ''tar''
     then (Inl Value_Error, tmp)
     else (Inr [new_extracted (''unknown_'' @ rnd) ''unknown_telemetry.json'' ''unknown_telemetry.json'' (length content)],
           tmp @ [(''unknown_'' @ rnd, \<lparr>tf_files = [(''unknown_telemetry.json'', content)], tf_mtime = now\<rparr>)]))"
proof -
  have name: "safe_target_name ''unknown'' = ''unknown''" by code_simp
  have fname: "telemetry_name lib ''unknown'' content = ''unknown_telemetry.json''" using assms(9) by (simp add: telemetry_name_def)
  have longer: "contains s ''gzip'' \<Longrightarrow> contains s ''gz''" "contains s ''application/x-tar'' \<Longrightarrow> contains s ''tar''" for s
  proof -
    assume "contains s ''gzip''"
    then obtain a b where "s = a @ ''gz'' @ (''ip'' @ b)" by (auto simp: contains_iff)
    then show "contains s ''gz''" unfolding contains_iff by blast
  next
    assume "contains s ''application/x-tar''"
    then obtain a b where "s = (a @ ''application/x-'') @ ''tar'' @ b" by (auto simp: contains_iff)
    then show "contains s ''tar''" unfolding contains_iff by blast
  qed
  have zip: "fst (extract_zip lib d content) = Inl Other_Error" for d using refused(1) by (simp add: extract_zip_def)
  have gz: "fst (extract_gzip lib d ''unknown'' content) = Inl Value_Error" for d
    using refused(2) by (simp add: extract_gzip_def Let_def split: option.splits)
  have tar: "extract_tar lib d content = (Inl Value_Error, [])" for d using refused(3) by (simp add: extract_tar_def)
  show ?thesis
    using raw zip [of "''unknown_'' @ rnd"] gz [of "''unknown_'' @ rnd"] tar longer assms(10)
    unfolding unpack_def name extract_blob_def
    by (auto simp: Let_def try_extract_tar_direct_def save_raw_def fname split: prod.splits sum.splits)
qed

text \<open>
  Uncompressed telemetry from a diagnostic task is exported only under a fortunate name:
  the name of the target is read as the content type, so for a target whose name contains
  \<open>zip\<close>, \<open>gz\<close> or \<open>tar\<close> (every name with \<open>target\<close> in it) the same bytes are taken for an archive,
  refused, and no metric is exported. Under any other name all its metrics are.
\<close>

lemma target_name_read_as_type:
  assumes "pr_data r = None" "c = pr_content r" "c \<noteq> []" "length c \<le> max_blob_size (ee_unpacker env)"
    and "\<not> is_zip c" "\<not> is_gzip c" "\<not> is_tar c"
    and "zip_infolist (ee_lib env) c = None" "bs_raises (gunzip (ee_lib env) c)" "tar_members (ee_lib env) c = Inl Tar_Or_Os_Error"
    and "is_utf8 (ee_lib env) c" "can_write (ee_lib env) ''unknown_telemetry.json''"
    and "ee_json_load env c = Some data" "''unknown_'' @ rnd \<notin> fst ` set tmp"
  shows "fst (fst (sync_extract_metrics env (Some rnd) now ts r (cache, tmp))) =
    (let name = py_lower (pr_target_name r)
     in if contains name ''zip'' \<or> contains name ''gz'' \<or> contains name ''tar'' then []
        else (case fst (extract_document env r ts ''unknown_telemetry'' data cache) of None \<Rightarrow> [] | Some ms \<Rightarrow> ms))"
proof -
  let ?name = "py_lower (pr_target_name r)"
  let ?f = "new_extracted (''unknown_'' @ rnd) ''unknown_telemetry.json'' ''unknown_telemetry.json'' (length c)"
  let ?tmp = "tmp @ [(''unknown_'' @ rnd, \<lparr>tf_files = [(''unknown_telemetry.json'', c)], tf_mtime = now\<rparr>)]"
  have un: "unpack (ee_unpacker env) (ee_lib env) (Some rnd) now c (pr_target_name r) ''unknown'' tmp =
      (if contains ?name ''zip'' \<or> contains ?name ''gz'' \<or> contains ?name ''tar'' then (Inl Value_Error, tmp) else (Inr [?f], ?tmp))"
    using assms by (intro raw_unpacked) auto
  have "map_of ?tmp (''unknown_'' @ rnd) = Some \<lparr>tf_files = [(''unknown_telemetry.json'', c)], tf_mtime = now\<rparr>"
    using map_of_snoc [OF assms(14)] by metis
  then have content: "file_content ?tmp ?f = Some c" by (simp add: file_content_def new_extracted_def del: append_Cons)
  have files: "extract_files env r ts ?tmp [?f] cache =
      (case extract_document env r ts ''unknown_telemetry'' data cache of (None, c1) \<Rightarrow> (None, c1) | (Some ms, c1) \<Rightarrow> (Some ms, c1))"
    unfolding extract_files.simps content using assms(13) raw_file_stem by (auto split: prod.splits option.splits)
  show ?thesis
    using assms(1, 3) un files unfolding sync_extract_metrics_def assms(2) [symmetric]
    by (auto simp: Let_def split: prod.splits option.splits)
qed

lemma target_name_read_as_type_witness:
  "fst (fst (sync_extract_metrics sample_extract_env (Some ''x'') 0 0 (sample_poll ''target7'' ''{}'' None) ([], []))) = []
   \<and> length (fst (fst (sync_extract_metrics sample_extract_env (Some ''x'') 0 0 (sample_poll ''node7'' ''{}'' None) ([], [])))) = 1"
proof -
  have env: "\<not> is_zip ''{}''" "\<not> is_gzip ''{}''" "\<not> is_tar ''{}''" by code_simp+
  have one: "length (case fst (extract_document sample_extract_env (sample_poll ''node7'' ''{}'' None) 0 ''unknown_telemetry'' (JObj [(''TempOk'', JBool True)]) [])
      of None \<Rightarrow> [] | Some ms \<Rightarrow> ms) = 1" by code_simp
  have names: "contains (py_lower ''target7'') ''tar''" "\<not> (contains (py_lower ''node7'') ''zip'' \<or> contains (py_lower ''node7'') ''gz'' \<or> contains (py_lower ''node7'') ''tar'')"
    by code_simp+
  have got: "fst (fst (sync_extract_metrics sample_extract_env (Some ''x'') 0 0 (sample_poll name ''{}'' None) ([], []))) =
    (let lname = py_lower (pr_target_name (sample_poll name ''{}'' None))
     in if contains lname ''zip'' \<or> contains lname ''gz'' \<or> contains lname ''tar'' then []
        else (case fst (extract_document sample_extract_env (sample_poll name ''{}'' None) 0 ''unknown_telemetry'' (JObj [(''TempOk'', JBool True)]) [])
          of None \<Rightarrow> [] | Some ms \<Rightarrow> ms))" for name
    by (rule target_name_read_as_type [where c = "''{}''"]) (simp_all add: sample_poll_def sample_extract_env_def env)
  have n: "pr_target_name (sample_poll name ''{}'' None) = name" for name by (simp add: sample_poll_def)
  show ?thesis unfolding got n Let_def using names one by simp
qed

section \<open>The result processor\<close>

lemma get_results_waiting:
  "\<forall>a \<in> set arrivals. fst a < timeout \<Longrightarrow> get_results timeout arrivals acc = Waiting (acc @ map snd arrivals)"
  by (induction timeout arrivals acc rule: get_results.induct) auto

lemma get_results_returned:
  "\<forall>a \<in> set pre. fst a < timeout \<Longrightarrow> timeout \<le> w \<Longrightarrow>
     get_results timeout (pre @ (w, r) # rest) acc = Returned (acc @ map snd pre) ((w - timeout, r) # rest)"
  by (induction pre arbitrary: acc) auto

text \<open>Either no pause is among the arrivals, or there is a first one.\<close>

lemma arrivals_cases:
  fixes arrivals :: "'r arrivals" and timeout :: rat
  obtains (busy) "\<forall>a \<in> set arrivals. fst a < timeout"
  | (pause) pre w r rest where "arrivals = pre @ (w, r) # rest" "\<forall>a \<in> set pre. fst a < timeout" "timeout \<le> w"
proof (cases "\<exists>a \<in> set arrivals. timeout \<le> fst a")
  case True
  then obtain pre a rest where "arrivals = pre @ a # rest" "timeout \<le> fst a" "\<forall>b \<in> set pre. \<not> timeout \<le> fst b"
    using split_list_first_prop [of arrivals "\<lambda>a. timeout \<le> fst a"] by metis
  then show ?thesis using pause [of pre "fst a" "snd a" rest] by (simp add: not_le)
next
  case False
  then show ?thesis using busy by (simp add: not_le)
qed

lemma processed_batches_nonempty:
  "processed_batches timeout arrivals \<noteq> [] \<longleftrightarrow> (\<exists>a \<in> set (tl arrivals). timeout \<le> fst a)"
proof (cases arrivals)
  case (Cons a rest)
  show ?thesis
    by (cases rest timeout rule: arrivals_cases; cases a)
      (auto simp: Cons get_results_waiting get_results_returned not_le)
qed simp

lemma processed_batches_prefix: "\<exists>held. map snd arrivals = concat (processed_batches timeout arrivals) @ held"
proof (induction timeout arrivals rule: processed_batches.induct)
  case (2 timeout w r arrivals)
  show ?case
  proof (cases arrivals timeout rule: arrivals_cases)
    case busy
    then show ?thesis by (simp add: get_results_waiting)
  next
    case (pause pre v q rest)
    then have got: "get_results timeout arrivals [r] = Returned (r # map snd pre) ((v - timeout, q) # rest)"
      by (simp add: get_results_returned)
    obtain held where "map snd ((v - timeout, q) # rest) = concat (processed_batches timeout ((v - timeout, q) # rest)) @ held"
      using "2.IH" [OF got] by blast
    then show ?thesis using got pause(1) by (auto simp del: processed_batches.simps(2) simp add: processed_batches.simps(2) [of _ w])
  qed
qed simp

text \<open>
  (C28) The result processor waits for a pause: no result, however many have arrived, is handed
  on before the poller has delivered nothing for a whole second. While results keep arriving less
  than a second apart, all of them stay in one unfinished call. Results are never lost or
  reordered: what was handed on is a prefix of what arrived.
\<close>

theorem results_wait_for_a_pause:
  "(processed_batches PROCESSOR_TIMEOUT arrivals \<noteq> [] \<longleftrightarrow> (\<exists>a \<in> set (tl arrivals). 1 \<le> fst a))
   \<and> ((\<forall>a \<in> set (tl arrivals). fst a < 1) \<longrightarrow>
        result_processor (\<lambda>r. snd \<circ> process_poll_result env to_point (rnd r) now (ts r) r) arrivals st = st)
   \<and> (\<exists>held. map snd arrivals = concat (processed_batches PROCESSOR_TIMEOUT arrivals) @ held)"
proof -
  have some: "processed_batches PROCESSOR_TIMEOUT arrivals \<noteq> [] \<longleftrightarrow> (\<exists>a \<in> set (tl arrivals). 1 \<le> fst a)"
    using processed_batches_nonempty [of PROCESSOR_TIMEOUT arrivals] by (simp add: PROCESSOR_TIMEOUT_def)
  then have "processed_batches PROCESSOR_TIMEOUT arrivals = []" if "\<forall>a \<in> set (tl arrivals). fst a < 1" using that by force
  then show ?thesis using some processed_batches_prefix [of arrivals PROCESSOR_TIMEOUT] by (simp add: result_processor_def)
qed

theorem results_wait_for_a_pause_witness:
  "processed_batches PROCESSOR_TIMEOUT [(0, ''a''), (2/3, ''b''), (1, ''c''), (0, ''d'')] = [[''a'', ''b'']]
   \<and> result_processor (\<lambda>r. snd \<circ> process_poll_result sample_extract_env mt_value None 0 0 r)
       [(0, sample_poll ''n'' [] (Some sample_reports)), (2/3, sample_poll ''m'' [] (Some sample_reports))] (([], []), ([], new_exporter 5))
     = (([], []), ([], new_exporter 5))"
  using results_wait_for_a_pause [of "[(0, sample_poll ''n'' [] (Some sample_reports)), (2/3, sample_poll ''m'' [] (Some sample_reports))]"
    sample_extract_env mt_value "\<lambda>_. None" 0 "\<lambda>_. 0" "(([], []), ([], new_exporter 5))"]
  by (simp add: PROCESSOR_TIMEOUT_def)

section \<open>Into the exporter\<close>

text \<open>
  Every metric of a successful poll reaches the buffer of the exporter: the points of all
  its metrics, with those buffered before, are in the buffer afterwards or counted as dropped, the
  buffer keeps its bound, and the number returned is that of the metrics. A failed poll, and one
  without metrics, leaves exporter and heatmap as they were.
\<close>

lemma poll_metrics_accounted:
  assumes cap: "0 < max_buffer_size x" "length (buffer x) \<le> max_buffer_size x"
    and run: "process_poll_result env to_point rnd now ts r (st, (d, x)) = (n, st', (d', x'))"
    and ms: "ms = (if pr_success r then fst (fst (sync_extract_metrics env rnd now ts r st)) else [])"
  shows "n = length ms \<and> (ms = [] \<longrightarrow> (d', x') = (d, x)) \<and> length (buffer x') \<le> max_buffer_size x
    \<and> (\<exists>gone. mset (map to_point ms) + mset (buffer x) = mset (buffer x') + mset gone \<and> dropped_points x' = dropped_points x + length gone)"
proof -
  obtain cache tmp where st: "st = (cache, tmp)" by fastforce
  have no_metrics: "ms = []" if "\<not> pr_success r \<or> pr_content r = [] \<and> pr_data r = None"
    using that ms by (auto simp: sync_extract_metrics_def st)
  obtain m0 fs cache1 tmp1 where sync: "sync_extract_metrics env rnd now ts r st = ((m0, fs), cache1, tmp1)"
    by (metis prod.collapse)
  have result: "n = length ms \<and> (d', x') = (if ms = [] then (d, x) else write_metrics to_point now ms (d, x))"
  proof (cases "\<not> pr_success r \<or> pr_content r = [] \<and> pr_data r = None")
    case True
    then have "n = 0" "d' = d" "x' = x" using run by (simp_all add: process_poll_result_def)
    then show ?thesis using no_metrics [OF True] by simp
  next
    case False
    then show ?thesis using run ms by (auto simp: process_poll_result_def sync Let_def split: if_splits)
  qed
  show ?thesis
  proof (cases "ms = []")
    case True
    then show ?thesis using result cap by (intro conjI exI [of _ "[]"]) auto
  next
    case False
    then have x': "x' = buffer_points (map to_point ms) x" using result by (simp add: write_metrics_def)
    then show ?thesis
      using False result write_buf.add_conserves [OF cap(1), of "map to_point ms"] write_buf.add_bounded [OF cap(1), of "map to_point ms"] by simp
  qed
qed

lemma poll_metrics_accounted_witness:
  "\<exists>n st' out'. process_poll_result sample_extract_env mt_value None 0 0 (sample_poll ''n'' [] (Some sample_reports)) (([], []), ([], new_exporter 5))
       = (n, st', out') \<and> n = 2 \<and> length (buffer (snd out')) \<le> 1000"
proof -
  let ?out = "process_poll_result sample_extract_env mt_value None 0 0 (sample_poll ''n'' [] (Some sample_reports)) (([], []), ([], new_exporter 5))"
  obtain n st' d' x' where run: "?out = (n, st', (d', x'))" by (metis prod.collapse)
  have cap: "0 < max_buffer_size (new_exporter 5 :: rat exporter)" "length (buffer (new_exporter 5 :: rat exporter)) \<le> max_buffer_size (new_exporter 5 :: rat exporter)"
    "max_buffer_size (new_exporter 5 :: rat exporter) = 1000"
    by (simp_all add: new_exporter_def MAX_BUFFER_ABSOLUTE_def)
  have "length (if pr_success (sample_poll ''n'' [] (Some sample_reports))
      then fst (fst (sync_extract_metrics sample_extract_env None 0 0 (sample_poll ''n'' [] (Some sample_reports)) ([], []))) else []) = 2" by code_simp
  then show ?thesis using poll_metrics_accounted [OF cap(1, 2) run refl] run cap(3) by auto
qed

end
