(* ===== verification/Redfish_Client.thy ===== *)
theory Redfish_Client
  imports Log_Baseline
begin

text \<open>
  \<open>collector/src/redfish/client.py\<close>: the session of a BMC client and the collection of diagnostic
  data by a task: start it, poll it, download its attachment, delete it. The BMC is an argument, a
  function from its own state \<open>'b\<close> and a request to what the client sees, the seconds that took
  and the next state, so it may answer every request differently. Every exchange is recorded.
  Cancellation of the coroutine is left out.
\<close>

section \<open>Requests and replies\<close>

datatype http_method = GET | POST | DELETE

record request =
  rq_method :: http_method
  rq_url :: string
  rq_body :: json
  rq_token :: "string option"
  rq_basic :: "(string \<times> string) option"

text \<open>
  A response, with what \<open>json()\<close> makes of its body; a timeout; another \<open>httpx.RequestError\<close> or
  \<open>OSError\<close>, with its text; any other exception.
\<close>

record response =
  hs_status :: int
  hs_headers :: "(string \<times> string) list"
  hs_content :: string
  hs_json :: "json option"

datatype http_result = Answer response | Request_Timeout | Request_Error string | Unexpected

type_synonym 'b bmc_server = "'b \<Rightarrow> request \<Rightarrow> http_result \<times> rat \<times> 'b"

text \<open>Header names are compared without case.\<close>

definition header_get :: "response \<Rightarrow> string \<Rightarrow> string option" where
  "header_get r name = map_option snd (find (\<lambda>(n, _). py_lower n = py_lower name) (hs_headers r))"

record redfish_config =
  rf_base_url :: string
  rf_username :: string
  rf_password :: string
  rf_token :: "string option"
  rf_task_poll_interval :: rat
  rf_task_timeout :: rat
  rf_cleanup_task :: bool

record 'b redfish_client =
  rc_server :: 'b
  rc_clock :: rat
  rc_log :: "(request \<times> http_result) list"
  rc_connected :: bool
  rc_session_token :: "string option"
  rc_initiate_status :: int
  rc_initiate_error :: json

definition has_text :: "string option \<Rightarrow> bool" where
  "has_text t \<longleftrightarrow> t \<noteq> None \<and> t \<noteq> Some []"

definition full_url :: "redfish_config \<Rightarrow> string \<Rightarrow> string" where
  "full_url c uri = (if starts_with uri ''/'' then rf_base_url c @ uri else uri)"

text \<open>A session token goes with every request; without one, basic authentication does.\<close>

definition new_request :: "redfish_config \<Rightarrow> 'b redfish_client \<Rightarrow> http_method \<Rightarrow> string \<Rightarrow> json \<Rightarrow> request" where
  "new_request c st mtd url body =
     \<lparr>rq_method = mtd, rq_url = url, rq_body = body,
      rq_token = (if has_text (rc_session_token st) then rc_session_token st else None),
      rq_basic = (if has_text (rc_session_token st) then None else Some (rf_username c, rf_password c))\<rparr>"

definition http_send ::
  "'b bmc_server \<Rightarrow> redfish_config \<Rightarrow> http_method \<Rightarrow> string \<Rightarrow> json \<Rightarrow> 'b redfish_client \<Rightarrow> http_result \<times> 'b redfish_client" where
  "http_send bmc c mtd url body st =
     (let rq = new_request c st mtd url body; (res, dt, b) = bmc (rc_server st) rq
      in (res, st\<lparr>rc_server := b, rc_clock := rc_clock st + dt, rc_log := rc_log st @ [(rq, res)]\<rparr>))"

definition pause :: "rat \<Rightarrow> 'b redfish_client \<Rightarrow> 'b redfish_client" where
  "pause dt st = st\<lparr>rc_clock := rc_clock st + dt\<rparr>"

section \<open>Sessions\<close>

definition create_session :: "'b bmc_server \<Rightarrow> redfish_config \<Rightarrow> 'b redfish_client \<Rightarrow> (unit option) \<times> 'b redfish_client" where
  "create_session bmc c st =
     (let (res, st1) = http_send bmc c POST (rf_base_url c @ ''/redfish/v1/SessionService/Sessions'')
            (JObj [(''UserName'', JStr (rf_username c)), (''Password'', JStr (rf_password c))]) st
      in case res of
           Answer r \<Rightarrow>
             (Some (), if hs_status r = 200 \<or> hs_status r = 201 then st1\<lparr>rc_session_token := header_get r ''X-Auth-Token''\<rparr> else st1)
         | Unexpected \<Rightarrow> (None, st1)
         | _ \<Rightarrow> (Some (), st1))"

definition connect_client :: "'b bmc_server \<Rightarrow> redfish_config \<Rightarrow> 'b redfish_client \<Rightarrow> (unit option) \<times> 'b redfish_client" where
  "connect_client bmc c st =
     (let st1 = st\<lparr>rc_connected := True\<rparr>
      in if has_text (rf_token c) then (Some (), st1\<lparr>rc_session_token := rf_token c\<rparr>) else create_session bmc c st1)"

definition close_client :: "'b bmc_server \<Rightarrow> redfish_config \<Rightarrow> 'b redfish_client \<Rightarrow> 'b redfish_client" where
  "close_client bmc c st =
     (if \<not> rc_connected st then st
      else (let st1 = (if has_text (rc_session_token st) \<and> \<not> has_text (rf_token c)
                       then snd (http_send bmc c DELETE (rf_base_url c @ ''/redfish/v1/SessionService/Sessions/Self'') JNull st) else st)
            in st1\<lparr>rc_connected := False, rc_session_token := None\<rparr>))"

section \<open>Starting a task\<close>

text \<open>The message of an error body, if it has one; reading another shape raises, which is caught.\<close>

definition error_message :: "response \<Rightarrow> json option" where
  "error_message r =
     (case hs_json r of
        None \<Rightarrow> None
      | Some body \<Rightarrow>
          (case body of
             JObj d \<Rightarrow>
               (case map_of d ''error'' of
                  None \<Rightarrow> Some (JStr (''HTTP '' @ py_str_int (hs_status r)))
                | Some e \<Rightarrow> doc_get e ''message'' (JStr (''HTTP '' @ py_str_int (hs_status r))))
           | JList xs \<Rightarrow> if JStr ''error'' \<in> set xs then None else Some (JStr (''HTTP '' @ py_str_int (hs_status r)))
           | JStr s \<Rightarrow> if contains s ''error'' then None else Some (JStr (''HTTP '' @ py_str_int (hs_status r)))
           | _ \<Rightarrow> None))"

definition status_text :: "response \<Rightarrow> json" where
  "status_text r = JStr (''HTTP '' @ py_str_int (hs_status r))"

text \<open>
  The address of the task in the body of a 202 response: an identifier that is no address is
  completed; when it is no text the completion raises, and the value stays as it is.
\<close>

definition task_uri_of_body :: "json option \<Rightarrow> json" where
  "task_uri_of_body body =
     (case body of
        Some (JObj d) \<Rightarrow>
          (let uri = json_or (dict_get d ''@odata.id'') (dict_get d ''Id'')
           in case uri of
                JStr s \<Rightarrow> if s \<noteq> [] \<and> \<not> starts_with s ''/'' then JStr (''/redfish/v1/TaskService/Tasks/'' @ s) else uri
              | _ \<Rightarrow> uri)
      | _ \<Rightarrow> JNull)"

definition initiate_collection ::
  "'b bmc_server \<Rightarrow> redfish_config \<Rightarrow> string \<Rightarrow> json \<Rightarrow> 'b redfish_client \<Rightarrow> (json option) \<times> 'b redfish_client" where
  "initiate_collection bmc c endpoint body st =
     (let (res, st1) = http_send bmc c POST (rf_base_url c @ endpoint) body (st\<lparr>rc_initiate_status := 0, rc_initiate_error := JNull\<rparr>)
      in case res of
           Answer r \<Rightarrow>
             (let st2 = st1\<lparr>rc_initiate_status := hs_status r\<rparr>
              in if hs_status r = 202
                 then (Some (if has_text (header_get r ''Location'') then JStr (the (header_get r ''Location'')) else task_uri_of_body (hs_json r)), st2)
                 else if hs_status r = 200 \<or> hs_status r = 201
                 then (Some (case hs_json r of Some (JObj d) \<Rightarrow> dict_get d ''@odata.id'' | _ \<Rightarrow> JNull), st2)
                 else (Some JNull, st2\<lparr>rc_initiate_error := (case error_message r of Some m \<Rightarrow> m | None \<Rightarrow> status_text r)\<rparr>))
         | Unexpected \<Rightarrow> (None, st1)
         | _ \<Rightarrow> (Some JNull, st1))"

section \<open>Polling a task\<close>

datatype task_state = NEW | STARTING | RUNNING | SUSPENDED | INTERRUPTED | TASK_PENDING | STOPPING | COMPLETED | KILLED | EXCEPTION
  | SERVICE | CANCELLING | CANCELLED

definition TASK_STATES :: "(string \<times> task_state) list" where
  "TASK_STATES =
     [(''New'', NEW), (''Starting'', STARTING), (''Running'', RUNNING), (''Suspended'', SUSPENDED), (''Interrupted'', INTERRUPTED),
      (''Pending'', TASK_PENDING), (''Stopping'', STOPPING), (''Completed'', COMPLETED), (''Killed'', KILLED), (''Exception'', EXCEPTION),
      (''Service'', SERVICE), (''Cancelling'', CANCELLING), (''Cancelled'', CANCELLED)]"

text \<open>An unknown state counts as running.\<close>

definition task_state_of :: "json \<Rightarrow> task_state" where
  "task_state_of v = (case v of JStr s \<Rightarrow> (case map_of TASK_STATES s of Some t \<Rightarrow> t | None \<Rightarrow> RUNNING) | _ \<Rightarrow> RUNNING)"

definition task_state_text :: "task_state \<Rightarrow> string" where
  "task_state_text t = (case find (\<lambda>(_, u). u = t) TASK_STATES of Some (s, _) \<Rightarrow> s | None \<Rightarrow> [])"

definition terminal_state :: "task_state \<Rightarrow> bool" where
  "terminal_state t \<longleftrightarrow> t \<in> {COMPLETED, KILLED, EXCEPTION, CANCELLED}"

record task_status =
  ts_task_uri :: string
  ts_state :: task_state
  ts_message :: json
  ts_result_location :: json

definition json_len :: "json \<Rightarrow> nat option" where
  "json_len v = (case v of JList xs \<Rightarrow> Some (length xs) | JObj d \<Rightarrow> Some (length d) | JStr s \<Rightarrow> Some (length s) | _ \<Rightarrow> None)"

definition task_message :: "json dict \<Rightarrow> json option" where
  "task_message d =
     (case map_of d ''TaskStatus'' of
        Some v \<Rightarrow> Some v
      | None \<Rightarrow>
          (case map_of d ''Messages'' of
             None \<Rightarrow> Some (JStr [])
           | Some ms \<Rightarrow>
               (case json_len ms of
                  None \<Rightarrow> None
                | Some n \<Rightarrow>
                    if n = 0 then Some (JStr [])
                    else (case ms of JList (x # _) \<Rightarrow> doc_get x ''Message'' (JStr []) | _ \<Rightarrow> None))))"

text \<open>The first header that names a location; \<open>None\<close> when no header does.\<close>

fun header_location :: "json list \<Rightarrow> json option" where
  "header_location [] = None"
| "header_location (h # hs) =
     (case h of
        JStr s \<Rightarrow>
          if starts_with (py_lower s) ''location:''
          then Some (JStr (py_strip (tl (dropWhile (\<lambda>ch. ch \<noteq> CHR '':'') s)))) else header_location hs
      | JObj d \<Rightarrow> (case map_of d ''Location'' of Some v \<Rightarrow> Some v | None \<Rightarrow> header_location hs)
      | _ \<Rightarrow> header_location hs)"

definition task_location :: "json dict \<Rightarrow> json option" where
  "task_location d =
     do {
       headers \<leftarrow> doc_get (dict_get_default d ''Payload'' (JObj [])) ''HttpHeaders'' (JList []);
       hs \<leftarrow> iter headers;
       let loc = (case header_location hs of Some v \<Rightarrow> v | None \<Rightarrow> JNull);
       Some (if json_truthy loc then loc else json_or (dict_get d ''TaskMonitor'') (dict_get d ''@odata.id''))
     }"

text \<open>\<open>None\<close> when reading the answer raises.\<close>

definition parse_task :: "string \<Rightarrow> json option \<Rightarrow> task_status option" where
  "parse_task uri body =
     (case body of
        Some (JObj d) \<Rightarrow>
          do {
            message \<leftarrow> task_message d;
            location \<leftarrow> task_location d;
            Some \<lparr>ts_task_uri = uri, ts_state = task_state_of (dict_get_default d ''TaskState'' (JStr ''Unknown'')),
                  ts_message = message, ts_result_location = location\<rparr>
          }
      | _ \<Rightarrow> None)"

definition MAX_CONSECUTIVE_ERRORS :: nat where
  "MAX_CONSECUTIVE_ERRORS = 3"

text \<open>
  The loop of \<open>_wait_for_task\<close>; the outer \<open>None\<close> means that it does not return, the inner one is
  the \<open>None\<close> of the code. A sleep of zero or less seconds returns at once.
\<close>

partial_function (option) wait_loop ::
  "'b bmc_server \<Rightarrow> redfish_config \<Rightarrow> string \<Rightarrow> rat \<Rightarrow> nat \<Rightarrow> 'b redfish_client \<Rightarrow> (task_status option \<times> 'b redfish_client) option" where
  [code]: "wait_loop bmc c uri start errors st =
     (if rf_task_timeout c \<le> rc_clock st - start then Some (None, st)
      else (let (res, st1) = http_send bmc c GET (full_url c uri) JNull st
            in case res of
                 Answer r \<Rightarrow>
                   if hs_status r \<noteq> 200 then Some (None, st1)
                   else (case parse_task uri (hs_json r) of
                           None \<Rightarrow> Some (None, st1)
                         | Some t \<Rightarrow>
                             if terminal_state (ts_state t) then Some (Some t, st1)
                             else wait_loop bmc c uri start 0 (pause (max 0 (rf_task_poll_interval c)) st1))
               | Unexpected \<Rightarrow> Some (None, st1)
               | Request_Timeout \<Rightarrow>
                   if MAX_CONSECUTIVE_ERRORS \<le> errors + 1 then Some (None, st1)
                   else wait_loop bmc c uri start (errors + 1) (pause (max 0 (rf_task_poll_interval c)) st1)
               | Request_Error e \<Rightarrow>
                   if MAX_CONSECUTIVE_ERRORS \<le> errors + 1 then Some (None, st1)
                   else wait_loop bmc c uri start (errors + 1) (pause (max 0 (rf_task_poll_interval c)) st1)))"

definition wait_for_task ::
  "'b bmc_server \<Rightarrow> redfish_config \<Rightarrow> string \<Rightarrow> 'b redfish_client \<Rightarrow> (task_status option \<times> 'b redfish_client) option" where
  "wait_for_task bmc c uri st = wait_loop bmc c uri (rc_clock st) 0 st"

section \<open>The attachment\<close>

record redfish_response =
  rr_success :: bool
  rr_status_code :: int
  rr_content :: string
  rr_content_type :: string
  rr_error :: json

definition failed_response :: "int \<Rightarrow> json \<Rightarrow> redfish_response" where
  "failed_response status msg = \<lparr>rr_success = False, rr_status_code = status, rr_content = [], rr_content_type = [], rr_error = msg\<rparr>"

text \<open>\<open>None\<close>: the location is no text, and reading it raises.\<close>

definition get_attachment_uri :: "task_status \<Rightarrow> string option" where
  "get_attachment_uri t =
     (if json_truthy (ts_result_location t)
      then (case ts_result_location t of
              JStr loc \<Rightarrow> Some (if ends_with loc ''/attachment'' then loc else loc @ ''/attachment'')
            | _ \<Rightarrow> None)
      else Some (ts_task_uri t @ ''/attachment''))"

definition text_prefix :: "response \<Rightarrow> json" where
  "text_prefix r = (if hs_content r = [] then status_text r else JStr (take 200 (hs_content r)))"

definition download_attachment ::
  "'b bmc_server \<Rightarrow> redfish_config \<Rightarrow> string \<Rightarrow> 'b redfish_client \<Rightarrow> redfish_response option \<times> 'b redfish_client" where
  "download_attachment bmc c uri st =
     (let (res, st1) = http_send bmc c GET (full_url c uri) JNull st
      in (case res of
            Answer r \<Rightarrow>
              (let ctype = (case header_get r ''Content-Type'' of Some t \<Rightarrow> t | None \<Rightarrow> ''application/octet-stream'')
               in Some (if hs_status r = 200
                        then \<lparr>rr_success = True, rr_status_code = 200, rr_content = hs_content r, rr_content_type = ctype, rr_error = JNull\<rparr>
                        else (failed_response (hs_status r) (case error_message r of Some m \<Rightarrow> m | None \<Rightarrow> text_prefix r))\<lparr>rr_content_type := ctype\<rparr>))
          | Request_Timeout \<Rightarrow> Some (failed_response 0 (JStr ''Attachment download timed out''))
          | Request_Error e \<Rightarrow> Some (failed_response 0 (JStr (''Attachment download failed: '' @ e)))
          | Unexpected \<Rightarrow> None, st1))"

definition delete_task :: "'b bmc_server \<Rightarrow> redfish_config \<Rightarrow> string \<Rightarrow> 'b redfish_client \<Rightarrow> bool \<times> 'b redfish_client" where
  "delete_task bmc c uri st =
     (if \<not> rc_connected st then (False, st)
      else (let (res, st1) = http_send bmc c DELETE (full_url c uri) JNull st
            in (case res of Answer r \<Rightarrow> hs_status r \<in> {200, 202, 204, 404, 405} | _ \<Rightarrow> False, st1)))"

section \<open>The whole collection\<close>

text \<open>
  The part inside the \<open>try\<close>; \<open>None\<close> is an exception. The outer \<open>option\<close> is that of the loop.
\<close>

definition collect_from_task ::
  "'b bmc_server \<Rightarrow> redfish_config \<Rightarrow> string \<Rightarrow> 'b redfish_client \<Rightarrow> (redfish_response option \<times> 'b redfish_client) option" where
  "collect_from_task bmc c uri st =
     (case wait_for_task bmc c uri st of
        None \<Rightarrow> None
      | Some (None, st1) \<Rightarrow> Some (Some (failed_response 0 (JStr ''Task polling failed or timed out'')), st1)
      | Some (Some t, st1) \<Rightarrow>
          Some (if ts_state t \<noteq> COMPLETED then 
                  (Some (failed_response 0 (JStr (''Task failed with state: '' @ task_state_text (ts_state t) @ '' - '' @ py_str (ts_message t)))), st1)
                else (case get_attachment_uri t of
                        None \<Rightarrow> (None, st1)
                      | Some attachment \<Rightarrow> download_attachment bmc c attachment st1)))"

definition DEFAULT_COLLECT_ENDPOINT :: string where
  "DEFAULT_COLLECT_ENDPOINT = ''/redfish/v1/Systems/UBB/LogServices/DiagLogs/Actions/LogService.CollectDiagnosticData''"

definition DEFAULT_COLLECT_BODY :: json where
  "DEFAULT_COLLECT_BODY = JObj [(''DiagnosticDataType'', JStr ''OEM''), (''OEMDiagnosticDataType'', JStr ''AllLogs'')]"

definition collect_diagnostic_data ::
  "'b bmc_server \<Rightarrow> redfish_config \<Rightarrow> string option \<Rightarrow> json \<Rightarrow> 'b redfish_client \<Rightarrow> (redfish_response option \<times> 'b redfish_client) option" where
  "collect_diagnostic_data bmc c endpoint body st =
     (if \<not> rc_connected st then Some (None, st)
      else (let (start, st1) = initiate_collection bmc c
              (if has_text endpoint then the endpoint else DEFAULT_COLLECT_ENDPOINT) (json_or body DEFAULT_COLLECT_BODY) st
            in case start of
                 None \<Rightarrow> Some (None, st1)
               | Some uri \<Rightarrow>
                   if \<not> json_truthy uri
                   then Some (Some (failed_response (rc_initiate_status st1)
                     (json_or (rc_initiate_error st1) (JStr ''Failed to initiate data collection task''))), st1)
                   else (case uri of
                           JStr u \<Rightarrow>
                             (case collect_from_task bmc c u st1 of
                                None \<Rightarrow> None
                              | Some (result, st2) \<Rightarrow>
                                  Some (result, if rf_cleanup_task c then snd (delete_task bmc c u st2) else st2))
                         | _ \<Rightarrow> Some (None, st1))))"

section \<open>Reports, connection test, discovery\<close>

definition get_metric_report :: "'b bmc_server \<Rightarrow> redfish_config \<Rightarrow> string \<Rightarrow> 'b redfish_client \<Rightarrow> redfish_response option \<times> 'b redfish_client" where
  "get_metric_report bmc c uri st =
     (if \<not> rc_connected st then (Some (failed_response 0 (JStr ''Client not connected'')), st)
      else (let (res, st1) = http_send bmc c GET (full_url c uri) JNull st
            in (case res of
                  Answer r \<Rightarrow>
                    (let ctype = (case header_get r ''Content-Type'' of Some t \<Rightarrow> t | None \<Rightarrow> [])
                     in Some (if hs_status r = 200 \<and> contains (py_lower ctype) ''json''
                              then \<lparr>rr_success = True, rr_status_code = 200, rr_content = hs_content r, rr_content_type = ctype, rr_error = JNull\<rparr>
                              else (failed_response (hs_status r)
                                (if hs_status r \<noteq> 200 then (case error_message r of Some m \<Rightarrow> m | None \<Rightarrow> status_text r)
                                 else JStr (''Unexpected content-type: '' @ ctype)))\<lparr>rr_content_type := ctype\<rparr>))
                | Request_Timeout \<Rightarrow> Some (failed_response 0 (JStr ''Metric report GET timed out''))
                | Request_Error e \<Rightarrow> Some (failed_response 0 (JStr (''Metric report GET failed: '' @ e)))
                | Unexpected \<Rightarrow> None, st1)))"

text \<open>The class name that ends the text of a failed connection is left out.\<close>

definition test_connection :: "'b bmc_server \<Rightarrow> redfish_config \<Rightarrow> 'b redfish_client \<Rightarrow> (bool \<times> string) option \<times> 'b redfish_client" where
  "test_connection bmc c st =
     (case (if rc_connected st then (Some (), st) else connect_client bmc c st) of
        (None, st1) \<Rightarrow> (Some (False, ''Connection failed''), st1)
      | (Some _, st1) \<Rightarrow>
          (let (res, st2) = http_send bmc c GET (rf_base_url c @ ''/redfish/v1/'') JNull st1
           in (case res of
                 Answer r \<Rightarrow>
                   if hs_status r = 200
                   then (case hs_json r of
                           Some (JObj d) \<Rightarrow>
                             (let part = (\<lambda>k. py_str (dict_get_default d k (JStr ''Unknown'')))
                              in Some (True, ''Connected to '' @ part ''Vendor'' @ '' '' @ part ''Product'' @ '' (Redfish v'' @ part ''RedfishVersion'' @ '')''))
                         | _ \<Rightarrow> None)
                   else Some (False, ''Connection failed: HTTP '' @ py_str_int (hs_status r))
               | Request_Timeout \<Rightarrow> Some (False, ''Connection failed'')
               | Request_Error _ \<Rightarrow> Some (False, ''Connection failed'')
               | Unexpected \<Rightarrow> None, st2)))"

text \<open>
  \<open>discover_collect_endpoint\<close>; \<open>get\<close> is \<open>_get_json_resource\<close>, with \<open>None\<close> for the \<open>None\<close> of the code.
  The outer \<open>None\<close> is an exception: the walk reads members without checking their shape.
\<close>

definition resource :: "bmc \<Rightarrow> json \<Rightarrow> json option" where
  "resource get uri = (case uri of JStr u \<Rightarrow> Some (case get u of None \<Rightarrow> JNull | Some doc \<Rightarrow> doc) | _ \<Rightarrow> None)"

definition or_empty :: "json \<Rightarrow> json" where
  "or_empty v = (if json_truthy v then v else JObj [])"

fun first_member :: "(json \<Rightarrow> json option) \<Rightarrow> json list \<Rightarrow> json option" where
  "first_member f [] = Some JNull"
| "first_member f (x # xs) = do { v \<leftarrow> f x; if json_truthy v then Some v else first_member f xs }"

definition action_target :: "bmc \<Rightarrow> json \<Rightarrow> json option" where
  "action_target get ls_member =
     do {
       ls_id \<leftarrow> doc_get ls_member ''@odata.id'' JNull;
       if \<not> json_truthy ls_id then Some JNull
       else do {
         svc \<leftarrow> resource get ls_id;
         actions \<leftarrow> doc_get (or_empty svc) ''Actions'' (JObj []);
         action \<leftarrow> doc_get actions ''#LogService.CollectDiagnosticData'' (JObj []);
         doc_get action ''target'' JNull
       }
     }"

definition members_in :: "json \<Rightarrow> (json \<Rightarrow> json option) \<Rightarrow> json option" where
  "members_in doc f = (if \<not> json_truthy doc then Some JNull else do { ms \<leftarrow> members_of doc; first_member f ms })"

definition node_target :: "bmc \<Rightarrow> json \<Rightarrow> json option" where
  "node_target get member =
     do {
       member_id \<leftarrow> doc_get member ''@odata.id'' JNull;
       if \<not> json_truthy member_id then Some JNull
       else do {
         node \<leftarrow> resource get member_id;
         services \<leftarrow> doc_get (or_empty node) ''LogServices'' (JObj []);
         log_services \<leftarrow> doc_get services ''@odata.id'' JNull;
         if \<not> json_truthy log_services then Some JNull
         else do { ls_doc \<leftarrow> resource get log_services; members_in ls_doc (action_target get) }
       }
     }"

definition discover_collect_endpoint :: "bmc \<Rightarrow> json option" where
  "discover_collect_endpoint get =
     first_member (\<lambda>start. do { doc \<leftarrow> resource get start; members_in doc (node_target get) })
       [JStr ''/redfish/v1/Systems'', JStr ''/redfish/v1/Managers'']"

section \<open>Every task is deleted\<close>

definition deletes :: "(request \<times> http_result) list \<Rightarrow> string list" where
  "deletes xs = map (rq_url \<circ> fst) (filter (\<lambda>(rq, _). rq_method rq = DELETE) xs)"

definition bmc_ok :: "'b bmc_server \<Rightarrow> bool" where
  "bmc_ok bmc \<longleftrightarrow> (\<forall>b rq. 0 \<le> fst (snd (bmc b rq)))"

lemma http_send_facts:
  assumes "http_send bmc c mtd url body st = (res, st1)"
  shows "rc_log st1 = rc_log st @ [(new_request c st mtd url body, res)]" "rc_connected st1 = rc_connected st"
    "bmc_ok bmc \<Longrightarrow> rc_clock st \<le> rc_clock st1"
proof -
  obtain dt b where r: "bmc (rc_server st) (new_request c st mtd url body) = (res, dt, b)"
    and st1: "st1 = st\<lparr>rc_server := b, rc_clock := rc_clock st + dt, rc_log := rc_log st @ [(new_request c st mtd url body, res)]\<rparr>"
    using assms by (auto simp: http_send_def Let_def split: prod.splits)
  then show "rc_log st1 = rc_log st @ [(new_request c st mtd url body, res)]" "rc_connected st1 = rc_connected st" by simp_all
  show "bmc_ok bmc \<Longrightarrow> rc_clock st \<le> rc_clock st1"
  proof -
    assume "bmc_ok bmc"
    then have "0 \<le> fst (snd (bmc (rc_server st) (new_request c st mtd url body)))" by (simp add: bmc_ok_def)
    then have "0 \<le> dt" unfolding r by simp
    then show ?thesis unfolding st1 by simp
  qed
qed

lemma rq_method_new [simp]: "rq_method (new_request c st mtd url body) = mtd" "rq_url (new_request c st mtd url body) = url"
  by (simp_all add: new_request_def)

text \<open>What a step may do besides deleting: append exchanges that are no deletions.\<close>

definition only_reads :: "'b redfish_client \<Rightarrow> 'b redfish_client \<Rightarrow> bool" where
  "only_reads st st' \<longleftrightarrow> rc_connected st' = rc_connected st
     \<and> (\<exists>xs. rc_log st' = rc_log st @ xs \<and> deletes xs = [])"

lemma only_reads_refl [simp]: "only_reads st st"
  by (simp add: only_reads_def deletes_def)

lemma only_reads_trans: "only_reads a b \<Longrightarrow> only_reads b c \<Longrightarrow> only_reads a c"
  by (fastforce simp: only_reads_def deletes_def)

lemma only_reads_pause [simp]: "only_reads st (pause dt st')  \<longleftrightarrow> only_reads st st'"
  by (simp add: only_reads_def pause_def)

lemma only_reads_send:
  assumes "http_send bmc c mtd url body st = (res, st1)" "mtd \<noteq> DELETE"
  shows "only_reads st st1"
  using http_send_facts(1, 2) [OF assms(1)] assms(2) by (auto simp: only_reads_def deletes_def)

lemma wait_loop_reads:
  assumes "wait_loop bmc c uri start errors st = Some (r, st')"
  shows "only_reads st st'"
proof -
  have "only_reads st (snd (r, st'))"
  proof (rule wait_loop.raw_induct [where P = "\<lambda>bmc c uri start errors st x. only_reads st (snd x)", OF _ assms], goal_cases)
    case (1 loop bmc c uri start errors st x)
    obtain res st1 where send: "http_send bmc c GET (full_url c uri) JNull st = (res, st1)" by fastforce
    then have one: "only_reads st st1" by (rule only_reads_send) simp
    have more: "only_reads st (snd x)" if "loop bmc c uri start e (pause p st1) = Some x" for e p
      using 1(1) [OF that] only_reads_trans [OF one] by (simp add: only_reads_def pause_def)
    show ?case
      using 1(2) send one more by (auto simp: Let_def split: if_splits http_result.splits option.splits)
  qed
  then show ?thesis by simp
qed

lemma download_reads: "download_attachment bmc c uri st = (r, st') \<Longrightarrow> only_reads st st'"
  by (auto simp: download_attachment_def Let_def split: prod.splits intro: only_reads_send)

lemma collect_from_task_reads: "collect_from_task bmc c uri st = Some (r, st') \<Longrightarrow> only_reads st st'"
proof -
  assume run: "collect_from_task bmc c uri st = Some (r, st')"
  obtain t st1 where w: "wait_for_task bmc c uri st = Some (t, st1)"
    using run by (auto simp: collect_from_task_def split: option.splits)
  then have one: "only_reads st st1" unfolding wait_for_task_def by (rule wait_loop_reads)
  have "st' = st1 \<or> (\<exists>a. download_attachment bmc c a st1 = (r, st'))"
    using run w by (auto simp: collect_from_task_def split: option.splits if_splits)
  then show ?thesis using one only_reads_trans [OF one download_reads] by auto
qed

lemma initiate_reads: "initiate_collection bmc c endpoint body st = (r, st') \<Longrightarrow> only_reads st st'"
proof -
  assume run: "initiate_collection bmc c endpoint body st = (r, st')"
  let ?st = "st\<lparr>rc_initiate_status := 0, rc_initiate_error := JNull\<rparr>"
  obtain res st1 where send: "http_send bmc c POST (rf_base_url c @ endpoint) body ?st = (res, st1)" by fastforce
  then have "only_reads ?st st1" by (rule only_reads_send) simp
  moreover have "rc_log st' = rc_log st1" "rc_connected st' = rc_connected st1"
    using run send by (auto simp: initiate_collection_def Let_def split: http_result.splits if_splits)
  ultimately show ?thesis by (simp add: only_reads_def)
qed

definition sample_answer :: "int \<Rightarrow> (string \<times> string) list \<Rightarrow> json option \<Rightarrow> http_result" where
  "sample_answer status headers body = Answer \<lparr>hs_status = status, hs_headers = headers, hs_content = ''x'', hs_json = body\<rparr>"

text \<open>A BMC that starts the task and then never answers its status.\<close>

definition sample_bmc :: "nat bmc_server" where
  "sample_bmc n rq =
     ((case rq_method rq of POST \<Rightarrow> sample_answer 202 [(''location'', ''/t/1'')] None | GET \<Rightarrow> Request_Timeout | DELETE \<Rightarrow> sample_answer 204 [] None), 1, Suc n)"

definition sample_redfish_config :: redfish_config where
  "sample_redfish_config = \<lparr>rf_base_url = ''b'', rf_username = ''u'', rf_password = ''p'', rf_token = None, rf_task_poll_interval = 5,
     rf_task_timeout = 300, rf_cleanup_task = True\<rparr>"

definition sample_client :: "nat redfish_client" where
  "sample_client = \<lparr>rc_server = 0, rc_clock = 0, rc_log = [], rc_connected = True, rc_session_token = None, rc_initiate_status = 0,
     rc_initiate_error = JNull\<rparr>"

section \<open>Polling ends\<close>

text \<open>
  A request and the pause after it take at least \<open>\<delta>\<close>: a positive poll interval is enough, and
  without one that every request takes some time.
\<close>

definition round_takes :: "rat \<Rightarrow> redfish_config \<Rightarrow> 'b bmc_server \<Rightarrow> bool" where
  "round_takes \<delta> c bmc \<longleftrightarrow> 0 < \<delta> \<and> (\<forall>b rq. \<delta> \<le> fst (snd (bmc b rq)) + max 0 (rf_task_poll_interval c))"

lemma poll_interval_round: "bmc_ok bmc \<Longrightarrow> 0 < rf_task_poll_interval c \<Longrightarrow> round_takes (rf_task_poll_interval c) c bmc"
  by (simp add: round_takes_def bmc_ok_def)

lemma round_clock:
  assumes "round_takes \<delta> c bmc" "http_send bmc c mtd url body st = (res, st1)"
  shows "rc_clock st + \<delta> \<le> rc_clock (pause (max 0 (rf_task_poll_interval c)) st1)"
proof -
  obtain dt b where r: "bmc (rc_server st) (new_request c st mtd url body) = (res, dt, b)" and st1: "rc_clock st1 = rc_clock st + dt"
    using assms(2) by (auto simp: http_send_def Let_def split: prod.splits)
  have "\<delta> \<le> fst (snd (bmc (rc_server st) (new_request c st mtd url body))) + max 0 (rf_task_poll_interval c)"
    using assms(1) unfolding round_takes_def by blast
  then show ?thesis unfolding r pause_def by (simp add: st1)
qed

text \<open>The rounds the loop may still need.\<close>

definition rounds_left :: "rat \<Rightarrow> redfish_config \<Rightarrow> rat \<Rightarrow> rat \<Rightarrow> nat" where
  "rounds_left \<delta> c start clock = nat \<lceil>(rf_task_timeout c - (clock - start)) / \<delta>\<rceil>"

lemma rounds_left_less:
  assumes "0 < \<delta>" "clock - start < rf_task_timeout c" "clock + \<delta> \<le> clock'"
  shows "rounds_left \<delta> c start clock' < rounds_left \<delta> c start clock"
proof -
  let ?x = "(rf_task_timeout c - (clock - start)) / \<delta>" and ?y = "(rf_task_timeout c - (clock' - start)) / \<delta>"
  have "?x - ?y = (clock' - clock) / \<delta>" by (simp add: diff_divide_distrib [symmetric])
  moreover have "1 \<le> (clock' - clock) / \<delta>" using assms(1, 3) by (simp add: le_divide_eq)
  ultimately have "?y \<le> ?x - 1" by linarith
  then have "\<lceil>?y\<rceil> \<le> \<lceil>?x\<rceil> - 1" using ceiling_mono [of ?y "?x - 1"] by simp
  moreover have "0 < ?x" using assms(1, 2) by simp
  then have "0 < \<lceil>?x\<rceil>" by simp
  ultimately show ?thesis by (simp add: rounds_left_def)
qed

lemma wait_loop_ends:
  assumes "round_takes \<delta> c bmc"
  shows "\<exists>t st'. wait_loop bmc c uri start errors st = Some (t, st')
    \<and> length (rc_log st') \<le> length (rc_log st) + rounds_left \<delta> c start (rc_clock st)"
proof (induction "rounds_left \<delta> c start (rc_clock st)" arbitrary: errors st rule: less_induct)
  case less
  show ?case
  proof (cases "rf_task_timeout c \<le> rc_clock st - start")
    case True
    then show ?thesis by (simp add: wait_loop.simps [of bmc c uri start errors st])
  next
    case False
    obtain res st1 where send: "http_send bmc c GET (full_url c uri) JNull st = (res, st1)" by fastforce
    have log1: "length (rc_log st1) = Suc (length (rc_log st))" using http_send_facts(1) [OF send] by simp
    let ?st = "pause (max 0 (rf_task_poll_interval c)) st1"
    have fewer: "rounds_left \<delta> c start (rc_clock ?st) < rounds_left \<delta> c start (rc_clock st)"
      using False round_clock [OF assms send] assms by (intro rounds_left_less) (simp_all add: round_takes_def)
    have again: "\<exists>t st'. wait_loop bmc c uri start e ?st = Some (t, st')
        \<and> length (rc_log st') \<le> length (rc_log st) + rounds_left \<delta> c start (rc_clock st)" for e
    proof -
      obtain t st' where t: "wait_loop bmc c uri start e ?st = Some (t, st')"
        "length (rc_log st') \<le> length (rc_log ?st) + rounds_left \<delta> c start (rc_clock ?st)"
        using less(1) [OF fewer] by blast
      have "length (rc_log ?st) = Suc (length (rc_log st))" using log1 by (simp add: pause_def)
      then show ?thesis using t fewer by (intro exI [of _ t] exI [of _ st']) simp
    qed
    have done_now: "Suc (length (rc_log st)) \<le> length (rc_log st) + rounds_left \<delta> c start (rc_clock st)" using fewer by simp
    show ?thesis
      unfolding wait_loop.simps [of bmc c uri start errors st]
      using False send again log1 done_now by (auto simp: Let_def split: http_result.splits option.splits)
  qed
qed

text \<open>
  What a collection that reports success has seen of the task at \<open>u\<close>: its last status answer
  says that the task is completed, and the next request is for the attachment of that answer
  (at its result location, or below the task when it names none) and is answered with status 200.
\<close>

definition attachment_of :: "string \<Rightarrow> json \<Rightarrow> string \<Rightarrow> bool" where
  "attachment_of u location a \<longleftrightarrow>
     (if json_truthy location
      then location = JStr a \<and> ends_with a ''/attachment'' \<or>
           (\<exists>l. location = JStr l \<and> \<not> ends_with l ''/attachment'' \<and> a = l @ ''/attachment'')
      else a = u @ ''/attachment'')"

definition delivered :: "redfish_config \<Rightarrow> string \<Rightarrow> string \<Rightarrow> (request \<times> http_result) list \<Rightarrow> bool" where
  "delivered c u content xs \<longleftrightarrow>
     (\<exists>ys q1 r1 q2 r2 t a. xs = ys @ [(q1, Answer r1), (q2, Answer r2)] \<and>
       rq_method q1 = GET \<and> rq_url q1 = full_url c u \<and> hs_status r1 = 200 \<and>
       parse_task u (hs_json r1) = Some t \<and> ts_state t = COMPLETED \<and>
       attachment_of u (ts_result_location t) a \<and>
       rq_method q2 = GET \<and> rq_url q2 = full_url c a \<and> hs_status r2 = 200 \<and> hs_content r2 = content)"

lemma wait_loop_completed:
  assumes "wait_loop bmc c uri start errors st = Some (Some t, st')"
  shows "\<exists>ys q r. rc_log st' = ys @ [(q, Answer r)] \<and> rq_method q = GET \<and> rq_url q = full_url c uri \<and> hs_status r = 200 \<and>
    parse_task uri (hs_json r) = Some t"
proof -
  let ?P = "\<lambda>c uri x. \<forall>t. fst x = Some t \<longrightarrow> (\<exists>ys q r. rc_log (snd x) = ys @ [(q, Answer r)] \<and> rq_method q = GET \<and>
    rq_url q = full_url c uri \<and> hs_status r = 200 \<and> parse_task uri (hs_json r) = Some t)"
  have "?P c uri (Some t, st')"
  proof (rule wait_loop.raw_induct [where P = "\<lambda>bmc c uri start errors st x. ?P c uri x", OF _ assms], goal_cases)
    case (1 loop bmc c uri start errors st x)
    obtain res st1 where send: "http_send bmc c GET (full_url c uri) JNull st = (res, st1)" by fastforce
    have log1: "rc_log st1 = rc_log st @ [(new_request c st GET (full_url c uri) JNull, res)]" by (rule http_send_facts(1) [OF send])
    show ?case
      using 1(2) send 1(1) log1 by (auto simp: Let_def split: http_result.splits option.splits if_splits)
  qed
  then show ?thesis by simp
qed

lemma download_log: "download_attachment bmc c uri st = (r, st') \<Longrightarrow> \<exists>x. rc_log st' = rc_log st @ [x]"
  by (auto simp: download_attachment_def Let_def split: prod.splits dest: http_send_facts(1))

lemma download_success:
  assumes "download_attachment bmc c uri st = (Some resp, st')" "rr_success resp"
  shows "\<exists>q r. rc_log st' = rc_log st @ [(q, Answer r)] \<and> rq_method q = GET \<and> rq_url q = full_url c uri \<and> hs_status r = 200 \<and>
    hs_content r = rr_content resp"
proof -
  obtain res st1 where send: "http_send bmc c GET (full_url c uri) JNull st = (res, st1)" by fastforce
  then obtain r where r: "res = Answer r" "hs_status r = 200" "rr_content resp = hs_content r" "st' = st1"
    using assms by (auto simp: download_attachment_def failed_response_def Let_def split: http_result.splits if_splits)
  then show ?thesis using http_send_facts(1) [OF send] by simp
qed

lemma get_attachment_uri_spec: "get_attachment_uri t = Some a \<Longrightarrow> ts_task_uri t = u \<Longrightarrow> attachment_of u (ts_result_location t) a"
  by (auto simp: get_attachment_uri_def attachment_of_def split: if_splits json.splits)

lemma parse_task_uri: "parse_task uri body = Some t \<Longrightarrow> ts_task_uri t = uri"
  by (auto simp: parse_task_def split: option.splits json.splits bind_splits)

lemma collect_from_task_ends:
  assumes "round_takes \<delta> c bmc"
  shows "\<exists>result st'. collect_from_task bmc c uri st = Some (result, st')
    \<and> length (rc_log st') \<le> length (rc_log st) + nat \<lceil>rf_task_timeout c / \<delta>\<rceil> + 1
    \<and> (\<forall>resp. result = Some resp \<and> rr_success resp \<longrightarrow> delivered c uri (rr_content resp) (rc_log st'))"
proof -
  have n: "rounds_left \<delta> c (rc_clock st) (rc_clock st) = nat \<lceil>rf_task_timeout c / \<delta>\<rceil>" by (simp add: rounds_left_def)
  then obtain t st1 where w: "wait_for_task bmc c uri st = Some (t, st1)"
    "length (rc_log st1) \<le> length (rc_log st) + nat \<lceil>rf_task_timeout c / \<delta>\<rceil>"
    using wait_loop_ends [OF assms, of uri "rc_clock st" 0 st] by (auto simp: wait_for_task_def)
  show ?thesis
  proof (cases "\<exists>ts a. t = Some ts \<and> ts_state ts = COMPLETED \<and> get_attachment_uri ts = Some a")
    case True
    then obtain ts a where ts: "t = Some ts" "ts_state ts = COMPLETED" "get_attachment_uri ts = Some a" by blast
    obtain result st2 where d: "download_attachment bmc c a st1 = (result, st2)" by fastforce
    obtain x where x: "rc_log st2 = rc_log st1 @ [x]" using download_log [OF d] by blast
    obtain ys q r where seen: "rc_log st1 = ys @ [(q, Answer r)]" "rq_method q = GET" "rq_url q = full_url c uri"
      "hs_status r = 200" "parse_task uri (hs_json r) = Some ts"
      using w(1) wait_loop_completed unfolding ts(1) wait_for_task_def by blast
    have "delivered c uri (rr_content resp) (rc_log st2)" if ok: "result = Some resp" "rr_success resp" for resp
    proof -
      obtain q2 r2 where "rc_log st2 = rc_log st1 @ [(q2, Answer r2)]" "rq_method q2 = GET" "rq_url q2 = full_url c a"
        "hs_status r2 = 200" "hs_content r2 = rr_content resp"
        using download_success [OF d [unfolded ok(1)] ok(2)] by blast
      moreover have "attachment_of uri (ts_result_location ts) a"
        using get_attachment_uri_spec [OF ts(3) parse_task_uri [OF seen(5)]] .
      ultimately show ?thesis unfolding delivered_def using seen ts(2)
        by (intro exI [of _ ys] exI [of _ q] exI [of _ r] exI [of _ q2] exI [of _ r2] exI [of _ ts] exI [of _ a]) simp
    qed
    then show ?thesis using w ts d x by (auto simp: collect_from_task_def)
  next
    case False
    then show ?thesis using w by (auto simp: collect_from_task_def failed_response_def split: option.splits)
  qed
qed

text \<open>
  (C29) Where the client deletes its tasks (the default of its configuration) and a status round
  takes time (a positive poll interval, or requests that take some time), every collection that
  starts a task and learns its address returns, and has deleted that task exactly once, as the
  last thing it did, on every way out: success, a failed or cancelled task, a timeout, three
  network errors in a row, a failed download, and an exception.
\<close>

theorem task_always_deleted:
  assumes "rc_connected st" "rf_cleanup_task c" "u \<noteq> []" "round_takes \<delta> c bmc"
    and start: "initiate_collection bmc c (if has_text endpoint then the endpoint else DEFAULT_COLLECT_ENDPOINT)
      (json_or body DEFAULT_COLLECT_BODY) st = (Some (JStr u), st1)"
  shows "\<exists>result st' xs rq res. collect_diagnostic_data bmc c endpoint body st = Some (result, st') \<and>
    rc_log st' = rc_log st @ xs @ [(rq, res)] \<and> rq_method rq = DELETE \<and> rq_url rq = full_url c u \<and> deletes xs = []"
proof -
  obtain result st2 where st2: "collect_from_task bmc c u st1 = Some (result, st2)"
    using collect_from_task_ends [OF assms(4)] by blast
  define st' where "st' = snd (delete_task bmc c u st2)"
  have run: "collect_diagnostic_data bmc c endpoint body st = Some (result, st')"
    using assms(1, 2, 3) start st2 by (simp add: collect_diagnostic_data_def st'_def)
  have "only_reads st st2" using initiate_reads [OF start] collect_from_task_reads [OF st2] only_reads_trans by blast
  then obtain xs where xs: "rc_log st2 = rc_log st @ xs" "deletes xs = []" and "rc_connected st2"
    using assms(1) by (auto simp: only_reads_def)
  then have "\<exists>res. rc_log st' = rc_log st2 @ [(new_request c st2 DELETE (full_url c u) JNull, res)]"
    using http_send_facts(1) [of bmc c DELETE "full_url c u" JNull st2] by (auto simp: st'_def delete_task_def split: prod.splits)
  then show ?thesis using xs run by auto
qed

theorem task_always_deleted_witness:
  "\<exists>result st' xs rq res. collect_diagnostic_data sample_bmc sample_redfish_config None JNull sample_client = Some (result, st')
     \<and> rc_log st' = xs @ [(rq, res)] \<and> rq_url rq = ''b/t/1'' \<and> deletes xs = []"
proof -
  let ?init = "initiate_collection sample_bmc sample_redfish_config DEFAULT_COLLECT_ENDPOINT DEFAULT_COLLECT_BODY sample_client"
  have init: "fst ?init = Some (JStr ''/t/1'')" by code_simp
  have "initiate_collection sample_bmc sample_redfish_config (if has_text None then the None else DEFAULT_COLLECT_ENDPOINT)
      (json_or JNull DEFAULT_COLLECT_BODY) sample_client = (Some (JStr ''/t/1''), snd ?init)"
    using init by (simp add: has_text_def json_or_def) (metis prod.collapse)
  moreover have "round_takes 5 sample_redfish_config sample_bmc"
    by (simp add: round_takes_def sample_bmc_def sample_redfish_config_def)
  ultimately obtain result st' xs rq res where
    "collect_diagnostic_data sample_bmc sample_redfish_config None JNull sample_client = Some (result, st')"
    "rc_log st' = rc_log sample_client @ xs @ [(rq, res)]" "rq_url rq = full_url sample_redfish_config ''/t/1''" "deletes xs = []"
    using task_always_deleted [of sample_client sample_redfish_config "''/t/1''" 5 sample_bmc None JNull]
    by (auto simp: sample_client_def sample_redfish_config_def)
  then show ?thesis by (auto simp: sample_client_def full_url_def sample_redfish_config_def)
qed

text \<open>
  (C30) When a status round takes at least \<open>\<delta>\<close> (the poll interval, if it is positive) a
  collection always ends, whatever the BMC answers, after at most as many status requests as
  \<open>\<delta>\<close> fits into the task timeout, plus the three requests that start the task, download and
  delete. It reports success only for the task it started, when the last status answer of that
  task says completed and the attachment this answer names was downloaded with status 200, and
  then delivers exactly the downloaded bytes.
\<close>

theorem collection_ends:
  assumes "round_takes \<delta> c bmc"
  shows "\<exists>result st'. collect_diagnostic_data bmc c endpoint body st = Some (result, st')
    \<and> length (rc_log st') \<le> length (rc_log st) + nat \<lceil>rf_task_timeout c / \<delta>\<rceil> + 3
    \<and> (\<forall>resp. result = Some resp \<and> rr_success resp \<longrightarrow>
         (\<exists>u xs ys. fst (initiate_collection bmc c (if has_text endpoint then the endpoint else DEFAULT_COLLECT_ENDPOINT)
              (json_or body DEFAULT_COLLECT_BODY) st) = Some (JStr u) \<and>
            rc_log st' = xs @ ys \<and> length ys \<le> 1 \<and> delivered c u (rr_content resp) xs))"
proof -
  let ?ep = "if has_text endpoint then the endpoint else DEFAULT_COLLECT_ENDPOINT"
  obtain start st1 where init: "initiate_collection bmc c ?ep (json_or body DEFAULT_COLLECT_BODY) st = (start, st1)" by fastforce
  have log1: "length (rc_log st1) = Suc (length (rc_log st))"
  proof -
    obtain res st0 where send: "http_send bmc c POST (rf_base_url c @ ?ep) (json_or body DEFAULT_COLLECT_BODY)
        (st\<lparr>rc_initiate_status := 0, rc_initiate_error := JNull\<rparr>) = (res, st0)" by fastforce
    then have "rc_log st1 = rc_log st0" using init by (auto simp: initiate_collection_def Let_def split: http_result.splits if_splits)
    then show ?thesis using http_send_facts(1) [OF send] by simp
  qed
  show ?thesis
  proof (cases "rc_connected st \<and> (\<exists>u. start = Some (JStr u) \<and> u \<noteq> [])")
    case True
    then obtain u where u: "start = Some (JStr u)" "u \<noteq> []" "rc_connected st" by blast
    obtain result st2 where c2: "collect_from_task bmc c u st1 = Some (result, st2)"
      "length (rc_log st2) \<le> length (rc_log st1) + nat \<lceil>rf_task_timeout c / \<delta>\<rceil> + 1"
      "\<forall>resp. result = Some resp \<and> rr_success resp \<longrightarrow> delivered c u (rr_content resp) (rc_log st2)"
      using collect_from_task_ends [OF assms, of u st1] by blast
    define st3 where "st3 = (if rf_cleanup_task c then snd (delete_task bmc c u st2) else st2)"
    have "\<exists>ys. rc_log st3 = rc_log st2 @ ys \<and> length ys \<le> 1"
      using http_send_facts(1) [of bmc c DELETE "full_url c u" JNull st2] by (auto simp: st3_def delete_task_def Let_def split: prod.splits)
    then obtain ys where ys: "rc_log st3 = rc_log st2 @ ys" "length ys \<le> 1" by blast
    have run: "collect_diagnostic_data bmc c endpoint body st = Some (result, st3)"
      using u init c2(1) by (simp add: collect_diagnostic_data_def st3_def)
    show ?thesis
    proof (intro exI [of _ result] exI [of _ st3] conjI run allI impI)
      show "length (rc_log st3) \<le> length (rc_log st) + nat \<lceil>rf_task_timeout c / \<delta>\<rceil> + 3" using c2(2) ys log1 by simp
      fix resp assume "result = Some resp \<and> rr_success resp"
      then have "delivered c u (rr_content resp) (rc_log st2)" using c2(3) by blast
      then show "\<exists>u xs ys. fst (initiate_collection bmc c ?ep (json_or body DEFAULT_COLLECT_BODY) st) = Some (JStr u) \<and>
          rc_log st3 = xs @ ys \<and> length ys \<le> 1 \<and> delivered c u (rr_content resp) xs"
        using u(1) ys init by (intro exI [of _ u] exI [of _ "rc_log st2"] exI [of _ ys]) simp
    qed
  next
    case False
    then have "\<exists>result st'. collect_diagnostic_data bmc c endpoint body st = Some (result, st')
      \<and> length (rc_log st') \<le> Suc (length (rc_log st)) \<and> (\<forall>resp. result = Some resp \<longrightarrow> \<not> rr_success resp)"
      using init log1 by (auto simp: collect_diagnostic_data_def failed_response_def split: option.splits json.splits)
    then show ?thesis by fastforce
  qed
qed

text \<open>A BMC whose task is completed when it is first asked for.\<close>

definition sample_done_bmc :: "nat bmc_server" where
  "sample_done_bmc n rq =
     ((case rq_method rq of
         POST \<Rightarrow> sample_answer 202 [(''location'', ''/t/1'')] None
       | GET \<Rightarrow> sample_answer 200 [] (Some (JObj [(''TaskState'', JStr ''Completed'')]))
       | DELETE \<Rightarrow> sample_answer 204 [] None), 1, Suc n)"

theorem collection_ends_witness:
  "\<exists>resp st' xs. collect_diagnostic_data sample_done_bmc sample_redfish_config None JNull sample_client = Some (Some resp, st')
     \<and> rr_content resp = ''x'' \<and> length (rc_log st') \<le> 63 \<and> delivered sample_redfish_config ''/t/1'' ''x'' xs"
proof -
  let ?run = "collect_diagnostic_data sample_done_bmc sample_redfish_config None JNull sample_client"
  let ?init = "initiate_collection sample_done_bmc sample_redfish_config DEFAULT_COLLECT_ENDPOINT DEFAULT_COLLECT_BODY sample_client"
  have ok: "round_takes 5 sample_redfish_config sample_done_bmc"
    by (simp add: round_takes_def sample_done_bmc_def sample_redfish_config_def)
  have "case ?run of Some (Some resp, _) \<Rightarrow> rr_success resp \<and> rr_content resp = ''x'' | _ \<Rightarrow> False" by code_simp
  then obtain resp st' where r: "?run = Some (Some resp, st')" "rr_success resp" "rr_content resp = ''x''"
    by (auto split: option.splits)
  have "fst ?init = Some (JStr ''/t/1'')" by code_simp
  then have init: "fst (initiate_collection sample_done_bmc sample_redfish_config (if has_text None then the None else DEFAULT_COLLECT_ENDPOINT)
      (json_or JNull DEFAULT_COLLECT_BODY) sample_client) = Some (JStr ''/t/1'')"
    by (simp add: has_text_def json_or_def)
  have "length (rc_log st') \<le> 63 \<and> (\<exists>xs. delivered sample_redfish_config ''/t/1'' ''x'' xs)"
    using collection_ends [OF ok, of None JNull sample_client] r init
    by (auto simp: sample_client_def sample_redfish_config_def [THEN arg_cong [where f = rf_task_timeout]])
  then show ?thesis using r by blast
qed

end
