(* ===== verification/Py_Csv.thy ===== *)
theory Py_Csv
  imports Py_Text
begin

text \<open>
  Python's \<open>csv\<close> module with the dialect \<open>excel\<close>: the reader as the state machine of its
  implementation, the writer, and what \<open>DictReader\<close> makes of the rows. The text comes from an
  \<open>io.StringIO\<close>, whose lines end with a newline character. Fields are shorter than the reader's limit of
  131072 characters.
\<close>

section \<open>The reader\<close>

datatype csv_state = START_RECORD | START_FIELD | IN_FIELD | IN_QUOTED_FIELD | QUOTE_IN_QUOTED_FIELD | EAT_CRNL

type_synonym csv_parse = "csv_state \<times> string \<times> string list"

definition csv_start :: csv_parse where
  "csv_start = (START_RECORD, [], [])"

definition LF :: char where
  "LF = CHR 0x0A"

definition CR :: char where
  "CR = CHR 0x0D"

definition DQ :: char where
  "DQ = CHR 0x22"

text \<open>
  One character, or the end of a line (\<open>None\<close>). The result \<open>None\<close> is \<open>csv.Error\<close>: a carriage
  return outside quotes with more text behind it on the line.
\<close>

definition end_field :: "char option \<Rightarrow> string \<Rightarrow> string list \<Rightarrow> csv_parse" where
  "end_field ev f fs = (if ev = None then START_RECORD else EAT_CRNL, [], fs @ [f])"

definition line_end :: "char option \<Rightarrow> bool" where
  "line_end ev \<longleftrightarrow> ev = None \<or> ev = Some LF \<or> ev = Some CR"

definition start_field :: "char option \<Rightarrow> string list \<Rightarrow> csv_parse" where
  "start_field ev fs =
     (if line_end ev then end_field ev [] fs
      else if ev = Some DQ then (IN_QUOTED_FIELD, [], fs)
      else if ev = Some (CHR '','') then (START_FIELD, [], fs @ [[]])
      else (IN_FIELD, [the ev], fs))"

fun csv_char :: "char option \<Rightarrow> csv_parse \<Rightarrow> csv_parse option" where
  "csv_char ev (START_RECORD, f, fs) =
     Some (if ev = None then (START_RECORD, f, fs) else if line_end ev then (EAT_CRNL, f, fs) else start_field ev fs)"
| "csv_char ev (START_FIELD, f, fs) = Some (start_field ev fs)"
| "csv_char ev (IN_FIELD, f, fs) =
     Some (if line_end ev then end_field ev f fs
           else if ev = Some (CHR '','') then (START_FIELD, [], fs @ [f]) else (IN_FIELD, f @ [the ev], fs))"
| "csv_char ev (IN_QUOTED_FIELD, f, fs) =
     Some (if ev = None then (IN_QUOTED_FIELD, f, fs)
           else if ev = Some DQ then (QUOTE_IN_QUOTED_FIELD, f, fs) else (IN_QUOTED_FIELD, f @ [the ev], fs))"
| "csv_char ev (QUOTE_IN_QUOTED_FIELD, f, fs) =
     Some (if ev = Some DQ then (IN_QUOTED_FIELD, f @ [DQ], fs)
           else if ev = Some (CHR '','') then (START_FIELD, [], fs @ [f])
           else if line_end ev then end_field ev f fs else (IN_FIELD, f @ [the ev], fs))"
| "csv_char ev (EAT_CRNL, f, fs) =
     (if ev = None then Some (START_RECORD, f, fs) else if line_end ev then Some (EAT_CRNL, f, fs) else None)"

fun csv_line :: "string \<Rightarrow> csv_parse \<Rightarrow> csv_parse option" where
  "csv_line [] st = csv_char None st"
| "csv_line (c # s) st = Option.bind (csv_char (Some c) st) (csv_line s)"

fun csv_lines :: "string \<Rightarrow> string list" where
  "csv_lines [] = []"
| "csv_lines (c # s) =
     (if c = LF then [c] # csv_lines s else (case csv_lines s of [] \<Rightarrow> [[c]] | l # ls \<Rightarrow> (c # l) # ls))"

text \<open>The rows up to the end, or up to an error, which the second component reports.\<close>

fun csv_read :: "csv_parse \<Rightarrow> string list \<Rightarrow> string list list \<times> bool" where
  "csv_read (s, f, fs) [] = (if f \<noteq> [] \<or> s = IN_QUOTED_FIELD then [fs @ [f]] else [], False)"
| "csv_read st (l # ls) =
     (case csv_line l st of
        None \<Rightarrow> ([], True)
      | Some (s, f, fs) \<Rightarrow>
          if s = START_RECORD then (let (rows, failed) = csv_read csv_start ls in (fs # rows, failed))
          else csv_read (s, f, fs) ls)"

definition csv_reader :: "string \<Rightarrow> string list list \<times> bool" where
  "csv_reader s = csv_read csv_start (csv_lines s)"

section \<open>The rows of a \<open>DictReader\<close>\<close>

text \<open>
  Values beyond the header are collected under the key \<open>None\<close>; missing ones are \<open>None\<close>. A later
  column of the same name replaces the value of an earlier one.
\<close>

datatype csv_value = Cell string | No_Cell | Rest "string list"

definition dict_row :: "string list \<Rightarrow> string list \<Rightarrow> (string option \<times> csv_value) list" where
  "dict_row header row =
     fold (\<lambda>(k, v). AList.update k v)
       (zip (map Some header) (map Cell row @ replicate (length header - length row) No_Cell)
        @ (if length header < length row then [(None, Rest (drop (length header) row))] else [])) []"

text \<open>The header is the first row, also when that is blank; blank rows after it are skipped.\<close>

definition dict_reader :: "string \<Rightarrow> string list option \<times> (string option \<times> csv_value) list list \<times> bool" where
  "dict_reader s =
     (case csv_reader s of
        ([], failed) \<Rightarrow> (None, [], failed)
      | (header # rows, failed) \<Rightarrow> (Some header, map (dict_row header) (filter (\<lambda>r. r \<noteq> []) rows), failed))"

section \<open>The writer\<close>

definition csv_special :: "char \<Rightarrow> bool" where
  "csv_special c \<longleftrightarrow> c = CHR '','' \<or> c = DQ \<or> c = LF \<or> c = CR"

definition csv_field :: "string \<Rightarrow> string" where
  "csv_field f =
     (if list_ex csv_special f then [DQ] @ concat (map (\<lambda>c. if c = DQ then [DQ, DQ] else [c]) f) @ [DQ] else f)"

definition csv_row :: "string list \<Rightarrow> string" where
  "csv_row fs = (if fs = [[]] then [DQ, DQ] else py_join '','' (map csv_field fs)) @ [CR, LF]"

definition csv_writer :: "string list list \<Rightarrow> string" where
  "csv_writer rows = concat (map csv_row rows)"

section \<open>Writing and reading back\<close>

text \<open>The rest of a line and the lines after it.\<close>

definition csv_mid :: "csv_parse \<Rightarrow> string \<Rightarrow> string list list \<times> bool" where
  "csv_mid st s = csv_read st (if s = [] then [[]] else csv_lines s)"

lemma csv_lines_eq_Nil [simp]: "csv_lines s = [] \<longleftrightarrow> s = []"
  by (cases s) (auto split: list.splits)

lemma csv_chars_distinct [simp]:
  "DQ \<noteq> LF" "DQ \<noteq> CR" "LF \<noteq> DQ" "CR \<noteq> DQ" "LF \<noteq> CR" "CR \<noteq> LF" "CHR '','' \<noteq> DQ" "CHR '','' \<noteq> LF" "CHR '','' \<noteq> CR"
  "DQ \<noteq> CHR '',''" "LF \<noteq> CHR '',''" "CR \<noteq> CHR '',''"
  by (simp_all add: DQ_def LF_def CR_def)

lemma csv_mid_char:
  "c \<noteq> LF \<Longrightarrow> csv_mid st (c # s) = (case csv_char (Some c) st of None \<Rightarrow> ([], True) | Some st' \<Rightarrow> csv_mid st' s)"
  by (cases "csv_lines s"; cases st) (auto simp: csv_mid_def split: option.splits)

lemma csv_mid_quoted_LF: "s \<noteq> [] \<Longrightarrow> csv_mid (IN_QUOTED_FIELD, f, fs) (LF # s) = csv_mid (IN_QUOTED_FIELD, f @ [LF], fs) s"
  by (simp add: csv_mid_def)

lemma csv_mid_LF: "csv_mid (EAT_CRNL, [], fs) (LF # s) = (let (rows, failed) = csv_reader s in (fs # rows, failed))"
  by (simp add: csv_mid_def csv_reader_def csv_start_def line_end_def)

lemma csv_reader_mid: "s \<noteq> [] \<Longrightarrow> csv_reader s = csv_mid csv_start s"
  by (simp add: csv_mid_def csv_reader_def)

definition csv_quoted :: "string \<Rightarrow> string" where
  "csv_quoted f = concat (map (\<lambda>c. if c = DQ then [DQ, DQ] else [c]) f)"

lemma csv_mid_body:
  "csv_mid (IN_QUOTED_FIELD, f, fs) (csv_quoted g @ DQ # s) = csv_mid (QUOTE_IN_QUOTED_FIELD, f @ g, fs) s"
proof (induction g arbitrary: f)
  case Nil
  then show ?case by (simp add: csv_quoted_def csv_mid_char)
next
  case (Cons c g)
  have rest: "csv_quoted (x # g) = (if x = DQ then [DQ, DQ] else [x]) @ csv_quoted g" for x by (simp add: csv_quoted_def)
  consider "c = DQ" | "c = LF" | "c \<noteq> DQ" "c \<noteq> LF" by blast
  then show ?case
    using Cons [of "f @ [c]"] by cases (simp_all add: rest csv_mid_char csv_mid_quoted_LF)
qed

lemma csv_mid_plain:
  "\<not> list_ex csv_special g \<Longrightarrow> csv_mid (IN_FIELD, f, fs) (g @ s) = csv_mid (IN_FIELD, f @ g, fs) s"
  by (induction g arbitrary: f) (simp_all add: csv_special_def csv_mid_char line_end_def)

text \<open>A written field is read as the same field, wherever a field can begin.\<close>

definition field_end :: "char \<Rightarrow> string \<Rightarrow> string list \<Rightarrow> csv_parse" where
  "field_end c f fs = (if c = CHR '','' then (START_FIELD, [], fs @ [f]) else (EAT_CRNL, [], fs @ [f]))"

lemma csv_mid_field:
  assumes "st = START_FIELD \<or> st = START_RECORD \<and> (f \<noteq> [] \<or> c = CHR '','')" "c = CHR '','' \<or> c = CR"
  shows "csv_mid (st, [], fs) (csv_field f @ c # s) = csv_mid (field_end c f fs) s"
proof (cases "list_ex csv_special f")
  case True
  have "csv_mid (st, [], fs) (DQ # csv_quoted f @ DQ # c # s) = csv_mid (IN_QUOTED_FIELD, [], fs) (csv_quoted f @ DQ # c # s)"
    using assms(1) by (auto simp: csv_mid_char start_field_def line_end_def)
  also have "\<dots> = csv_mid (field_end c f fs) s"
    using assms(2) by (auto simp: csv_mid_body csv_mid_char line_end_def end_field_def field_end_def)
  finally show ?thesis using True by (simp add: csv_field_def csv_quoted_def)
next
  case plain: False
  show ?thesis
  proof (cases f)
    case Nil
    then show ?thesis
      using assms by (auto simp: csv_field_def csv_mid_char start_field_def line_end_def end_field_def field_end_def)
  next
    case (Cons a g)
    have "csv_mid (st, [], fs) (a # g @ c # s) = csv_mid (IN_FIELD, [a], fs) (g @ c # s)"
      using plain assms(1) Cons by (auto simp: csv_special_def csv_mid_char start_field_def line_end_def)
    also have "\<dots> = csv_mid (field_end c f fs) s"
      using plain assms(2) Cons by (auto simp: csv_mid_plain csv_mid_char line_end_def end_field_def field_end_def)
    finally show ?thesis using plain Cons by (simp add: csv_field_def)
  qed
qed

lemma csv_mid_fields:
  assumes "gs \<noteq> []" "st = START_FIELD \<or> st = START_RECORD \<and> gs \<noteq> [[]]"
  shows "csv_mid (st, [], fs) (py_join '','' (map csv_field gs) @ CR # LF # s)
    = (let (rows, failed) = csv_reader s in ((fs @ gs) # rows, failed))"
  using assms
proof (induction gs arbitrary: st fs rule: list_nonempty_induct)
  case (single g)
  then show ?case by (simp add: csv_mid_field field_end_def csv_mid_LF)
next
  case (cons g gs)
  from cons(3) have st: "st = START_FIELD \<or> st = START_RECORD" by auto
  obtain h hs where gs: "gs = h # hs" using cons(1) by (cases gs) auto
  have "csv_mid (st, [], fs) (csv_field g @ CHR '','' # (py_join '','' (map csv_field gs) @ CR # LF # s))
      = csv_mid (START_FIELD, [], fs @ [g]) (py_join '','' (map csv_field gs) @ CR # LF # s)"
    using st by (subst csv_mid_field) (auto simp: field_end_def)
  then show ?case using cons(2) [of START_FIELD "fs @ [g]"] by (simp add: gs)
qed

lemma csv_reader_row:
  assumes "fs \<noteq> []"
  shows "csv_reader (csv_row fs @ s) = (let (rows, failed) = csv_reader s in (fs # rows, failed))"
proof (cases "fs = [[]]")
  case True
  then show ?thesis
    by (simp add: csv_row_def csv_reader_mid csv_start_def csv_mid_char start_field_def line_end_def end_field_def csv_mid_LF)
next
  case False
  then show ?thesis
    using csv_mid_fields [OF assms, of START_RECORD "[]" s] by (simp add: csv_row_def csv_reader_mid csv_start_def)
qed

lemma csv_reader_Nil [simp]: "csv_reader [] = ([], False)"
  by (simp add: csv_reader_def csv_start_def)

lemma csv_round_trip: "[] \<notin> set rows \<Longrightarrow> csv_reader (csv_writer rows) = (rows, False)"
  by (induction rows) (auto simp: csv_writer_def csv_reader_row)

end
