(* ===== verification/Web_Auth.thy ===== *)
theory Web_Auth
  imports Sha256 Location
begin

unbundle bit_operations_syntax

text \<open>
  Authentication of the web interface, \<open>collector/src/api/auth.py\<close>, \<open>csrf.py\<close> and the login of
  \<open>api_main.py\<close>: signed session cookies, HTTP basic authentication for programs, tokens against
  cross-site requests. Signatures are computed with the executable SHA-256. \<open>bcrypt.checkpw\<close> is
  an argument. The clock counts seconds; texts are UTF-8 bytes.
\<close>

section \<open>Signatures\<close>

definition HMAC_BLOCK :: nat where
  "HMAC_BLOCK = 64"

definition hmac_sha256 :: "byte list \<Rightarrow> byte list \<Rightarrow> byte list" where
  "hmac_sha256 key msg =
     (let k = (if HMAC_BLOCK < length key then sha256 key else key);
          k64 = k @ replicate (HMAC_BLOCK - length k) 0
      in sha256 (map (\<lambda>b. b XOR 0x5c) k64 @ sha256 (map (\<lambda>b. b XOR 0x36) k64 @ msg)))"

definition sign :: "byte list \<Rightarrow> string \<Rightarrow> string" where
  "sign secret payload = hexdigest (hmac_sha256 secret (utf8_encode payload))"

definition is_ascii :: "string \<Rightarrow> bool" where
  "is_ascii s \<longleftrightarrow> list_all (\<lambda>c. (of_char c :: nat) < 128) s"

text \<open>\<open>compare_digest\<close> of texts: \<open>TypeError\<close> unless both are ASCII.\<close>

definition compare_digest :: "string \<Rightarrow> string \<Rightarrow> bool option" where
  "compare_digest a b = (if is_ascii a \<and> is_ascii b then Some (a = b) else None)"

section \<open>Configuration and passwords\<close>

text \<open>\<open>len\<close> of a text counts its characters: every byte but the continuation bytes.\<close>

definition cont_byte :: "nat \<Rightarrow> bool" where
  "cont_byte n \<longleftrightarrow> 128 \<le> n \<and> n < 192"

definition py_len :: "string \<Rightarrow> nat" where
  "py_len s = length (filter (\<lambda>c. \<not> cont_byte (of_char c)) s)"

record auth_env =
  ae_encryption_key :: string
  ae_username :: string
  ae_password_hash :: string
  ae_allow_default :: string
  ae_checkpw :: "string \<Rightarrow> string \<Rightarrow> bool option"

datatype auth_exn = Type_Error | Http_401 | Http_403 string | Login_Required string

definition SESSION_MAX_AGE :: int where
  "SESSION_MAX_AGE = 28800"

definition DEFAULT_HASH :: string where
  "DEFAULT_HASH = ''$2b$12$DDVvJVK1RdIj//rkWa7g8Op8Sc00hu64FJ9lwMZ/.8hvlXkF7jLaW''"

definition default_password_allowed :: "auth_env \<Rightarrow> bool" where
  "default_password_allowed env \<longleftrightarrow> py_lower (py_strip (ae_allow_default env)) \<in> {''1'', ''true'', ''yes'', ''on''}"

definition default_password_blocks_login :: "auth_env \<Rightarrow> bool" where
  "default_password_blocks_login env \<longleftrightarrow> ae_password_hash env = DEFAULT_HASH \<and> \<not> default_password_allowed env"

definition is_valid_bcrypt_hash :: "string \<Rightarrow> bool" where
  "is_valid_bcrypt_hash h \<longleftrightarrow>
     h \<noteq> [] \<and> (starts_with h ''$2a$'' \<or> starts_with h ''$2b$'' \<or> starts_with h ''$2y$'') \<and> py_len h = 60"

definition verify_password :: "auth_env \<Rightarrow> string \<Rightarrow> bool" where
  "verify_password env password \<longleftrightarrow>
     ae_password_hash env \<noteq> [] \<and> is_valid_bcrypt_hash (ae_password_hash env)
     \<and> ae_checkpw env password (ae_password_hash env) = Some True"

section \<open>Session cookies\<close>

definition session_secret :: "auth_env \<Rightarrow> byte list" where
  "session_secret env = sha256 (utf8_encode (''session-'' @ ae_encryption_key env))"

definition create_session_cookie :: "auth_env \<Rightarrow> rat \<Rightarrow> string \<Rightarrow> string" where
  "create_session_cookie env now username =
     (let payload = username @ '':'' @ py_str_int (\<lfloor>now\<rfloor> + SESSION_MAX_AGE)
      in payload @ '':'' @ sign (session_secret env) payload)"

text \<open>\<open>cookie.rsplit(":", 2)\<close>, when it has three parts.\<close>

definition rsplit_once :: "string \<Rightarrow> (string \<times> string) option" where
  "rsplit_once s =
     (let tail = takeWhile (\<lambda>c. c \<noteq> CHR '':'') (rev s)
      in if CHR '':'' \<in> set s then Some (take (length s - length tail - 1) s, rev tail) else None)"

definition rsplit_three :: "string \<Rightarrow> (string \<times> string \<times> string) option" where
  "rsplit_three s =
     (case rsplit_once s of
        None \<Rightarrow> None
      | Some (front, c) \<Rightarrow> (case rsplit_once front of None \<Rightarrow> None | Some (a, b) \<Rightarrow> Some (a, b, c)))"

definition validate_session_cookie :: "auth_env \<Rightarrow> rat \<Rightarrow> string option \<Rightarrow> auth_exn + string option" where
  "validate_session_cookie env now cookie =
     (case cookie of
        None \<Rightarrow> Inr None
      | Some ck \<Rightarrow>
          (case rsplit_three ck of
             None \<Rightarrow> Inr None
           | Some (username, expiry_str, signature) \<Rightarrow>
               (case compare_digest signature (sign (session_secret env) (username @ '':'' @ expiry_str)) of
                  None \<Rightarrow> Inl Type_Error
                | Some False \<Rightarrow> Inr None
                | Some True \<Rightarrow>
                    (case py_int10 expiry_str of
                       None \<Rightarrow> Inr None
                     | Some expiry \<Rightarrow> Inr (if of_int expiry < now then None else Some username)))))"

section \<open>Basic authentication\<close>

text \<open>\<open>base64.b64decode\<close>: characters outside the alphabet are skipped, padding ends the data.\<close>

definition b64_value :: "char \<Rightarrow> nat option" where
  "b64_value c =
     (let n = (of_char c :: nat)
      in if 65 \<le> n \<and> n \<le> 90 then Some (n - 65) else if 97 \<le> n \<and> n \<le> 122 then Some (n - 71)
         else if 48 \<le> n \<and> n \<le> 57 then Some (n + 4) else if n = 43 then Some 62 else if n = 47 then Some 63 else None)"

fun b64_scan :: "nat \<Rightarrow> nat \<Rightarrow> nat \<Rightarrow> string \<Rightarrow> string option" where
  "b64_scan quad left pads [] = (if quad = 0 then Some [] else None)"
| "b64_scan quad left pads (c # s) =
     (if c = CHR ''='' then (if 2 \<le> quad \<and> 4 \<le> quad + pads + 1 then Some [] else b64_scan quad left (if 2 \<le> quad then pads + 1 else pads) s)
      else (case b64_value c of
              None \<Rightarrow> b64_scan quad left pads s
            | Some v \<Rightarrow>
                if quad = 0 then b64_scan 1 v 0 s
                else if quad = 1 then map_option (Cons (char_of (left * 4 + v div 16))) (b64_scan 2 (v mod 16) 0 s)
                else if quad = 2 then map_option (Cons (char_of (left * 16 + v div 4))) (b64_scan 3 (v mod 4) 0 s)
                else map_option (Cons (char_of (left * 64 + v))) (b64_scan 0 0 0 s)))"

definition b64decode :: "string \<Rightarrow> string option" where
  "b64decode s = (if is_ascii s then b64_scan 0 0 0 s else None)"

text \<open>\<open>bytes.decode("utf-8")\<close> accepts well-formed UTF-8 only.\<close>

fun valid_utf8 :: "nat list \<Rightarrow> bool" where
  "valid_utf8 [] = True"
| "valid_utf8 (a # s) =
     (if a < 128 then valid_utf8 s
      else if 194 \<le> a \<and> a < 224 then (case s of b # t \<Rightarrow> cont_byte b \<and> valid_utf8 t | _ \<Rightarrow> False)
      else if 224 \<le> a \<and> a < 240
      then (case s of b # c # t \<Rightarrow> cont_byte b \<and> cont_byte c \<and> (a = 224 \<longrightarrow> 160 \<le> b) \<and> (a = 237 \<longrightarrow> b < 160) \<and> valid_utf8 t | _ \<Rightarrow> False)
      else if 240 \<le> a \<and> a < 245
      then (case s of b # c # d # t \<Rightarrow> cont_byte b \<and> cont_byte c \<and> cont_byte d \<and> (a = 240 \<longrightarrow> 144 \<le> b) \<and> (a = 244 \<longrightarrow> b < 144) \<and> valid_utf8 t
            | _ \<Rightarrow> False)
      else False)"

record web_request =
  wr_path :: string
  wr_cookie :: "string option"
  wr_authorization :: string
  wr_accept :: string

definition basic_credentials :: "web_request \<Rightarrow> (string \<times> string) option" where
  "basic_credentials r =
     (if \<not> starts_with (wr_authorization r) ''Basic '' then None
      else case b64decode (drop 6 (wr_authorization r)) of
             None \<Rightarrow> None
           | Some decoded \<Rightarrow>
               if valid_utf8 (map of_char decoded) \<and> CHR '':'' \<in> set decoded
               then Some (takeWhile (\<lambda>c. c \<noteq> CHR '':'') decoded, tl (dropWhile (\<lambda>c. c \<noteq> CHR '':'') decoded)) else None)"

definition check_basic_auth :: "auth_env \<Rightarrow> web_request \<Rightarrow> auth_exn + string option" where
  "check_basic_auth env r =
     (case basic_credentials r of
        None \<Rightarrow> Inr None
      | Some (username, password) \<Rightarrow>
          (case compare_digest username (ae_username env) of
             None \<Rightarrow> Inl Type_Error
           | Some correct_username \<Rightarrow>
               Inr (if default_password_blocks_login env then None
                    else if correct_username \<and> verify_password env password then Some username else None)))"

definition is_api_request :: "web_request \<Rightarrow> bool" where
  "is_api_request r \<longleftrightarrow> contains (wr_path r) ''/api'' \<or> wr_accept r \<noteq> [] \<and> \<not> contains (wr_accept r) ''text/html''"

definition given :: "string option \<Rightarrow> bool" where
  "given u \<longleftrightarrow> u \<noteq> None \<and> u \<noteq> Some []"

definition get_current_user :: "auth_env \<Rightarrow> rat \<Rightarrow> web_request \<Rightarrow> auth_exn + string" where
  "get_current_user env now r =
     (case validate_session_cookie env now (wr_cookie r) of
        Inl e \<Rightarrow> Inl e
      | Inr user \<Rightarrow>
          if given user then Inr (the user)
          else if is_api_request r
          then (case check_basic_auth env r of
                  Inl e \<Rightarrow> Inl e
                | Inr user \<Rightarrow> if given user then Inr (the user) else Inl Http_401)
          else Inl (Login_Required (wr_path r)))"

section \<open>Tokens against cross-site requests\<close>

definition TOKEN_MAX_AGE :: int where
  "TOKEN_MAX_AGE = 3600"

definition csrf_secret :: "auth_env \<Rightarrow> byte list" where
  "csrf_secret env = sha256 (utf8_encode (''csrf-'' @ ae_encryption_key env))"

definition generate_csrf_token :: "auth_env \<Rightarrow> rat \<Rightarrow> string \<Rightarrow> string" where
  "generate_csrf_token env now nonce =
     (let payload = nonce @ '':'' @ py_str_int \<lfloor>now\<rfloor> in payload @ '':'' @ sign (csrf_secret env) payload)"

definition validate_csrf_token :: "auth_env \<Rightarrow> rat \<Rightarrow> string \<Rightarrow> auth_exn + unit" where
  "validate_csrf_token env now token =
     (if token = [] then Inl (Http_403 ''Missing CSRF token'')
      else case split_char CHR '':'' token of
             [nonce, timestamp_str, signature] \<Rightarrow>
               (case compare_digest signature (sign (csrf_secret env) (nonce @ '':'' @ timestamp_str)) of
                  None \<Rightarrow> Inl Type_Error
                | Some False \<Rightarrow> Inl (Http_403 ''Invalid CSRF token'')
                | Some True \<Rightarrow>
                    (case py_int10 timestamp_str of
                       None \<Rightarrow> Inl (Http_403 ''Invalid CSRF token'')
                     | Some t \<Rightarrow> if of_int TOKEN_MAX_AGE < now - of_int t then Inl (Http_403 ''CSRF token expired'') else Inr ()))
           | _ \<Rightarrow> Inl (Http_403 ''Invalid CSRF token''))"

section \<open>Logging in\<close>

text \<open>The cookie of a successful login; \<open>Inr None\<close> is the login page again, with status 401.\<close>

definition login :: "auth_env \<Rightarrow> rat \<Rightarrow> string \<Rightarrow> string \<Rightarrow> string \<Rightarrow> auth_exn + string option" where
  "login env now username password csrf_token =
     (case validate_csrf_token env now csrf_token of
        Inl e \<Rightarrow> Inl e
      | Inr _ \<Rightarrow>
          (case compare_digest username (ae_username env) of
             None \<Rightarrow> Inl Type_Error
           | Some username_valid \<Rightarrow>
               (let password_valid = verify_password env password \<and> \<not> default_password_blocks_login env
                in Inr (if username_valid \<and> password_valid then Some (create_session_cookie env now (ae_username env)) else None))))"

section \<open>Lemmas on the signed texts\<close>

lemma digit_char_plain: "d < 16 \<Longrightarrow> digit_char d \<noteq> CHR '':'' \<and> (of_char (digit_char d) :: nat) < 128"
  by (auto simp: digit_char_def dest!: arg_cong [where f = "of_char :: char \<Rightarrow> nat"])

lemma hexdigest_plain: "c \<in> set (hexdigest bs) \<Longrightarrow> c \<noteq> CHR '':'' \<and> (of_char c :: nat) < 128"
  unfolding hexdigest_def hex_pad_digits using digit_char_plain hex_digits_less by fastforce

lemma is_ascii_sign [simp]: "is_ascii (sign k m)"
  by (simp add: sign_def is_ascii_def list_all_iff hexdigest_plain)

lemma no_colon_sign [simp]: "CHR '':'' \<notin> set (sign k m)"
  by (auto simp: sign_def dest: hexdigest_plain)

lemma dec_plain: "c \<in> set (dec_of_nat n) \<Longrightarrow> c \<noteq> CHR '':''"
  using digit_of_dec [of c n] digit_char_plain by fastforce

lemma no_colon_int [simp]: "CHR '':'' \<notin> set (py_str_int i)"
  using dec_plain by (auto simp: py_str_int_def)

lemma dec_digits_value_map:
  "(\<forall>d \<in> set ds. d < 10) \<Longrightarrow> ds \<noteq> [] \<or> \<not> us \<Longrightarrow>
     dec_digits_value us acc (map digit_char ds) = Some (foldl (\<lambda>a d. a * 10 + d) acc ds)"
  by (induction ds arbitrary: us acc) (simp_all add: digit_value_digit_char digit_char_neq)

lemma dec_digits_value_dec: "dec_digits_value True 0 (dec_of_nat n) = Some n"
proof -
  have "\<forall>d \<in> set (digits_of 10 n). d < 10" by (auto dest: digits_of_less [rotated])
  then show ?thesis
    using digits_value_digits_of [of 10 n]
    by (simp add: dec_of_nat_def dec_digits_value_map digits_value_def)
qed

lemma strip_dec: "\<not> is_space c \<Longrightarrow> py_strip (c # dec_of_nat n) = c # dec_of_nat n"
  "py_strip (dec_of_nat n) = dec_of_nat n"
proof -
  have ne: "dec_of_nat n \<noteq> []" by (simp add: dec_of_nat_def)
  have ns: "x \<in> set (dec_of_nat n) \<Longrightarrow> \<not> is_space x" for x
    using digit_of_dec [of x n] is_space_digit_char by fastforce
  show "\<not> is_space c \<Longrightarrow> py_strip (c # dec_of_nat n) = c # dec_of_nat n"
    using ne ns [of "last (dec_of_nat n)"] by (intro py_strip_id) auto
  show "py_strip (dec_of_nat n) = dec_of_nat n"
    using ne ns [of "last (dec_of_nat n)"] ns [of "hd (dec_of_nat n)"] by (intro py_strip_id) auto
qed

lemma dec_no_sign: "c \<in> set (dec_of_nat n) \<Longrightarrow> c \<noteq> CHR ''-'' \<and> c \<noteq> CHR ''+''"
  using digit_of_dec [of c n]
  by (auto simp: digit_char_def dest!: arg_cong [where f = "of_char :: char \<Rightarrow> nat"])

text \<open>\<open>int(str(i)) = i\<close>.\<close>

lemma py_int10_str [simp]: "py_int10 (py_str_int i) = Some i"
proof (cases "i < 0")
  case True
  then show ?thesis
    by (simp add: py_str_int_def py_int10_def strip_dec is_space_def dec_digits_value_dec dec_of_nat_def [symmetric])
       (simp add: dec_of_nat_def)
next
  case False
  obtain c r where cr: "dec_of_nat (nat i) = c # r"
    by (cases "dec_of_nat (nat i)") (simp_all add: dec_of_nat_def)
  with dec_no_sign [of c "nat i"] have "c \<noteq> CHR ''-''" "c \<noteq> CHR ''+''" by simp_all
  then show ?thesis
    using False dec_digits_value_dec [of "nat i"] strip_dec(2) [of "nat i"] cr
    by (simp add: py_str_int_def py_int10_def)
qed

lemma takeWhile_rev_colon: "x \<notin> set b \<Longrightarrow> takeWhile (\<lambda>c. c \<noteq> x) (rev (a @ x # b)) = rev b"
  by (subst rev_append) (auto simp: takeWhile_tail)

lemma rsplit_once_iff: "rsplit_once s = Some (a, b) \<longleftrightarrow> s = a @ '':'' @ b \<and> CHR '':'' \<notin> set b"
proof
  assume r: "rsplit_once s = Some (a, b)"
  then have "CHR '':'' \<in> set s" by (auto simp: rsplit_once_def Let_def split: if_splits)
  then obtain a' b' where s: "s = a' @ CHR '':'' # b'" "CHR '':'' \<notin> set b'"
    by (meson split_list_last)
  with r takeWhile_rev_colon [of "CHR '':''" b' a'] show "s = a @ '':'' @ b \<and> CHR '':'' \<notin> set b"
    by (simp add: rsplit_once_def Let_def)
next
  assume "s = a @ '':'' @ b \<and> CHR '':'' \<notin> set b"
  with takeWhile_rev_colon [of "CHR '':''" b a] show "rsplit_once s = Some (a, b)"
    by (simp add: rsplit_once_def Let_def)
qed

lemma rsplit_three_iff:
  "rsplit_three s = Some (a, b, c) \<longleftrightarrow>
     s = a @ '':'' @ b @ '':'' @ c \<and> CHR '':'' \<notin> set b \<and> CHR '':'' \<notin> set c"
proof -
  have "rsplit_three s = Some (a, b, c) \<longleftrightarrow>
      (\<exists>front. rsplit_once s = Some (front, c) \<and> rsplit_once front = Some (a, b))"
    by (auto simp: rsplit_three_def split: option.splits)
  then show ?thesis by (auto simp: rsplit_once_iff)
qed

lemma compare_digest_sign:
  "compare_digest s (sign k m) = (if is_ascii s then Some (s = sign k m) else None)"
  by (simp add: compare_digest_def)

section \<open>Who is let in\<close>

text \<open>A cookie in which the server signed the name and a time that has not passed.\<close>

definition cookie_grants :: "auth_env \<Rightarrow> rat \<Rightarrow> string \<Rightarrow> string \<Rightarrow> bool" where
  "cookie_grants env now u ck \<longleftrightarrow>
     (\<exists>e expiry. ck = u @ '':'' @ e @ '':'' @ sign (session_secret env) (u @ '':'' @ e)
        \<and> CHR '':'' \<notin> set e \<and> py_int10 e = Some expiry \<and> now \<le> of_int expiry)"

lemma validate_cookie_iff:
  "validate_session_cookie env now c = Inr (Some u) \<longleftrightarrow> (\<exists>ck. c = Some ck \<and> cookie_grants env now u ck)"
proof
  assume "validate_session_cookie env now c = Inr (Some u)"
  then obtain ck e s x where "c = Some ck" "rsplit_three ck = Some (u, e, s)"
    "s = sign (session_secret env) (u @ '':'' @ e)" "py_int10 e = Some x" "\<not> of_int x < now"
    by (auto simp: validate_session_cookie_def compare_digest_sign split: option.splits prod.splits bool.splits if_splits)
  then show "\<exists>ck. c = Some ck \<and> cookie_grants env now u ck"
    by (auto simp: rsplit_three_iff cookie_grants_def)
next
  assume "\<exists>ck. c = Some ck \<and> cookie_grants env now u ck"
  then obtain e x where c: "c = Some (u @ '':'' @ e @ '':'' @ sign (session_secret env) (u @ '':'' @ e))"
    and e: "CHR '':'' \<notin> set e" "py_int10 e = Some x" "now \<le> of_int x"
    by (auto simp: cookie_grants_def)
  have "rsplit_three (u @ '':'' @ e @ '':'' @ sign (session_secret env) (u @ '':'' @ e))
      = Some (u, e, sign (session_secret env) (u @ '':'' @ e))"
    using e by (simp only: rsplit_three_iff) simp
  with c e show "validate_session_cookie env now c = Inr (Some u)"
    by (simp add: validate_session_cookie_def compare_digest_sign)
qed

text \<open>A cookie is worth its name until eight hours after it was made, whatever the name is.\<close>

lemma session_round_trip:
  "validate_session_cookie env later (Some (create_session_cookie env now u))
     = Inr (if later \<le> of_int (\<lfloor>now\<rfloor> + SESSION_MAX_AGE) then Some u else None)"
proof -
  let ?e = "py_str_int (\<lfloor>now\<rfloor> + SESSION_MAX_AGE)"
  let ?s = "sign (session_secret env) (u @ '':'' @ ?e)"
  have "rsplit_three (u @ '':'' @ ?e @ '':'' @ ?s) = Some (u, ?e, ?s)"
    by (simp only: rsplit_three_iff) simp
  then show ?thesis
    by (auto simp: validate_session_cookie_def create_session_cookie_def compare_digest_sign)
qed

lemma basic_grants_iff:
  "check_basic_auth env r = Inr (Some u) \<longleftrightarrow>
     u = ae_username env \<and> is_ascii u \<and> \<not> default_password_blocks_login env
     \<and> (\<exists>pw. basic_credentials r = Some (u, pw) \<and> verify_password env pw)"
  by (auto simp: check_basic_auth_def compare_digest_def split: option.splits prod.splits if_splits)

text \<open>A token is accepted exactly when the server signed it at most an hour ago.\<close>

lemma split_char_join3:
  "CHR '':'' \<notin> set a \<Longrightarrow> CHR '':'' \<notin> set b \<Longrightarrow> CHR '':'' \<notin> set c \<Longrightarrow>
     split_char CHR '':'' (a @ '':'' @ b @ '':'' @ c) = [a, b, c]"
proof -
  have one: "split_char x t = [t]" if "x \<notin> set t" for x t using that by (induction t) auto
  have many: "split_char x (t @ x # v) = t # split_char x v" if "x \<notin> set t" for x t v
    using that by (induction t) auto
  show "CHR '':'' \<notin> set a \<Longrightarrow> CHR '':'' \<notin> set b \<Longrightarrow> CHR '':'' \<notin> set c \<Longrightarrow>
     split_char CHR '':'' (a @ '':'' @ b @ '':'' @ c) = [a, b, c]"
    by (simp add: one many)
qed

lemma csrf_round_trip:
  assumes "CHR '':'' \<notin> set nonce"
  shows "validate_csrf_token env later (generate_csrf_token env now nonce)
    = (if later - of_int \<lfloor>now\<rfloor> \<le> of_int TOKEN_MAX_AGE then Inr () else Inl (Http_403 ''CSRF token expired''))"
proof -
  let ?e = "py_str_int \<lfloor>now\<rfloor>"
  let ?s = "sign (csrf_secret env) (nonce @ '':'' @ ?e)"
  have "split_char CHR '':'' (nonce @ '':'' @ ?e @ '':'' @ ?s) = [nonce, ?e, ?s]"
    using assms by (intro split_char_join3) simp_all
  then show ?thesis
    by (auto simp: validate_csrf_token_def generate_csrf_token_def compare_digest_sign Let_def)
qed

lemma login_iff:
  "login env now u pw tok = Inr (Some ck) \<longleftrightarrow>
     validate_csrf_token env now tok = Inr () \<and> u = ae_username env \<and> is_ascii u
     \<and> verify_password env pw \<and> \<not> default_password_blocks_login env \<and> ck = create_session_cookie env now u"
  by (auto simp: login_def compare_digest_def Let_def split: sum.splits option.splits if_splits)

section \<open>Properties\<close>

text \<open>
  (C31) A request is let in as \<open>u\<close> exactly when its cookie is one the server signed for \<open>u\<close>
  with an expiry that has not passed, or, for a request of a program whose cookie gives no name,
  when its basic credentials are the configured name with a password that \<open>bcrypt\<close> accepts and
  the shipped default password is not in force without being allowed. Browsers never get in
  with basic credentials.
\<close>

theorem web_access_exact:
  "get_current_user env now r = Inr u \<longleftrightarrow>
     u \<noteq> []
     \<and> ((\<exists>ck. wr_cookie r = Some ck \<and> cookie_grants env now u ck)
        \<or> validate_session_cookie env now (wr_cookie r) \<in> {Inr None, Inr (Some [])} \<and> is_api_request r
          \<and> u = ae_username env \<and> is_ascii u \<and> \<not> default_password_blocks_login env
          \<and> (\<exists>pw. basic_credentials r = Some (u, pw) \<and> verify_password env pw))"
  unfolding basic_grants_iff [symmetric] validate_cookie_iff [symmetric]
  by (auto simp: get_current_user_def given_def split: sum.splits if_splits)

text \<open>
  (C32) A login that succeeds was made with the configured name and an accepted password; the
  cookie it sets then lets any request in under that name for eight hours from the second of the
  login, and is worth nothing afterwards: the request is treated as one without a cookie.
\<close>

theorem login_opens_session:
  assumes "login env now u pw tok = Inr (Some ck)" "u \<noteq> []"
  shows "u = ae_username env \<and> verify_password env pw \<and> \<not> default_password_blocks_login env
    \<and> get_current_user env later (r\<lparr>wr_cookie := Some ck\<rparr>)
      = (if later \<le> of_int (\<lfloor>now\<rfloor> + SESSION_MAX_AGE) then Inr u
         else get_current_user env later (r\<lparr>wr_cookie := None\<rparr>))"
proof -
  have l: "u = ae_username env \<and> verify_password env pw \<and> \<not> default_password_blocks_login env"
    and ck: "ck = create_session_cookie env now u"
    using assms(1) by (simp_all add: login_iff)
  have "get_current_user env later (r\<lparr>wr_cookie := Some ck\<rparr>)
      = (if later \<le> of_int (\<lfloor>now\<rfloor> + SESSION_MAX_AGE) then Inr u
         else get_current_user env later (r\<lparr>wr_cookie := None\<rparr>))"
    using assms(2)
    by (simp add: get_current_user_def ck session_round_trip given_def is_api_request_def
        check_basic_auth_def basic_credentials_def validate_session_cookie_def [of env later None])
  with l show ?thesis by blast
qed

definition demo_env :: auth_env where
  "demo_env = \<lparr>ae_encryption_key = ''k'', ae_username = ''admin'', ae_password_hash = DEFAULT_HASH,
     ae_allow_default = ''Yes'', ae_checkpw = \<lambda>p h. Some (p = ''changeme'')\<rparr>"

definition demo_page :: web_request where
  "demo_page = \<lparr>wr_path = ''/racks'', wr_cookie = None, wr_authorization = [], wr_accept = ''text/html''\<rparr>"

lemma demo_login:
  "login demo_env 7 ''admin'' ''changeme'' (generate_csrf_token demo_env 7 ''ab'')
     = Inr (Some (create_session_cookie demo_env 7 ''admin''))"
proof -
  have "verify_password demo_env ''changeme''" "\<not> default_password_blocks_login demo_env"
    "ae_username demo_env = ''admin''" "is_ascii ''admin''"
    by code_simp+
  then show ?thesis by (simp add: login_iff csrf_round_trip TOKEN_MAX_AGE_def)
qed

theorem login_opens_session_witness:
  "get_current_user demo_env 28807 (demo_page\<lparr>wr_cookie := Some (create_session_cookie demo_env 7 ''admin'')\<rparr>) = Inr ''admin''
   \<and> get_current_user demo_env 28808 (demo_page\<lparr>wr_cookie := Some (create_session_cookie demo_env 7 ''admin'')\<rparr>)
     = Inl (Login_Required ''/racks'')"
proof -
  have gone: "get_current_user demo_env 28808 (demo_page\<lparr>wr_cookie := None\<rparr>) = Inl (Login_Required ''/racks'')"
    by code_simp
  have open_: "get_current_user demo_env later (demo_page\<lparr>wr_cookie := Some (create_session_cookie demo_env 7 ''admin'')\<rparr>)
      = (if later \<le> 28807 then Inr ''admin'' else get_current_user demo_env later (demo_page\<lparr>wr_cookie := None\<rparr>))" for later
    using login_opens_session [OF demo_login, of later demo_page, THEN conjunct2, THEN conjunct2, THEN conjunct2]
    by (simp add: SESSION_MAX_AGE_def)
  show ?thesis unfolding open_ using gone by simp
qed

end
