(* ===== verification/Target_Admin.thy ===== *)
theory Target_Admin
  imports Py_Csv Web_Auth
begin

text \<open>
  The management of targets, \<open>collector/src/api/routes/targets.py\<close>, with the operations of the
  repository it uses: validation of names and hosts, creation, update and deletion through the
  API and the forms, import and export as CSV. The caller has been let in (\<open>Web_Auth\<close>). The \<open>json\<close> and
  \<open>cryptography\<close> libraries are arguments; the texts of error messages are left out.
\<close>

section \<open>Addresses\<close>

text \<open>\<open>ipaddress.ip_address\<close>: IPv4 first, then IPv6 with an optional zone.\<close>

definition parse_octet :: "string \<Rightarrow> nat option" where
  "parse_octet s =
     (if s = [] \<or> \<not> list_all dec_digit s \<or> 3 < length s \<or> s \<noteq> ''0'' \<and> hd s = CHR ''0'' then None
      else if 255 < dec_value s then None else Some (dec_value s))"

definition parse_ipv4 :: "string \<Rightarrow> nat list option" where
  "parse_ipv4 s = (let octets = split_char CHR ''.'' s in if length octets \<noteq> 4 then None else those (map parse_octet octets))"

definition parse_hextet :: "string \<Rightarrow> nat option" where
  "parse_hextet s =
     (if s = [] \<or> 4 < length s \<or> list_ex (\<lambda>c. digit_value c = None) s then None else hex_digits_value False 0 s)"

definition ipv4_suffix :: "string list \<Rightarrow> string list option" where
  "ipv4_suffix parts =
     (if CHR ''.'' \<in> set (last parts)
      then (case parse_ipv4 (last parts) of
              Some [a, b, c, d] \<Rightarrow> Some (butlast parts @ [hex_of_nat (a * 256 + b), hex_of_nat (c * 256 + d)])
            | _ \<Rightarrow> None)
      else Some parts)"

text \<open>
  The groups before and after \<open>::\<close>, with the groups that it stands for filled in. An empty
  part at an end is allowed only next to \<open>::\<close>.
\<close>

definition skip_groups :: "string list \<Rightarrow> nat \<Rightarrow> (nat list) option" where
  "skip_groups parts k =
     (let hi = (if hd parts = [] then tl (take k parts) else take k parts);
          lo = (if last parts = [] then butlast (drop (k + 1) parts) else drop (k + 1) parts)
      in if hd parts = [] \<and> hi \<noteq> [] \<or> last parts = [] \<and> lo \<noteq> [] \<or> 8 \<le> length hi + length lo then None
         else (case (those (map parse_hextet hi), those (map parse_hextet lo)) of
                 (Some h, Some l) \<Rightarrow> Some (h @ replicate (8 - (length hi + length lo)) 0 @ l)
               | _ \<Rightarrow> None))"

definition ipv6_groups :: "string \<Rightarrow> nat list option" where
  "ipv6_groups s =
     (if length (split_char CHR '':'' s) < 3 then None
      else (case ipv4_suffix (split_char CHR '':'' s) of
              None \<Rightarrow> None
            | Some parts \<Rightarrow>
                if 9 < length parts then None
                else (case filter (\<lambda>i. parts ! i = []) [1..<length parts - 1] of
                        [] \<Rightarrow> if length parts \<noteq> 8 then None else those (map parse_hextet parts)
                      | [k] \<Rightarrow> skip_groups parts k
                      | _ \<Rightarrow> None)))"

definition parse_ipv6 :: "string \<Rightarrow> nat list option" where
  "parse_ipv6 s =
     (if CHR ''/'' \<in> set s then None
      else if CHR ''%'' \<in> set s
      then (let zone = tl (dropWhile (\<lambda>c. c \<noteq> CHR ''%'') s)
            in if zone = [] \<or> CHR ''%'' \<in> set zone then None else ipv6_groups (takeWhile (\<lambda>c. c \<noteq> CHR ''%'') s))
      else ipv6_groups s)"

datatype ip_address = IPv4 "nat list" | IPv6 "nat list"

definition ip_address :: "string \<Rightarrow> ip_address option" where
  "ip_address s =
     (case parse_ipv4 s of
        Some os \<Rightarrow> Some (IPv4 os)
      | None \<Rightarrow> map_option IPv6 (parse_ipv6 s))"

fun is_loopback :: "ip_address \<Rightarrow> bool" where
  "is_loopback (IPv4 os) \<longleftrightarrow> hd os = 127"
| "is_loopback (IPv6 gs) \<longleftrightarrow> gs = [0, 0, 0, 0, 0, 0, 0, 1]"

section \<open>Names and hosts\<close>

definition is_alnum :: "char \<Rightarrow> bool" where
  "is_alnum c \<longleftrightarrow> (let n = (of_char c :: nat) in 48 \<le> n \<and> n \<le> 57 \<or> 65 \<le> n \<and> n \<le> 90 \<or> 97 \<le> n \<and> n \<le> 122)"

text \<open>The match of the pattern for names: a letter or digit, then letters, digits, spaces, \<open>_\<close>, \<open>.\<close>, \<open>-\<close>.\<close>

definition TARGET_NAME_PATTERN :: "string \<Rightarrow> bool" where
  "TARGET_NAME_PATTERN s \<longleftrightarrow>
     s \<noteq> [] \<and> is_alnum (hd s) \<and> list_all (\<lambda>c. is_alnum c \<or> c \<in> {CHR '' '', CHR ''_'', CHR ''.'', CHR ''-''}) (tl s) \<and> length (tl s) \<le> 254"

text \<open>The match of the pattern for host names: only the first label must not begin with a hyphen.\<close>

definition host_label :: "string \<Rightarrow> bool" where
  "host_label l \<longleftrightarrow> l \<noteq> [] \<and> length l \<le> 63 \<and> list_all (\<lambda>c. is_alnum c \<or> c = CHR ''-'') l \<and> last l \<noteq> CHR ''-''"

definition HOSTNAME_PATTERN :: "string \<Rightarrow> bool" where
  "HOSTNAME_PATTERN s \<longleftrightarrow>
     s \<noteq> [] \<and> length s \<le> 253 \<and> hd s \<noteq> CHR ''-'' \<and> list_all host_label (split_char CHR ''.'' s)"

definition BLOCKED_HOSTS :: "string list" where
  "BLOCKED_HOSTS = [''localhost'', ''127.0.0.1'', ''::1'', ''0.0.0.0'']"

datatype row_error = Missing_Cell | Bad_Name | Bad_Host | Bad_Number | Bad_Port | Bad_Mode | No_Username | No_Password | Bad_Tags

definition validate_name :: "string \<Rightarrow> row_error + string" where
  "validate_name nm =
     (let s = py_strip nm
      in if s = [] \<or> 255 < py_len s \<or> \<not> TARGET_NAME_PATTERN s then Inl Bad_Name else Inr s)"

definition validate_host :: "string \<Rightarrow> row_error + string" where
  "validate_host host =
     (let h = py_lower (py_strip host)
      in if py_strip host = [] then Inl Bad_Host
         else if h \<in> set BLOCKED_HOSTS then Inl Bad_Host
         else (case ip_address h of
                 Some ip \<Rightarrow> if is_loopback ip then Inl Bad_Host else Inr h
               | None \<Rightarrow> if HOSTNAME_PATTERN h then Inr h else Inl Bad_Host))"

definition validate_port :: "int \<Rightarrow> row_error + int" where
  "validate_port v = (if 1 \<le> v \<and> v \<le> 65535 then Inr v else Inl Bad_Port)"

definition validate_connection_mode :: "string \<Rightarrow> row_error + string" where
  "validate_connection_mode v = (if v \<in> {''direct'', ''sse''} then Inr v else Inl Bad_Mode)"

section \<open>The stored targets\<close>

text \<open>
  The columns the placement code uses are a \<open>hall_target\<close>; \<open>at_tags\<close> and
  \<open>at_metric_reports_override\<close> hold JSON text.
\<close>

record admin_target =
  at_hall :: hall_target
  at_port :: int
  at_use_ssl :: bool
  at_verify_ssl :: bool
  at_telemetry_endpoint :: string
  at_username :: string
  at_encrypted_password :: string
  at_encrypted_token :: "string option"
  at_enabled :: bool
  at_enable_alert_subscription :: bool
  at_poll_interval_override :: "int option"
  at_tags :: "string option"
  at_metric_reports_override :: "string option"
  at_metric_discovery_mode :: string
  at_connection_mode :: string
  at_sse_endpoint :: "string option"

type_synonym admin_db = "(target_id, admin_target) db_table"

abbreviation at_name :: "admin_target \<Rightarrow> string" where
  "at_name t \<equiv> ht_name (at_hall t)"

abbreviation at_host :: "admin_target \<Rightarrow> string" where
  "at_host t \<equiv> ht_host (at_hall t)"

text \<open>The libraries and the configuration the handlers use.\<close>

record admin_env =
  ad_loads :: "string \<Rightarrow> json option"
  ad_dumps :: "json \<Rightarrow> string"
  ad_encrypt :: "string \<Rightarrow> string"
  ad_decrypt :: "string \<Rightarrow> string option"
  ad_regex :: regex
  ad_location :: location_config
  ad_auth :: auth_env

text \<open>The keyword arguments of \<open>create_target\<close>, the defaults filled in.\<close>

record target_fields =
  tf_name :: string
  tf_host :: string
  tf_port :: int
  tf_use_ssl :: bool
  tf_verify_ssl :: bool
  tf_telemetry_endpoint :: string
  tf_username :: string
  tf_password :: string
  tf_token :: "string option"
  tf_enabled :: bool
  tf_enable_alert_subscription :: bool
  tf_poll_interval_override :: "int option"
  tf_tags :: json
  tf_metric_reports_override :: json
  tf_metric_discovery_mode :: string
  tf_connection_mode :: string
  tf_sse_endpoint :: "string option"

definition json_column :: "admin_env \<Rightarrow> json \<Rightarrow> string option" where
  "json_column env v = (if json_truthy v then Some (ad_dumps env v) else None)"

text \<open>SQLite gives a new row the largest identifier in use plus one.\<close>

definition next_rowid :: "admin_db \<Rightarrow> target_id" where
  "next_rowid db = (if db = [] then 1 else Max (fst ` set db) + 1)"

definition new_admin_target :: "admin_env \<Rightarrow> target_fields \<Rightarrow> admin_target" where
  "new_admin_target env f =
     \<lparr>at_hall = \<lparr>ht_name = tf_name f, ht_host = tf_host f, ht_last_poll_status = None, ht_loc = no_placement, ht_inventory = None,
        ht_inventory_source = None, ht_inventory_updated_at = None, ht_location_check = None\<rparr>,
      at_port = tf_port f, at_use_ssl = tf_use_ssl f, at_verify_ssl = tf_verify_ssl f, at_telemetry_endpoint = tf_telemetry_endpoint f,
      at_username = tf_username f, at_encrypted_password = ad_encrypt env (tf_password f),
      at_encrypted_token = (if filled (tf_token f) then map_option (ad_encrypt env) (tf_token f) else None),
      at_enabled = tf_enabled f, at_enable_alert_subscription = tf_enable_alert_subscription f,
      at_poll_interval_override = tf_poll_interval_override f, at_tags = json_column env (tf_tags f),
      at_metric_reports_override = json_column env (tf_metric_reports_override f),
      at_metric_discovery_mode = tf_metric_discovery_mode f, at_connection_mode = tf_connection_mode f,
      at_sse_endpoint = tf_sse_endpoint f\<rparr>"

definition create_target :: "admin_env \<Rightarrow> target_fields \<Rightarrow> admin_db \<Rightarrow> target_id \<times> admin_db" where
  "create_target env f db = (next_rowid db, db @ [(next_rowid db, new_admin_target env f)])"

text \<open>\<open>get_target_by_host\<close> raises when two rows have the host.\<close>

datatype admin_exn = Http nat | Form_Page | Multiple_Results | Integrity_Error | Attribute_Error | Csv_Error
  | Csrf auth_exn

definition get_target_by_host :: "string \<Rightarrow> admin_db \<Rightarrow> admin_exn + target_id option" where
  "get_target_by_host host db =
     (case filter (\<lambda>(_, t). at_host t = host) db of
        [] \<Rightarrow> Inr None
      | [(tid, _)] \<Rightarrow> Inr (Some tid)
      | _ \<Rightarrow> Inl Multiple_Results)"

definition delete_target :: "target_id \<Rightarrow> admin_db \<Rightarrow> bool \<times> admin_db" where
  "delete_target tid db = (map_of db tid \<noteq> None, filter (\<lambda>(i, _). i \<noteq> tid) db)"

section \<open>Updates\<close>

text \<open>
  The keyword arguments of \<open>update_target\<close>: absent, or present with a value, which may be \<open>null\<close>.
\<close>

type_synonym 'a kwarg = "'a option option"

record target_update =
  tu_name :: "string kwarg"
  tu_host :: "string kwarg"
  tu_port :: "int kwarg"
  tu_use_ssl :: "bool kwarg"
  tu_verify_ssl :: "bool kwarg"
  tu_telemetry_endpoint :: "string kwarg"
  tu_username :: "string kwarg"
  tu_password :: "string kwarg"
  tu_token :: "string kwarg"
  tu_enabled :: "bool kwarg"
  tu_enable_alert_subscription :: "bool kwarg"
  tu_metric_reports_override :: "json list kwarg"
  tu_metric_discovery_mode :: "string kwarg"
  tu_connection_mode :: "string kwarg"
  tu_sse_endpoint :: "string kwarg"

text \<open>A column that must not be null refuses \<open>None\<close> when the session commits.\<close>

definition set_column :: "'a kwarg \<Rightarrow> ('a \<Rightarrow> 't \<Rightarrow> 't) \<Rightarrow> 't \<Rightarrow> admin_exn + 't" where
  "set_column v f t = (case v of None \<Rightarrow> Inr t | Some None \<Rightarrow> Inl Integrity_Error | Some (Some x) \<Rightarrow> Inr (f x t))"

definition set_nullable :: "'a kwarg \<Rightarrow> ('a option \<Rightarrow> 't \<Rightarrow> 't) \<Rightarrow> 't \<Rightarrow> 't" where
  "set_nullable v f t = (case v of None \<Rightarrow> t | Some x \<Rightarrow> f x t)"

definition and_then :: "'e + 'a \<Rightarrow> ('a \<Rightarrow> 'e + 'b) \<Rightarrow> 'e + 'b" where
  "and_then r f = (case r of Inl e \<Rightarrow> Inl e | Inr x \<Rightarrow> f x)"

text \<open>Encrypting \<open>None\<close> raises before anything is written.\<close>

definition update_columns :: "admin_env \<Rightarrow> target_update \<Rightarrow> admin_target \<Rightarrow> admin_exn + admin_target" where
  "update_columns env u t =
     (if tu_password u = Some None then Inl Attribute_Error
      else
        (let t1 = set_nullable (tu_token u)
               (\<lambda>tok t. t\<lparr>at_encrypted_token := (if filled tok then map_option (ad_encrypt env) tok else None)\<rparr>) t;
             t2 = set_nullable (tu_metric_reports_override u)
               (\<lambda>r t. t\<lparr>at_metric_reports_override := map_option (\<lambda>xs. ad_dumps env (JList xs)) r\<rparr>) t1;
             t3 = set_nullable (tu_sse_endpoint u) (\<lambda>e t. t\<lparr>at_sse_endpoint := e\<rparr>) t2
         in and_then (set_column (tu_password u) (\<lambda>pw t. t\<lparr>at_encrypted_password := ad_encrypt env pw\<rparr>) t3) (\<lambda>t.
            and_then (set_column (tu_name u) (\<lambda>x t. t\<lparr>at_hall := (at_hall t)\<lparr>ht_name := x\<rparr>\<rparr>) t) (\<lambda>t.
            and_then (set_column (tu_host u) (\<lambda>x t. t\<lparr>at_hall := (at_hall t)\<lparr>ht_host := x\<rparr>\<rparr>) t) (\<lambda>t.
            and_then (set_column (tu_port u) (\<lambda>x t. t\<lparr>at_port := x\<rparr>) t) (\<lambda>t.
            and_then (set_column (tu_use_ssl u) (\<lambda>x t. t\<lparr>at_use_ssl := x\<rparr>) t) (\<lambda>t.
            and_then (set_column (tu_verify_ssl u) (\<lambda>x t. t\<lparr>at_verify_ssl := x\<rparr>) t) (\<lambda>t.
            and_then (set_column (tu_telemetry_endpoint u) (\<lambda>x t. t\<lparr>at_telemetry_endpoint := x\<rparr>) t) (\<lambda>t.
            and_then (set_column (tu_username u) (\<lambda>x t. t\<lparr>at_username := x\<rparr>) t) (\<lambda>t.
            and_then (set_column (tu_enabled u) (\<lambda>x t. t\<lparr>at_enabled := x\<rparr>) t) (\<lambda>t.
            and_then (set_column (tu_enable_alert_subscription u) (\<lambda>x t. t\<lparr>at_enable_alert_subscription := x\<rparr>) t) (\<lambda>t.
            and_then (set_column (tu_metric_discovery_mode u) (\<lambda>x t. t\<lparr>at_metric_discovery_mode := x\<rparr>) t) (\<lambda>t.
              set_column (tu_connection_mode u) (\<lambda>x t. t\<lparr>at_connection_mode := x\<rparr>) t)))))))))))))"

text \<open>\<open>Inr False\<close>: there is no such target. An exception leaves the table as it was.\<close>

definition update_target :: "admin_env \<Rightarrow> target_id \<Rightarrow> target_update \<Rightarrow> admin_db \<Rightarrow> (admin_exn + bool) \<times> admin_db" where
  "update_target env tid u db =
     (case map_of db tid of
        None \<Rightarrow> (Inr False, db)
      | Some t \<Rightarrow>
          (case update_columns env u t of
             Inl e \<Rightarrow> (Inl e, db)
           | Inr t' \<Rightarrow> (Inr True, AList.update tid t' db)))"

section \<open>Placement\<close>

definition hall_of :: "admin_db \<Rightarrow> hall_db" where
  "hall_of db = map (\<lambda>(i, t). (i, at_hall t)) db"

definition on_hall :: "(hall_db \<Rightarrow> hall_db) \<Rightarrow> admin_db \<Rightarrow> admin_db" where
  "on_hall f db = map (\<lambda>(i, t). (i, case map_of (f (hall_of db)) i of None \<Rightarrow> t | Some h \<Rightarrow> t\<lparr>at_hall := h\<rparr>)) db"

definition seed_location :: "admin_env \<Rightarrow> target_id \<Rightarrow> string \<Rightarrow> string \<Rightarrow> admin_db \<Rightarrow> admin_db" where
  "seed_location env tid nm host db =
     (case parse_system_location (ad_regex env) (ad_location env) (Some nm) (Some host) of
        None \<Rightarrow> db
      | Some p \<Rightarrow> on_hall (\<lambda>h. snd (set_target_location tid p False h)) db)"

section \<open>Requests of programs\<close>

text \<open>Pydantic answers 422 when a field does not validate.\<close>

definition valid_or_422 :: "row_error + 'a \<Rightarrow> admin_exn + 'a" where
  "valid_or_422 r = (case r of Inl _ \<Rightarrow> Inl (Http 422) | Inr x \<Rightarrow> Inr x)"

definition validate_create :: "target_fields \<Rightarrow> admin_exn + target_fields" where
  "validate_create f =
     and_then (valid_or_422 (validate_name (tf_name f))) (\<lambda>nm.
     and_then (valid_or_422 (validate_host (tf_host f))) (\<lambda>host.
     and_then (valid_or_422 (validate_port (tf_port f))) (\<lambda>port.
     and_then (valid_or_422 (validate_connection_mode (tf_connection_mode f))) (\<lambda>mode.
       Inr (f\<lparr>tf_name := nm, tf_host := host\<rparr>)))))"

definition create_target_api :: "admin_env \<Rightarrow> target_fields \<Rightarrow> admin_db \<Rightarrow> (admin_exn + target_id) \<times> admin_db" where
  "create_target_api env body db =
     (case validate_create body of
        Inl e \<Rightarrow> (Inl e, db)
      | Inr f \<Rightarrow>
          (case get_target_by_host (tf_host f) db of
             Inl e \<Rightarrow> (Inl e, db)
           | Inr (Some _) \<Rightarrow> (Inl (Http 400), db)
           | Inr None \<Rightarrow>
               (let (tid, db1) = create_target env f db in (Inr tid, seed_location env tid (tf_name f) (tf_host f) db1))))"

definition validate_kwarg :: "('a \<Rightarrow> row_error + 'a) \<Rightarrow> 'a kwarg \<Rightarrow> admin_exn + 'a kwarg" where
  "validate_kwarg f v =
     (case v of Some (Some x) \<Rightarrow> (case f x of Inl _ \<Rightarrow> Inl (Http 422) | Inr y \<Rightarrow> Inr (Some (Some y))) | _ \<Rightarrow> Inr v)"

definition validate_update :: "target_update \<Rightarrow> admin_exn + target_update" where
  "validate_update u =
     and_then (validate_kwarg validate_name (tu_name u)) (\<lambda>nm.
     and_then (validate_kwarg validate_host (tu_host u)) (\<lambda>host.
     and_then (validate_kwarg validate_port (tu_port u)) (\<lambda>port.
     and_then (validate_kwarg validate_connection_mode (tu_connection_mode u)) (\<lambda>mode.
       Inr (u\<lparr>tu_name := nm, tu_host := host\<rparr>)))))"

definition update_target_api :: "admin_env \<Rightarrow> target_id \<Rightarrow> target_update \<Rightarrow> admin_db \<Rightarrow> (admin_exn + unit) \<times> admin_db" where
  "update_target_api env tid u db =
     (case validate_update u of
        Inl e \<Rightarrow> (Inl e, db)
      | Inr u' \<Rightarrow>
          (case update_target env tid u' db of
             (Inl e, db') \<Rightarrow> (Inl e, db')
           | (Inr found, db') \<Rightarrow> (if found then Inr () else Inl (Http 404), db')))"

definition delete_target_api :: "target_id \<Rightarrow> admin_db \<Rightarrow> (admin_exn + unit) \<times> admin_db" where
  "delete_target_api tid db = (let (deleted, db') = delete_target tid db in (if deleted then Inr () else Inl (Http 404), db'))"

section \<open>Forms\<close>

definition REPORT_TYPES :: "(string \<times> string) list" where
  "REPORT_TYPES =
     [(''processor'', ''/redfish/v1/TelemetryService/MetricReports/OAM_ProcessorMetrics_0''),
      (''memory'', ''/redfish/v1/TelemetryService/MetricReports/OAM_MemoryMetrics_0''),
      (''interconnect'', ''/redfish/v1/TelemetryService/MetricReports/OAM_ProcessorPortMetrics_0''),
      (''platform'', ''/redfish/v1/TelemetryService/MetricReports/PlatformSensorsMetrics_0''),
      (''health'', ''/redfish/v1/TelemetryService/MetricReports/HealthRollup''),
      (''comprehensive'', ''/redfish/v1/TelemetryService/MetricReports/All'')]"

definition report_uri :: "(string \<rightharpoonup> string) \<Rightarrow> string \<times> string \<Rightarrow> string" where
  "report_uri uris r = (let u = py_strip (case uris (fst r) of None \<Rightarrow> [] | Some s \<Rightarrow> s) in if u = [] then snd r else u)"

definition build_metric_reports_override :: "(string \<rightharpoonup> string) \<Rightarrow> json list option" where
  "build_metric_reports_override uris =
     (if list_ex (\<lambda>r. report_uri uris r \<noteq> snd r) REPORT_TYPES
      then Some (map (\<lambda>r. JObj [(''uri'', JStr (report_uri uris r)), (''report_type'', JStr (fst r))]) REPORT_TYPES) else None)"

text \<open>The report types and addresses the edit page shows; \<open>None\<close> when the stored text has another shape.\<close>

definition override_entry :: "json \<Rightarrow> (string \<times> json) option" where
  "override_entry e =
     (case e of
        JObj d \<Rightarrow> (case (map_of d ''report_type'', map_of d ''uri'') of (Some (JStr ty), Some u) \<Rightarrow> Some (ty, u) | _ \<Rightarrow> None)
      | _ \<Rightarrow> None)"

definition build_metric_reports_map :: "admin_env \<Rightarrow> string option \<Rightarrow> json dict option" where
  "build_metric_reports_map env override =
     (let shown = map (\<lambda>(ty, u). (ty, JStr u)) REPORT_TYPES
      in case override of
           None \<Rightarrow> Some shown
         | Some text \<Rightarrow>
             if text = [] then Some shown
             else (case ad_loads env text of
                     Some (JList es) \<Rightarrow> map_option (dict_update shown) (those (map override_entry es))
                   | _ \<Rightarrow> None))"

record target_form =
  fm_name :: string
  fm_host :: string
  fm_port :: int
  fm_use_ssl :: string
  fm_verify_ssl :: "string option"
  fm_telemetry_endpoint :: string
  fm_username :: "string option"
  fm_password :: "string option"
  fm_token :: "string option"
  fm_enabled :: "string option"
  fm_connection_mode :: string
  fm_sse_endpoint :: "string option"
  fm_reports :: "string \<rightharpoonup> string"
  fm_metric_discovery_mode :: string
  fm_enable_alert_subscription :: "string option"
  fm_csrf_token :: string

definition opt_text :: "string option \<Rightarrow> string" where
  "opt_text v = (case v of None \<Rightarrow> [] | Some s \<Rightarrow> s)"

definition form_mode :: "string \<Rightarrow> string" where
  "form_mode m = (if m = ''manual'' then ''manual'' else ''auto'')"

text \<open>What both forms check before they write: the name, the host, the port, the user name.\<close>

definition validate_form :: "target_form \<Rightarrow> row_error + string \<times> string" where
  "validate_form fm =
     and_then (validate_name (fm_name fm)) (\<lambda>nm.
     and_then (validate_host (fm_host fm)) (\<lambda>host.
     and_then (validate_port (fm_port fm)) (\<lambda>_.
       if py_strip (opt_text (fm_username fm)) = [] then Inl No_Username else Inr (nm, host))))"

definition form_fields :: "target_form \<Rightarrow> string \<Rightarrow> string \<Rightarrow> target_fields" where
  "form_fields fm nm host =
     \<lparr>tf_name = nm, tf_host = host, tf_port = fm_port fm, tf_use_ssl = (py_lower (fm_use_ssl fm) = ''true''),
      tf_verify_ssl = (fm_verify_ssl fm \<noteq> None), tf_telemetry_endpoint = fm_telemetry_endpoint fm,
      tf_username = py_strip (opt_text (fm_username fm)), tf_password = opt_text (fm_password fm),
      tf_token = (if filled (fm_token fm) then fm_token fm else None), tf_enabled = (fm_enabled fm \<noteq> None),
      tf_enable_alert_subscription = (fm_enable_alert_subscription fm \<noteq> None), tf_poll_interval_override = None, tf_tags = JNull,
      tf_metric_reports_override = (case build_metric_reports_override (fm_reports fm) of None \<Rightarrow> JNull | Some xs \<Rightarrow> JList xs),
      tf_metric_discovery_mode = form_mode (fm_metric_discovery_mode fm), tf_connection_mode = fm_connection_mode fm,
      tf_sse_endpoint = (if filled (fm_sse_endpoint fm) then map_option py_strip (fm_sse_endpoint fm) else None)\<rparr>"

text \<open>\<open>Form_Page\<close>: the form is shown again with the error.\<close>

definition add_target_form :: "admin_env \<Rightarrow> rat \<Rightarrow> target_form \<Rightarrow> admin_db \<Rightarrow> (admin_exn + unit) \<times> admin_db" where
  "add_target_form env now fm db =
     (case validate_csrf_token (ad_auth env) now (fm_csrf_token fm) of
        Inl e \<Rightarrow> (Inl (Csrf e), db)
      | Inr _ \<Rightarrow>
          (case validate_form fm of
             Inl _ \<Rightarrow> (Inl Form_Page, db)
           | Inr (nm, host) \<Rightarrow>
               if \<not> filled (fm_password fm) then (Inl Form_Page, db)
               else (let (tid, db1) = create_target env (form_fields fm nm host) db in (Inr (), seed_location env tid nm host db1))))"

definition form_update :: "target_form \<Rightarrow> string \<Rightarrow> string \<Rightarrow> target_update" where
  "form_update fm nm host =
     (let f = form_fields fm nm host
      in \<lparr>tu_name = Some (Some nm), tu_host = Some (Some host), tu_port = Some (Some (tf_port f)), tu_use_ssl = Some (Some (tf_use_ssl f)),
          tu_verify_ssl = Some (Some (tf_verify_ssl f)), tu_telemetry_endpoint = Some (Some (tf_telemetry_endpoint f)),
          tu_username = Some (Some (tf_username f)),
          tu_password = (if filled (fm_password fm) then Some (fm_password fm) else None),
          tu_token = (if filled (fm_token fm) then Some (fm_token fm) else None), tu_enabled = Some (Some (tf_enabled f)),
          tu_enable_alert_subscription = Some (Some (tf_enable_alert_subscription f)),
          tu_metric_reports_override = Some (build_metric_reports_override (fm_reports fm)),
          tu_metric_discovery_mode = Some (Some (tf_metric_discovery_mode f)), tu_connection_mode = Some (Some (tf_connection_mode f)),
          tu_sse_endpoint = Some (tf_sse_endpoint f)\<rparr>)"

definition has_real_password :: "admin_env \<Rightarrow> admin_target option \<Rightarrow> bool" where
  "has_real_password env existing =
     (case existing of
        None \<Rightarrow> False
      | Some t \<Rightarrow> at_encrypted_password t \<noteq> [] \<and> filled (ad_decrypt env (at_encrypted_password t)))"

definition edit_target_form :: "admin_env \<Rightarrow> rat \<Rightarrow> target_id \<Rightarrow> target_form \<Rightarrow> admin_db \<Rightarrow> (admin_exn + unit) \<times> admin_db" where
  "edit_target_form env now tid fm db =
     (case validate_csrf_token (ad_auth env) now (fm_csrf_token fm) of
        Inl e \<Rightarrow> (Inl (Csrf e), db)
      | Inr _ \<Rightarrow>
          (case validate_form fm of
             Inl _ \<Rightarrow> (Inl Form_Page, db)
           | Inr (nm, host) \<Rightarrow>
               if \<not> filled (fm_password fm) \<and> \<not> has_real_password env (map_of db tid) then (Inl Form_Page, db)
               else (case update_target env tid (form_update fm nm host) db of
                       (Inl _, db') \<Rightarrow> (Inl Form_Page, db')
                     | (Inr _, db') \<Rightarrow> (Inr (), db'))))"

definition delete_target_form :: "admin_env \<Rightarrow> rat \<Rightarrow> string \<Rightarrow> target_id \<Rightarrow> admin_db \<Rightarrow> (admin_exn + unit) \<times> admin_db" where
  "delete_target_form env now csrf_token tid db =
     (case validate_csrf_token (ad_auth env) now csrf_token of
        Inl e \<Rightarrow> (Inl (Csrf e), db)
      | Inr _ \<Rightarrow> delete_target_api tid db)"

section \<open>Export\<close>

definition EXPORT_HEADERS :: "string list" where
  "EXPORT_HEADERS =
     [''host name'', ''bmc address'', ''port'', ''use_ssl'', ''verify_ssl'', ''telemetry_endpoint'', ''username'', ''password'', ''token'',
      ''enabled'', ''poll_interval_override'', ''tags'', ''connection_mode'', ''sse_endpoint'']"

definition csv_safe :: "string \<Rightarrow> string" where
  "csv_safe v =
     (if v \<noteq> [] \<and> hd v \<in> {CHR ''='', CHR ''+'', CHR ''-'', CHR ''@'', CHR 0x09, CR} then [CHR 0x27] @ v else v)"

definition py_str_bool :: "bool \<Rightarrow> string" where
  "py_str_bool b = (if b then ''True'' else ''False'')"

text \<open>Credentials are left blank; numbers and truth values are written as \<open>str\<close> prints them.\<close>

definition export_row :: "admin_target \<Rightarrow> string list" where
  "export_row t =
     [csv_safe (at_name t), csv_safe (at_host t), py_str_int (at_port t), py_str_bool (at_use_ssl t), py_str_bool (at_verify_ssl t),
      csv_safe (at_telemetry_endpoint t), csv_safe (at_username t), [], [], py_str_bool (at_enabled t),
      (case at_poll_interval_override t of None \<Rightarrow> [] | Some i \<Rightarrow> py_str_int i), csv_safe (opt_text (at_tags t)),
      csv_safe (at_connection_mode t), csv_safe (opt_text (at_sse_endpoint t))]"

definition export_targets_csv :: "admin_db \<Rightarrow> string" where
  "export_targets_csv db = csv_writer (EXPORT_HEADERS # map (export_row \<circ> snd) (sort_key (at_name \<circ> snd) db))"

section \<open>Import\<close>

definition IMPORT_COLUMN_ALIASES :: "(string \<times> string) list" where
  "IMPORT_COLUMN_ALIASES =
     [(''host name'', ''name''), (''hostname'', ''name''), (''host_name'', ''name''), (''name'', ''name''), (''bmc address'', ''host''),
      (''bmc_address'', ''host''), (''bmc'', ''host''), (''host'', ''host'')]"

definition normalize_import_header :: "string option \<Rightarrow> string" where
  "normalize_import_header h =
     (let key = py_lower (py_strip (opt_text h)) in case map_of IMPORT_COLUMN_ALIASES key of None \<Rightarrow> key | Some f \<Rightarrow> f)"

type_synonym import_row = "(string \<times> csv_value) list"

definition normalize_import_row :: "(string option \<times> csv_value) list \<Rightarrow> import_row" where
  "normalize_import_row row = fold (\<lambda>(k, v). AList.update (normalize_import_header k) v) row []"

text \<open>\<open>row.get(key, default).strip()\<close>: an absent cell or a list raises \<open>AttributeError\<close>.\<close>

definition cell_text :: "import_row \<Rightarrow> string \<Rightarrow> string \<Rightarrow> string option" where
  "cell_text row key dflt =
     (case map_of row key of
        None \<Rightarrow> Some (py_strip dflt)
      | Some (Cell v) \<Rightarrow> Some (py_strip v)
      | Some _ \<Rightarrow> None)"

definition cell :: "import_row \<Rightarrow> string \<Rightarrow> string \<Rightarrow> row_error + string" where
  "cell row key dflt = (case cell_text row key dflt of None \<Rightarrow> Inl Missing_Cell | Some v \<Rightarrow> Inr v)"

definition truth_word :: "string \<Rightarrow> bool" where
  "truth_word v \<longleftrightarrow> py_lower v \<in> {''true'', ''1'', ''yes''}"

definition or_text :: "string \<Rightarrow> string \<Rightarrow> string" where
  "or_text a b = (if a = [] then b else a)"

definition read_int :: "string \<Rightarrow> row_error + int" where
  "read_int s = (case py_int10 s of None \<Rightarrow> Inl Bad_Number | Some i \<Rightarrow> Inr i)"

definition read_poll_interval :: "string \<Rightarrow> row_error + int option" where
  "read_poll_interval s = (if s = [] then Inr None else and_then (read_int s) (\<lambda>i. Inr (Some i)))"

definition read_tags :: "admin_env \<Rightarrow> string \<Rightarrow> row_error + json" where
  "read_tags env s = (if s = [] then Inr JNull else (case ad_loads env s of None \<Rightarrow> Inl Bad_Tags | Some v \<Rightarrow> Inr v))"

definition TELEMETRY_ENDPOINT :: string where
  "TELEMETRY_ENDPOINT = ''/redfish/v1/Systems/UBB/LogServices/DiagLogs/Actions/LogService.CollectDiagnosticData''"

definition parse_import_row :: "admin_env \<Rightarrow> import_row \<Rightarrow> string \<Rightarrow> string \<Rightarrow> row_error + target_fields" where
  "parse_import_row env row row_name row_host =
     and_then (validate_name row_name) (\<lambda>nm.
     and_then (validate_host row_host) (\<lambda>host.
     and_then (cell row ''port'' ''443'') (\<lambda>port_text.
     and_then (read_int (or_text port_text ''443'')) (\<lambda>port.
     and_then (validate_port port) (\<lambda>_.
     and_then (cell row ''use_ssl'' ''True'') (\<lambda>use_ssl.
     and_then (cell row ''verify_ssl'' ''False'') (\<lambda>verify_ssl.
     and_then (cell row ''enabled'' ''True'') (\<lambda>enabled.
     and_then (cell row ''telemetry_endpoint'' []) (\<lambda>endpoint.
     and_then (cell row ''connection_mode'' ''direct'') (\<lambda>mode.
     and_then (validate_connection_mode (or_text mode ''direct'')) (\<lambda>mode.
     and_then (cell row ''username'' []) (\<lambda>username.
     and_then (cell row ''password'' []) (\<lambda>password.
     and_then (if username = [] then Inl No_Username else Inr ()) (\<lambda>_.
     and_then (if password = [] then Inl No_Password else Inr ()) (\<lambda>_.
     and_then (cell row ''token'' []) (\<lambda>tok.
     and_then (cell row ''poll_interval_override'' []) (\<lambda>poll_text.
     and_then (read_poll_interval poll_text) (\<lambda>poll_interval.
     and_then (cell row ''tags'' []) (\<lambda>tags_text.
     and_then (read_tags env tags_text) (\<lambda>tags.
     and_then (cell row ''sse_endpoint'' []) (\<lambda>sse.
       Inr \<lparr>tf_name = nm, tf_host = host, tf_port = port, tf_use_ssl = truth_word use_ssl, tf_verify_ssl = truth_word verify_ssl,
            tf_telemetry_endpoint = or_text endpoint TELEMETRY_ENDPOINT, tf_username = username, tf_password = password,
            tf_token = (if tok = [] then None else Some tok), tf_enabled = truth_word enabled, tf_enable_alert_subscription = True,
            tf_poll_interval_override = poll_interval, tf_tags = tags, tf_metric_reports_override = JNull,
            tf_metric_discovery_mode = ''auto'', tf_connection_mode = mode,
            tf_sse_endpoint = (if sse = [] then None else Some sse)\<rparr>)))))))))))))))))))))"

text \<open>Placement columns of the file count as the word of the operator.\<close>

definition loc_text :: "import_row \<Rightarrow> string \<Rightarrow> string option" where
  "loc_text row key =
     (case map_of row key of
        Some (Cell v) \<Rightarrow> (if py_strip v = [] then None else Some (py_strip v))
      | _ \<Rightarrow> None)"

definition loc_int :: "import_row \<Rightarrow> string \<Rightarrow> int option option" where
  "loc_int row key = (case loc_text row key of None \<Rightarrow> Some None | Some v \<Rightarrow> map_option Some (py_int10 v))"

definition placement_from_csv_row :: "import_row \<Rightarrow> placement option" where
  "placement_from_csv_row row =
     (case (loc_int row ''loc_rack_u'', loc_int row ''loc_rack_u_height'') of
        (Some rack_u, Some height_u) \<Rightarrow>
          (let p = \<lparr>pl_site = loc_text row ''loc_site'', pl_hall = loc_text row ''loc_hall'', pl_row = loc_text row ''loc_row'',
                 pl_rack = loc_text row ''loc_rack'', pl_rack_u = rack_u, pl_height_u = height_u,
                 pl_unit_type = loc_text row ''loc_unit_type'', pl_source = Some ''manual''\<rparr>
           in if has_location p then Some p else None)
      | _ \<Rightarrow> None)"

definition create_imported :: "admin_env \<Rightarrow> import_row \<Rightarrow> target_fields \<Rightarrow> admin_db \<Rightarrow> admin_db" where
  "create_imported env row f db =
     (let (tid, db1) = create_target env f db;
          db2 = seed_location env tid (tf_name f) (tf_host f) db1
      in case placement_from_csv_row row of
           None \<Rightarrow> db2
         | Some p \<Rightarrow> on_hall (\<lambda>h. snd (set_target_location tid p False h)) db2)"

record import_report =
  ir_created :: "(nat \<times> string \<times> string) list"
  ir_skipped :: "(nat \<times> string \<times> string) list"
  ir_errors :: "(nat \<times> string \<times> string \<times> row_error) list"

definition no_report :: import_report where
  "no_report = \<lparr>ir_created = [], ir_skipped = [], ir_errors = []\<rparr>"

text \<open>
  One row. The name and the host are read outside the \<open>try\<close>: there an exception (\<open>None\<close>) ends the
  import.
\<close>

definition import_step ::
  "admin_env \<Rightarrow> nat \<Rightarrow> (string option \<times> csv_value) list \<Rightarrow> string list \<times> import_report \<times> admin_db
     \<Rightarrow> (string list \<times> import_report \<times> admin_db) option" where
  "import_step env n raw st =
     (let row = normalize_import_row raw; (hosts, rep, db) = st
      in case (cell_text row ''name'' [], cell_text row ''host'' []) of
           (Some row_name, Some row_host) \<Rightarrow>
             Some (if row_name = [] \<and> row_host = [] then (hosts, rep, db)
                   else if py_lower row_host \<in> set hosts
                   then (hosts, rep\<lparr>ir_skipped := ir_skipped rep @ [(n, row_name, row_host)]\<rparr>, db)
                   else (case parse_import_row env row row_name row_host of
                           Inl e \<Rightarrow> (hosts, rep\<lparr>ir_errors := ir_errors rep @ [(n, row_name, row_host, e)]\<rparr>, db)
                         | Inr f \<Rightarrow>
                             (py_lower (tf_host f) # hosts, rep\<lparr>ir_created := ir_created rep @ [(n, tf_name f, tf_host f)]\<rparr>,
                              create_imported env row f db)))
         | _ \<Rightarrow> None)"

text \<open>
  The loop over the rows, numbered from 2. What was created stays when an exception ends it, also
  that of the reader at the end of the rows it could read.
\<close>

fun import_rows ::
  "admin_env \<Rightarrow> nat \<Rightarrow> (string option \<times> csv_value) list list \<Rightarrow> bool \<Rightarrow> string list \<times> import_report \<times> admin_db
     \<Rightarrow> (admin_exn + import_report) \<times> admin_db" where
  "import_rows env n [] failed (hosts, rep, db) = (if failed then Inl Csv_Error else Inr rep, db)"
| "import_rows env n (raw # rows) failed (hosts, rep, db) =
     (case import_step env n raw (hosts, rep, db) of
        None \<Rightarrow> (Inl Attribute_Error, db)
      | Some st \<Rightarrow> import_rows env (n + 1) rows failed st)"

definition max_csv_size :: int where
  "max_csv_size = 5 * 1024 * 1024"

text \<open>\<open>decode("utf-8-sig")\<close> drops a byte order mark.\<close>

definition decode_utf8_sig :: "string \<Rightarrow> string option" where
  "decode_utf8_sig raw =
     (if valid_utf8 (map of_char raw)
      then Some (if starts_with raw [CHR 0xEF, CHR 0xBB, CHR 0xBF] then drop 3 raw else raw) else None)"

definition import_targets_csv :: "admin_env \<Rightarrow> string option \<Rightarrow> string \<Rightarrow> admin_db \<Rightarrow> (admin_exn + import_report) \<times> admin_db" where
  "import_targets_csv env filename raw db =
     (if \<not> ends_with (py_lower (opt_text filename)) ''.csv'' then (Inl (Http 400), db)
      else if max_csv_size < int (length raw) then (Inl (Http 400), db)
      else case decode_utf8_sig raw of
             None \<Rightarrow> (Inl (Http 400), db)
           | Some content \<Rightarrow>
               (case dict_reader content of
                  (None, _, failed) \<Rightarrow> (Inl (if failed then Csv_Error else Http 400), db)
                | (Some header, rows, failed) \<Rightarrow>
                    if header = [] \<or> \<not> {''name'', ''host''} \<subseteq> (normalize_import_header \<circ> Some) ` set header then (Inl (Http 400), db)
                    else import_rows env 2 rows failed (map (py_lower \<circ> at_host \<circ> snd) db, no_report, db)))"

section \<open>Lemmas on the table\<close>

named_theorems result_iff \<open>when a sequence of checks succeeds\<close>

lemma and_then_iff [result_iff]: "and_then r f = Inr y \<longleftrightarrow> (\<exists>x. r = Inr x \<and> f x = Inr y)"
  by (cases r) (auto simp: and_then_def)

lemma next_rowid_fresh: "next_rowid db \<notin> fst ` set db"
proof
  assume "next_rowid db \<in> fst ` set db"
  then have "next_rowid db \<le> Max (fst ` set db)" and "db \<noteq> []" by (auto intro: Max_ge)
  then show False by (simp add: next_rowid_def)
qed

text \<open>Placing the target in the last row changes its placement only, and no other row.\<close>

lemma map_of_hall_of: "unique_key db \<Longrightarrow> (i, t) \<in> set db \<Longrightarrow> map_of (hall_of db) i = Some (at_hall t)"
  by (intro map_of_is_SomeI) (auto simp: hall_of_def comp_def case_prod_beta intro!: image_eqI)

lemma place_last:
  assumes u: "unique_key (db @ [(tid, t)])"
  shows "\<exists>loc. on_hall (\<lambda>h. snd (set_target_location tid p force h)) (db @ [(tid, t)])
    = db @ [(tid, t\<lparr>at_hall := (at_hall t)\<lparr>ht_loc := loc\<rparr>\<rparr>)]"
proof -
  let ?db = "db @ [(tid, t)]"
  let ?f = "\<lambda>t. if \<not> force \<and> \<not> should_overwrite (pl_source (ht_loc t)) (pl_source p) then t else t\<lparr>ht_loc := p\<rparr>"
  let ?h' = "snd (set_target_location tid p force (hall_of ?db))"
  have at_tid: "map_of (hall_of ?db) tid = Some (at_hall t)" using u by (intro map_of_hall_of) auto
  then have h': "map_of ?h' i = (if i = tid then Some (?f (at_hall t)) else map_of (hall_of ?db) i)" for i
    by (simp add: set_target_location_def with_target_def table_simps)
  have old: "(i, x) \<in> set db \<Longrightarrow> map_of ?h' i = Some (at_hall x)" for i x
    using u map_of_hall_of [OF u, of i x] by (cases "i = tid") (force simp: h')+
  have same: "map (\<lambda>(i, t). (i, case map_of ?h' i of None \<Rightarrow> t | Some h \<Rightarrow> t\<lparr>at_hall := h\<rparr>)) db = db"
    by (intro map_idI) (auto simp: old)
  show ?thesis
    unfolding on_hall_def map_append same by (intro exI [of _ "ht_loc (?f (at_hall t))"]) (auto simp: h')
qed

lemma seed_last:
  "unique_key (db @ [(tid, t)]) \<Longrightarrow>
     \<exists>loc. seed_location env tid nm host (db @ [(tid, t)]) = db @ [(tid, t\<lparr>at_hall := (at_hall t)\<lparr>ht_loc := loc\<rparr>\<rparr>)]"
proof -
  assume u: "unique_key (db @ [(tid, t)])"
  show ?thesis
  proof (cases "parse_system_location (ad_regex env) (ad_location env) (Some nm) (Some host)")
    case None
    then have "seed_location env tid nm host (db @ [(tid, t)]) = db @ [(tid, t\<lparr>at_hall := (at_hall t)\<lparr>ht_loc := ht_loc (at_hall t)\<rparr>\<rparr>)]"
      by (simp add: seed_location_def)
    then show ?thesis by blast
  next
    case (Some p)
    then show ?thesis using place_last [OF u, of p False] by (simp add: seed_location_def)
  qed
qed

definition placed_target :: "admin_env \<Rightarrow> target_fields \<Rightarrow> placement \<Rightarrow> admin_target" where
  "placed_target env f loc = (new_admin_target env f)\<lparr>at_hall := (at_hall (new_admin_target env f))\<lparr>ht_loc := loc\<rparr>\<rparr>"

lemma placed_target_simps [simp]:
  "at_name (placed_target env f loc) = tf_name f" "at_host (placed_target env f loc) = tf_host f"
  "at_port (placed_target env f loc) = tf_port f"
  by (simp_all add: placed_target_def new_admin_target_def)

lemma placed_again: "(placed_target env f loc)\<lparr>at_hall := (at_hall (placed_target env f loc))\<lparr>ht_loc := loc'\<rparr>\<rparr> = placed_target env f loc'"
  by (simp add: placed_target_def)

lemma created_seeded:
  assumes "unique_key db"
  shows "\<exists>loc. seed_location env (next_rowid db) nm host (snd (create_target env f db))
    = db @ [(next_rowid db, placed_target env f loc)]"
proof -
  have "unique_key (db @ [(next_rowid db, new_admin_target env f)])" using assms next_rowid_fresh [of db] by simp
  from seed_last [OF this, of env nm host] show ?thesis by (simp add: create_target_def placed_target_def)
qed

lemma create_imported_appends:
  assumes "unique_key db"
  shows "\<exists>loc. create_imported env row f db
    = db @ [(next_rowid db, placed_target env f loc)]"
proof -
  obtain loc where db2: "seed_location env (next_rowid db) (tf_name f) (tf_host f) (snd (create_target env f db))
      = db @ [(next_rowid db, placed_target env f loc)]"
    using created_seeded [OF assms] by blast
  have fst: "fst (create_target env f db) = next_rowid db" by (simp add: create_target_def)
  show ?thesis
  proof (cases "placement_from_csv_row row")
    case None
    with db2 fst show ?thesis by (auto simp: create_imported_def Let_def case_prod_beta)
  next
    case (Some p)
    have "unique_key (db @ [(next_rowid db, placed_target env f loc)])" using assms next_rowid_fresh [of db] by simp
    from place_last [OF this, of p False] Some db2 fst show ?thesis
      by (auto simp: create_imported_def Let_def case_prod_beta placed_again)
  qed
qed

section \<open>Valid targets\<close>

definition name_ok :: "string \<Rightarrow> bool" where
  "name_ok s \<longleftrightarrow> 1 \<le> length s \<and> length s \<le> 255 \<and> TARGET_NAME_PATTERN s"

definition host_ok :: "string \<Rightarrow> bool" where
  "host_ok h \<longleftrightarrow>
     h \<notin> set BLOCKED_HOSTS \<and> (case ip_address h of Some ip \<Rightarrow> \<not> is_loopback ip | None \<Rightarrow> HOSTNAME_PATTERN h)"

definition target_ok :: "admin_target \<Rightarrow> bool" where
  "target_ok t \<longleftrightarrow> name_ok (at_name t) \<and> host_ok (at_host t) \<and> 1 \<le> at_port t \<and> at_port t \<le> 65535"

definition table_ok :: "admin_db \<Rightarrow> bool" where
  "table_ok db \<longleftrightarrow> unique_key db \<and> list_all (target_ok \<circ> snd) db"

lemma validate_name_ok: "validate_name n = Inr s \<Longrightarrow> name_ok s"
  by (cases s) (auto simp: validate_name_def name_ok_def TARGET_NAME_PATTERN_def Let_def split: if_splits)

lemma validate_host_ok: "validate_host h = Inr v \<Longrightarrow> host_ok v \<and> v = py_lower (py_strip h)"
  by (auto simp: validate_host_def host_ok_def Let_def split: if_splits option.splits)

lemma validate_port_ok: "validate_port p = Inr q \<Longrightarrow> q = p \<and> 1 \<le> p \<and> p \<le> 65535"
  by (simp add: validate_port_def split: if_splits)

lemma valid_or_422_iff [result_iff]: "valid_or_422 r = Inr x \<longleftrightarrow> r = Inr x"
  by (cases r) (auto simp: valid_or_422_def)

definition fields_ok :: "target_fields \<Rightarrow> bool" where
  "fields_ok f \<longleftrightarrow> name_ok (tf_name f) \<and> host_ok (tf_host f) \<and> 1 \<le> tf_port f \<and> tf_port f \<le> 65535"

lemma validate_create_ok: "validate_create f = Inr g \<Longrightarrow> fields_ok g"
  by (auto simp: validate_create_def result_iff fields_ok_def dest!: validate_name_ok validate_host_ok validate_port_ok)

lemma parse_import_row_ok:
  assumes "parse_import_row env row n h = Inr f"
  shows "fields_ok f" "tf_host f = py_lower (py_strip h)"
proof -
  have "validate_name n = Inr (tf_name f) \<and> validate_host h = Inr (tf_host f) \<and> (\<exists>q. validate_port (tf_port f) = Inr q)"
    using assms unfolding parse_import_row_def result_iff by auto
  then show "fields_ok f" "tf_host f = py_lower (py_strip h)"
    by (auto simp: fields_ok_def dest!: validate_name_ok validate_host_ok validate_port_ok)
qed

lemma validate_form_ok: "validate_form fm = Inr (nm, host) \<Longrightarrow> name_ok nm \<and> host_ok host \<and> 1 \<le> fm_port fm \<and> fm_port fm \<le> 65535"
  by (auto simp: validate_form_def result_iff dest!: validate_name_ok validate_host_ok validate_port_ok split: if_splits)

lemma table_ok_snoc:
  "table_ok db \<Longrightarrow> fields_ok f \<Longrightarrow>
     table_ok (db @ [(next_rowid db, placed_target env f loc)])"
  using next_rowid_fresh [of db] by (simp add: table_ok_def target_ok_def fields_ok_def)

section \<open>What an import does\<close>

definition new_hosts :: "admin_db \<Rightarrow> string list" where
  "new_hosts new = map (at_host \<circ> snd) new"

lemma py_lower_idem [simp]: "py_lower (py_lower s) = py_lower s"
  by (auto simp: py_lower_def lower_char_def Let_def)

lemma import_step_None:
  "import_step env n raw (hosts, rep, db) = None \<longleftrightarrow>
     cell_text (normalize_import_row raw) ''name'' [] = None \<or> cell_text (normalize_import_row raw) ''host'' [] = None"
  by (cases "cell_text (normalize_import_row raw) ''name'' []"; cases "cell_text (normalize_import_row raw) ''host'' []")
     (simp_all add: import_step_def Let_def)

text \<open>A row leaves the table alone, or adds a valid target whose host was not known.\<close>

lemma import_step_cases:
  assumes "import_step env n raw (hosts, rep, db) = Some (hosts', rep', db')" "unique_key db"
  obtains (kept) "hosts' = hosts" "db' = db" "ir_created rep' = ir_created rep"
  | (added) tid t r where "db' = db @ [(tid, t)]" "unique_key db'" "target_ok t" "py_lower (at_host t) = at_host t" "at_host t \<notin> set hosts"
      "hosts' = at_host t # hosts" "ir_created rep' = ir_created rep @ [(n, r, at_host t)]"
proof -
  let ?row = "normalize_import_row raw"
  from assms(1) obtain nm host where cells: "cell_text ?row ''name'' [] = Some nm" "cell_text ?row ''host'' [] = Some host"
    by (auto simp: import_step_def Let_def split: option.splits)
  have stripped: "py_strip host = host"
    using cells(2) by (auto simp: cell_text_def py_strip_idem split: option.splits csv_value.splits)
  show thesis
  proof (cases "(nm = [] \<and> host = []) \<or> py_lower host \<in> set hosts \<or> (\<exists>e. parse_import_row env ?row nm host = Inl e)")
    case True
    with assms(1) cells show thesis
      by (intro kept) (auto simp: import_step_def Let_def split: if_splits)
  next
    case False
    then obtain f where f: "parse_import_row env ?row nm host = Inr f" by (cases "parse_import_row env ?row nm host") auto
    note ok = parse_import_row_ok [OF f]
    obtain loc where c: "create_imported env ?row f db
        = db @ [(next_rowid db, placed_target env f loc)]"
      using create_imported_appends [OF assms(2)] by blast
    show thesis
      using assms False f cells ok next_rowid_fresh [of db]
      by (intro added [where r = "tf_name f"])
         (auto simp: import_step_def Let_def c stripped fields_ok_def target_ok_def split: if_splits)
  qed
qed

lemma import_rows_appends:
  assumes "unique_key db"
  shows "\<exists>new. snd (import_rows env n rows failed (hosts, rep, db)) = db @ new \<and> unique_key (db @ new)
    \<and> list_all (target_ok \<circ> snd) new \<and> distinct (new_hosts new) \<and> set (new_hosts new) \<inter> set hosts = {}
    \<and> (\<forall>rep'. fst (import_rows env n rows failed (hosts, rep, db)) = Inr rep' \<longrightarrow>
         map (snd \<circ> snd) (ir_created rep') = map (snd \<circ> snd) (ir_created rep) @ new_hosts new)"
  using assms
proof (induction rows arbitrary: n hosts rep db)
  case Nil
  then show ?case by (intro exI [of _ "[]"]) (auto simp: new_hosts_def)
next
  case (Cons raw rows)
  show ?case
  proof (cases "import_step env n raw (hosts, rep, db)")
    case None
    with Cons.prems show ?thesis by (intro exI [of _ "[]"]) (auto simp: new_hosts_def)
  next
    case (Some st)
    obtain hosts' rep' db' where st: "st = (hosts', rep', db')" by (cases st)
    from Some [unfolded st] Cons.prems show ?thesis
    proof (cases rule: import_step_cases)
      case kept
      with Cons.IH [of db "n + 1" hosts rep'] Cons.prems Some st show ?thesis by simp
    next
      case (added tid t r)
      from Cons.IH [OF added(2), of "n + 1" hosts' rep'] obtain new where
        new: "snd (import_rows env (n + 1) rows failed (hosts', rep', db')) = db' @ new" "unique_key (db' @ new)"
          "list_all (target_ok \<circ> snd) new" "distinct (new_hosts new)" "set (new_hosts new) \<inter> set hosts' = {}"
        and created: "fst (import_rows env (n + 1) rows failed (hosts', rep', db')) = Inr q \<Longrightarrow>
          map (snd \<circ> snd) (ir_created q) = map (snd \<circ> snd) (ir_created rep') @ new_hosts new" for q
        by blast
      then show ?thesis
        using added Some st by (intro exI [of _ "(tid, t) # new"]) (auto simp: new_hosts_def comp_def)
    qed
  qed
qed

text \<open>Every row of the report is counted once, and blank rows are not.\<close>

definition blank_row :: "(string option \<times> csv_value) list \<Rightarrow> bool" where
  "blank_row raw \<longleftrightarrow>
     cell_text (normalize_import_row raw) ''name'' [] = Some [] \<and> cell_text (normalize_import_row raw) ''host'' [] = Some []"

definition report_size :: "import_report \<Rightarrow> nat" where
  "report_size rep = length (ir_created rep) + length (ir_skipped rep) + length (ir_errors rep)"

lemma import_step_counts:
  "import_step env n raw (hosts, rep, db) = Some (hosts', rep', db') \<Longrightarrow>
     report_size rep' = report_size rep + (if blank_row raw then 0 else 1)"
  by (auto simp: import_step_def Let_def report_size_def blank_row_def split: option.splits if_splits sum.splits)

lemma import_rows_counts:
  "fst (import_rows env n rows failed (hosts, rep, db)) = Inr rep' \<Longrightarrow>
     report_size rep' = report_size rep + length (filter (\<lambda>r. \<not> blank_row r) rows)"
proof (induction rows arbitrary: n hosts rep db)
  case Nil
  then show ?case by (simp split: if_splits)
next
  case (Cons raw rows)
  then obtain hosts1 rep1 db1 where st: "import_step env n raw (hosts, rep, db) = Some (hosts1, rep1, db1)"
    by (cases "import_step env n raw (hosts, rep, db)") auto
  with Cons.prems have "fst (import_rows env (n + 1) rows failed (hosts1, rep1, db1)) = Inr rep'" by simp
  from Cons.IH [OF this] import_step_counts [OF st] show ?case by simp
qed

section \<open>Every stored target is valid\<close>

lemma set_column_ok:
  "set_column v f t = Inr t' \<Longrightarrow> target_ok t \<Longrightarrow> (\<And>x. v = Some (Some x) \<Longrightarrow> target_ok (f x t)) \<Longrightarrow> target_ok t'"
  by (auto simp: set_column_def split: option.splits)

lemma and_then_ok:
  "and_then (set_column v f t) g = Inr y \<Longrightarrow> target_ok t \<Longrightarrow> (\<And>x. v = Some (Some x) \<Longrightarrow> target_ok (f x t)) \<Longrightarrow>
     (\<And>x. target_ok x \<Longrightarrow> g x = Inr y \<Longrightarrow> target_ok y) \<Longrightarrow> target_ok y"
  unfolding result_iff using set_column_ok by blast

definition update_ok :: "target_update \<Rightarrow> bool" where
  "update_ok u \<longleftrightarrow>
     (case tu_name u of Some (Some n) \<Rightarrow> name_ok n | _ \<Rightarrow> True) \<and> (case tu_host u of Some (Some h) \<Rightarrow> host_ok h | _ \<Rightarrow> True)
     \<and> (case tu_port u of Some (Some p) \<Rightarrow> 1 \<le> p \<and> p \<le> 65535 | _ \<Rightarrow> True)"

lemma target_ok_frame [simp]:
  "target_ok (t\<lparr>at_use_ssl := b\<rparr>) = target_ok t" "target_ok (t\<lparr>at_verify_ssl := b\<rparr>) = target_ok t"
  "target_ok (t\<lparr>at_telemetry_endpoint := x\<rparr>) = target_ok t" "target_ok (t\<lparr>at_username := x\<rparr>) = target_ok t"
  "target_ok (t\<lparr>at_encrypted_password := x\<rparr>) = target_ok t" "target_ok (t\<lparr>at_encrypted_token := y\<rparr>) = target_ok t"
  "target_ok (t\<lparr>at_enabled := b\<rparr>) = target_ok t" "target_ok (t\<lparr>at_enable_alert_subscription := b\<rparr>) = target_ok t"
  "target_ok (t\<lparr>at_metric_reports_override := y\<rparr>) = target_ok t" "target_ok (t\<lparr>at_metric_discovery_mode := x\<rparr>) = target_ok t"
  "target_ok (t\<lparr>at_connection_mode := x\<rparr>) = target_ok t" "target_ok (t\<lparr>at_sse_endpoint := y\<rparr>) = target_ok t"
  by (simp_all add: target_ok_def)

lemma set_nullable_ok: "(\<And>x. target_ok (f x t) = target_ok t) \<Longrightarrow> target_ok (set_nullable v f t) = target_ok t"
  by (auto simp: set_nullable_def split: option.splits)

lemma update_columns_ok:
  assumes "update_columns env u t = Inr t'" "target_ok t" "update_ok u"
  shows "target_ok t'"
proof -
  define t3 where "t3 = set_nullable (tu_sse_endpoint u) (\<lambda>e t. t\<lparr>at_sse_endpoint := e\<rparr>)
    (set_nullable (tu_metric_reports_override u) (\<lambda>r t. t\<lparr>at_metric_reports_override := map_option (\<lambda>xs. ad_dumps env (JList xs)) r\<rparr>)
      (set_nullable (tu_token u) (\<lambda>tok t. t\<lparr>at_encrypted_token := (if filled tok then map_option (ad_encrypt env) tok else None)\<rparr>) t))"
  have t3: "target_ok t3" using assms(2) by (simp add: t3_def set_nullable_ok)
  note chain = assms(1) [unfolded update_columns_def Let_def, folded t3_def]
  have fields: "tu_name u = Some (Some n) \<Longrightarrow> name_ok n" "tu_host u = Some (Some h) \<Longrightarrow> host_ok h"
    "tu_port u = Some (Some p) \<Longrightarrow> 1 \<le> p \<and> p \<le> 65535" for n h p
    using assms(3) by (simp_all add: update_ok_def)
  show ?thesis
    using chain t3
    apply (simp split: if_splits)
    apply ((erule (1) and_then_ok, (simp; fail)) | (erule (1) and_then_ok, use fields in \<open>force simp: target_ok_def\<close>))+
    apply (erule (1) set_column_ok, simp)
    done
qed

lemma list_all_update: "list_all P xs \<Longrightarrow> P (k, v) \<Longrightarrow> list_all P (AList.update k v xs)"
  by (induction xs) auto

lemma update_target_ok:
  assumes "table_ok db" "update_ok u"
  shows "table_ok (snd (update_target env tid u db))"
proof (cases "map_of db tid")
  case None
  with assms show ?thesis by (simp add: update_target_def)
next
  case (Some t)
  then have "target_ok t" using assms(1) by (auto simp: table_ok_def list_all_iff dest!: map_of_SomeD)
  then have "update_columns env u t = Inr t' \<Longrightarrow> table_ok (AList.update tid t' db)" for t'
    using assms update_columns_ok by (auto simp: table_ok_def intro!: list_all_update)
  with Some assms(1) show ?thesis by (auto simp: update_target_def split: sum.splits)
qed

lemma validate_kwarg_ok:
  "validate_kwarg f v = Inr w \<Longrightarrow> (\<And>x y. f x = Inr y \<Longrightarrow> P y) \<Longrightarrow> w = Some (Some z) \<Longrightarrow> P z"
  by (auto simp: validate_kwarg_def split: option.splits sum.splits)

lemma validate_update_ok: "validate_update u = Inr v \<Longrightarrow> update_ok v"
proof -
  assume "validate_update u = Inr v"
  then obtain nm host port where k: "validate_kwarg validate_name (tu_name u) = Inr nm" "validate_kwarg validate_host (tu_host u) = Inr host"
    "validate_kwarg validate_port (tu_port u) = Inr port" and v: "v = u\<lparr>tu_name := nm, tu_host := host\<rparr>"
    by (auto simp: validate_update_def result_iff)
  have "tu_port u = Some (Some p) \<Longrightarrow> 1 \<le> p \<and> p \<le> 65535" for p
    using k(3) by (auto simp: validate_kwarg_def dest: validate_port_ok split: sum.splits)
  moreover have "nm = Some (Some n) \<Longrightarrow> name_ok n" for n by (rule validate_kwarg_ok [OF k(1)]) (rule validate_name_ok)
  moreover have "host = Some (Some h) \<Longrightarrow> host_ok h" for h by (rule validate_kwarg_ok [OF k(2)]) (auto dest: validate_host_ok)
  ultimately show "update_ok v" by (auto simp: v update_ok_def split: option.splits)
qed

lemma create_seeded_ok:
  assumes "table_ok db" "fields_ok f"
  shows "table_ok (case create_target env f db of (tid, db1) \<Rightarrow> seed_location env tid nm host db1)"
proof -
  obtain loc where "seed_location env (next_rowid db) nm host (snd (create_target env f db)) = db @ [(next_rowid db, placed_target env f loc)]"
    using created_seeded [of db env nm host f] assms(1) by (auto simp: table_ok_def)
  with table_ok_snoc [OF assms, of env loc] show ?thesis by (simp add: create_target_def)
qed

text \<open>The requests that change the table.\<close>

inductive admin_step :: "admin_env \<Rightarrow> admin_db \<Rightarrow> admin_db \<Rightarrow> bool" for env where
  create: "admin_step env db (snd (create_target_api env body db))"
| update: "admin_step env db (snd (update_target_api env tid u db))"
| delete: "admin_step env db (snd (delete_target_api tid db))"
| import_csv: "admin_step env db (snd (import_targets_csv env filename raw db))"
| add_form: "admin_step env db (snd (add_target_form env now fm db))"
| edit_form: "admin_step env db (snd (edit_target_form env now tid fm db))"
| delete_form: "admin_step env db (snd (delete_target_form env now tok tid db))"

lemma import_ok: "table_ok db \<Longrightarrow> table_ok (snd (import_targets_csv env fn raw db))"
proof -
  assume ok: "table_ok db"
  have "table_ok (snd (import_rows env n rows failed (hosts, rep, db)))" for n rows failed hosts rep
    using import_rows_appends [of db env n rows failed hosts rep] ok by (auto simp: table_ok_def)
  with ok show ?thesis by (auto simp: import_targets_csv_def split: option.splits prod.splits)
qed

lemma form_update_ok: "validate_form fm = Inr (nm, host) \<Longrightarrow> update_ok (form_update fm nm host)"
  by (auto simp: update_ok_def form_update_def form_fields_def Let_def dest!: validate_form_ok)

lemma delete_ok: "table_ok db \<Longrightarrow> table_ok (snd (delete_target_api tid db))"
  by (auto simp: table_ok_def delete_target_api_def delete_target_def list_all_iff intro: distinct_map_filter)

lemma admin_step_ok: "admin_step env db db' \<Longrightarrow> table_ok db \<Longrightarrow> table_ok db'"
proof (induction rule: admin_step.induct)
  case (create db body)
  then show ?case
    using create_seeded_ok [OF create validate_create_ok]
    by (auto simp: create_target_api_def case_prod_beta Let_def split: sum.splits option.splits)
next
  case (update db tid u)
  then show ?case
    using update_target_ok [OF update validate_update_ok, of u]
    by (auto simp: update_target_api_def split: sum.splits prod.splits) (metis snd_conv)+
next
  case (add_form db now fm)
  have "table_ok (case create_target env (form_fields fm nm host) db of (tid, db1) \<Rightarrow> seed_location env tid nm host db1)"
    if "validate_form fm = Inr (nm, host)" for nm host
    using validate_form_ok [OF that] by (intro create_seeded_ok [OF add_form]) (auto simp: fields_ok_def form_fields_def)
  with add_form show ?case by (auto simp: add_target_form_def case_prod_beta Let_def split: sum.splits)
next
  case (edit_form db now tid fm)
  then show ?case
    using update_target_ok [OF edit_form form_update_ok]
    by (auto simp: edit_target_form_def split: sum.splits prod.splits) (metis snd_conv)+
qed (auto intro: import_ok delete_ok simp: delete_target_form_def split: sum.splits)

section \<open>An exported file\<close>

lemma fold_update_distinct:
  "distinct (map fst (acc @ kvs)) \<Longrightarrow> fold (\<lambda>(k, v). AList.update k v) kvs acc = acc @ kvs"
proof (induction kvs arbitrary: acc)
  case (Cons kv kvs)
  obtain k v where kv: "kv = (k, v)" by (cases kv)
  have "AList.update k v acc = acc @ [(k, v)]" if "k \<notin> fst ` set acc" using that by (induction acc) auto
  with Cons kv show ?case by simp
qed simp

lemma dict_row_full:
  assumes "distinct header" "length row = length header"
  shows "dict_row header row = zip (map Some header) (map Cell row)"
proof -
  have "map fst (zip (map Some header) (map Cell row)) = map Some header" using assms(2) by simp
  then show ?thesis
    using assms fold_update_distinct [of "[]" "zip (map Some header) (map Cell row)"]
    by (simp add: dict_row_def distinct_map)
qed

definition EXPORT_FIELDS :: "string list" where
  "EXPORT_FIELDS =
     [''name'', ''host'', ''port'', ''use_ssl'', ''verify_ssl'', ''telemetry_endpoint'', ''username'', ''password'', ''token'',
      ''enabled'', ''poll_interval_override'', ''tags'', ''connection_mode'', ''sse_endpoint'']"

lemma export_headers:
  "map (normalize_import_header \<circ> Some) EXPORT_HEADERS = EXPORT_FIELDS" "distinct EXPORT_HEADERS" "distinct EXPORT_FIELDS"
  "length EXPORT_HEADERS = 14" "length EXPORT_FIELDS = 14"
  by code_simp+

lemma length_export_row [simp]: "length (export_row t) = 14"
  by (simp add: export_row_def)

lemma normalize_exported:
  "normalize_import_row (dict_row EXPORT_HEADERS (export_row t)) = zip EXPORT_FIELDS (map Cell (export_row t))"
proof -
  let ?cells = "map Cell (export_row t)"
  let ?kvs = "zip EXPORT_FIELDS ?cells"
  have "normalize_import_row (dict_row EXPORT_HEADERS (export_row t))
      = fold (\<lambda>(k, v). AList.update (normalize_import_header k) v) (zip (map Some EXPORT_HEADERS) ?cells) []"
    by (simp add: normalize_import_row_def dict_row_full export_headers)
  also have "\<dots> = fold (\<lambda>(k, v). AList.update k v) (map (\<lambda>(k, v). (normalize_import_header k, v)) (zip (map Some EXPORT_HEADERS) ?cells)) []"
    by (simp add: fold_map comp_def case_prod_unfold)
  also have "map (\<lambda>(k, v). (normalize_import_header k, v)) (zip (map Some EXPORT_HEADERS) ?cells) = ?kvs"
    by (simp add: export_headers(1) [symmetric] zip_map1 case_prod_beta comp_def)
  also have "fold (\<lambda>(k, v). AList.update k v) ?kvs [] = ?kvs"
    using fold_update_distinct [of "[]" ?kvs] by (simp add: export_headers)
  finally show ?thesis .
qed

lemma no_password_no_target: "cell row ''password'' [] = Inr [] \<Longrightarrow> parse_import_row env row nm host \<noteq> Inr f"
  unfolding parse_import_row_def result_iff by auto

lemma exported_row_kept:
  "\<exists>rep'. import_step env n (dict_row EXPORT_HEADERS (export_row t)) (hosts, rep, db) = Some (hosts, rep', db)
     \<and> ir_created rep' = ir_created rep"
proof -
  let ?row = "normalize_import_row (dict_row EXPORT_HEADERS (export_row t))"
  have cells: "\<exists>nm. cell_text ?row ''name'' [] = Some nm" "\<exists>h. cell_text ?row ''host'' [] = Some h"
    "cell ?row ''password'' [] = Inr []"
    unfolding normalize_exported
    by (simp_all add: EXPORT_FIELDS_def export_row_def cell_text_def cell_def py_strip_def py_lstrip_def py_rstrip_def)
  then obtain nm h where nh: "cell_text ?row ''name'' [] = Some nm" "cell_text ?row ''host'' [] = Some h" by blast
  obtain e where "parse_import_row env ?row nm h = Inl e"
    using no_password_no_target [OF cells(3)] by (cases "parse_import_row env ?row nm h") auto
  then show ?thesis by (auto simp: import_step_def Let_def nh)
qed

lemma exported_rows_kept:
  "\<exists>rep'. import_rows env n (map (dict_row EXPORT_HEADERS \<circ> export_row) ts) False (hosts, rep, db) = (Inr rep', db)
     \<and> ir_created rep' = ir_created rep"
proof (induction ts arbitrary: n rep)
  case (Cons t ts)
  obtain rep1 where "import_step env n (dict_row EXPORT_HEADERS (export_row t)) (hosts, rep, db) = Some (hosts, rep1, db)"
    "ir_created rep1 = ir_created rep"
    using exported_row_kept by blast
  with Cons [of "n + 1" rep1] show ?case by simp
qed simp

lemma read_exported:
  "dict_reader (export_targets_csv old)
     = (Some EXPORT_HEADERS, map (dict_row EXPORT_HEADERS \<circ> export_row) (map snd (sort_key (at_name \<circ> snd) old)), False)"
proof -
  let ?rows = "map (export_row \<circ> snd) (sort_key (at_name \<circ> snd) old)"
  have ne: "export_row t \<noteq> []" for t by (simp add: export_row_def)
  have "csv_reader (export_targets_csv old) = (EXPORT_HEADERS # ?rows, False)"
    unfolding export_targets_csv_def by (rule csv_round_trip) (auto simp: ne [symmetric] EXPORT_HEADERS_def)
  moreover have "filter (\<lambda>r. r \<noteq> []) ?rows = ?rows" by (auto simp: ne intro!: filter_True)
  ultimately show ?thesis by (simp add: dict_reader_def comp_def)
qed

lemma import_targets_cases:
  "(\<exists>e. import_targets_csv env fn raw db = (Inl e, db))
   \<or> (\<exists>content header rows failed. decode_utf8_sig raw = Some content \<and> dict_reader content = (Some header, rows, failed)
        \<and> import_targets_csv env fn raw db = import_rows env 2 rows failed (map (py_lower \<circ> at_host \<circ> snd) db, no_report, db))"
  by (auto simp: import_targets_csv_def split: option.splits prod.splits)

section \<open>A sample file\<close>

definition demo_admin :: admin_env where
  "demo_admin =
     \<lparr>ad_loads = \<lambda>_. None, ad_dumps = \<lambda>_. [], ad_encrypt = \<lambda>s. s, ad_decrypt = Some,
      ad_regex = \<lparr>re_match = \<lambda>_ _. NoMatch, re_fullmatch = \<lambda>_ _. NoMatch\<rparr>,
      ad_location = \<lparr>rack_height_u = 42, default_system_height_u = 8, default_unit_type = ''EIA_310'', name_patterns = [], token_rules = []\<rparr>,
      ad_auth = demo_env\<rparr>"

definition demo_csv :: string where
  "demo_csv = ''Name,BMC Address,username,password'' @ [LF] @ ''A,10.0.0.1,u,p'' @ [LF] @ ''B'' @ [LF]"

definition demo_row :: admin_target where
  "demo_row = new_admin_target demo_admin
     \<lparr>tf_name = ''A'', tf_host = ''10.0.0.1'', tf_port = 443, tf_use_ssl = True, tf_verify_ssl = False, tf_telemetry_endpoint = TELEMETRY_ENDPOINT,
      tf_username = ''u'', tf_password = ''p'', tf_token = None, tf_enabled = True, tf_enable_alert_subscription = True,
      tf_poll_interval_override = None, tf_tags = JNull, tf_metric_reports_override = JNull, tf_metric_discovery_mode = ''auto'',
      tf_connection_mode = ''direct'', tf_sse_endpoint = None\<rparr>"

lemma demo_import: "snd (import_targets_csv demo_admin (Some ''t.csv'') demo_csv []) = [(1, demo_row)]"
  by code_simp

section \<open>Properties\<close>

text \<open>
  (C33) Whatever requests the interface answers, programs', forms' and imports, every stored target
  has a name of 1 to 255 admitted characters, a host that is no blocked or loopback address and
  otherwise an address or a well-formed host name, a port between 1 and 65535, and an identifier of its own.
\<close>

theorem targets_stay_valid:
  assumes "(admin_step env)\<^sup>*\<^sup>* [] db" "(tid, t) \<in> set db"
  shows "1 \<le> length (at_name t) \<and> length (at_name t) \<le> 255 \<and> TARGET_NAME_PATTERN (at_name t)
    \<and> at_host t \<notin> set BLOCKED_HOSTS
    \<and> (case ip_address (at_host t) of Some ip \<Rightarrow> \<not> is_loopback ip | None \<Rightarrow> HOSTNAME_PATTERN (at_host t))
    \<and> 1 \<le> at_port t \<and> at_port t \<le> 65535 \<and> map_of db tid = Some t"
proof -
  have "table_ok []" by (simp add: table_ok_def)
  with assms(1) have "table_ok db" by (induction rule: rtranclp_induct) (auto intro: admin_step_ok)
  then have "target_ok t" "map_of db tid = Some t" using assms(2) by (auto simp: table_ok_def list_all_iff)
  then show ?thesis by (simp add: target_ok_def name_ok_def host_ok_def)
qed

theorem targets_stay_valid_witness:
  "snd (import_targets_csv demo_admin (Some ''t.csv'') demo_csv []) = [(1, demo_row)] \<and> 1 \<le> at_port demo_row \<and> at_port demo_row \<le> 65535"
proof -
  have "(admin_step demo_admin)\<^sup>*\<^sup>* [] [(1, demo_row)]"
    using admin_step.import_csv [of demo_admin "[]" "Some ''t.csv''" demo_csv] by (simp add: demo_import)
  from targets_stay_valid [OF this, of 1 demo_row] show ?thesis by (simp add: demo_import)
qed

text \<open>
  An import leaves the stored targets as they are and adds targets with hosts that are
  pairwise different and different, whatever the case, from those already stored, also when it
  breaks off. When it ends, its report names exactly the added targets, and every row of the file
  that is not blank is counted once: as created, skipped or failed.
\<close>

lemma import_adds_new_hosts:
  assumes "unique_key db"
  shows "\<exists>new. snd (import_targets_csv env fn raw db) = db @ new \<and> distinct (new_hosts new)
    \<and> set (new_hosts new) \<inter> set (map (py_lower \<circ> at_host \<circ> snd) db) = {}
    \<and> (\<forall>rep. fst (import_targets_csv env fn raw db) = Inr rep \<longrightarrow>
         map (snd \<circ> snd) (ir_created rep) = new_hosts new
         \<and> (\<exists>content header rows. decode_utf8_sig raw = Some content \<and> dict_reader content = (Some header, rows, False)
              \<and> report_size rep = length (filter (\<lambda>r. \<not> blank_row r) rows)))"
proof -
  let ?hosts = "map (py_lower \<circ> at_host \<circ> snd) db"
  consider (refused) e where "import_targets_csv env fn raw db = (Inl e, db)"
    | (rows) content header rows failed where "decode_utf8_sig raw = Some content" "dict_reader content = (Some header, rows, failed)"
        "import_targets_csv env fn raw db = import_rows env 2 rows failed (?hosts, no_report, db)"
    using import_targets_cases [of env fn raw db] by blast
  then show ?thesis
  proof cases
    case refused
    then show ?thesis by (intro exI [of _ "[]"]) (simp add: new_hosts_def)
  next
    case rows
    have "failed = False" if "fst (import_rows env 2 rows failed (?hosts, no_report, db)) = Inr rep" for rep
    proof -
      have "fst (import_rows env n rows True st) \<noteq> Inr rep" for n st
      proof (induction rows arbitrary: n st)
        case Nil
        then show ?case by (cases st) simp
      next
        case (Cons r rows)
        then show ?case by (cases st) (auto split: option.splits)
      qed
      with that show ?thesis by (cases failed) auto
    qed
    with rows import_rows_appends [OF assms, of env 2 rows failed ?hosts no_report]
      import_rows_counts [of env 2 rows failed ?hosts no_report db]
    show ?thesis by (auto simp: no_report_def report_size_def)
  qed
qed

lemma import_adds_new_hosts_witness:
  "\<exists>new. snd (import_targets_csv demo_admin (Some ''t.csv'') demo_csv []) = [] @ new \<and> new = [(1, demo_row)] \<and> distinct (new_hosts new)"
  using import_adds_new_hosts [of "[]" demo_admin "Some ''t.csv''" demo_csv] by (auto simp: demo_import)

text \<open>
  Credentials do not leave the system, so an exported file adds nothing anywhere: read back
  into any table, unchanged, it is refused as a whole or every row is skipped or refused.
\<close>

lemma exported_file_adds_nothing:
  "snd (import_targets_csv env fn (export_targets_csv old) db) = db
   \<and> (fst (import_targets_csv env fn (export_targets_csv old) db) = Inl (Http 400)
      \<or> (\<exists>rep. fst (import_targets_csv env fn (export_targets_csv old) db) = Inr rep \<and> ir_created rep = []))"
proof -
  let ?raw = "export_targets_csv old"
  let ?hosts = "map (py_lower \<circ> at_host \<circ> snd) db"
  have created_none: "ir_created no_report = []" by (simp add: no_report_def)
  obtain rep where rows: "import_rows env 2 (map (dict_row EXPORT_HEADERS \<circ> export_row) (map snd (sort_key (at_name \<circ> snd) old))) False
      (?hosts, no_report, db) = (Inr rep, db)" "ir_created rep = []"
    using exported_rows_kept [of env 2 "map snd (sort_key (at_name \<circ> snd) old)" ?hosts no_report db] created_none by metis
  have "?raw = CHR ''h'' # tl ?raw"
    by (simp add: export_targets_csv_def csv_writer_def csv_row_def EXPORT_HEADERS_def csv_field_def csv_special_def DQ_def LF_def CR_def)
  from arg_cong [OF this, of "\<lambda>x. starts_with x [CHR 0xEF, CHR 0xBB, CHR 0xBF]"]
  have "\<not> starts_with ?raw [CHR 0xEF, CHR 0xBB, CHR 0xBF]" by simp
  then have "decode_utf8_sig ?raw = (if valid_utf8 (map of_char ?raw) then Some ?raw else None)" by (simp add: decode_utf8_sig_def)
  then consider "decode_utf8_sig ?raw = None" | "decode_utf8_sig ?raw = Some ?raw" by metis
  then show ?thesis
  proof cases
    case 1
    then show ?thesis by (simp add: import_targets_csv_def)
  next
    case 2
    then have "import_targets_csv env fn ?raw db \<in> {(Inl (Http 400), db), (Inr rep, db)}"
      unfolding import_targets_csv_def by (simp add: read_exported rows(1) del: map_map)
    with rows(2) show ?thesis by auto
  qed
qed

text \<open>
  A row that ends before its name or its host ends the whole import with a server error, and
  the targets of the rows before it have been created by then; nothing is reported of them.
\<close>

lemma short_row_ends_import:
  assumes "ends_with (py_lower (opt_text fn)) ''.csv''" "int (length raw) \<le> max_csv_size" "decode_utf8_sig raw = Some content"
    "dict_reader content = (Some header, good @ short # others, failed)"
    "{''name'', ''host''} \<subseteq> (normalize_import_header \<circ> Some) ` set header"
    "\<forall>r \<in> set good. \<exists>x y. cell_text (normalize_import_row r) ''name'' [] = Some x \<and> cell_text (normalize_import_row r) ''host'' [] = Some y"
    "cell_text (normalize_import_row short) ''name'' [] = None \<or> cell_text (normalize_import_row short) ''host'' [] = None"
  shows "import_targets_csv env fn raw db
    = (Inl Attribute_Error, snd (import_rows env 2 good False (map (py_lower \<circ> at_host \<circ> snd) db, no_report, db)))"
proof -
  have "import_rows env n (good @ short # others) failed (hosts, rep, db) = (Inl Attribute_Error, snd (import_rows env n good False (hosts, rep, db)))"
    for n hosts rep db
    using assms(6)
  proof (induction good arbitrary: n hosts rep db)
    case Nil
    then show ?case using assms(7) import_step_None [of env n short hosts rep db] by simp
  next
    case (Cons r good)
    obtain st where "import_step env n r (hosts, rep, db) = Some st" using Cons.prems import_step_None [of env n r] by fastforce
    with Cons show ?case by (cases st) simp
  qed
  with assms(1-5) show ?thesis by (auto simp: import_targets_csv_def)
qed

lemma short_row_ends_import_witness:
  "import_targets_csv demo_admin (Some ''t.csv'') demo_csv [] = (Inl Attribute_Error, [(1, demo_row)])"
proof -
  let ?h = "[''Name'', ''BMC Address'', ''username'', ''password'']"
  let ?good = "dict_row ?h [''A'', ''10.0.0.1'', ''u'', ''p'']" and ?short = "dict_row ?h [''B'']"
  have read: "dict_reader demo_csv = (Some ?h, [?good] @ ?short # [], False)" by code_simp
  have guards: "ends_with (py_lower (opt_text (Some ''t.csv''))) ''.csv''" "int (length demo_csv) \<le> max_csv_size"
    "decode_utf8_sig demo_csv = Some demo_csv"
    by code_simp+
  have header: "{''name'', ''host''} \<subseteq> (normalize_import_header \<circ> Some) ` set ?h" by code_simp
  have good: "cell_text (normalize_import_row ?good) ''name'' [] = Some ''A''" "cell_text (normalize_import_row ?good) ''host'' [] = Some ''10.0.0.1''"
    by code_simp+
  have short: "cell_text (normalize_import_row ?short) ''host'' [] = None" by code_simp
  have rows: "snd (import_rows demo_admin 2 [?good] False ([], no_report, [])) = [(1, demo_row)]" by code_simp
  show ?thesis
    using short_row_ends_import [OF guards read header, of demo_admin "[]"] good short rows by simp
qed

end
