(* ===== verification/Inventory_Collector.thy ===== *)
theory Inventory_Collector
  imports Log_Baseline Location
begin

text \<open>
  What the collector reads once from every BMC: \<open>collector/src/inventory/collector.py\<close> with the record of
  \<open>inventory/models.py\<close>, the metric reports a BMC offers (\<open>redfish/report_discovery.py\<close>), and the background task that
  stores both (\<open>inventory/enricher.py\<close>). The BMC is a function from addresses to the JSON it serves. \<open>None\<close> is
  an exception. Report names are ASCII.
\<close>

section \<open>Reading resources\<close>

text \<open>\<open>_get_json\<close>: a dictionary or \<open>None\<close>; an address that is no text fails inside its \<open>try\<close>.\<close>

definition get_resource :: "bmc \<Rightarrow> json \<Rightarrow> json dict option" where
  "get_resource get uri = (case uri of JStr u \<Rightarrow> (case get u of Some (JObj d) \<Rightarrow> Some d | _ \<Rightarrow> None) | _ \<Rightarrow> None)"

text \<open>\<open>(collection.get("Members") or [])[:n]\<close>: slicing a dictionary or a number raises.\<close>

definition members_slice :: "nat \<Rightarrow> json dict \<Rightarrow> json list option" where
  "members_slice n collection =
     (let ms = dict_get collection ''Members''
      in if \<not> json_truthy ms then Some []
         else (case ms of
                 JList xs \<Rightarrow> Some (take n xs)
               | JStr s \<Rightarrow> Some (map (\<lambda>c. JStr [c]) (take n s))
               | _ \<Rightarrow> None))"

definition member_uri :: "json \<Rightarrow> json" where
  "member_uri member = (case member of JObj d \<Rightarrow> dict_get d ''@odata.id'' | _ \<Rightarrow> JNull)"

definition MAX_MEMBERS :: nat where
  "MAX_MEMBERS = 16"

definition MAX_FIRMWARE :: nat where
  "MAX_FIRMWARE = 24"

definition MAX_PROCESSORS :: nat where
  "MAX_PROCESSORS = 32"

text \<open>
  The resources behind the members of a collection; an empty answer counts as none. The outer
  \<open>None\<close> is an exception.
\<close>

definition nonempty_resource :: "bmc \<Rightarrow> json \<Rightarrow> json dict option" where
  "nonempty_resource get uri = (case get_resource get uri of Some d \<Rightarrow> if d = [] then None else Some d | None \<Rightarrow> None)"

definition member_resources :: "bmc \<Rightarrow> nat \<Rightarrow> json \<Rightarrow> (json \<times> json dict) list option" where
  "member_resources get n uri =
     (case nonempty_resource get uri of
        None \<Rightarrow> Some []
      | Some collection \<Rightarrow>
          map_option (\<lambda>ms. List.map_filter (\<lambda>m.
            if json_truthy (member_uri m) then map_option (Pair (member_uri m)) (nonempty_resource get (member_uri m)) else None) ms)
          (members_slice n collection))"

definition first_member_resource :: "bmc \<Rightarrow> string \<Rightarrow> json dict option option" where
  "first_member_resource get uri =
     map_option (\<lambda>rs. case rs of [] \<Rightarrow> None | (_, r) # _ \<Rightarrow> Some r) (member_resources get MAX_MEMBERS (JStr uri))"

section \<open>Numbers\<close>

definition num_value :: "json \<Rightarrow> json" where
  "num_value v = (case v of JInt _ \<Rightarrow> v | JFloat _ \<Rightarrow> v | _ \<Rightarrow> JNull)"

text \<open>The float a number is converted to; \<open>None\<close> is \<open>OverflowError\<close>.\<close>

definition num_float :: "json \<Rightarrow> py_float option" where
  "num_float v = (case v of JInt i \<Rightarrow> map_option Finite (float_of_int i) | JFloat f \<Rightarrow> Some f | _ \<Rightarrow> None)"

definition of_double :: "rat \<Rightarrow> py_float" where
  "of_double x = (case round_double x of Some y \<Rightarrow> Finite y | None \<Rightarrow> Infinite (x < 0))"

fun float_add :: "py_float \<Rightarrow> py_float \<Rightarrow> py_float" where
  "float_add (Finite a) (Finite b) = of_double (a + b)"
| "float_add (Infinite s) (Infinite t) = (if s = t then Infinite s else NaN)"
| "float_add (Infinite s) (Finite _) = Infinite s"
| "float_add (Finite _) (Infinite s) = Infinite s"
| "float_add _ _ = NaN"

fun float_scale :: "py_float \<Rightarrow> rat \<Rightarrow> py_float" where
  "float_scale (Finite a) c = of_double (a / c)"
| "float_scale x c = x"

fun round_tenth :: "py_float \<Rightarrow> py_float" where
  "round_tenth (Finite x) = of_double (of_int (round_half_even (x * 10)) / 10)"
| "round_tenth x = x"

section \<open>The inventory\<close>

record inventory_data =
  iv_manufacturer :: json
  iv_model :: json
  iv_sku :: json
  iv_serial :: json
  iv_part_number :: json
  iv_power_state :: json
  iv_health :: json
  iv_asset_tag :: json
  iv_chassis_type :: json
  iv_processor_count :: json
  iv_processor_model :: json
  iv_gpu_count :: json
  iv_gpu_model :: json
  iv_gpu_memory_gib :: json
  iv_memory_gib :: json
  iv_bios_version :: json
  iv_bmc_firmware :: json
  iv_firmware :: json
  iv_height_mm :: json
  iv_height_u :: "int option"
  iv_unit_type :: json
  iv_placement :: "placement option"

definition no_inventory :: inventory_data where
  "no_inventory =
     \<lparr>iv_manufacturer = JNull, iv_model = JNull, iv_sku = JNull, iv_serial = JNull, iv_part_number = JNull, iv_power_state = JNull,
      iv_health = JNull, iv_asset_tag = JNull, iv_chassis_type = JNull, iv_processor_count = JNull, iv_processor_model = JNull,
      iv_gpu_count = JNull, iv_gpu_model = JNull, iv_gpu_memory_gib = JNull, iv_memory_gib = JNull, iv_bios_version = JNull,
      iv_bmc_firmware = JNull, iv_firmware = JNull, iv_height_mm = JNull, iv_height_u = None, iv_unit_type = JNull, iv_placement = None\<rparr>"

definition inventory_fields :: "inventory_data \<Rightarrow> (string \<times> json) list" where
  "inventory_fields v =
     [(''manufacturer'', iv_manufacturer v), (''model'', iv_model v), (''sku'', iv_sku v), (''serial'', iv_serial v),
      (''part_number'', iv_part_number v), (''power_state'', iv_power_state v), (''health'', iv_health v), (''asset_tag'', iv_asset_tag v),
      (''chassis_type'', iv_chassis_type v), (''processor_count'', iv_processor_count v), (''processor_model'', iv_processor_model v),
      (''gpu_count'', iv_gpu_count v), (''gpu_model'', iv_gpu_model v), (''gpu_memory_gib'', iv_gpu_memory_gib v),
      (''memory_gib'', iv_memory_gib v), (''bios_version'', iv_bios_version v), (''bmc_firmware'', iv_bmc_firmware v),
      (''firmware'', iv_firmware v), (''height_mm'', iv_height_mm v),
      (''height_u'', case iv_height_u v of None \<Rightarrow> JNull | Some h \<Rightarrow> JInt h), (''unit_type'', iv_unit_type v)]"

definition inventory_to_dict :: "inventory_data \<Rightarrow> json dict" where
  "inventory_to_dict v = filter (\<lambda>(_, x). x \<noteq> JNull) (inventory_fields v)"

definition has_data :: "inventory_data \<Rightarrow> bool" where
  "has_data v \<longleftrightarrow> list_ex (\<lambda>(_, x). x \<noteq> JNull) (inventory_fields v)"

definition MM_PER_U :: rat where
  "MM_PER_U = the (round_double (4445 / 100))"

text \<open>\<open>round\<close> of an infinity or a NaN raises.\<close>

definition height_in_units :: "json \<Rightarrow> int option" where
  "height_in_units mm =
     (case num_float mm of
        None \<Rightarrow> None
      | Some f \<Rightarrow> (case float_scale f MM_PER_U of Finite x \<Rightarrow> Some (max 1 (round_half_even x)) | _ \<Rightarrow> None))"

definition derive_height_u :: "inventory_data \<Rightarrow> inventory_data option" where
  "derive_height_u v =
     (if iv_height_u v = None \<and> json_truthy (iv_height_mm v)
      then map_option (\<lambda>h. v\<lparr>iv_height_u := Some h\<rparr>) (height_in_units (iv_height_mm v)) else Some v)"

section \<open>Processors and firmware\<close>

fun sum_banks :: "py_float \<Rightarrow> json list \<Rightarrow> py_float option" where
  "sum_banks total_mib [] = Some total_mib"
| "sum_banks total_mib (bank # banks) =
     (let cap = (case bank of JObj d \<Rightarrow> num_value (dict_get d ''CapacityMiB'') | _ \<Rightarrow> JNull)
      in if json_truthy cap
         then (case num_float cap of None \<Rightarrow> None | Some c \<Rightarrow> sum_banks (float_add total_mib c) banks) else sum_banks total_mib banks)"

definition gpu_memory_gib :: "json dict \<Rightarrow> json option" where
  "gpu_memory_gib proc =
     (case dict_get proc ''ProcessorMemory'' of
        JList banks \<Rightarrow>
          map_option (\<lambda>s. if s = Finite 0 then JNull else JFloat (round_tenth (float_scale s 1024))) (sum_banks (Finite 0) banks)
      | _ \<Rightarrow> Some JNull)"

text \<open>Looking an unhashable value up in a set raises.\<close>

definition is_gpu :: "json dict \<Rightarrow> bool option" where
  "is_gpu proc =
     (case dict_get proc ''ProcessorType'' of
        JStr s \<Rightarrow> Some (s \<in> {''GPU'', ''Accelerator'', ''FPGA''})
      | v \<Rightarrow> if json_hashable v then Some False else None)"

fun count_procs :: "json dict list \<Rightarrow> int \<times> json \<times> json \<Rightarrow> (int \<times> json \<times> json) option" where
  "count_procs [] st = Some st"
| "count_procs (proc # procs) (n, model, memory) =
     do {
       gpu \<leftarrow> is_gpu proc;
       if \<not> gpu then count_procs procs (n, model, memory)
       else do {
         mem \<leftarrow> (if memory = JNull then gpu_memory_gib proc else Some memory);
         count_procs procs (n + 1,
           (if model = JNull then json_or (dict_get proc ''Model'') (dict_get proc ''Manufacturer'') else model), mem)
       }
     }"

definition count_gpus :: "bmc \<Rightarrow> json \<Rightarrow> (json \<times> json \<times> json) option" where
  "count_gpus get processors_uri =
     do {
       rs \<leftarrow> member_resources get MAX_PROCESSORS processors_uri;
       (n, model, memory) \<leftarrow> count_procs (map snd rs) (0, JNull, JNull);
       Some (if n = 0 then JNull else JInt n, model, memory)
     }"

definition firmware_entry :: "json dict \<Rightarrow> (string \<times> json) option" where
  "firmware_entry item =
     (let version = dict_get item ''Version''; nm = json_or (dict_get item ''Name'') (dict_get item ''Id'')
      in if json_truthy nm \<and> (case version of JStr _ \<Rightarrow> True | JInt _ \<Rightarrow> True | JFloat _ \<Rightarrow> True | _ \<Rightarrow> False)
         then Some (py_str nm, JStr (py_str version)) else None)"

definition collect_firmware :: "bmc \<Rightarrow> json option" where
  "collect_firmware get =
     map_option (\<lambda>rs. let fw = dict_update [] (List.map_filter (firmware_entry \<circ> snd) rs) in if fw = [] then JNull else JObj fw)
       (member_resources get MAX_FIRMWARE (JStr ''/redfish/v1/UpdateService/FirmwareInventory''))"

section \<open>Collecting an inventory\<close>

definition status_health :: "json dict \<Rightarrow> json \<Rightarrow> json" where
  "status_health d dflt = (case dict_get d ''Status'' of JObj st \<Rightarrow> dict_get st ''Health'' | _ \<Rightarrow> dflt)"

definition read_chassis :: "string \<Rightarrow> json dict \<Rightarrow> inventory_data \<Rightarrow> inventory_data" where
  "read_chassis default_unit d v =
     (let p = placement_from_location (dict_get d ''Location'') default_unit;
          v1 = v\<lparr>iv_manufacturer := dict_get d ''Manufacturer'', iv_model := dict_get d ''Model'', iv_sku := dict_get d ''SKU'',
                 iv_serial := dict_get d ''SerialNumber'', iv_part_number := dict_get d ''PartNumber'',
                 iv_chassis_type := dict_get d ''ChassisType'', iv_power_state := dict_get d ''PowerState'',
                 iv_asset_tag := json_or (dict_get d ''AssetTag'') JNull, iv_health := status_health d (iv_health v),
                 iv_height_mm := num_value (dict_get d ''HeightMm'')\<rparr>
      in if has_location p
         then v1\<lparr>iv_placement := Some (p\<lparr>pl_source := Some ''redfish''\<rparr>),
                 iv_unit_type := (if filled (pl_unit_type p) then json_text (pl_unit_type p) else iv_unit_type v1)\<rparr>
         else v1)"

definition read_system :: "json dict \<Rightarrow> inventory_data \<Rightarrow> inventory_data" where
  "read_system d v =
     (let v1 = v\<lparr>iv_manufacturer := json_or (iv_manufacturer v) (dict_get d ''Manufacturer''),
                 iv_model := json_or (iv_model v) (dict_get d ''Model''), iv_serial := json_or (iv_serial v) (dict_get d ''SerialNumber''),
                 iv_part_number := json_or (iv_part_number v) (dict_get d ''PartNumber''), iv_sku := json_or (iv_sku v) (dict_get d ''SKU''),
                 iv_bios_version := dict_get d ''BiosVersion'', iv_power_state := json_or (iv_power_state v) (dict_get d ''PowerState''),
                 iv_asset_tag := json_or (json_or (iv_asset_tag v) (dict_get d ''AssetTag'')) JNull,
                 iv_health := (if iv_health v = JNull then status_health d JNull else iv_health v)\<rparr>;
          v2 = (case dict_get d ''ProcessorSummary'' of
                  JObj s \<Rightarrow> v1\<lparr>iv_processor_count := num_value (dict_get s ''Count''), iv_processor_model := dict_get s ''Model''\<rparr>
                | _ \<Rightarrow> v1)
      in case dict_get d ''MemorySummary'' of
           JObj s \<Rightarrow> v2\<lparr>iv_memory_gib := num_value (dict_get s ''TotalSystemMemoryGiB'')\<rparr>
         | _ \<Rightarrow> v2)"

definition read_gpus :: "bmc \<Rightarrow> json dict \<Rightarrow> inventory_data \<Rightarrow> inventory_data option" where
  "read_gpus get d v =
     (let uri = (case dict_get d ''Processors'' of JObj p \<Rightarrow> dict_get p ''@odata.id'' | _ \<Rightarrow> JNull)
      in if \<not> json_truthy uri then Some v
         else map_option (\<lambda>(n, model, memory). v\<lparr>iv_gpu_count := n, iv_gpu_model := model, iv_gpu_memory_gib := memory\<rparr>) (count_gpus get uri))"

definition collect_inventory :: "bmc \<Rightarrow> string \<Rightarrow> int \<Rightarrow> inventory_data option option" where
  "collect_inventory get default_unit default_gpu_count =
     do {
       chassis \<leftarrow> first_member_resource get ''/redfish/v1/Chassis'';
       let v1 = (case chassis of None \<Rightarrow> no_inventory | Some d \<Rightarrow> read_chassis default_unit d no_inventory);
       system \<leftarrow> first_member_resource get ''/redfish/v1/Systems'';
       v2 \<leftarrow> (case system of None \<Rightarrow> Some v1 | Some d \<Rightarrow> read_gpus get d (read_system d v1));
       manager \<leftarrow> first_member_resource get ''/redfish/v1/Managers'';
       let v3 = (case manager of None \<Rightarrow> v2 | Some d \<Rightarrow> v2\<lparr>iv_bmc_firmware := dict_get d ''FirmwareVersion''\<rparr>);
       firmware \<leftarrow> collect_firmware get;
       let v4 = v3\<lparr>iv_firmware := firmware\<rparr>;
       let v5 = (if iv_gpu_count v4 = JNull \<and> default_gpu_count \<noteq> 0 then v4\<lparr>iv_gpu_count := JInt default_gpu_count\<rparr> else v4);
       v6 \<leftarrow> derive_height_u v5;
       Some (if has_data v6 then Some v6 else None)
     }"

text \<open>The part of it that is stored.\<close>

definition to_inventory :: "inventory_data \<Rightarrow> inventory" where
  "to_inventory v = \<lparr>inv_fields = inventory_to_dict v, inv_placement = iv_placement v, inv_height_u = iv_height_u v\<rparr>"

section \<open>The metric reports of a BMC\<close>

definition TELEMETRY_ROOT :: string where
  "TELEMETRY_ROOT = ''/redfish/v1/TelemetryService''"

definition MAX_REPORTS :: nat where
  "MAX_REPORTS = 64"

definition MAX_DEFINITIONS :: nat where
  "MAX_DEFINITIONS = 512"

definition AGGREGATE_HINTS :: "string list" where
  "AGGREGATE_HINTS = [''all'', ''comprehensive'']"

definition STAT_FUNC_TOKENS :: "string list" where
  "STAT_FUNC_TOKENS = [''avg'', ''average'', ''min'', ''minimum'', ''max'', ''maximum'', ''mean'', ''peak'', ''sum'']"

definition TIME_WINDOW_TOKENS :: "string list" where
  "TIME_WINDOW_TOKENS = [''hour'', ''day'', ''week'', ''month'', ''year'', ''minute'']"

definition after_last_slash :: "string \<Rightarrow> string" where
  "after_last_slash s = rev (takeWhile (\<lambda>c. c \<noteq> CHR ''/'') (rev s))"

definition report_type :: "string \<Rightarrow> string" where
  "report_type uri = (let s = after_last_slash (rstrip_char CHR ''/'' uri) in if s = [] then ''report'' else s)"

definition aggregate_report :: "string \<Rightarrow> bool" where
  "aggregate_report rt \<longleftrightarrow> list_ex (contains (py_lower rt)) AGGREGATE_HINTS"

definition is_statistical_aggregate :: "string \<Rightarrow> bool" where
  "is_statistical_aggregate rt \<longleftrightarrow>
     list_ex (contains (py_lower rt)) STAT_FUNC_TOKENS \<and> list_ex (contains (py_lower rt)) TIME_WINDOW_TOKENS"

text \<open>The addresses of the members; one that is no text raises in \<open>_report_type\<close>.\<close>

fun report_members :: "json list \<Rightarrow> (string \<times> string) list option" where
  "report_members [] = Some []"
| "report_members (m # ms) =
     (if \<not> json_truthy (member_uri m) then report_members ms
      else case member_uri m of
             JStr u \<Rightarrow> map_option (Cons (u, report_type u)) (report_members ms)
           | _ \<Rightarrow> None)"

text \<open>The outer \<open>None\<close> is an exception, the inner one the \<open>None\<close> of the code. A report is its address and its type.\<close>

definition discover_metric_reports :: "bmc \<Rightarrow> bool \<Rightarrow> (string \<times> string) list option option" where
  "discover_metric_reports get exclude_aggregates =
     (case nonempty_resource get (JStr (TELEMETRY_ROOT @ ''/MetricReports'')) of
        None \<Rightarrow> Some None
      | Some collection \<Rightarrow>
          do {
            ms \<leftarrow> members_slice MAX_REPORTS collection;
            rs \<leftarrow> report_members ms;
            let kept = filter (\<lambda>(_, ty). \<not> (exclude_aggregates \<and> is_statistical_aggregate ty)) rs;
            let reports = sort_key (\<lambda>(_, ty). aggregate_report ty) kept;
            Some (if reports = [] then None else Some reports)
          })"

definition definition_entry :: "json \<times> json dict \<Rightarrow> (string \<times> json) option" where
  "definition_entry r =
     (let mid = dict_get (snd r) ''Id''
      in map_option (\<lambda>k. (k, JObj [(''unit'', dict_get (snd r) ''Units''), (''data_type'', dict_get (snd r) ''MetricDataType''),
                               (''metric_type'', dict_get (snd r) ''MetricType'')]))
           (if json_truthy mid then Some (py_str mid) else (case fst r of JStr u \<Rightarrow> Some (report_type u) | _ \<Rightarrow> None)))"

definition load_metric_definitions :: "bmc \<Rightarrow> json dict option option" where
  "load_metric_definitions get =
     do {
       rs \<leftarrow> member_resources get MAX_DEFINITIONS (JStr (TELEMETRY_ROOT @ ''/MetricDefinitions''));
       es \<leftarrow> those (map definition_entry rs);
       Some (if es = [] then None else Some (dict_update [] es))
     }"

section \<open>The enricher\<close>

record enricher_config =
  ec_refresh :: duration
  ec_exclude_aggregates :: bool
  ec_gpus_per_system :: int
  ec_regex :: regex
  ec_location :: location_config

text \<open>The placement columns of the targets, and their discovered reports.\<close>

record enrich_db =
  en_hall :: hall_db
  en_auto :: "target_id \<Rightarrow> bool"
  en_reports :: "target_id \<rightharpoonup> (string \<times> string) list"

definition needs_discovery :: "enrich_db \<Rightarrow> target_id \<Rightarrow> bool" where
  "needs_discovery db tid \<longleftrightarrow> en_auto db tid \<and> (en_reports db tid = None \<or> en_reports db tid = Some [])"

definition set_discovered_reports :: "target_id \<Rightarrow> (string \<times> string) list \<Rightarrow> enrich_db \<Rightarrow> enrich_db" where
  "set_discovered_reports tid reports db =
     (if map_of (en_hall db) tid = None then db
      else db\<lparr>en_reports := (en_reports db)(tid := (if reports = [] then None else Some reports))\<rparr>)"

definition discover_reports :: "enricher_config \<Rightarrow> bmc \<Rightarrow> target_id \<Rightarrow> enrich_db \<Rightarrow> enrich_db" where
  "discover_reports cfg get tid db =
     (if \<not> en_auto db tid then db
      else (case discover_metric_reports get (ec_exclude_aggregates cfg) of
              Some (Some reports) \<Rightarrow> set_discovered_reports tid reports db
            | _ \<Rightarrow> db))"

text \<open>One target; \<open>None\<close> for the BMC means that the connection test failed. An exception leaves the target for the next pass.\<close>

definition enrich_target :: "enricher_config \<Rightarrow> instant \<Rightarrow> bmc option \<Rightarrow> target_id \<times> hall_target \<Rightarrow> enrich_db \<Rightarrow> enrich_db" where
  "enrich_target cfg now bmc_opt t db =
     (case bmc_opt of
        None \<Rightarrow> db
      | Some get \<Rightarrow>
          (case collect_inventory get (default_unit_type (ec_location cfg)) (ec_gpus_per_system cfg) of
             None \<Rightarrow> db
           | Some found \<Rightarrow>
               (let db1 = discover_reports cfg get (fst t) db
                in case found of
                     None \<Rightarrow> db1
                   | Some v \<Rightarrow>
                       db1\<lparr>en_hall := apply_inventory (ec_regex cfg) (ec_location cfg) now (fst t) (snd t) (to_inventory v) (en_hall db1)\<rparr>)))"

text \<open>\<open>active\<close> is what \<open>get_active_targets\<close> answers; the targets are taken in order.\<close>

definition run_pass ::
  "enricher_config \<Rightarrow> instant \<Rightarrow> (target_id \<Rightarrow> bmc option) \<Rightarrow> (target_id \<times> hall_target) list \<Rightarrow> enrich_db \<Rightarrow> enrich_db" where
  "run_pass cfg now bmcs active db =
     fold (\<lambda>t. enrich_target cfg now (bmcs (fst t)) t)
       (filter (\<lambda>(tid, t). is_due (ec_refresh cfg) now t \<or> needs_discovery db tid) active) db"

section \<open>Discovery\<close>

lemma length_members_slice: "members_slice n c = Some ms \<Longrightarrow> length ms \<le> n"
  by (auto simp: members_slice_def Let_def split: if_splits json.splits)

lemma report_members_facts:
  "report_members ms = Some rs \<Longrightarrow> length rs \<le> length ms \<and> (\<forall>(u, ty) \<in> set rs. ty = report_type u \<and> u \<noteq> [])"
  by (induction ms arbitrary: rs) (auto split: if_splits json.splits)

lemma minute_is_min: "contains s ''minute'' \<Longrightarrow> contains s ''min''"
proof -
  assume "contains s ''minute''"
  then obtain u v where "s = u @ ''minute'' @ v" by (auto simp: contains_iff)
  then have "s = u @ ''min'' @ (''ute'' @ v)" by simp
  then show "contains s ''min''" unfolding contains_iff by blast
qed

lemma minute_is_statistical: "contains (py_lower rt) ''minute'' \<Longrightarrow> is_statistical_aggregate rt"
  by (simp add: is_statistical_aggregate_def STAT_FUNC_TOKENS_def TIME_WINDOW_TOKENS_def minute_is_min)

text \<open>
  Discovery reports each listed report once per listing, at most 64, under the last part of its
  address, the aggregating ones after all others and both in the order of the listing. With the
  default setting it drops every report whose name contains \<open>minute\<close>, whether or not it names a statistic: the name of
  the time window contains the token \<open>min\<close>.
\<close>

lemma discovered_reports_exact:
  assumes "discover_metric_reports get exclude = Some (Some rs)"
  shows "\<exists>listed. length listed \<le> 64 \<and> (\<forall>(u, ty) \<in> set listed. ty = report_type u)
    \<and> filter (\<lambda>(_, ty). \<not> aggregate_report ty) rs = filter (\<lambda>(_, ty). \<not> aggregate_report ty \<and> \<not> (exclude \<and> is_statistical_aggregate ty)) listed
    \<and> filter (\<lambda>(_, ty). aggregate_report ty) rs = filter (\<lambda>(_, ty). aggregate_report ty \<and> \<not> (exclude \<and> is_statistical_aggregate ty)) listed
    \<and> sorted (map (\<lambda>(_, ty). aggregate_report ty) rs)
    \<and> (exclude \<longrightarrow> (\<forall>(u, ty) \<in> set rs. \<not> contains (py_lower ty) ''minute''))"
proof -
  obtain c ms listed where c: "members_slice MAX_REPORTS c = Some ms" and l: "report_members ms = Some listed"
    and rs: "rs = sort_key (\<lambda>(_, ty). aggregate_report ty) (filter (\<lambda>(_, ty). \<not> (exclude \<and> is_statistical_aggregate ty)) listed)"
    using assms by (auto simp: discover_metric_reports_def Let_def split: option.splits Option.bind_splits if_splits)
  have "length listed \<le> 64" "\<forall>(u, ty) \<in> set listed. ty = report_type u"
    using report_members_facts [OF l] length_members_slice [OF c] by (auto simp: MAX_REPORTS_def)
  moreover have "filter (\<lambda>x. (case x of (_, ty) \<Rightarrow> aggregate_report ty) = b) rs
      = filter (\<lambda>x. (case x of (_, ty) \<Rightarrow> aggregate_report ty) = b) (filter (\<lambda>(_, ty). \<not> (exclude \<and> is_statistical_aggregate ty)) listed)" for b
    unfolding rs by (rule sort_key_stable)
  then have "filter (\<lambda>(_, ty). aggregate_report ty = b) rs
      = filter (\<lambda>(_, ty). aggregate_report ty = b \<and> \<not> (exclude \<and> is_statistical_aggregate ty)) listed" for b
    by (simp add: case_prod_unfold conj_commute)
  from this [of False] this [of True]
  have "filter (\<lambda>(_, ty). \<not> aggregate_report ty) rs = filter (\<lambda>(_, ty). \<not> aggregate_report ty \<and> \<not> (exclude \<and> is_statistical_aggregate ty)) listed"
    "filter (\<lambda>(_, ty). aggregate_report ty) rs = filter (\<lambda>(_, ty). aggregate_report ty \<and> \<not> (exclude \<and> is_statistical_aggregate ty)) listed"
    by simp_all
  moreover have "sorted (map (\<lambda>(_, ty). aggregate_report ty) rs)" unfolding rs by (rule sorted_sort_key)
  moreover have "exclude \<longrightarrow> (\<forall>(u, ty) \<in> set rs. \<not> contains (py_lower ty) ''minute'')"
    unfolding rs by (auto dest: minute_is_statistical)
  ultimately show ?thesis by blast
qed

section \<open>An empty inventory\<close>

lemma silent_bmc:
  assumes "\<forall>u. get u = None"
  shows "collect_inventory get unit n
    = Some (if n = 0 then None else Some (no_inventory\<lparr>iv_gpu_count := JInt n\<rparr>))"
proof -
  have "nonempty_resource get v = None" for v
    using assms by (auto simp: nonempty_resource_def get_resource_def split: json.splits)
  then have m: "member_resources get k v = Some []" for k v by (simp add: member_resources_def)
  have v: "iv_gpu_count no_inventory = JNull" "iv_height_mm no_inventory = JNull" "has_data no_inventory = False"
    "has_data (no_inventory\<lparr>iv_gpu_count := JInt n\<rparr>)" "no_inventory\<lparr>iv_firmware := JNull\<rparr> = no_inventory"
    by (simp_all add: no_inventory_def has_data_def inventory_fields_def)
  show ?thesis
    by (simp add: collect_inventory_def first_member_resource_def m collect_firmware_def dict_update_def Let_def
        derive_height_u_def v map_filter_def)
qed

text \<open>
  When a BMC passes the connection test and then serves nothing, the configured number of
  GPUs is stored as its inventory, read from the BMC as of now. With a positive refresh interval it is not asked again
  before that has passed, with none it never is, unless its reports are still to be discovered.
\<close>

lemma empty_inventory_recorded:
  assumes "\<forall>u. get u = None" "ec_gpus_per_system cfg \<noteq> 0" "map_of (en_hall db) tid = Some t"
  shows "\<exists>t'. map_of (en_hall (enrich_target cfg now (Some get) (tid, t) db)) tid = Some t'
    \<and> ht_inventory_source t' = Some ''redfish'' \<and> ht_inventory_updated_at t' = Some now
    \<and> (\<forall>later. later < now + ec_refresh cfg \<or> ec_refresh cfg \<le> 0 \<longrightarrow> \<not> is_due (ec_refresh cfg) later t')"
proof -
  let ?v = "no_inventory\<lparr>iv_gpu_count := JInt (ec_gpus_per_system cfg)\<rparr>"
  have "discover_reports cfg get tid db = db"
    using assms(1) by (simp add: discover_reports_def discover_metric_reports_def nonempty_resource_def get_resource_def)
  then have "en_hall (enrich_target cfg now (Some get) (tid, t) db)
      = apply_inventory (ec_regex cfg) (ec_location cfg) now tid t (to_inventory ?v) (en_hall db)"
    using assms(1,2) by (simp add: enrich_target_def silent_bmc)
  moreover have "\<exists>t'. map_of (apply_inventory (ec_regex cfg) (ec_location cfg) now tid t (to_inventory ?v) (en_hall db)) tid = Some t'
      \<and> ht_inventory_source t' = Some ''redfish'' \<and> ht_inventory_updated_at t' = Some now"
    using assms(3)
    by (simp add: apply_inventory_def to_inventory_def no_inventory_def Let_def set_target_inventory_def with_target_def table_simps)
  ultimately show ?thesis by (auto simp: is_due_def)
qed

definition demo_enricher :: enricher_config where
  "demo_enricher =
     \<lparr>ec_refresh = 1000, ec_exclude_aggregates = True, ec_gpus_per_system = 8,
      ec_regex = \<lparr>re_match = \<lambda>_ _. NoMatch, re_fullmatch = \<lambda>_ _. NoMatch\<rparr>,
      ec_location = \<lparr>rack_height_u = 42, default_system_height_u = 8, default_unit_type = ''EIA_310'', name_patterns = [], token_rules = []\<rparr>\<rparr>"

definition demo_hall_target :: hall_target where
  "demo_hall_target =
     \<lparr>ht_name = ''a'', ht_host = ''10.0.0.1'', ht_last_poll_status = None, ht_loc = no_placement, ht_inventory = None,
      ht_inventory_source = None, ht_inventory_updated_at = None, ht_location_check = None\<rparr>"

definition demo_enrich_db :: enrich_db where
  "demo_enrich_db = \<lparr>en_hall = [(1, demo_hall_target)], en_auto = \<lambda>_. True, en_reports = Map.empty\<rparr>"

lemma empty_inventory_recorded_witness:
  "\<exists>t'. map_of (en_hall (enrich_target demo_enricher 5 (Some (\<lambda>_. None)) (1, demo_hall_target) demo_enrich_db)) 1 = Some t'
     \<and> ht_inventory_updated_at t' = Some 5 \<and> \<not> is_due 1000 1004 t'"
proof -
  have cfg: "ec_gpus_per_system demo_enricher \<noteq> 0" "ec_refresh demo_enricher = 1000" by (simp_all add: demo_enricher_def)
  have "map_of (en_hall demo_enrich_db) 1 = Some demo_hall_target" by (simp add: demo_enrich_db_def)
  from empty_inventory_recorded [of "\<lambda>_. None", OF _ cfg(1) this, of 5] cfg(2) show ?thesis by auto
qed

definition demo_reports :: bmc where
  "demo_reports u =
     (if u = ''/redfish/v1/TelemetryService/MetricReports''
      then Some (JObj [(''Members'', JList [JObj [(''@odata.id'', JStr ''/r/All'')], JObj [(''@odata.id'', JStr ''/r/PowerPerMinute'')],
             JObj [(''@odata.id'', JStr ''/r/Fans/'')]])]) else None)"

lemma discovered_reports_exact_witness:
  "discover_metric_reports demo_reports True = Some (Some [(''/r/Fans/'', ''Fans''), (''/r/All'', ''All'')])
   \<and> sorted (map (\<lambda>(_, ty). aggregate_report ty) [(''/r/Fans/'', ''Fans''), (''/r/All'', ''All'')])"
proof -
  have "discover_metric_reports demo_reports True = Some (Some [(''/r/Fans/'', ''Fans''), (''/r/All'', ''All'')])" by code_simp
  with discovered_reports_exact [OF this] show ?thesis by blast
qed

end
