(* ===== verification/App_Config.thy ===== *)
theory App_Config
  imports Shard_Manager Log_Collection Web_Auth
begin

text \<open>
  The configuration of the collector, \<open>collector/src/config.py\<close>: the sections of \<open>config.yaml\<close> with their
  defaults and constraints, the expansion of environment variables in the file, the environment settings that
  override the file, the identity of the process and the secret it shares with the API process; and the checks
  \<open>run\<close> of \<open>collector_main.py\<close> makes before it starts the service. The YAML reader together with pydantic's
  conversion of a value to the type of its field, the environment, the password hash and the host name are
  arguments. Durations of the sharding section count microseconds, other times are in the unit of their name.
\<close>

section \<open>The sections of the file\<close>

record polling_config =
  pol_interval_seconds :: int
  pol_timeout_seconds :: int
  pol_max_concurrent :: int
  pol_task_poll_interval :: int
  pol_task_timeout :: int
  pol_error_retry_interval :: int
  pol_download_timeout :: int

definition default_polling :: polling_config where
  "default_polling =
     \<lparr>pol_interval_seconds = 300, pol_timeout_seconds = 30, pol_max_concurrent = 10, pol_task_poll_interval = 5,
      pol_task_timeout = 300, pol_error_retry_interval = 10, pol_download_timeout = 300\<rparr>"

definition default_collect_body :: "string dict" where
  "default_collect_body = [(''DiagnosticDataType'', ''OEM''), (''OEMDiagnosticDataType'', ''AllLogs'')]"

text \<open>Addresses and types of the metric reports.\<close>

type_synonym metric_report_config = "string \<times> string"

definition default_metric_reports :: "metric_report_config list" where
  "default_metric_reports =
     map (\<lambda>(n, t). (''/redfish/v1/TelemetryService/MetricReports/'' @ n, t))
       [(''OAM_ProcessorMetrics_0'', ''processor''), (''OAM_MemoryMetrics_0'', ''memory''),
        (''OAM_ProcessorPortMetrics_0'', ''interconnect''), (''PlatformSensorsMetrics_0'', ''platform''),
        (''HealthRollup'', ''health''), (''All'', ''comprehensive'')]"

record redfish_section =
  rf_collect_endpoint :: string
  rf_collect_body :: "string dict"
  rf_cleanup_task_on_success :: bool
  rf_metric_reports :: "metric_report_config list"

definition default_redfish :: redfish_section where
  "default_redfish =
     \<lparr>rf_collect_endpoint = ''/redfish/v1/Systems/UBB/LogServices/DiagLogs/Actions/LogService.CollectDiagnosticData'',
      rf_collect_body = default_collect_body, rf_cleanup_task_on_success = True,
      rf_metric_reports = default_metric_reports\<rparr>"

record influxdb_config =
  inf_url :: string
  inf_org :: string
  inf_bucket :: string
  inf_batch_size :: int
  inf_flush_interval_seconds :: int
  inf_write_timeout_ms :: int
  inf_max_concurrent_writes :: int
  inf_verify_ssl :: bool

definition default_influxdb :: influxdb_config where
  "default_influxdb =
     \<lparr>inf_url = ''http://influxdb:8086'', inf_org = ''prometheus'', inf_bucket = ''gpu_metrics'', inf_batch_size = 1000,
      inf_flush_interval_seconds = 10, inf_write_timeout_ms = 90000, inf_max_concurrent_writes = 5, inf_verify_ssl = False\<rparr>"

record auth_config =
  auth_username :: string
  auth_password_hash :: string

definition default_auth :: auth_config where
  "default_auth = \<lparr>auth_username = ''admin'', auth_password_hash = DEFAULT_HASH\<rparr>"

record ui_config =
  ui_port :: int
  ui_host :: string
  ui_auth :: auth_config

definition default_ui :: ui_config where
  "default_ui = \<lparr>ui_port = 8080, ui_host = ''0.0.0.0'', ui_auth = default_auth\<rparr>"

record blob_config =
  blob_temp_dir :: string
  blob_cleanup_after_parse :: bool
  blob_max_size :: int
  blob_cleanup_max_age_seconds :: int

definition default_blob :: blob_config where
  "default_blob =
     \<lparr>blob_temp_dir = ''/tmp/telemetry'', blob_cleanup_after_parse = True, blob_max_size = 104857600,
      blob_cleanup_max_age_seconds = 3600\<rparr>"

record collected_logs_config =
  cl_storage_dir :: string
  cl_retention_days :: int
  cl_cleanup_interval_hours :: int
  cl_max_concurrent_collections :: int
  cl_task_timeout :: int
  cl_download_timeout :: int

definition default_collected_logs :: collected_logs_config where
  "default_collected_logs =
     \<lparr>cl_storage_dir = ''/app/data/collected_logs'', cl_retention_days = 30, cl_cleanup_interval_hours = 6,
      cl_max_concurrent_collections = 5, cl_task_timeout = 600, cl_download_timeout = 600\<rparr>"

record sse_config =
  sse_default_endpoint :: string
  sse_reconnect_delay :: int
  sse_max_reconnect_delay :: int
  sse_connection_timeout :: int

definition default_sse :: sse_config where
  "default_sse =
     \<lparr>sse_default_endpoint = ''/redfish/v1/EventService/SSE'', sse_reconnect_delay = 5, sse_max_reconnect_delay = 300,
      sse_connection_timeout = 30\<rparr>"

record logging_config =
  log_level :: string
  log_format :: string

definition default_logging :: logging_config where
  "default_logging =
     \<lparr>log_level = ''INFO'', log_format = ''%(asctime)s - %(name)s - %(levelname)s - %(message)s''\<rparr>"

record parser_config =
  par_max_recursion_depth :: int
  par_max_concurrent_processors :: int

definition default_parser :: parser_config where
  "default_parser = \<lparr>par_max_recursion_depth = 50, par_max_concurrent_processors = 4\<rparr>"

subsection \<open>Alerts\<close>

record alerts_config =
  al_enabled :: bool
  al_sse_endpoint :: string
  al_webhook_base_url :: string
  al_enable_webhook_fallback :: bool
  al_force_webhook_mode :: bool
  al_event_types :: "string list"
  al_severities :: "string list"
  al_reconnect_delay :: int
  al_max_retry_duration_hours :: rat
  al_cooldown_duration_hours :: rat
  al_degraded_threshold_hours :: rat
  al_permanent_failure_retry_hours :: rat
  al_batch_size :: int
  al_batch_interval :: rat
  al_max_queue_size :: int
  al_retention_days :: int
  al_cleanup_interval_hours :: int
  al_max_alerts_per_minute :: int
  al_baseline_pull_enabled :: bool
  al_baseline_max_entries_per_log :: int
  al_baseline_repull_interval_minutes :: int
  al_cper_enrichment_enabled :: bool
  al_cper_poll_interval_seconds :: int
  al_cper_max_attempts :: int
  al_cper_batch_size :: int
  al_cper_concurrency :: int
  al_cper_per_target_concurrency :: int
  al_cper_maintenance_every_cycles :: int
  al_cper_attempt_cooldown_seconds :: int
  al_cper_fetch_timeout :: rat
  al_cper_retry_failed_interval_minutes :: int
  al_cper_decode_timeout :: rat
  al_cper_max_bytes :: int
  al_cper_convert_path :: string

definition default_alerts :: alerts_config where
  "default_alerts =
     \<lparr>al_enabled = True, al_sse_endpoint = ''/redfish/v1/EventService/SSE'',
      al_webhook_base_url = ''http://localhost:8081/redfish-webhook'', al_enable_webhook_fallback = True,
      al_force_webhook_mode = False, al_event_types = [''Alert'', ''StatusChange''],
      al_severities = [''Critical'', ''Warning''], al_reconnect_delay = 30, al_max_retry_duration_hours = 24,
      al_cooldown_duration_hours = 6, al_degraded_threshold_hours = 1, al_permanent_failure_retry_hours = 6,
      al_batch_size = 100, al_batch_interval = 5, al_max_queue_size = 10000, al_retention_days = 30,
      al_cleanup_interval_hours = 6, al_max_alerts_per_minute = 100, al_baseline_pull_enabled = True,
      al_baseline_max_entries_per_log = 200, al_baseline_repull_interval_minutes = 60,
      al_cper_enrichment_enabled = True, al_cper_poll_interval_seconds = 30, al_cper_max_attempts = 3,
      al_cper_batch_size = 20, al_cper_concurrency = 8, al_cper_per_target_concurrency = 1,
      al_cper_maintenance_every_cycles = 10, al_cper_attempt_cooldown_seconds = 60, al_cper_fetch_timeout = 60,
      al_cper_retry_failed_interval_minutes = 360, al_cper_decode_timeout = 15, al_cper_max_bytes = 8388608,
      al_cper_convert_path = ''/usr/local/bin/cper-convert''\<rparr>"

text \<open>\<open>_validate_severities\<close>: the texts of the two refusals are left out.\<close>

datatype severity_error = NoSeverities | BadSeverities "string list"

definition validate_severities :: "string list \<Rightarrow> severity_error + string list" where
  "validate_severities v =
     (let bad = filter (\<lambda>s. s \<notin> {''Critical'', ''Warning'', ''OK''}) v
      in if v = [] then Inl NoSeverities else if bad \<noteq> [] then Inl (BadSeverities bad) else Inr v)"

text \<open>The constraints \<open>gt=0\<close>, \<open>ge=0\<close> and \<open>ge=1\<close> of the fields, by name, with the validator of the severities.\<close>

definition alerts_errors :: "alerts_config \<Rightarrow> string list" where
  "alerts_errors c =
     map fst (filter (\<lambda>(n, ok). \<not> ok)
       [(''severities'', (case validate_severities (al_severities c) of Inl _ \<Rightarrow> False | Inr _ \<Rightarrow> True)),
        (''reconnect_delay'', 1 \<le> al_reconnect_delay c),
        (''permanent_failure_retry_hours'', 0 \<le> al_permanent_failure_retry_hours c),
        (''batch_size'', 0 < al_batch_size c),
        (''batch_interval'', 0 < al_batch_interval c),
        (''max_queue_size'', 0 < al_max_queue_size c),
        (''retention_days'', 0 < al_retention_days c),
        (''cleanup_interval_hours'', 0 < al_cleanup_interval_hours c),
        (''max_alerts_per_minute'', 0 < al_max_alerts_per_minute c),
        (''baseline_max_entries_per_log'', 0 < al_baseline_max_entries_per_log c),
        (''baseline_repull_interval_minutes'', 0 \<le> al_baseline_repull_interval_minutes c),
        (''cper_poll_interval_seconds'', 0 < al_cper_poll_interval_seconds c),
        (''cper_max_attempts'', 0 < al_cper_max_attempts c),
        (''cper_batch_size'', 0 < al_cper_batch_size c),
        (''cper_concurrency'', 0 < al_cper_concurrency c),
        (''cper_per_target_concurrency'', 0 < al_cper_per_target_concurrency c),
        (''cper_maintenance_every_cycles'', 0 < al_cper_maintenance_every_cycles c),
        (''cper_attempt_cooldown_seconds'', 0 \<le> al_cper_attempt_cooldown_seconds c),
        (''cper_fetch_timeout'', 0 < al_cper_fetch_timeout c),
        (''cper_retry_failed_interval_minutes'', 0 \<le> al_cper_retry_failed_interval_minutes c),
        (''cper_decode_timeout'', 0 < al_cper_decode_timeout c),
        (''cper_max_bytes'', 0 < al_cper_max_bytes c)])"

subsection \<open>Placement, inventory and policy\<close>

definition default_location_token_rules :: "(string \<times> string) list" where
  "default_location_token_rules =
     map (\<lambda>(f, prefix). (f, prefix @ ''('' @ [CHR 0x5C] @ ''d+)''))
       [(''hall'', ''dh''), (''hall'', ''hall''), (''row'', ''row''), (''rack'', ''rack''), (''rack'', ''r''), (''rack'', ''k''),
        (''rack_u'', ''ru''), (''rack_u'', ''u'')]"

definition validate_field :: "string \<Rightarrow> bool" where
  "validate_field v \<longleftrightarrow> v \<in> {''site'', ''hall'', ''row'', ''rack'', ''rack_u'', ''height''}"

record location_section = location_config +
  gpus_per_system :: int

definition default_location :: location_section where
  "default_location =
     \<lparr>rack_height_u = 48, default_system_height_u = 4, default_unit_type = ''OpenU'', name_patterns = [],
      token_rules = default_location_token_rules, gpus_per_system = 8\<rparr>"

definition location_errors :: "location_section \<Rightarrow> string list" where
  "location_errors c =
     map fst (filter (\<lambda>(n, ok). \<not> ok)
       [(''rack_height_u'', 0 < rack_height_u c), (''gpus_per_system'', 0 \<le> gpus_per_system c),
        (''default_system_height_u'', 0 < default_system_height_u c),
        (''token_rules'', list_all (\<lambda>r. validate_field (fst r)) (token_rules c))])"

record inventory_config =
  ic_enabled :: bool
  ic_collect_interval_seconds :: int
  ic_refresh_interval_hours :: rat
  ic_max_concurrent :: int
  ic_request_timeout :: int
  ic_exclude_aggregate_reports :: bool

definition default_inventory :: inventory_config where
  "default_inventory =
     \<lparr>ic_enabled = True, ic_collect_interval_seconds = 300, ic_refresh_interval_hours = 24, ic_max_concurrent = 8,
      ic_request_timeout = 30, ic_exclude_aggregate_reports = True\<rparr>"

definition inventory_errors :: "inventory_config \<Rightarrow> string list" where
  "inventory_errors c =
     map fst (filter (\<lambda>(n, ok). \<not> ok)
       [(''collect_interval_seconds'', 0 < ic_collect_interval_seconds c),
        (''refresh_interval_hours'', 0 \<le> ic_refresh_interval_hours c), (''max_concurrent'', 0 < ic_max_concurrent c),
        (''request_timeout'', 0 < ic_request_timeout c)])"

definition default_policy :: policy_config where
  "default_policy =
     \<lparr>pc_enabled = True, pc_operating_mode = ''Enabled'', pc_rearm_seconds = seconds 7200,
      pc_trigger_severities = [''Critical'', ''Fatal''], pc_trigger_message_ids = []\<rparr>"

definition policy_errors :: "policy_config \<Rightarrow> string list" where
  "policy_errors c = (if pc_rearm_seconds c < 0 then [''rearm_seconds''] else [])"

subsection \<open>The whole file\<close>

record app_config =
  cfg_polling :: polling_config
  cfg_redfish :: redfish_section
  cfg_sse :: sse_config
  cfg_alerts :: alerts_config
  cfg_influxdb :: influxdb_config
  cfg_ui :: ui_config
  cfg_blob :: blob_config
  cfg_collected_logs :: collected_logs_config
  cfg_logging :: logging_config
  cfg_parser :: parser_config
  cfg_location :: location_section
  cfg_inventory :: inventory_config
  cfg_policy :: policy_config
  cfg_sharding :: shard_config

definition default_app_config :: app_config where
  "default_app_config =
     \<lparr>cfg_polling = default_polling, cfg_redfish = default_redfish, cfg_sse = default_sse, cfg_alerts = default_alerts,
      cfg_influxdb = default_influxdb, cfg_ui = default_ui, cfg_blob = default_blob,
      cfg_collected_logs = default_collected_logs, cfg_logging = default_logging, cfg_parser = default_parser,
      cfg_location = default_location, cfg_inventory = default_inventory, cfg_policy = default_policy,
      cfg_sharding = default_shard_config\<rparr>"

definition sharding_errors :: "shard_config \<Rightarrow> string list" where
  "sharding_errors c = (case validate_shard_config c of Inl _ \<Rightarrow> [''sharding''] | Inr _ \<Rightarrow> [])"

text \<open>What \<open>AppConfig(**yaml)\<close> refuses, once every value has the type of its field.\<close>

definition config_errors :: "app_config \<Rightarrow> string list" where
  "config_errors c =
     alerts_errors (cfg_alerts c) @ location_errors (cfg_location c) @ inventory_errors (cfg_inventory c)
     @ policy_errors (cfg_policy c) @ sharding_errors (cfg_sharding c)"

section \<open>Environment variables in the file\<close>

text \<open>
  \<open>os.path.expandvars\<close>: a reference is \<open>$\<close> followed by a word of ASCII letters, digits and \<open>_\<close>, or by a name in
  braces; one that is not set stays as it is written, and a value is not expanded again.
\<close>

definition word_char :: "char \<Rightarrow> bool" where
  "word_char c \<longleftrightarrow> (let n = (of_char c :: nat) in 48 \<le> n \<and> n \<le> 57 \<or> 65 \<le> n \<and> n \<le> 90 \<or> 97 \<le> n \<and> n \<le> 122 \<or> n = 95)"

text \<open>After a dollar sign: the name, the reference as written, and the text behind it.\<close>

definition var_ref :: "string \<Rightarrow> (string \<times> string \<times> string) option" where
  "var_ref s =
     (case s of
        [] \<Rightarrow> None
      | c # r \<Rightarrow>
          if word_char c then Some (takeWhile word_char s, takeWhile word_char s, dropWhile word_char s)
          else if c = CHR ''{'' \<and> CHR ''}'' \<in> set r then
            (let n = takeWhile (\<lambda>x. x \<noteq> CHR ''}'') r
             in Some (n, ''{'' @ n @ ''}'', tl (dropWhile (\<lambda>x. x \<noteq> CHR ''}'') r)))
          else None)"

lemma var_ref_shorter: "var_ref s = Some (n, w, rest) \<Longrightarrow> length rest < Suc (length s)"
  using length_dropWhile_le [of word_char s] length_dropWhile_le [of "\<lambda>x. x \<noteq> CHR ''}''" "tl s"]
  by (auto simp: var_ref_def Let_def split: list.splits if_splits)

function expandvars :: "(string \<Rightarrow> string option) \<Rightarrow> string \<Rightarrow> string" where
  "expandvars env [] = []"
| "expandvars env (c # s) =
     (if c \<noteq> CHR ''$'' then c # expandvars env s
      else (case var_ref s of
              None \<Rightarrow> c # expandvars env s
            | Some (n, w, rest) \<Rightarrow>
                (case env n of Some v \<Rightarrow> v | None \<Rightarrow> c # w) @ expandvars env rest))"
  by pat_completeness auto
termination
  by (relation "measure (\<lambda>(env, s). length s)") (auto dest: var_ref_shorter)

text \<open>The references in braces that are left: \<open>re.findall\<close> with a dollar sign, a brace, and at least one character before the next closing brace.\<close>

function residual :: "string \<Rightarrow> string list" where
  "residual [] = []"
| "residual (c # s) =
     (if c = CHR ''$'' then
        (case var_ref s of
           Some (n, w, rest) \<Rightarrow> if hd w = CHR ''{'' \<and> n \<noteq> [] then (c # w) # residual rest else residual s
         | None \<Rightarrow> residual s)
      else residual s)"
  by pat_completeness auto
termination
  by (relation "measure length") (auto dest: var_ref_shorter)

datatype load_error = Unresolved "string list" | Bad_File | Invalid_Config "string list" | Bad_Password

text \<open>The file, if there is one, as the text handed to the YAML reader; \<open>Inr None\<close> is a missing file.\<close>

definition load_yaml_config :: "(string \<Rightarrow> string option) \<Rightarrow> string option \<Rightarrow> load_error + string option" where
  "load_yaml_config env f =
     (case f of
        None \<Rightarrow> Inr None
      | Some content \<Rightarrow>
          (let expanded = expandvars env content; left = residual expanded
           in if left \<noteq> [] then Inl (Unresolved (sorted_set left)) else Inr (Some expanded)))"

section \<open>Settings from the environment\<close>

record settings =
  st_influxdb_url :: string
  st_influxdb_token :: string
  st_influxdb_org :: string
  st_influxdb_bucket :: string
  st_influxdb_batch_size :: int
  st_influxdb_write_timeout_ms :: int
  st_influxdb_max_concurrent_writes :: int
  st_influxdb_flush_interval_seconds :: int
  st_alert_webhook_base_url :: string
  st_alert_enable_webhook_fallback :: "bool option"
  st_alert_force_webhook_mode :: bool
  st_collector_sharding :: "bool option"
  st_collector_id :: string
  st_max_targets_per_shard :: int
  st_collector_balance :: string
  st_ui_username :: string
  st_ui_password :: string
  st_database_url :: string
  st_alerts_database_url :: string
  st_encryption_key :: string
  st_config_path :: string
  st_schema_path :: string

definition default_settings :: settings where
  "default_settings =
     \<lparr>st_influxdb_url = [], st_influxdb_token = [], st_influxdb_org = [], st_influxdb_bucket = [],
      st_influxdb_batch_size = 0, st_influxdb_write_timeout_ms = 0, st_influxdb_max_concurrent_writes = 0,
      st_influxdb_flush_interval_seconds = 0, st_alert_webhook_base_url = [], st_alert_enable_webhook_fallback = None,
      st_alert_force_webhook_mode = False, st_collector_sharding = None, st_collector_id = [],
      st_max_targets_per_shard = 0, st_collector_balance = [], st_ui_username = [], st_ui_password = [],
      st_database_url = ''sqlite:///data/targets.db'', st_alerts_database_url = [], st_encryption_key = [],
      st_config_path = ''/app/config/config.yaml'', st_schema_path = ''/app/config/metrics_schema.yaml''\<rparr>"

definition nonempty_or :: "string \<Rightarrow> string \<Rightarrow> string" where
  "nonempty_or s old = (if s \<noteq> [] then s else old)"

definition positive_or :: "int \<Rightarrow> int \<Rightarrow> int" where
  "positive_or n old = (if n > 0 then n else old)"

definition override_influxdb :: "settings \<Rightarrow> influxdb_config \<Rightarrow> influxdb_config" where
  "override_influxdb s c =
     c\<lparr>inf_url := nonempty_or (st_influxdb_url s) (inf_url c),
       inf_org := nonempty_or (st_influxdb_org s) (inf_org c),
       inf_bucket := nonempty_or (st_influxdb_bucket s) (inf_bucket c),
       inf_batch_size := positive_or (st_influxdb_batch_size s) (inf_batch_size c),
       inf_write_timeout_ms := positive_or (st_influxdb_write_timeout_ms s) (inf_write_timeout_ms c),
       inf_max_concurrent_writes := positive_or (st_influxdb_max_concurrent_writes s) (inf_max_concurrent_writes c),
       inf_flush_interval_seconds := positive_or (st_influxdb_flush_interval_seconds s) (inf_flush_interval_seconds c)\<rparr>"

definition override_alerts :: "settings \<Rightarrow> alerts_config \<Rightarrow> alerts_config" where
  "override_alerts s c =
     c\<lparr>al_webhook_base_url := nonempty_or (st_alert_webhook_base_url s) (al_webhook_base_url c),
       al_enable_webhook_fallback :=
         (case st_alert_enable_webhook_fallback s of Some b \<Rightarrow> b | None \<Rightarrow> al_enable_webhook_fallback c),
       al_force_webhook_mode := (st_alert_force_webhook_mode s \<or> al_force_webhook_mode c)\<rparr>"

text \<open>A value of \<open>COLLECTOR_BALANCE\<close> that names no strategy is logged and ignored.\<close>

definition read_balance :: "string \<Rightarrow> balance \<Rightarrow> balance" where
  "read_balance s old = (if s = ''static'' then Static else if s = ''dynamic'' then Dynamic else old)"

definition override_sharding :: "settings \<Rightarrow> shard_config \<Rightarrow> shard_config" where
  "override_sharding s c =
     c\<lparr>sc_enabled := (case st_collector_sharding s of Some b \<Rightarrow> b | None \<Rightarrow> sc_enabled c),
       max_targets_per_shard := positive_or (st_max_targets_per_shard s) (max_targets_per_shard c),
       balance := read_balance (st_collector_balance s) (balance c)\<rparr>"

text \<open>\<open>hashpw\<close> is \<open>bcrypt.hashpw\<close> with a new salt; \<open>None\<close> is its refusal of a password.\<close>

definition override_auth :: "(string \<Rightarrow> string option) \<Rightarrow> settings \<Rightarrow> auth_config \<Rightarrow> auth_config option" where
  "override_auth hashpw s c =
     (let c1 = c\<lparr>auth_username := nonempty_or (st_ui_username s) (auth_username c)\<rparr>
      in if st_ui_password s = [] then Some c1
         else map_option (\<lambda>h. c1\<lparr>auth_password_hash := h\<rparr>) (hashpw (st_ui_password s)))"

definition override_config :: "(string \<Rightarrow> string option) \<Rightarrow> settings \<Rightarrow> app_config \<Rightarrow> app_config option" where
  "override_config hashpw s c =
     map_option (\<lambda>a. c\<lparr>cfg_influxdb := override_influxdb s (cfg_influxdb c),
                      cfg_alerts := override_alerts s (cfg_alerts c),
                      cfg_sharding := override_sharding s (cfg_sharding c),
                      cfg_ui := (cfg_ui c)\<lparr>ui_auth := a\<rparr>\<rparr>)
       (override_auth hashpw s (ui_auth (cfg_ui c)))"

section \<open>Loading\<close>

text \<open>
  What loading reads: the environment, the files, the YAML reader with the conversion of its values
  (\<open>None\<close> when one of them raises, \<open>Some None\<close> for a file that says nothing), and the password hash.
\<close>

record load_env =
  le_environ :: "string \<Rightarrow> string option"
  le_files :: "string \<Rightarrow> string option"
  le_read :: "string \<Rightarrow> app_config option option"
  le_hashpw :: "string \<Rightarrow> string option"

definition read_config :: "load_env \<Rightarrow> settings \<Rightarrow> load_error + app_config" where
  "read_config env s =
     (case load_yaml_config (le_environ env) (le_files env (st_config_path s)) of
        Inl e \<Rightarrow> Inl e
      | Inr None \<Rightarrow> Inr default_app_config
      | Inr (Some content) \<Rightarrow>
          (case le_read env content of
             None \<Rightarrow> Inl Bad_File
           | Some None \<Rightarrow> Inr default_app_config
           | Some (Some raw) \<Rightarrow> if config_errors raw \<noteq> [] then Inl (Invalid_Config (config_errors raw)) else Inr raw))"

definition load_config :: "load_env \<Rightarrow> settings \<Rightarrow> load_error + app_config \<times> settings" where
  "load_config env s =
     (case read_config env s of
        Inl e \<Rightarrow> Inl e
      | Inr c \<Rightarrow> (case override_config (le_hashpw env) s c of None \<Rightarrow> Inl Bad_Password | Some c' \<Rightarrow> Inr (c', s)))"

text \<open>\<open>get_config\<close> and \<open>get_settings\<close> load once; a load that raises is tried again by the next call.\<close>

type_synonym config_cache = "(app_config \<times> settings) option"

definition get_loaded ::
  "load_error + app_config \<times> settings \<Rightarrow> config_cache \<Rightarrow> (load_error + app_config \<times> settings) \<times> config_cache" where
  "get_loaded load cache =
     (case cache of
        Some p \<Rightarrow> (Inr p, cache)
      | None \<Rightarrow> (case load of Inl e \<Rightarrow> (Inl e, None) | Inr p \<Rightarrow> (Inr p, Some p)))"

definition get_config :: "load_error + app_config \<times> settings \<Rightarrow> config_cache \<Rightarrow> (load_error + app_config) \<times> config_cache" where
  "get_config load cache = (case get_loaded load cache of (r, c) \<Rightarrow> (map_sum id fst r, c))"

definition get_settings :: "load_error + app_config \<times> settings \<Rightarrow> config_cache \<Rightarrow> (load_error + settings) \<times> config_cache" where
  "get_settings load cache = (case get_loaded load cache of (r, c) \<Rightarrow> (map_sum id snd r, c))"

section \<open>Identity, shared secret and start-up checks\<close>

definition get_collector_id :: "settings \<Rightarrow> string \<Rightarrow> collector_id" where
  "get_collector_id s hostname = nonempty_or (st_collector_id s) hostname"

definition internal_service_token :: "settings \<Rightarrow> string option" where
  "internal_service_token s =
     (if st_encryption_key s = [] then None
      else Some (hexdigest (sha256 (utf8_encode (''gyanam-internal-v1:'' @ st_encryption_key s)))))"

datatype start_warning = No_Influx_Token | Loopback_Webhook

text \<open>\<open>run\<close>: \<open>None\<close> is \<open>sys.exit(1)\<close> before the service starts, otherwise the warnings it logs.\<close>

definition run_checks :: "app_config \<Rightarrow> settings \<Rightarrow> start_warning list option" where
  "run_checks c s =
     (if st_encryption_key s = [] then None
      else if al_enabled (cfg_alerts c) \<and> st_alerts_database_url s = [] then None
      else Some ((if st_influxdb_token s = [] then [No_Influx_Token] else [])
             @ (if al_enabled (cfg_alerts c) \<and> al_enable_webhook_fallback (cfg_alerts c)
                   \<and> list_ex (contains (al_webhook_base_url (cfg_alerts c))) [''localhost'', ''127.0.0.1'']
                then [Loopback_Webhook] else [])))"

section \<open>References in the file\<close>

definition braced :: "string \<Rightarrow> string" where
  "braced n = ''${'' @ n @ ''}''"

lemma brace_not_word [simp]: "\<not> word_char CHR ''{''" "\<not> word_char CHR ''$''" "\<not> word_char CHR ''}''"
  by code_simp+

lemma var_ref_braced [simp]:
  "CHR ''}'' \<notin> set n \<Longrightarrow> var_ref (CHR ''{'' # n @ CHR ''}'' # v) = Some (n, ''{'' @ n @ ''}'', v)"
  by (auto simp: var_ref_def Let_def takeWhile_append dropWhile_append)

lemma dropWhile_at: "x \<in> set r \<Longrightarrow> dropWhile (\<lambda>y. y \<noteq> x) r = x # tl (dropWhile (\<lambda>y. y \<noteq> x) r)"
  by (induction r) auto

lemma var_ref_split: "var_ref s = Some (n, w, rest) \<Longrightarrow> s = w @ rest \<and> w \<noteq> []"
  by (auto simp: var_ref_def Let_def dropWhile_at [symmetric] split: list.splits if_splits)

lemma var_ref_brace_iff:
  "(\<exists>w. var_ref s = Some (n, w, v) \<and> hd w = CHR ''{'') \<longleftrightarrow> s = CHR ''{'' # n @ CHR ''}'' # v \<and> CHR ''}'' \<notin> set n"
  (is "?l \<longleftrightarrow> ?r")
proof
  assume ?l
  then obtain r where r: "s = CHR ''{'' # r" "CHR ''}'' \<in> set r" "n = takeWhile (\<lambda>x. x \<noteq> CHR ''}'') r"
      "v = tl (dropWhile (\<lambda>x. x \<noteq> CHR ''}'') r)"
    by (auto simp: var_ref_def Let_def split: list.splits if_splits)
  have "takeWhile (\<lambda>x. x \<noteq> CHR ''}'') r @ CHR ''}'' # tl (dropWhile (\<lambda>x. x \<noteq> CHR ''}'') r) = r"
    using dropWhile_at [OF r(2)] takeWhile_dropWhile_id by metis
  then show ?r using r set_takeWhileD by fastforce
next
  assume ?r
  then show ?l by simp
qed

text \<open>The search finds a reference exactly when the text has one.\<close>

lemma residual_iff: "residual s \<noteq> [] \<longleftrightarrow> (\<exists>u n v. s = u @ braced n @ v \<and> n \<noteq> [] \<and> CHR ''}'' \<notin> set n)"
proof (induction s)
  case Nil
  then show ?case by (simp add: braced_def)
next
  case (Cons c s)
  show ?case
  proof (cases "c = CHR ''$'' \<and> (\<exists>n w v. var_ref s = Some (n, w, v) \<and> hd w = CHR ''{'' \<and> n \<noteq> [])")
    case True
    then obtain n w v where w: "c = CHR ''$''" "var_ref s = Some (n, w, v)" "hd w = CHR ''{''" "n \<noteq> []" by blast
    then have "s = CHR ''{'' # n @ CHR ''}'' # v \<and> CHR ''}'' \<notin> set n" using var_ref_brace_iff by blast
    then have "c # s = [] @ braced n @ v \<and> CHR ''}'' \<notin> set n" using w(1) by (simp add: braced_def)
    moreover have "residual (c # s) \<noteq> []" using w by simp
    ultimately show ?thesis using w(4) by blast
  next
    case False
    then have "residual (c # s) = residual s" by (auto split: option.splits)
    moreover have "(\<exists>u n v. c # s = u @ braced n @ v \<and> n \<noteq> [] \<and> CHR ''}'' \<notin> set n)
        \<longleftrightarrow> (\<exists>u n v. s = u @ braced n @ v \<and> n \<noteq> [] \<and> CHR ''}'' \<notin> set n)"
    proof
      assume "\<exists>u n v. c # s = u @ braced n @ v \<and> n \<noteq> [] \<and> CHR ''}'' \<notin> set n"
      then obtain u n v where uv: "c # s = u @ braced n @ v" "n \<noteq> []" "CHR ''}'' \<notin> set n" by blast
      have "u \<noteq> []"
      proof
        assume "u = []"
        then have "c = CHR ''$''" "var_ref s = Some (n, ''{'' @ n @ ''}'', v)" using uv by (simp_all add: braced_def)
        then show False using False uv(2) by simp
      qed
      then show "\<exists>u n v. s = u @ braced n @ v \<and> n \<noteq> [] \<and> CHR ''}'' \<notin> set n" using uv by (cases u) auto
    qed (metis append_Cons)
    ultimately show ?thesis using Cons.IH by simp
  qed
qed

text \<open>Text before a reference that opens no brace without closing it is expanded on its own.\<close>

definition no_open_brace :: "string \<Rightarrow> bool" where
  "no_open_brace u \<longleftrightarrow> (\<forall>a b. u = a @ ''${'' @ b \<longrightarrow> CHR ''}'' \<in> set b)"

lemma no_open_brace_suffix: "no_open_brace (a @ u) \<Longrightarrow> no_open_brace u"
  unfolding no_open_brace_def by (metis append_assoc)

lemma var_ref_dollar:
  assumes "no_open_brace (CHR ''$'' # s)"
  shows "var_ref (s @ CHR ''$'' # t) = map_option (\<lambda>(n, w, rest). (n, w, rest @ CHR ''$'' # t)) (var_ref s)"
proof (cases s)
  case (Cons c r)
  have "c = CHR ''{'' \<Longrightarrow> CHR ''}'' \<in> set r" using assms Cons unfolding no_open_brace_def by (auto dest: spec [of _ "[]"])
  moreover have "takeWhile word_char (r @ CHR ''$'' # t) = takeWhile word_char r"
      "dropWhile word_char (r @ CHR ''$'' # t) = dropWhile word_char r @ CHR ''$'' # t"
    by (induction r) auto
  moreover have "takeWhile (\<lambda>x. x \<noteq> CHR ''}'') (r @ CHR ''$'' # t) = takeWhile (\<lambda>x. x \<noteq> CHR ''}'') r \<and>
      tl (dropWhile (\<lambda>x. x \<noteq> CHR ''}'') (r @ CHR ''$'' # t)) = tl (dropWhile (\<lambda>x. x \<noteq> CHR ''}'') r) @ CHR ''$'' # t"
    if "CHR ''}'' \<in> set r" using that by (induction r) auto
  ultimately show ?thesis using Cons by (auto simp: var_ref_def Let_def)
qed (simp add: var_ref_def)

lemma expandvars_append:
  "no_open_brace u \<Longrightarrow> expandvars env (u @ CHR ''$'' # t) = expandvars env u @ expandvars env (CHR ''$'' # t)"
proof (induction env u rule: expandvars.induct)
  case (2 env c s)
  have tail: "no_open_brace s" using 2(4) no_open_brace_suffix [of "[c]" s] by simp
  show ?case
  proof (cases "c = CHR ''$''")
    case True
    have split: "var_ref (s @ CHR ''$'' # t) = map_option (\<lambda>(n, w, rest). (n, w, rest @ CHR ''$'' # t)) (var_ref s)"
      using var_ref_dollar 2(4) True by simp
    show ?thesis
    proof (cases "var_ref s")
      case None
      then show ?thesis using True split 2(2) tail by simp
    next
      case (Some x)
      then obtain n w rest where x: "var_ref s = Some (n, w, rest)" by (cases x) auto
      have "no_open_brace rest" using var_ref_split [OF x] tail no_open_brace_suffix by blast
      then show ?thesis using True split x 2(3) by simp
    qed
  next
    case False
    then show ?thesis using 2(1) tail by simp
  qed
qed simp

text \<open>
  A reference in braces to a variable that is not set stops the start: whatever surrounds it, unless an
  earlier brace is left open, loading raises and names the references that remain. And the text that does reach
  the YAML reader holds no reference in braces.
\<close>

lemma unset_variable_refused:
  assumes "no_open_brace u" "n \<noteq> []" "CHR ''}'' \<notin> set n" "env n = None"
  shows "(\<exists>names. load_yaml_config env (Some (u @ braced n @ v)) = Inl (Unresolved names) \<and> names \<noteq> [])
    \<and> (\<forall>t u' n' v'. load_yaml_config env f = Inr (Some t) \<and> n' \<noteq> [] \<and> CHR ''}'' \<notin> set n' \<longrightarrow> t \<noteq> u' @ braced n' @ v')"
proof -
  have "expandvars env (u @ braced n @ v) = expandvars env u @ braced n @ expandvars env v"
    using assms expandvars_append [OF assms(1), of env "CHR ''{'' # n @ CHR ''}'' # v"] by (simp add: braced_def)
  then have "residual (expandvars env (u @ braced n @ v)) \<noteq> []" using assms(2,3) unfolding residual_iff by metis
  then have "load_yaml_config env (Some (u @ braced n @ v)) = Inl (Unresolved (sorted_set (residual (expandvars env (u @ braced n @ v)))))
      \<and> sorted_set (residual (expandvars env (u @ braced n @ v))) \<noteq> []"
    by (simp add: load_yaml_config_def Let_def del: expandvars.simps residual.simps)
  moreover have "residual t = []" if "load_yaml_config env f = Inr (Some t)" for t
    using that by (auto simp: load_yaml_config_def Let_def split: option.splits if_splits)
  ultimately show ?thesis using residual_iff by blast
qed

definition sample_environ :: "string \<Rightarrow> string option" where
  "sample_environ = map_of [(''TOKEN'', ''t0''), (''NESTED'', ''${TOKEN}'')]"

lemma unset_variable_refused_witness:
  "\<exists>names. load_yaml_config sample_environ (Some (''url: '' @ braced ''URL'' @ '' # end'')) = Inl (Unresolved names) \<and> names \<noteq> []"
proof -
  have "no_open_brace ''url: ''" by (auto simp: no_open_brace_def append_eq_Cons_conv Cons_eq_append_conv)
  moreover have "sample_environ ''URL'' = None" by code_simp
  ultimately show ?thesis
    using unset_variable_refused [of "''url: ''" "''URL''" sample_environ "'' # end''" None, THEN conjunct1] by simp
qed

text \<open>A variable that is set is replaced; one written without braces and not set is kept as it stands, and a value
  that itself looks like a reference is refused.\<close>

lemma sample_loads:
  "load_yaml_config sample_environ (Some ''a: ${TOKEN} $TOKEN'') = Inr (Some ''a: t0 t0'')"
  "load_yaml_config sample_environ (Some ''a: $UNSET'') = Inr (Some ''a: $UNSET'')"
  "load_yaml_config sample_environ (Some ''a: ${NESTED}'') = Inl (Unresolved [''${TOKEN}''])"
  "load_yaml_config sample_environ None = Inr None"
  by code_simp+

section \<open>The loaded configuration\<close>

lemma default_config_valid: "config_errors default_app_config = []"
  by code_simp

lemma override_alerts_errors [simp]: "alerts_errors (override_alerts s c) = alerts_errors c"
  by (simp add: alerts_errors_def override_alerts_def)

lemma override_sharding_errors: "sharding_errors c = [] \<Longrightarrow> sharding_errors (override_sharding s c) = []"
  by (auto simp: sharding_errors_def validate_shard_config_def check_heartbeat_margin_def override_sharding_def
      positive_or_def split: if_splits)

lemma override_config_valid:
  "override_config hashpw s c = Some c' \<Longrightarrow> config_errors c = [] \<Longrightarrow> config_errors c' = []"
  by (auto simp: override_config_def config_errors_def override_sharding_errors)

text \<open>
  (C37) The settings of the environment are assigned to the sections without pydantic looking at them again, and
  still no value they can have breaks a constraint: every configuration the program runs with satisfies all
  field constraints, names only known severities and placement fields, and keeps the heartbeat margins of the
  sharding section (leases and membership outlive two claim intervals, membership no longer than a lease).
\<close>

theorem environment_keeps_config_valid:
  assumes "load_config env s = Inr (c, s')"
  shows "s' = s \<and> config_errors c = []
    \<and> al_severities (cfg_alerts c) \<noteq> [] \<and> set (al_severities (cfg_alerts c)) \<subseteq> {''Critical'', ''Warning'', ''OK''}
    \<and> 0 < al_max_queue_size (cfg_alerts c) \<and> 0 < al_batch_size (cfg_alerts c)
    \<and> 0 < max_targets_per_shard (cfg_sharding c) \<and> 0 < claim_interval (cfg_sharding c)
    \<and> 2 * claim_interval (cfg_sharding c) \<le> membership_ttl (cfg_sharding c)
    \<and> membership_ttl (cfg_sharding c) \<le> lease_ttl (cfg_sharding c)"
proof -
  obtain c0 where c0: "read_config env s = Inr c0" "override_config (le_hashpw env) s c0 = Some c" "s' = s"
    using assms by (auto simp: load_config_def split: sum.splits option.splits)
  have "config_errors c0 = []"
    using c0(1) default_config_valid by (auto simp: read_config_def split: sum.splits option.splits if_splits)
  then have ok: "config_errors c = []" using c0(2) override_config_valid by blast
  then have "alerts_errors (cfg_alerts c) = []" "sharding_errors (cfg_sharding c) = []"
    by (simp_all add: config_errors_def)
  then show ?thesis using ok c0(3)
    by (auto simp: alerts_errors_def validate_severities_def Let_def sharding_errors_def validate_shard_config_def
        check_heartbeat_margin_def filter_empty_conv split: if_splits sum.splits)
qed

definition sample_hash :: string where
  "sample_hash = ''$2b$12$abcdefghijklmnopqrstuvABCDEFGHIJKLMNOPQRSTUVWXYZ01234''"

definition sample_load :: load_env where
  "sample_load = \<lparr>le_environ = sample_environ, le_files = (\<lambda>p. None), le_read = (\<lambda>t. Some None),
     le_hashpw = (\<lambda>p. if p = ''secret'' then Some sample_hash else None)\<rparr>"

definition sample_settings :: settings where
  "sample_settings = default_settings\<lparr>st_max_targets_per_shard := - 5, st_collector_balance := ''random'',
     st_collector_sharding := Some True, st_ui_password := ''secret'', st_ui_username := ''ops'', st_encryption_key := ''k''\<rparr>"

definition sample_app :: app_config where
  "sample_app = (case load_config sample_load sample_settings of Inr (c, s) \<Rightarrow> c | Inl _ \<Rightarrow> default_app_config)"

lemma sample_app_loaded: "load_config sample_load sample_settings = Inr (sample_app, sample_settings)"
proof -
  have "\<exists>c. load_config sample_load sample_settings = Inr (c, sample_settings)"
    by (simp add: load_config_def read_config_def load_yaml_config_def sample_load_def override_config_def override_auth_def
        sample_settings_def Let_def)
  then show ?thesis by (auto simp: sample_app_def)
qed

theorem environment_keeps_config_valid_witness:
  "config_errors sample_app = [] \<and> max_targets_per_shard (cfg_sharding sample_app) = 200
   \<and> balance (cfg_sharding sample_app) = Dynamic \<and> sc_enabled (cfg_sharding sample_app)"
proof -
  have "max_targets_per_shard (cfg_sharding sample_app) = 200" "balance (cfg_sharding sample_app) = Dynamic"
    "sc_enabled (cfg_sharding sample_app)"
    by code_simp+
  then show ?thesis using environment_keeps_config_valid [OF sample_app_loaded] by blast
qed

subsection \<open>Credentials\<close>

text \<open>What \<open>api/auth.py\<close> reads of the configuration.\<close>

definition auth_env_of :: "(string \<Rightarrow> string \<Rightarrow> bool option) \<Rightarrow> string \<Rightarrow> app_config \<times> settings \<Rightarrow> auth_env" where
  "auth_env_of checkpw allow_default = (\<lambda>(c, s).
     \<lparr>ae_encryption_key = st_encryption_key s, ae_username = auth_username (ui_auth (cfg_ui c)),
      ae_password_hash = auth_password_hash (ui_auth (cfg_ui c)), ae_allow_default = allow_default,
      ae_checkpw = checkpw\<rparr>)"

lemma loaded_auth:
  assumes "load_config env s = Inr (c, s')" "st_ui_password s \<noteq> []" "st_ui_username s \<noteq> []"
  shows "\<exists>h. le_hashpw env (st_ui_password s) = Some h
    \<and> ui_auth (cfg_ui c) = \<lparr>auth_username = st_ui_username s, auth_password_hash = h\<rparr>"
  using assms
  by (auto simp: load_config_def override_config_def override_auth_def nonempty_or_def Let_def
      split: sum.splits option.splits)

text \<open>
  A password and a name set in the environment are the ones that open the web interface, whatever
  \<open>config.yaml\<close> says: with a valid form token a login succeeds exactly for that name and a password \<open>bcrypt\<close>
  accepts for the hash made at start-up, so the set password does, and the shipped default password no
  longer blocks it. Assumed of \<open>bcrypt\<close>: its hashes have 60 characters and its own prefix, are not the
  shipped one, and verify the password they were made from.
\<close>

lemma environment_credentials_log_in:
  assumes "load_config env s = Inr (c, s')" "st_ui_password s \<noteq> []" "st_ui_username s \<noteq> []" "is_ascii (st_ui_username s)"
    and hash: "\<And>p h. le_hashpw env p = Some h \<Longrightarrow> is_valid_bcrypt_hash h \<and> h \<noteq> DEFAULT_HASH \<and> checkpw p h = Some True"
    and ae: "ae = auth_env_of checkpw allow (c, s')"
    and token: "validate_csrf_token ae now tok = Inr ()"
  shows "login ae now (st_ui_username s) (st_ui_password s) tok = Inr (Some (create_session_cookie ae now (st_ui_username s)))
    \<and> (\<forall>u p ck. login ae now u p tok = Inr (Some ck) \<longrightarrow>
         u = st_ui_username s \<and> (\<exists>h. le_hashpw env (st_ui_password s) = Some h \<and> checkpw p h = Some True))"
proof -
  obtain h where h: "le_hashpw env (st_ui_password s) = Some h"
      "ui_auth (cfg_ui c) = \<lparr>auth_username = st_ui_username s, auth_password_hash = h\<rparr>"
    using loaded_auth [OF assms(1-3)] by blast
  have ae': "ae_username ae = st_ui_username s" "ae_password_hash ae = h" "ae_checkpw ae = checkpw"
    using h(2) ae by (simp_all add: auth_env_of_def)
  have "verify_password ae (st_ui_password s)" "\<not> default_password_blocks_login ae"
    using hash [OF h(1)] by (auto simp: verify_password_def default_password_blocks_login_def ae' is_valid_bcrypt_hash_def)
  then have "login ae now (st_ui_username s) (st_ui_password s) tok = Inr (Some (create_session_cookie ae now (st_ui_username s)))"
    using token assms(4) by (simp add: login_iff ae')
  moreover have "u = st_ui_username s \<and> checkpw p h = Some True" if "login ae now u p tok = Inr (Some ck)" for u p ck
    using that by (simp add: login_iff ae' verify_password_def)
  ultimately show ?thesis using h(1) by blast
qed

lemma environment_credentials_log_in_witness:
  "\<exists>ae tok. ae_username ae = ''ops'' \<and> login ae 7 ''ops'' ''secret'' tok = Inr (Some (create_session_cookie ae 7 ''ops''))
     \<and> login ae 7 ''admin'' ''secret'' tok \<noteq> Inr (Some (create_session_cookie ae 7 ''admin''))"
proof -
  define checkpw where "checkpw = (\<lambda>p h. Some (p = ''secret'' \<and> h = sample_hash))"
  define ae where "ae = auth_env_of checkpw [] (sample_app, sample_settings)"
  define tok where "tok = generate_csrf_token ae 7 ''ab''"
  have tok: "validate_csrf_token ae 7 tok = Inr ()" by (simp add: tok_def csrf_round_trip TOKEN_MAX_AGE_def)
  have set: "st_ui_username sample_settings = ''ops''" "st_ui_password sample_settings = ''secret''"
    by (simp_all add: sample_settings_def)
  have bcrypt: "is_valid_bcrypt_hash h \<and> h \<noteq> DEFAULT_HASH \<and> checkpw p h = Some True" if "le_hashpw sample_load p = Some h" for p h
  proof -
    have "p = ''secret''" "h = sample_hash" using that by (auto simp: sample_load_def split: if_splits)
    moreover have "is_valid_bcrypt_hash sample_hash \<and> sample_hash \<noteq> DEFAULT_HASH" by code_simp
    ultimately show ?thesis by (simp add: checkpw_def)
  qed
  have "is_ascii ''ops''" by code_simp
  then have "login ae 7 ''ops'' ''secret'' tok = Inr (Some (create_session_cookie ae 7 ''ops''))
      \<and> login ae 7 ''admin'' ''secret'' tok \<noteq> Inr (Some (create_session_cookie ae 7 ''admin''))"
    using environment_credentials_log_in [OF sample_app_loaded _ _ _ bcrypt ae_def tok] by (force simp: set)
  moreover have "auth_username (ui_auth (cfg_ui sample_app)) = ''ops''" by code_simp
  then have "ae_username ae = ''ops''" by (simp add: ae_def auth_env_of_def)
  ultimately show ?thesis by blast
qed

text \<open>Loading is tried until it succeeds once; from then on both readers give what it gave.\<close>

lemma config_loaded_once:
  "get_config load (snd (get_settings (Inr (c, s)) None)) = (Inr c, Some (c, s))"
  "snd (get_config (Inl e) None) = None"
  by (simp_all add: get_config_def get_settings_def get_loaded_def)

lemma internal_token_plain:
  "internal_service_token s = Some t \<Longrightarrow> is_ascii t"
  by (auto simp: internal_service_token_def is_ascii_def list_all_iff dest: hexdigest_plain split: if_splits)

text \<open>A service that starts has a key, so its control calls always ask for the shared secret.\<close>

lemma started_has_token: "run_checks c s \<noteq> None \<Longrightarrow> \<exists>t. internal_service_token s = Some t"
  by (auto simp: run_checks_def internal_service_token_def split: if_splits)

end
