(* ===== verification/Collector_Service.thy ===== *)
theory Collector_Service
  imports Metric_Pipeline Alert_Subscriptions App_Config
begin

text \<open>
  The collector process as a whole, \<open>collector/src/collector_main.py\<close>: the calls its control port answers (health,
  a poll on demand, the webhook of the BMCs) and the orderly shutdown, which has to bring the results the poller
  still holds through extraction and exporter before anything is closed. The parts are the models of the other
  theories; what the outside answers during a call (the database, InfluxDB, the BMCs, the time things take) is an
  argument.
\<close>

section \<open>Health\<close>

definition health_check :: "bool \<Rightarrow> 'p exporter \<Rightarrow> bool" where
  "health_check ping x \<longleftrightarrow> connected x \<and> ping"

text \<open>
  The parts that exist: the exporter with its count of rejected points, the poller with its running flag and
  interval, the SSE manager, and the alert manager with whether its statistics raise.
\<close>

record 'p parts =
  pa_exporter :: "('p exporter \<times> nat) option"
  pa_poller :: "(bool \<times> int \<times> poller) option"
  pa_sse_manager :: bool
  pa_alert_manager :: "bool option"

record health_body =
  hb_healthy :: bool
  hb_performance_degraded :: bool
  hb_exporter_healthy :: bool
  hb_poller_status :: string
  hb_sse_status :: string
  hb_alert_status :: string

text \<open>\<open>now\<close> is the wall clock, \<open>mono\<close> the monotonic one, \<open>ping\<close> and \<open>store\<close> the answers of InfluxDB and of the alert store.\<close>

definition detailed_health :: "instant \<Rightarrow> rat \<Rightarrow> bool \<Rightarrow> bool \<Rightarrow> 'p parts \<Rightarrow> health_body" where
  "detailed_health now mono_now ping store s =
     (let (exporter_healthy, metrics) =
            (case pa_exporter s of
               None \<Rightarrow> (False, None)
             | Some (x, rej) \<Rightarrow>
                 (case get_health_metrics now x rej of
                    None \<Rightarrow> (False, None)
                  | Some m \<Rightarrow> (health_check ping x, Some m)));
          (poller_status, poller_progressing) =
            (case pa_poller s of
               None \<Rightarrow> (''not_initialized'', False)
             | Some (is_running, interval, p) \<Rightarrow>
                 (if is_running then ''running'' else ''stopped'', is_making_progress is_running interval mono_now p));
          alert_status = (case pa_alert_manager s of None \<Rightarrow> ''disabled'' | Some raises \<Rightarrow> if raises then ''error:'' else ''enabled'');
          alert_healthy =
            (if pa_alert_manager s \<noteq> None \<and> alert_status = ''enabled'' then store
             else \<not> starts_with alert_status ''error:'');
          pipeline_healthy =
            (case metrics of None \<Rightarrow> exporter_healthy | Some m \<Rightarrow> exporter_healthy \<and> list_all (\<lambda>ok. ok) (hr_critical m));
          performance_degraded = (pipeline_healthy \<and> (case metrics of None \<Rightarrow> False | Some m \<Rightarrow> \<not> hr_is_healthy m))
      in \<lparr>hb_healthy = (pipeline_healthy \<and> poller_status = ''running'' \<and> poller_progressing \<and> alert_healthy),
          hb_performance_degraded = performance_degraded, hb_exporter_healthy = exporter_healthy,
          hb_poller_status = poller_status, hb_sse_status = (if pa_sse_manager s then ''running'' else ''not_initialized''),
          hb_alert_status = alert_status\<rparr>)"

section \<open>Polls on demand\<close>

datatype poll_reply = Forbidden | Not_Initialized | Target_Not_Found | Server_Error | Poll_Answer poll_result nat nat

record manual_env =
  me_defaults :: "metric_report list"
  me_poll :: poll_env
  me_writes :: bool
  me_extract :: extract_env
  me_random :: "string option"
  me_now :: instant
  me_timestamp :: instant
  me_dumps_length :: "json \<Rightarrow> nat"

definition internal_call_allowed :: "settings \<Rightarrow> string option \<Rightarrow> bool option" where
  "internal_call_allowed s header =
     (case internal_service_token s of
        None \<Rightarrow> Some True
      | Some expected \<Rightarrow> compare_digest (case header of None \<Rightarrow> [] | Some h \<Rightarrow> h) expected)"

text \<open>\<open>ready\<close>: the parts a result goes through are all there. The reply has the size of the content and the number of metrics.\<close>

definition trigger_manual_poll ::
  "settings \<Rightarrow> string option \<Rightarrow> bool \<Rightarrow> manual_env \<Rightarrow> (metric \<Rightarrow> 'p) \<Rightarrow> (target_id, target_config) db_table \<Rightarrow> target_id
   \<Rightarrow> poller option \<times> (target_id, status_row) db_table \<times> 'p collector_state
   \<Rightarrow> poll_reply \<times> poller option \<times> (target_id, status_row) db_table \<times> 'p collector_state" where
  "trigger_manual_poll s header ready env to_point ts tid = (\<lambda>(poller, rows, st).
     (case internal_call_allowed s header of
        None \<Rightarrow> (Server_Error, poller, rows, st)
      | Some False \<Rightarrow> (Forbidden, poller, rows, st)
      | Some True \<Rightarrow>
          (case poller of
             None \<Rightarrow> (Not_Initialized, None, rows, st)
           | Some p \<Rightarrow>
               (case poll_single (me_defaults env) (me_poll env) (me_writes env) ts tid (p, rows) of
                  (Inl _, p', rows') \<Rightarrow> (Server_Error, Some p', rows', st)
                | (Inr None, p', rows') \<Rightarrow> (Target_Not_Found, Some p', rows', st)
                | (Inr (Some result), p', rows') \<Rightarrow>
                    (let (n, st') =
                           (if pr_success result \<and> (pr_content result \<noteq> [] \<or> pr_data result \<noteq> None) \<and> ready
                            then process_poll_result (me_extract env) to_point (me_random env) (me_now env) (me_timestamp env) result st
                            else (0, st));
                         content_size = (case pr_data result of
                                           Some ds \<Rightarrow> sum_list (map (\<lambda>(_, d). me_dumps_length env d) ds)
                                         | None \<Rightarrow> length (pr_content result))
                     in (Poll_Answer result content_size n, Some p', rows', st'))))))"

section \<open>Webhook\<close>

definition WEBHOOK_MAX_BYTES :: int where
  "WEBHOOK_MAX_BYTES = 1024 * 1024"

datatype webhook_reply = Webhook_Error string | Webhook_Ok nat

text \<open>
  \<open>redfish_webhook_receiver\<close>: always answered, so that a BMC does not repeat the event. \<open>loads\<close> is the reading of
  JSON, \<open>None\<close> when it raises; the type name of an exception is left out of the reply.
\<close>

definition redfish_webhook_receiver ::
  "pipeline_config \<Rightarrow> instant \<Rightarrow> (string \<Rightarrow> json option) \<Rightarrow> subscriptions option \<Rightarrow> target_id \<Rightarrow> string
   \<Rightarrow> (json dict \<Rightarrow> py_error + alert_event list) \<Rightarrow> alert_pipeline \<Rightarrow> webhook_reply \<times> alert_pipeline" where
  "redfish_webhook_receiver pc now loads manager tid raw events p =
     (case manager of
        None \<Rightarrow> (Webhook_Error ''Alert manager not initialized'', p)
      | Some st \<Rightarrow>
          if WEBHOOK_MAX_BYTES < int (length raw) then (Webhook_Error ''payload too large'', p)
          else (case (if raw = [] then Some (JObj []) else loads raw) of
                  None \<Rightarrow> (Webhook_Error ''processing failed'', p)
                | Some (JObj event_data) \<Rightarrow>
                    (case process_webhook_event pc now st tid event_data events p of
                       (Inl _, p') \<Rightarrow> (Webhook_Error ''processing failed'', p')
                     | (Inr processed, p') \<Rightarrow> (Webhook_Ok processed, p'))
                | Some _ \<Rightarrow> (Webhook_Error ''invalid payload'', p)))"

section \<open>Shutdown\<close>

text \<open>The entries of a list whose position is picked.\<close>

definition picked :: "(nat \<Rightarrow> bool) \<Rightarrow> 'a list \<Rightarrow> 'a list" where
  "picked f xs = map snd (filter (\<lambda>(i, _). f i) (enumerate 0 xs))"

definition PROCESSOR_DRAIN_TIMEOUT :: rat where
  "PROCESSOR_DRAIN_TIMEOUT = 15"

text \<open>
  The collector when the shutdown begins: \<open>co_processor\<close> holds the results the processing task has taken and not
  processed, \<open>co_flushing\<close> the points of a flush that is under way (they have left the buffer), \<open>co_tasks\<close> the other
  background tasks.
\<close>

record ('w, 'p) collector =
  co_poller :: "poller option"
  co_status :: "(target_id, status_row) db_table"
  co_sse :: bool
  co_processor :: "poll_result list option"
  co_stop_event :: bool
  co_tasks :: "string list"
  co_shard :: "shard_manager option"
  co_shard_db :: shard_db
  co_alerts :: "(subscriptions \<times> alert_pipeline) option"
  co_alert_db :: alert_db
  co_extract :: "pattern_cache \<times> temp_dir"
  co_heat :: heat_cache
  co_exporter :: "'p exporter option"
  co_flushing :: "'p list"
  co_sink :: "('w, 'p) sink"
  co_repository :: bool
  co_pool :: bool

text \<open>
  Until the exporter is closed its flush loop goes on beside the steps of the shutdown: it wakes and takes the buffer,
  ends the flush it is in, or tries to reconnect, before, between and after the results of the processor. The steps before
  and after the processor's do not touch the exporter, so what the loop does during them is listed here too.
\<close>

datatype drain_event = Process | Flush_Wake | Flush_Done instant | Reconnect_Try bool

text \<open>
  What happens outside during the shutdown: how the polls in flight end, whether their status reaches the database,
  how long the results take to be processed and which of them are done if that is too long, what the flush loop does
  meanwhile, whether the calls for the leases raise, whether the alert store answers, which batches of the flush under
  way reach InfluxDB before it is cancelled.
\<close>

record ('w, 'p) shutdown_env =
  sd_interval :: int
  sd_clock :: rat
  sd_inflight :: "(target_id \<times> ((poll_exception + poll_result) \<times> bool) \<times> target_config option) list"
  sd_jitter :: rat
  sd_status_up :: bool
  sd_drain_time :: rat
  sd_finished :: "nat \<Rightarrow> bool"
  sd_events :: "drain_event list"
  sd_extract :: extract_env
  sd_to_point :: "metric \<Rightarrow> 'p"
  sd_random :: "poll_result \<Rightarrow> string option"
  sd_timestamp :: "poll_result \<Rightarrow> instant"
  sd_now :: instant
  sd_leases_raise :: bool
  sd_slot_raises :: bool
  sd_store_up1 :: bool
  sd_store_up2 :: bool
  sd_race :: "alert_db \<Rightarrow> alert_db"
  sd_sent :: "nat \<Rightarrow> bool"
  sd_api :: "('w, 'p) write_api"

text \<open>\<open>RedfishPoller.stop\<close>: the loop ends, the polls in flight are waited for, their status is written, the clients are closed.\<close>

definition poller_stop ::
  "('w, 'p) shutdown_env \<Rightarrow> poller \<Rightarrow> (target_id, status_row) db_table \<Rightarrow> poller \<times> (target_id, status_row) db_table" where
  "poller_stop env p rows =
     (let p1 = fold (\<lambda>(tid, outcome, fresh). run_poll_end (sd_interval env) (sd_clock env) (sd_jitter env) tid outcome fresh)
                 (sd_inflight env) p;
          (updates, p2) = take_pending p1
      in if sd_status_up env then (p2\<lparr>po_clients := []\<rparr>, update_poll_status_batch updates rows)
         else ((put_back updates p2)\<lparr>po_clients := []\<rparr>, rows))"

text \<open>
  The processor with the stop event set: it returns after one call of \<open>get_results\<close> that gives everything, the
  processing, and one call that gives nothing, each call waiting out its timeout. Beyond the budget it is cancelled.
\<close>

definition drained_in_time :: "('w, 'p) shutdown_env \<Rightarrow> bool" where
  "drained_in_time env \<longleftrightarrow> PROCESSOR_TIMEOUT + sd_drain_time env + PROCESSOR_TIMEOUT < PROCESSOR_DRAIN_TIMEOUT"

definition process_one :: "('w, 'p) shutdown_env \<Rightarrow> poll_result \<Rightarrow> 'p collector_state \<Rightarrow> 'p collector_state" where
  "process_one env r st =
     snd (process_poll_result (sd_extract env) (sd_to_point env) (sd_random env r) (sd_now env) (sd_timestamp env r) r st)"

text \<open>The results that are processed, and the state they meet: results to come, points of the flush in progress.\<close>

definition to_process :: "('w, 'p) shutdown_env \<Rightarrow> bool \<Rightarrow> poll_result list \<Rightarrow> poll_result list" where
  "to_process env stop_event rs = (if stop_event \<and> drained_in_time env then rs else picked (sd_finished env) rs)"

type_synonym ('w, 'p) drain = "poll_result list \<times> 'p list \<times> 'p collector_state \<times> ('w, 'p) sink"

definition start_flush :: "'p exporter \<Rightarrow> 'p list \<times> 'p exporter" where
  "start_flush x = (buffer x, x\<lparr>buffer := []\<rparr>)"

fun drain_step :: "('w, 'p) shutdown_env \<Rightarrow> drain_event \<Rightarrow> ('w, 'p) drain \<Rightarrow> ('w, 'p) drain" where
  "drain_step env Process (rs, fl, st, s) =
     (case rs of [] \<Rightarrow> ([], fl, st, s) | r # rest \<Rightarrow> (rest, fl, process_one env r st, s))"
| "drain_step env Flush_Wake (rs, fl, (ex, d, x), s) =
     (if running x \<and> connected x \<and> fl = []
      then (let (points, x1) = start_flush (x\<lparr>flush_event := False\<rparr>) in (rs, points, (ex, d, x1), s))
      else (rs, fl, (ex, d, x), s))"
| "drain_step env (Flush_Done now) (rs, fl, (ex, d, x), s) =
     (if fl = [] then (rs, fl, (ex, d, x), s)
      else (let (x1, s1) = finish_flush (sd_api env) now fl x s in (rs, [], (ex, d, x1), s1)))"
| "drain_step env (Reconnect_Try ping_ok) (rs, fl, (ex, d, x), s) =
     (if running x \<and> \<not> connected x \<and> fl = []
      then
        (let x1 = reconnect ping_ok x
         in if ping_ok then (let (points, x2) = start_flush x1 in (rs, points, (ex, d, x2), s))
            else (rs, fl, (ex, d, x1\<lparr>reconnect_delay := min (reconnect_delay x1 * 2) 300\<rparr>), s))
      else (rs, fl, (ex, d, x), s))"

definition drain_processor :: "('w, 'p) shutdown_env \<Rightarrow> ('w, 'p) drain \<Rightarrow> ('w, 'p) drain" where
  "drain_processor env q = fold (drain_step env) (sd_events env @ map (\<lambda>_. Process) (fst q)) q"

text \<open>\<open>AlertManager.stop\<close>: what is queued is stored, and no subscription is left.\<close>

definition alerts_stop ::
  "('w, 'p) shutdown_env \<Rightarrow> subscriptions \<times> alert_pipeline \<Rightarrow> alert_db \<Rightarrow> (subscriptions \<times> alert_pipeline) \<times> alert_db" where
  "alerts_stop env = (\<lambda>(subs, p) db.
     let (p', db') = stop_pipeline (sd_now env) (sd_store_up1 env) (sd_store_up2 env) (sd_race env) (p, db)
     in ((subs\<lparr>am_sse := Map.empty, am_webhook := Map.empty, am_types := Map.empty, am_baseline_jobs := []\<rparr>, p'), db'))"

text \<open>
  \<open>InfluxDBExporter.close\<close>: the task of the flush loop is cancelled, which the flush it is in does not survive (the
  cancellation is no \<open>Exception\<close>, so its points are not put back); then the buffer is flushed once.
\<close>

definition cancel_flush :: "('w, 'p) shutdown_env \<Rightarrow> 'p exporter \<Rightarrow> 'p list \<Rightarrow> ('w, 'p) sink \<Rightarrow> ('w, 'p) sink" where
  "cancel_flush env x points s = snd (write_batches (sd_api env) (picked (sd_sent env) (batches_of (batch_size x) points)) s)"

definition exporter_close :: "('w, 'p) shutdown_env \<Rightarrow> 'p list \<Rightarrow> 'p exporter \<Rightarrow> ('w, 'p) sink \<Rightarrow> 'p exporter \<times> ('w, 'p) sink" where
  "exporter_close env flushing x s = close_exporter (sd_api env) (sd_now env) x (cancel_flush env x flushing s)"

text \<open>\<open>_shutdown_collector\<close>, step by step; every part may be missing.\<close>

definition stop_producers :: "('w, 'p) shutdown_env \<Rightarrow> ('w, 'p) collector \<Rightarrow> ('w, 'p) collector" where
  "stop_producers env c =
     (case co_poller c of
        None \<Rightarrow> c\<lparr>co_sse := False\<rparr>
      | Some p \<Rightarrow> (let (p', rows) = poller_stop env p (co_status c) in c\<lparr>co_poller := Some p', co_status := rows, co_sse := False\<rparr>))"

definition queued_results :: "('w, 'p) collector \<Rightarrow> poll_result list" where
  "queued_results c = (case co_poller c of None \<Rightarrow> [] | Some p \<Rightarrow> po_queue p)"

definition stop_processor :: "('w, 'p) shutdown_env \<Rightarrow> ('w, 'p) collector \<Rightarrow> ('w, 'p) collector" where
  "stop_processor env c =
     (case co_exporter c of
        None \<Rightarrow> c
      | Some x \<Rightarrow>
          (let rs = (case co_processor c of None \<Rightarrow> [] | Some taken \<Rightarrow> to_process env (co_stop_event c) (taken @ queued_results c));
               (_, fl, (ex, heat, x'), s) = drain_processor env (rs, co_flushing c, (co_extract c, co_heat c, x), co_sink c);
               c1 = c\<lparr>co_extract := ex, co_heat := heat, co_exporter := Some x', co_flushing := fl, co_sink := s\<rparr>
           in if co_processor c = None then c1
              else c1\<lparr>co_processor := None, co_poller := map_option (\<lambda>p. p\<lparr>po_queue := []\<rparr>) (co_poller c)\<rparr>))"

definition stop_background :: "('w, 'p) shutdown_env \<Rightarrow> ('w, 'p) collector \<Rightarrow> ('w, 'p) collector" where
  "stop_background env c =
     (let c1 = c\<lparr>co_tasks := []\<rparr>;
          c2 = (case co_shard c1 of
                  None \<Rightarrow> c1
                | Some sm \<Rightarrow> c1\<lparr>co_shard_db := release (sd_leases_raise env) (sd_slot_raises env) sm (co_shard_db c1)\<rparr>)
      in case co_alerts c2 of
           None \<Rightarrow> c2
         | Some a \<Rightarrow> (let (a', db) = alerts_stop env a (co_alert_db c2) in c2\<lparr>co_alerts := Some a', co_alert_db := db\<rparr>))"

definition close_outputs :: "('w, 'p) shutdown_env \<Rightarrow> ('w, 'p) collector \<Rightarrow> ('w, 'p) collector" where
  "close_outputs env c =
     (let c1 = (case co_exporter c of
                  None \<Rightarrow> c
                | Some x \<Rightarrow> (let (x', s) = exporter_close env (co_flushing c) x (co_sink c)
                            in c\<lparr>co_exporter := Some x', co_sink := s, co_flushing := []\<rparr>))
      in c1\<lparr>co_repository := False, co_pool := False\<rparr>)"

definition shutdown_collector :: "('w, 'p) shutdown_env \<Rightarrow> ('w, 'p) collector \<Rightarrow> ('w, 'p) collector" where
  "shutdown_collector env c = close_outputs env (stop_background env (stop_processor env (stop_producers env c)))"

section \<open>Shutdown keeps the metrics\<close>

text \<open>The points of the metrics of a list of results, processed in order.\<close>

fun result_points :: "('w, 'p) shutdown_env \<Rightarrow> poll_result list \<Rightarrow> 'p collector_state \<Rightarrow> 'p list" where
  "result_points env [] st = []"
| "result_points env (r # rs) st =
     (if pr_success r
      then map (sd_to_point env) (fst (fst (sync_extract_metrics (sd_extract env) (sd_random env r) (sd_now env) (sd_timestamp env r) r (fst st))))
      else []) @ result_points env rs (process_one env r st)"

lemma process_one_extraction: "fst (process_one env r (st, out)) = fst (process_one env r (st, out'))"
  by (simp add: process_one_def process_poll_result_def Let_def split: prod.splits)

lemma result_points_exporter: "result_points env rs (st, out) = result_points env rs (st, out')"
proof (induction rs arbitrary: st out out')
  case (Cons r rs)
  obtain st1 out1 out2 where "process_one env r (st, out) = (st1, out1)" "process_one env r (st, out') = (st1, out2)"
    using process_one_extraction [of env r st out out'] by (cases "process_one env r (st, out)"; cases "process_one env r (st, out')") auto
  then show ?case using Cons.IH [of st1 out1 out2] by simp
qed simp

definition buffer_fits :: "'p exporter \<Rightarrow> bool" where
  "buffer_fits x \<longleftrightarrow> 0 < batch_size x \<and> 0 < max_buffer_size x \<and> length (buffer x) \<le> max_buffer_size x"

lemma process_one_accounts:
  assumes "buffer_fits x" and run: "process_one env r (st, d, x) = (st', d', x')"
  shows "buffer_fits x' \<and> batch_size x' = batch_size x \<and> connected x' = connected x
    \<and> (\<exists>gone. mset (result_points env [r] (st, d, x)) + mset (buffer x) = mset (buffer x') + mset gone
         \<and> dropped_points x' = dropped_points x + length gone)"
proof -
  obtain n where poll: "process_poll_result (sd_extract env) (sd_to_point env) (sd_random env r) (sd_now env) (sd_timestamp env r) r (st, d, x)
      = (n, st', d', x')"
    using run by (metis process_one_def prod.collapse)
  have "max_buffer_size x' = max_buffer_size x" "batch_size x' = batch_size x" "connected x' = connected x"
    using poll by (auto simp: process_poll_result_def write_metrics_def Let_def split: if_splits prod.splits)
  then show ?thesis
    using poll_metrics_accounted [OF _ _ poll refl] assms(1) by (auto simp: buffer_fits_def split: if_splits)
qed

text \<open>What the collector holds or has handed over during the drain, and the steps that neither lose nor invent a point.\<close>

fun drain_total :: "('w, 'p) shutdown_env \<Rightarrow> ('w, 'p) drain \<Rightarrow> 'p multiset" where
  "drain_total env (rs, fl, (ex, d, x), s) =
     mset (accepted s) + mset (rejected s) + mset fl + mset (buffer x) + mset (result_points env rs (ex, d, x))"

abbreviation drain_exporter :: "('w, 'p) drain \<Rightarrow> 'p exporter" where
  "drain_exporter q \<equiv> snd (snd (fst (snd (snd q))))"

definition drain_accounted :: "('w, 'p) shutdown_env \<Rightarrow> ('w, 'p) drain \<Rightarrow> ('w, 'p) drain \<Rightarrow> bool" where
  "drain_accounted env q q' \<longleftrightarrow> buffer_fits (drain_exporter q') \<and> batch_size (drain_exporter q') = batch_size (drain_exporter q)
     \<and> (\<exists>gone. drain_total env q = drain_total env q' + mset gone
          \<and> dropped_points (drain_exporter q') = dropped_points (drain_exporter q) + length gone)"

lemma drain_accounted_trans:
  assumes "drain_accounted env q q1" "drain_accounted env q1 q2"
  shows "drain_accounted env q q2"
proof -
  obtain g h where "drain_total env q = drain_total env q1 + mset g" "drain_total env q1 = drain_total env q2 + mset h"
      "dropped_points (drain_exporter q1) = dropped_points (drain_exporter q) + length g"
      "dropped_points (drain_exporter q2) = dropped_points (drain_exporter q1) + length h"
    using assms by (auto simp: drain_accounted_def)
  then show ?thesis using assms unfolding drain_accounted_def by (intro conjI exI [of _ "h @ g"]) (simp_all add: ac_simps)
qed

lemma drain_accounted_same:
  assumes "buffer_fits (drain_exporter q')" "drain_total env q' = drain_total env q"
    "dropped_points (drain_exporter q') = dropped_points (drain_exporter q)" "batch_size (drain_exporter q') = batch_size (drain_exporter q)"
  shows "drain_accounted env q q'"
  unfolding drain_accounted_def using assms by (intro conjI exI [of _ "[]"]) simp_all

lemma process_step_accounted:
  assumes "buffer_fits x"
  shows "drain_accounted env (rs, fl, (ex, d, x), s) (drain_step env Process (rs, fl, (ex, d, x), s))"
proof (cases rs)
  case Nil
  then show ?thesis using assms by (auto intro: drain_accounted_same)
next
  case (Cons r rest)
  obtain ex1 d1 x1 where one: "process_one env r (ex, d, x) = (ex1, d1, x1)" by (metis prod.collapse)
  obtain g where fits: "buffer_fits x1" "batch_size x1 = batch_size x"
    and g: "mset (result_points env [r] (ex, d, x)) + mset (buffer x) = mset (buffer x1) + mset g"
      "dropped_points x1 = dropped_points x + length g"
    using process_one_accounts [OF assms one] by blast
  have "mset (result_points env rs (ex, d, x)) = mset (result_points env [r] (ex, d, x)) + mset (result_points env rest (ex1, d1, x1))"
    by (simp add: Cons one)
  then have "mset (buffer x) + mset (result_points env rs (ex, d, x))
      = mset (buffer x1) + mset (result_points env rest (ex1, d1, x1)) + mset g"
    using g(1) by (simp add: ac_simps)
  then show ?thesis using fits g(2) unfolding drain_accounted_def
    by (intro conjI exI [of _ g]) (simp_all add: Cons one)
qed

lemma flush_step_accounted:
  assumes "buffer_fits x"
  shows "drain_accounted env (rs, fl, (ex, d, x), s) (drain_step env (Flush_Done now) (rs, fl, (ex, d, x), s))"
proof (cases "fl = []")
  case True
  then show ?thesis using assms by (auto intro: drain_accounted_same)
next
  case False
  obtain x1 s1 where fin: "finish_flush (sd_api env) now fl x s = (x1, s1)" by fastforce
  obtain acc rej gone where f: "accepted s1 = accepted s @ acc" "rejected s1 = rejected s @ rej"
      "mset fl + mset (buffer x) = mset (buffer x1) + mset acc + mset rej + mset gone"
      "dropped_points x1 = dropped_points x + length gone" "buffer_fits x1" "batch_size x1 = batch_size x"
    using finish_flush_accounts [OF fin] assms by (auto simp: buffer_fits_def)
  have "mset fl + mset (buffer x) + mset (result_points env rs (ex, d, x))
      = mset (buffer x1) + mset acc + mset rej + mset gone + mset (result_points env rs (ex, d, x1))"
    unfolding f(3) result_points_exporter [of env rs ex "(d, x)" "(d, x1)"] ..
  then show ?thesis using False f fin unfolding drain_accounted_def
    by (intro conjI exI [of _ gone]) (simp_all add: ac_simps)
qed

lemma drain_step_accounted:
  assumes "buffer_fits (drain_exporter q)"
  shows "drain_accounted env q (drain_step env ev q)"
proof -
  obtain rs fl ex d x s where q: "q = (rs, fl, (ex, d, x), s)" by (metis prod.collapse)
  have fits: "buffer_fits x" using assms q by simp
  have same: "drain_accounted env (rs, taken, (ex, d, x), s) (rs, points, (ex, d, x1), s)"
    if "buffer_fits x1" "mset points + mset (buffer x1) = mset taken + mset (buffer x)" "dropped_points x1 = dropped_points x" "batch_size x1 = batch_size x"
    for taken points x1
    using that result_points_exporter [of env rs ex "(d, x1)" "(d, x)"] by (intro drain_accounted_same) (simp_all add: ac_simps)
  show ?thesis
  proof (cases ev)
    case Process
    then show ?thesis unfolding q by (simp only: process_step_accounted [OF fits])
  next
    case (Flush_Done now)
    then show ?thesis unfolding q by (simp only: flush_step_accounted [OF fits])
  next
    case Flush_Wake
    show ?thesis using fits unfolding q Flush_Wake
      by (auto simp: start_flush_def buffer_fits_def intro!: same)
  next
    case (Reconnect_Try ok)
    show ?thesis using fits unfolding q Reconnect_Try
      by (auto simp: start_flush_def reconnect_def buffer_fits_def Let_def intro!: same)
  qed
qed

lemma drain_fold_accounted:
  "buffer_fits (drain_exporter q) \<Longrightarrow> drain_accounted env q (fold (drain_step env) evs q)"
proof (induction evs arbitrary: q)
  case Nil
  then show ?case by (simp add: drain_accounted_same)
next
  case (Cons ev evs)
  note one = drain_step_accounted [OF Cons.prems, of env ev]
  then have "buffer_fits (drain_exporter (drain_step env ev q))" by (simp add: drain_accounted_def)
  from drain_accounted_trans [OF one Cons.IH [OF this]] show ?case by simp
qed

text \<open>The processor gets through: no result is left at the end.\<close>

lemma drain_step_rest: "length (fst (drain_step env ev q)) \<le> length (fst q) - (if ev = Process then 1 else 0)"
  by (cases "(env, ev, q)" rule: drain_step.cases)
    (auto simp: Let_def start_flush_def split: list.splits prod.splits)

lemma drain_fold_rest: "length (fst (fold (drain_step env) evs q)) \<le> length (fst q) - count_list evs Process"
proof (induction evs arbitrary: q)
  case (Cons ev evs)
  show ?case using Cons.IH [of "drain_step env ev q"] drain_step_rest [of env ev q] by auto
qed simp

lemma drain_processor_empties: "fst (drain_processor env q) = []"
proof -
  have "count_list (map (\<lambda>_. Process) rs) Process = length rs" for rs :: "poll_result list" by (induction rs) auto
  then have "length (fst (drain_processor env q)) \<le> 0"
    unfolding drain_processor_def
    using drain_fold_rest [of env "sd_events env @ map (\<lambda>_. Process) (fst q)" q] by (simp add: count_list_append)
  then show ?thesis by simp
qed

lemma picked_split: "mset (picked f xs) + mset (picked (\<lambda>i. \<not> f i) xs) = mset xs"
proof -
  have part: "mset (map snd (filter (\<lambda>(i, _). f i) ys)) + mset (map snd (filter (\<lambda>(i, _). \<not> f i) ys)) = mset (map snd ys)"
    for ys :: "(nat \<times> 'a) list"
    by (induction ys) auto
  show ?thesis using part [of "enumerate 0 xs"] by (simp add: picked_def)
qed

lemma set_picked: "set (picked f xs) \<subseteq> set xs"
  by (auto simp: picked_def in_set_enumerate_eq)

lemma concat_picked_split: "mset (concat (picked f xs)) + mset (concat (picked (\<lambda>i. \<not> f i) xs)) = mset (concat xs)"
proof -
  have "mset (concat ys) = \<Sum>\<^sub># (image_mset mset (mset ys))" for ys :: "'a list list"
    by (induction ys) auto
  then show ?thesis
    using arg_cong [OF picked_split [of f xs], of "\<lambda>m. \<Sum>\<^sub># (image_mset mset m)"] by (simp add: image_mset_union)
qed

text \<open>Closing the exporter: what the cancelled flush had not handed over is all that goes uncounted.\<close>

definition unsent :: "('w, 'p) shutdown_env \<Rightarrow> 'p exporter \<Rightarrow> 'p list \<Rightarrow> 'p list" where
  "unsent env x fl = concat (picked (\<lambda>i. \<not> sd_sent env i) (batches_of (batch_size x) fl))"

lemma cancel_flush_accounts:
  "\<exists>lost. mset lost \<subseteq># mset fl \<and>
    mset (accepted (cancel_flush env x fl s)) + mset (rejected (cancel_flush env x fl s)) + mset lost
      = mset (accepted s) + mset (rejected s) + mset fl"
proof -
  let ?sent = "picked (sd_sent env) (batches_of (batch_size x) fl)"
  obtain rs s' where wb: "write_batches (sd_api env) ?sent s = (rs, s')" by fastforce
  obtain acc rej where w: "accepted s' = accepted s @ acc" "rejected s' = rejected s @ rej"
      "mset (concat ?sent) = mset (concat (map fst rs)) + mset acc + mset rej"
    using write_batches_conserves [OF wb] by blast
  let ?lost = "concat (map fst rs) @ unsent env x fl"
  have "mset fl = mset (concat ?sent) + mset (unsent env x fl)"
    using concat_picked_split [of "sd_sent env" "batches_of (batch_size x) fl"] by (simp add: batches_of_def unsent_def)
  then have fl: "mset fl = mset ?lost + (mset acc + mset rej)" unfolding w(3) mset_append by (simp only: ac_simps)
  then have "mset ?lost \<subseteq># mset fl" by (metis mset_subset_eq_add_left)
  moreover have "cancel_flush env x fl s = s'" by (simp add: cancel_flush_def wb)
  ultimately show ?thesis using w(1, 2) fl by (intro exI [of _ ?lost]) (simp add: ac_simps)
qed

lemma exporter_close_accounts:
  assumes "buffer_fits x" and close: "exporter_close env fl x s = (x', s')"
  shows "\<not> connected x' \<and> (\<exists>gone lost. mset lost \<subseteq># mset fl \<and> dropped_points x' = dropped_points x + length gone \<and>
    mset (accepted s') + mset (rejected s') + mset (buffer x') + mset gone + mset lost
      = mset (accepted s) + mset (rejected s) + mset fl + mset (buffer x))"
proof -
  let ?s1 = "cancel_flush env x fl s"
  obtain lost where lost: "mset lost \<subseteq># mset fl"
      "mset (accepted ?s1) + mset (rejected ?s1) + mset lost = mset (accepted s) + mset (rejected s) + mset fl"
    using cancel_flush_accounts by blast
  obtain x1 where x1: "flush_buffer (sd_api env) (sd_now env) [] (x\<lparr>running := False\<rparr>) ?s1 = (x1, s')" "x' = x1\<lparr>connected := False\<rparr>"
    using close by (auto simp: exporter_close_def close_exporter_def Let_def split: prod.splits)
  have "\<exists>acc rej gone. accepted s' = accepted ?s1 @ acc \<and> rejected s' = rejected ?s1 @ rej \<and>
      mset (buffer x) = mset (buffer x1) + mset acc + mset rej + mset gone \<and> dropped_points x1 = dropped_points x + length gone"
  proof (cases "buffer x = []")
    case True
    then show ?thesis using x1(1) by (auto simp: flush_buffer_def)
  next
    case False
    then show ?thesis using flush_accounts [OF x1(1)] assms(1) by (auto simp: buffer_fits_def)
  qed
  then obtain acc rej gone where f: "accepted s' = accepted ?s1 @ acc" "rejected s' = rejected ?s1 @ rej"
      "mset (buffer x) = mset (buffer x1) + mset acc + mset rej + mset gone" "dropped_points x1 = dropped_points x + length gone" by blast
  have "mset (accepted s') + mset (rejected s') + mset (buffer x1) + mset gone + mset lost
      = (mset (accepted ?s1) + mset (rejected ?s1) + mset lost) + (mset (buffer x1) + mset acc + mset rej + mset gone)"
    by (simp add: f(1, 2) ac_simps)
  also have "\<dots> = mset (accepted s) + mset (rejected s) + mset fl + mset (buffer x)" unfolding lost(2) f(3) [symmetric] ..
  finally have "mset (accepted s') + mset (rejected s') + mset (buffer x') + mset gone + mset lost
      = mset (accepted s) + mset (rejected s) + mset fl + mset (buffer x)" using x1(2) by simp
  then show ?thesis using lost(1) f(4) x1(2) by (intro conjI exI [of _ gone] exI [of _ lost]) simp_all
qed

text \<open>A server that accepts everything it is sent.\<close>

lemma write_batches_accepted_all:
  assumes api: "\<And>w b. accepted_reply (fst (api w b))" and "\<And>b. b \<in> set bs \<Longrightarrow> b \<noteq> []" and run: "write_batches api bs s = (rs, s')"
  shows "concat (map fst rs) = [] \<and> accepted s' = accepted s @ concat bs \<and> rejected s' = rejected s \<and>
    sum_list (map (\<lambda>(_, w, _). w) rs) = length (concat bs)"
proof -
  have a: "concat (map fst rs) = []" "accepted s' = accepted s @ concat bs"
    using write_batches_accepted [where api = api, OF api _ run] assms(2) by blast+
  obtain acc rej where "accepted s' = accepted s @ acc" "rejected s' = rejected s @ rej"
      "mset (concat bs) = mset (concat (map fst rs)) + mset acc + mset rej" "sum_list (map (\<lambda>(_, w, _). w) rs) = length acc"
    using write_batches_conserves [OF run] by blast
  then show ?thesis using a by (simp del: concat_eq_Nil_conv)
qed

lemma finish_flush_accepts:
  assumes api: "\<And>w b. accepted_reply (fst (api w b))" and fin: "finish_flush api now points x s = (x', s')"
    and "points \<noteq> []" "0 < batch_size x"
  shows "accepted s' = accepted s @ points \<and> rejected s' = rejected s \<and> buffer x' = buffer x
    \<and> dropped_points x' = dropped_points x \<and> connected x' = connected x"
proof -
  obtain rs where rs: "write_batches api (chunks (batch_size x - 1) points) s = (rs, s')"
      "x' = check_failures (account_results now rs x)"
    using fin assms(4) by (auto simp: finish_flush_def batches_of_def split: prod.splits)
  have a: "concat (map fst rs) = []" "accepted s' = accepted s @ points" "rejected s' = rejected s"
      "sum_list (map (\<lambda>(_, w, _). w) rs) = length points"
    using write_batches_accepted_all [where api = api, OF api _ rs(1)] by (auto dest: chunks_nonempty simp del: concat_eq_Nil_conv)
  have ok: "filter (\<lambda>(_, w, _). 0 < w) rs \<noteq> []"
  proof
    assume "filter (\<lambda>(_, w, _). 0 < w) rs = []"
    then have "sum_list (map (\<lambda>(_, w, _). w) rs) = 0" by (metis list.map(1) sum_list.Nil sum_written)
    then show False using a(4) assms(3) by simp
  qed
  have none: "filter (\<lambda>r. r \<noteq> []) (map fst rs) = []" using a(1) by (auto simp: filter_empty_conv)
  have "consecutive_batch_failures (account_results now rs x) = 0"
    using ok unfolding account_results_def Let_def none by simp
  then have "check_failures (account_results now rs x) = account_results now rs x"
    by (simp add: check_failures_def RECONNECT_THRESHOLD_def)
  then show ?thesis using rs(2) a by (simp add: account_results_buffer del: concat_eq_Nil_conv)
qed

lemma drain_step_accepts:
  assumes api: "\<And>w b. accepted_reply (fst (sd_api env w b))" and "buffer_fits (drain_exporter q)" "connected (drain_exporter q)"
  shows "connected (drain_exporter (drain_step env ev q)) \<and> rejected (snd (snd (snd (drain_step env ev q)))) = rejected (snd (snd (snd q)))"
proof -
  obtain rs fl ex d x s where q: "q = (rs, fl, (ex, d, x), s)" by (metis prod.collapse)
  show ?thesis
  proof (cases ev)
    case Process
    show ?thesis
    proof (cases rs)
      case (Cons r rest)
      obtain ex1 d1 x1 where one: "process_one env r (ex, d, x) = (ex1, d1, x1)" by (metis prod.collapse)
      then show ?thesis using process_one_accounts [OF _ one] assms(2, 3) Process Cons q by simp
    qed (use assms(3) Process q in simp)
  next
    case (Flush_Done now)
    obtain x1 s1 where fin: "finish_flush (sd_api env) now fl x s = (x1, s1)" by fastforce
    show ?thesis
    proof (cases "fl = []")
      case False
      then show ?thesis
        using finish_flush_accepts [where api = "sd_api env", OF api fin False] assms(2, 3) Flush_Done q fin by (simp add: buffer_fits_def)
    qed (use assms(3) Flush_Done q in simp)
  qed (use assms(3) q in \<open>auto simp: start_flush_def Let_def\<close>)
qed

lemma drain_fold_accepts:
  assumes api: "\<And>w b. accepted_reply (fst (sd_api env w b))"
  shows "buffer_fits (drain_exporter q) \<Longrightarrow> connected (drain_exporter q) \<Longrightarrow>
    connected (drain_exporter (fold (drain_step env) evs q))
    \<and> rejected (snd (snd (snd (fold (drain_step env) evs q)))) = rejected (snd (snd (snd q)))"
proof (induction evs arbitrary: q)
  case (Cons ev evs)
  have "buffer_fits (drain_exporter (drain_step env ev q))"
    using drain_step_accounted [OF Cons.prems(1), of env ev] by (simp add: drain_accounted_def)
  then show ?case
    using Cons.IH [of "drain_step env ev q"] drain_step_accepts [where env = env, OF api Cons.prems, of ev] by simp
qed simp

lemma exporter_close_accepts:
  assumes api: "\<And>w b. accepted_reply (fst (sd_api env w b))" and x: "connected x" "0 < batch_size x"
    and close: "exporter_close env fl x s = (x', s')"
  shows "buffer x' = [] \<and> rejected s' = rejected s \<and> dropped_points x' = dropped_points x \<and>
    (\<exists>sent. accepted s' = accepted s @ sent @ buffer x \<and> mset fl = mset sent + mset (unsent env x fl))"
proof -
  let ?bs = "picked (sd_sent env) (batches_of (batch_size x) fl)" and ?s1 = "cancel_flush env x fl s"
  have ne: "b \<noteq> []" if "b \<in> set ?bs" for b
    using that set_picked [of "sd_sent env" "batches_of (batch_size x) fl"] chunks_nonempty by (auto simp: batches_of_def)
  obtain rs where "write_batches (sd_api env) ?bs s = (rs, ?s1)" by (metis cancel_flush_def prod.collapse)
  from write_batches_accepted_all [where api = "sd_api env", OF api ne this]
  have s1: "accepted ?s1 = accepted s @ concat ?bs" "rejected ?s1 = rejected s" by auto
  have fl: "mset fl = mset (concat ?bs) + mset (unsent env x fl)"
    using concat_picked_split [of "sd_sent env" "batches_of (batch_size x) fl"] by (simp add: batches_of_def unsent_def)
  obtain x1 where x1: "flush_buffer (sd_api env) (sd_now env) [] (x\<lparr>running := False\<rparr>) ?s1 = (x1, s')" "x' = x1\<lparr>connected := False\<rparr>"
    using close by (auto simp: exporter_close_def close_exporter_def Let_def split: prod.splits)
  have "buffer x1 = [] \<and> accepted s' = accepted ?s1 @ buffer x \<and> rejected s' = rejected ?s1 \<and> dropped_points x1 = dropped_points x"
  proof (cases "buffer x = []")
    case True
    then show ?thesis using x1(1) by (auto simp: flush_buffer_def)
  next
    case False
    then have "finish_flush (sd_api env) (sd_now env) (buffer x) (x\<lparr>running := False, buffer := []\<rparr>) ?s1 = (x1, s')"
      using x1(1) x(1) by (simp add: flush_buffer_def Let_def)
    from finish_flush_accepts [where api = "sd_api env", OF api this False] show ?thesis using x(2) by simp
  qed
  then show ?thesis using s1 fl x1(2) by (intro conjI exI [of _ "concat ?bs"]) simp_all
qed

lemma exporter_close_loss:
  assumes fits: "buffer_fits x" and close: "exporter_close env fl x s = (x', s')"
  shows "\<exists>gone lost. \<not> connected x' \<and> mset lost \<subseteq># mset fl \<and> dropped_points x' = dropped_points x + length gone
    \<and> mset (accepted s') + mset (rejected s') + mset (buffer x') + mset gone + mset lost
      = mset (accepted s) + mset (rejected s) + mset fl + mset (buffer x)
    \<and> (connected x \<and> (\<forall>w b. accepted_reply (fst (sd_api env w b))) \<longrightarrow>
        buffer x' = [] \<and> rejected s' = rejected s \<and> lost = unsent env x fl)"
proof (cases "connected x \<and> (\<forall>w b. accepted_reply (fst (sd_api env w b)))")
  case True
  have "0 < batch_size x" using fits by (simp add: buffer_fits_def)
  from exporter_close_accepts [OF _ _ this close] True obtain sent where
    e: "buffer x' = []" "rejected s' = rejected s" "dropped_points x' = dropped_points x"
      "accepted s' = accepted s @ sent @ buffer x" "mset fl = mset sent + mset (unsent env x fl)" by blast
  have "mset (unsent env x fl) \<subseteq># mset fl" unfolding e(5) by simp
  then show ?thesis using e exporter_close_accounts [OF fits close]
    by (intro exI [of _ "[]"] exI [of _ "unsent env x fl"]) (simp add: ac_simps)
next
  case False
  then show ?thesis using exporter_close_accounts [OF fits close] by blast
qed

text \<open>Only two steps of the shutdown touch the exporter.\<close>

lemma stop_producers_keeps [simp]:
  "co_exporter (stop_producers env c) = co_exporter c" "co_processor (stop_producers env c) = co_processor c"
  "co_stop_event (stop_producers env c) = co_stop_event c" "co_extract (stop_producers env c) = co_extract c"
  "co_heat (stop_producers env c) = co_heat c" "co_sink (stop_producers env c) = co_sink c"
  "co_flushing (stop_producers env c) = co_flushing c"
  by (simp_all add: stop_producers_def Let_def split: option.splits prod.splits)

lemma stop_background_keeps [simp]:
  "co_exporter (stop_background env c) = co_exporter c" "co_sink (stop_background env c) = co_sink c"
  "co_flushing (stop_background env c) = co_flushing c"
  by (simp_all add: stop_background_def Let_def split: option.splits prod.splits)

lemma drain_totals:
  assumes parts: "co_exporter c = Some x" "co_processor c = Some taken" "co_stop_event c" "drained_in_time env"
    and fits: "buffer_fits x"
  obtains x1 gone where "co_exporter (stop_processor env (stop_producers env c)) = Some x1" "buffer_fits x1" "batch_size x1 = batch_size x"
    "dropped_points x1 = dropped_points x + length gone"
    "mset (accepted (co_sink (stop_processor env (stop_producers env c)))) + mset (rejected (co_sink (stop_processor env (stop_producers env c))))
       + mset (co_flushing (stop_processor env (stop_producers env c))) + mset (buffer x1) + mset gone
     = mset (accepted (co_sink c)) + mset (rejected (co_sink c)) + mset (co_flushing c) + mset (buffer x)
       + mset (result_points env (taken @ queued_results (stop_producers env c)) (co_extract c, co_heat c, x))"
    "connected x \<and> (\<forall>w b. accepted_reply (fst (sd_api env w b))) \<Longrightarrow>
       connected x1 \<and> rejected (co_sink (stop_processor env (stop_producers env c))) = rejected (co_sink c)"
proof -
  let ?rs = "taken @ queued_results (stop_producers env c)"
  let ?q = "(?rs, co_flushing c, (co_extract c, co_heat c, x), co_sink c)"
  obtain rest fl ex d x1 s where run: "drain_processor env ?q = (rest, fl, (ex, d, x1), s)" by (metis prod.collapse)
  have empty: "rest = []" using drain_processor_empties [of env ?q] run by simp
  have c2: "co_exporter (stop_processor env (stop_producers env c)) = Some x1" "co_sink (stop_processor env (stop_producers env c)) = s"
      "co_flushing (stop_processor env (stop_producers env c)) = fl"
    using parts run by (simp_all add: stop_processor_def to_process_def)
  have q: "buffer_fits (drain_exporter ?q)" using fits by simp
  have "drain_accounted env ?q (rest, fl, (ex, d, x1), s)"
    using drain_fold_accounted [OF q, of env "sd_events env @ map (\<lambda>_. Process) ?rs"] run by (simp add: drain_processor_def)
  then obtain gone where g: "buffer_fits x1" "batch_size x1 = batch_size x" "drain_total env ?q = drain_total env (rest, fl, (ex, d, x1), s) + mset gone"
      "dropped_points x1 = dropped_points x + length gone" by (auto simp: drain_accounted_def)
  show ?thesis
  proof (rule that [of x1 gone])
    show "connected x1 \<and> rejected (co_sink (stop_processor env (stop_producers env c))) = rejected (co_sink c)"
      if "connected x \<and> (\<forall>w b. accepted_reply (fst (sd_api env w b)))"
      using drain_fold_accepts [of env ?q "sd_events env @ map (\<lambda>_. Process) ?rs"] that fits run c2
      by (simp add: drain_processor_def)
  qed (use c2 g empty in \<open>simp_all add: ac_simps\<close>)
qed

text \<open>
  (C35) A shutdown accounts for every metric the collector holds, whatever InfluxDB answers to each write, whether it
  is connected, and whatever the flush loop does beside the drain, if the processor ends within its budget: the points
  of the buffer, of a flush that is under way at the start and of all results the poller and the processor still hold,
  those of polls in flight included, are at the end delivered, rejected by the server, dropped by the cap of the
  buffer and counted, left over in the buffer of the closed exporter, which ends with the process, or lost with the
  flush that is under way when the exporter is closed. If InfluxDB accepts everything and the exporter is connected,
  nothing is left in the buffer or rejected, and the only loss are the batches of that last flush that had not been sent.
\<close>

theorem shutdown_accounts_points:
  assumes parts: "co_exporter c = Some x" "co_processor c = Some taken" "co_stop_event c" "drained_in_time env"
    and cap: "0 < batch_size x" "0 < max_buffer_size x" "length (buffer x) \<le> max_buffer_size x"
    and fl: "fl = co_flushing (stop_background env (stop_processor env (stop_producers env c)))"
  shows "\<exists>x' gone lost. co_exporter (shutdown_collector env c) = Some x' \<and> \<not> connected x' \<and> mset lost \<subseteq># mset fl
    \<and> dropped_points x' = dropped_points x + length gone
    \<and> mset (accepted (co_sink (shutdown_collector env c))) + mset (rejected (co_sink (shutdown_collector env c)))
        + mset (buffer x') + mset gone + mset lost
      = mset (accepted (co_sink c)) + mset (rejected (co_sink c)) + mset (co_flushing c) + mset (buffer x)
        + mset (result_points env (taken @ queued_results (stop_producers env c)) (co_extract c, co_heat c, x))
    \<and> (connected x \<and> (\<forall>w b. accepted_reply (fst (sd_api env w b))) \<longrightarrow>
        buffer x' = [] \<and> rejected (co_sink (shutdown_collector env c)) = rejected (co_sink c)
        \<and> lost = unsent env x fl)"
proof -
  let ?c2 = "stop_processor env (stop_producers env c)"
  have "buffer_fits x" using cap by (simp add: buffer_fits_def)
  from drain_totals [OF parts this] obtain x1 g where
    d: "co_exporter ?c2 = Some x1" "buffer_fits x1" "batch_size x1 = batch_size x" "dropped_points x1 = dropped_points x + length g"
      "mset (accepted (co_sink ?c2)) + mset (rejected (co_sink ?c2)) + mset (co_flushing ?c2) + mset (buffer x1) + mset g
        = mset (accepted (co_sink c)) + mset (rejected (co_sink c)) + mset (co_flushing c) + mset (buffer x)
          + mset (result_points env (taken @ queued_results (stop_producers env c)) (co_extract c, co_heat c, x))"
    and good: "connected x \<and> (\<forall>w b. accepted_reply (fst (sd_api env w b))) \<Longrightarrow> connected x1 \<and> rejected (co_sink ?c2) = rejected (co_sink c)"
    by blast
  have fl2: "co_flushing ?c2 = fl" using fl by simp
  obtain x' s' where close: "exporter_close env fl x1 (co_sink ?c2) = (x', s')" by fastforce
  have end_: "co_exporter (shutdown_collector env c) = Some x'" "co_sink (shutdown_collector env c) = s'"
    using d(1) fl2 close by (simp_all add: shutdown_collector_def close_outputs_def)
  obtain h lost where e: "\<not> connected x'" "mset lost \<subseteq># mset fl" "dropped_points x' = dropped_points x1 + length h"
      "mset (accepted s') + mset (rejected s') + mset (buffer x') + mset h + mset lost
        = mset (accepted (co_sink ?c2)) + mset (rejected (co_sink ?c2)) + mset fl + mset (buffer x1)"
      "connected x1 \<and> (\<forall>w b. accepted_reply (fst (sd_api env w b))) \<longrightarrow>
        buffer x' = [] \<and> rejected s' = rejected (co_sink ?c2) \<and> lost = unsent env x1 fl"
    using exporter_close_loss [OF d(2) close] by blast
  have "mset (accepted s') + mset (rejected s') + mset (buffer x') + mset (g @ h) + mset lost
      = (mset (accepted s') + mset (rejected s') + mset (buffer x') + mset h + mset lost) + mset g" by (simp only: mset_append ac_simps)
  also have "\<dots> = mset (accepted (co_sink c)) + mset (rejected (co_sink c)) + mset (co_flushing c) + mset (buffer x)
        + mset (result_points env (taken @ queued_results (stop_producers env c)) (co_extract c, co_heat c, x))"
    unfolding e(4) d(5) [symmetric] fl2 by (simp only: ac_simps)
  finally have total: "mset (accepted s') + mset (rejected s') + mset (buffer x') + mset (g @ h) + mset lost
      = mset (accepted (co_sink c)) + mset (rejected (co_sink c)) + mset (co_flushing c) + mset (buffer x)
        + mset (result_points env (taken @ queued_results (stop_producers env c)) (co_extract c, co_heat c, x))" .
  have same: "unsent env x1 fl = unsent env x fl" by (simp add: unsent_def d(3))
  show ?thesis unfolding end_
    by (intro exI [of _ x'] exI [of _ "g @ h"] exI [of _ lost] conjI impI) (use e d(4) total good same in \<open>auto simp del: mset_append\<close>)
qed

definition sample_shutdown :: "(unit, rat) shutdown_env" where
  "sample_shutdown =
     \<lparr>sd_interval = 300, sd_clock = 0, sd_inflight = [], sd_jitter = 0, sd_status_up = True, sd_drain_time = 4,
      sd_finished = (\<lambda>i. False), sd_events = [Flush_Done 0, Flush_Wake], sd_extract = sample_extract_env, sd_to_point = mt_value, sd_random = (\<lambda>_. None),
      sd_timestamp = (\<lambda>_. 0), sd_now = 0, sd_leases_raise = False, sd_slot_raises = False, sd_store_up1 = True,
      sd_store_up2 = True, sd_race = id, sd_sent = (\<lambda>i. False), sd_api = (\<lambda>w b. (Accepted 5, w))\<rparr>"

definition sample_collector :: "(unit, rat) collector" where
  "sample_collector =
     \<lparr>co_poller = None, co_status = [], co_sse = True,
      co_processor = Some [sample_poll ''n'' [] (Some sample_reports)], co_stop_event = True, co_tasks = [''cleanup''],
      co_shard = None, co_shard_db = demo_db, co_alerts = None, co_alert_db = empty_alert_db, co_extract = ([], []),
      co_heat = [], co_exporter = Some ((new_exporter 5)\<lparr>connected := True, running := True, buffer := [7]\<rparr>), co_flushing = [8, 9],
      co_sink = \<lparr>world = (), accepted = [], rejected = []\<rparr>, co_repository = True, co_pool = True\<rparr>"

theorem shutdown_accounts_points_witness:
  "\<exists>x' gone lost. co_exporter (shutdown_collector sample_shutdown sample_collector) = Some x' \<and> buffer x' = []
     \<and> dropped_points x' = length gone \<and> lost = [7]
     \<and> mset (accepted (co_sink (shutdown_collector sample_shutdown sample_collector))) + mset gone + mset lost = mset [8, 9, 7, 1, 3]"
proof -
  let ?x = "(new_exporter 5)\<lparr>connected := True, running := True, buffer := [7]\<rparr> :: rat exporter"
  let ?taken = "[sample_poll ''n'' [] (Some sample_reports)]"
  let ?c2 = "stop_processor sample_shutdown (stop_producers sample_shutdown sample_collector)"
  have parts: "co_exporter sample_collector = Some ?x" "co_processor sample_collector = Some ?taken" "co_stop_event sample_collector"
    "drained_in_time sample_shutdown"
    by (simp_all add: sample_collector_def sample_shutdown_def drained_in_time_def PROCESSOR_TIMEOUT_def PROCESSOR_DRAIN_TIMEOUT_def)
  have x: "0 < batch_size ?x" "0 < max_buffer_size ?x" "length (buffer ?x) \<le> max_buffer_size ?x"
    by (simp_all add: new_exporter_def MAX_BUFFER_ABSOLUTE_def)
  have done_: "\<exists>x1 s1. finish_flush (sd_api sample_shutdown) 0 [8, 9] ?x (co_sink sample_collector) = (x1, s1)
      \<and> running x1 \<and> connected x1 \<and> buffer x1 = [7]"
    by (simp add: finish_flush_def batches_of_def write_or_bisect.simps [of _ "[8, 9]"] send_def sample_shutdown_def sample_collector_def
        new_exporter_def account_results_def update_latency_def check_failures_def RECONNECT_THRESHOLD_def Let_def)
  then obtain x1 s1 where done_: "finish_flush (sd_api sample_shutdown) 0 [8, 9] ?x (co_sink sample_collector) = (x1, s1)"
    "running x1" "connected x1" "buffer x1 = [7]" by blast
  have ev: "sd_events sample_shutdown = [Flush_Done 0, Flush_Wake]" by (simp add: sample_shutdown_def)
  have q: "queued_results (stop_producers sample_shutdown sample_collector) = []"
    by (simp add: queued_results_def stop_producers_def sample_collector_def)
  have co: "co_flushing sample_collector = [8, 9]" by (simp add: sample_collector_def)
  have "co_flushing ?c2 = [7]"
    by (simp add: stop_processor_def to_process_def parts ev q co done_ drain_processor_def start_flush_def split: prod.split)
  then have fl: "[7] = co_flushing (stop_background sample_shutdown ?c2)" by simp
  have "map mt_value (fst (fst (sync_extract_metrics sample_extract_env None 0 0 (sample_poll ''n'' [] (Some sample_reports)) ([], [])))) = [1, 3]"
    by code_simp
  then have pts: "result_points sample_shutdown (?taken @ []) (co_extract sample_collector, co_heat sample_collector, ?x) = [1, 3]"
    by (simp add: sample_shutdown_def sample_collector_def sample_poll_def)
  have lost: "unsent sample_shutdown ?x [7] = [7]"
    by (simp add: unsent_def picked_def batches_of_def sample_shutdown_def new_exporter_def)
  have good: "connected ?x \<and> (\<forall>w b. accepted_reply (fst (sd_api sample_shutdown w b)))" by (simp add: sample_shutdown_def)
  have before: "dropped_points ?x = 0" "buffer ?x = [7]" "co_flushing sample_collector = [8, 9]"
    "accepted (co_sink sample_collector) = []" "rejected (co_sink sample_collector) = []"
    by (simp_all add: new_exporter_def sample_collector_def)
  have total: "mset [] + mset [] + mset [8, 9] + mset [7] + mset [1, 3] = (mset [8, 9, 7, 1, 3] :: rat multiset)" by simp
  from shutdown_accounts_points [OF parts x fl, unfolded q pts before total lost] obtain x' gone lost where
    e: "co_exporter (shutdown_collector sample_shutdown sample_collector) = Some x'" "dropped_points x' = 0 + length gone"
      "mset (accepted (co_sink (shutdown_collector sample_shutdown sample_collector)))
         + mset (rejected (co_sink (shutdown_collector sample_shutdown sample_collector))) + mset (buffer x') + mset gone + mset lost
       = mset [8, 9, 7, 1, 3]"
      "buffer x' = []" "rejected (co_sink (shutdown_collector sample_shutdown sample_collector)) = []" "lost = [7]"
    using good by blast
  from e(3) have "mset (accepted (co_sink (shutdown_collector sample_shutdown sample_collector))) + mset gone + mset lost = mset [8, 9, 7, 1, 3]"
    unfolding e(4, 5) by (simp only: mset.simps add_0_right)
  then show ?thesis using e(1, 2, 4, 6) by auto
qed

text \<open>The alerts the manager still holds are stored, and the targets of the shard are free for the other collectors.\<close>

lemma shutdown_stores_alerts:
  assumes "co_alerts c = Some (subs, p)" "alerts_ok (co_alert_db c)" "honest_race (sd_race env)" "sd_store_up1 env" "sd_store_up2 env"
  shows "alerts_ok (co_alert_db (shutdown_collector env c))
    \<and> event_key ` set (held_alerts (p, co_alert_db c)) \<subseteq> stored_keys (co_alert_db (shutdown_collector env c))"
proof -
  obtain p' db' where stop: "stop_pipeline (sd_now env) True True (sd_race env) (p, co_alert_db c) = (p', db')" by fastforce
  have kept: "co_alerts (stop_processor env (stop_producers env c)) = co_alerts c"
      "co_alert_db (stop_processor env (stop_producers env c)) = co_alert_db c"
    by (auto simp: stop_processor_def stop_producers_def Let_def split: option.splits prod.splits)
  have "co_alert_db (stop_background env (stop_processor env (stop_producers env c))) = db'"
    using assms(1, 4, 5) stop kept
    by (auto simp: stop_background_def alerts_stop_def Let_def split: option.splits prod.splits)
  then have "co_alert_db (shutdown_collector env c) = db'"
    by (auto simp: shutdown_collector_def close_outputs_def Let_def split: option.splits prod.splits)
  moreover obtain written where "alerts_ok db'" "mset (held_alerts (p, co_alert_db c)) = mset written"
      "stored_keys (co_alert_db c) \<union> event_key ` set written \<subseteq> stored_keys db'"
    using stop_pipeline_accounts [OF assms(2, 3) stop] by (auto simp: abandoned_def)
  ultimately show ?thesis by (metis Un_subset_iff set_mset_mset)
qed

section \<open>What healthy means\<close>

lemma percent_less: "0 < whole \<Longrightarrow> percent part whole < of_nat n \<longleftrightarrow> 100 * part < n * whole"
proof -
  assume w: "0 < whole"
  have "percent part whole < of_nat n \<longleftrightarrow> of_nat (100 * part) < (of_nat (n * whole) :: rat)"
    using w by (simp add: percent_def field_simps)
  then show ?thesis by (simp only: of_nat_less_iff)
qed

text \<open>
  (C36) The collector reports itself healthy exactly when the whole chain works: InfluxDB answers and the exporter is
  connected, has written within ten minutes or not at all yet, has never dropped a point and has a buffer less than 95
  percent full; the poller runs and has completed a poll recently; and the alert manager, where there is one, gives its
  statistics and reaches its store. High latency and passing write failures alone never make it unhealthy.
\<close>

theorem collector_healthy_iff:
  "hb_healthy (detailed_health now mono_now ping store s) \<longleftrightarrow>
     (\<exists>x rej. pa_exporter s = Some (x, rej) \<and> connected x \<and> ping \<and> pipeline_recent now x \<and> dropped_points x = 0
        \<and> 0 < max_buffer_size x \<and> 100 * length (buffer x) < 95 * max_buffer_size x)
     \<and> (\<exists>interval p. pa_poller s = Some (True, interval, p) \<and> is_making_progress True interval mono_now p)
     \<and> (pa_alert_manager s = None \<or> pa_alert_manager s = Some False \<and> store)"
proof -
  have util: "0 < max_buffer_size x \<Longrightarrow> percent (length (buffer x)) (max_buffer_size x) < 95 \<longleftrightarrow> 100 * length (buffer x) < 95 * max_buffer_size x"
    for x :: "'a exporter" using percent_less [of "max_buffer_size x" "length (buffer x)" 95] by simp
  have exporter: "(case pa_exporter s of None \<Rightarrow> False
      | Some (x, rej) \<Rightarrow> (case get_health_metrics now x rej of None \<Rightarrow> False
                        | Some m \<Rightarrow> health_check ping x \<and> list_all (\<lambda>ok. ok) (hr_critical m)))
    \<longleftrightarrow> (\<exists>x rej. pa_exporter s = Some (x, rej) \<and> connected x \<and> ping \<and> pipeline_recent now x \<and> dropped_points x = 0
        \<and> 0 < max_buffer_size x \<and> 100 * length (buffer x) < 95 * max_buffer_size x)"
    by (auto simp: get_health_metrics_def health_check_def Let_def util split: option.splits)
  have "hb_healthy (detailed_health now mono_now ping store s) \<longleftrightarrow>
      (case pa_exporter s of None \<Rightarrow> False
      | Some (x, rej) \<Rightarrow> (case get_health_metrics now x rej of None \<Rightarrow> False
                        | Some m \<Rightarrow> health_check ping x \<and> list_all (\<lambda>ok. ok) (hr_critical m)))
     \<and> (case pa_poller s of None \<Rightarrow> False | Some (r, interval, p) \<Rightarrow> r \<and> is_making_progress r interval mono_now p)
     \<and> (case pa_alert_manager s of None \<Rightarrow> True | Some raises \<Rightarrow> \<not> raises \<and> store)"
    by (auto simp: detailed_health_def Let_def is_making_progress_def split: option.splits)
  then show ?thesis unfolding exporter by (auto split: option.splits)
qed

section \<open>Who may start a poll\<close>

text \<open>
  A process that passed the checks of \<open>run\<close> polls on demand only for a caller with the secret derived from the
  encryption key, and the API process, which has the same key, is such a caller; every other request leaves status
  rows and exporter alone.
\<close>

lemma manual_poll_guarded:
  assumes "run_checks c s \<noteq> None"
  shows "(header \<noteq> internal_service_token s \<longrightarrow>
       (\<exists>r \<in> {Forbidden, Server_Error}. trigger_manual_poll s header ready env to_point ts tid (poller, rows, st) = (r, poller, rows, st)))
    \<and> internal_call_allowed s (internal_service_token s) = Some True"
proof -
  obtain t where t: "internal_service_token s = Some t" using started_has_token [OF assms] by blast
  have ne: "t \<noteq> []" using t by (auto simp: internal_service_token_def hexdigest_def split: if_splits dest!: arg_cong [where f = length])
  show ?thesis
    using t ne internal_token_plain [OF t]
    by (auto simp: internal_call_allowed_def compare_digest_def trigger_manual_poll_def split: option.splits)
qed

text \<open>A webhook body that is too large, no JSON object, of no subscribed target or without its context changes nothing.\<close>

lemma webhook_refused:
  assumes "\<And>d. am_webhook subs tid = Some w \<and> loads raw = Some (JObj d) \<Longrightarrow> dict_get d ''Context'' \<noteq> JStr (target_context tid)"
    and "am_webhook subs tid \<in> {None, Some w}" "raw \<noteq> []"
  shows "snd (redfish_webhook_receiver pc now loads (Some subs) tid raw events p) = p"
  using assms
  by (auto simp: redfish_webhook_receiver_def process_webhook_event_def split: option.splits json.splits)

end
