(* ===== verification/Operator_Views.thy ===== *)
theory Operator_Views
  imports Alert_Subscriptions App_Config
begin

text \<open>
  What operators see of the alerts, \<open>collector/src/api/routes/alerts.py\<close>, with the statistics the alert manager
  publishes for it (\<open>AlertManager.get_stats\<close>), and the policy resource of \<open>api/routes/redfish.py\<close>: the statistics of
  all collectors merged into one view, the state of every subscription, the pages of the alert list. Texts of
  instants are the instants themselves; a published row without statistics is \<open>None\<close>.
\<close>

section \<open>Statistics of an alert manager\<close>

fun state_value :: "subscription_state \<Rightarrow> string" where
  "state_value CONNECTED = ''connected''"
| "state_value RECONNECTING = ''reconnecting''"
| "state_value DEGRADED = ''degraded''"
| "state_value ON_COOLDOWN = ''on_cooldown''"
| "state_value FAILED_PERMANENT = ''failed_permanent''"
| "state_value STOPPED = ''stopped''"

text \<open>An entry of \<open>subscribers\<close>. Those of webhooks have no state, no failures and no times.\<close>

record sub_entry =
  se_target_id :: target_id
  se_target_name :: string
  se_subscription_type :: string
  se_state :: "string option"
  se_consecutive_failures :: "nat option"
  se_failure_reason :: "string option"
  se_next_retry_time :: "instant option"
  se_is_subscribed :: "bool option"

definition sse_entry :: "target_id \<Rightarrow> string \<Rightarrow> subscriber \<Rightarrow> sub_entry" where
  "sse_entry tid name sb =
     \<lparr>se_target_id = tid, se_target_name = name, se_subscription_type = ''sse'', se_state = Some (state_value (sb_state sb)),
      se_consecutive_failures = Some (sb_failures sb), se_failure_reason = sb_failure_reason sb,
      se_next_retry_time = sb_next_retry sb, se_is_subscribed = None\<rparr>"

definition webhook_entry :: "target_id \<Rightarrow> string \<Rightarrow> webhook_sub \<Rightarrow> sub_entry" where
  "webhook_entry tid name w =
     \<lparr>se_target_id = tid, se_target_name = name, se_subscription_type = ''webhook'', se_state = None,
      se_consecutive_failures = None, se_failure_reason = None, se_next_retry_time = None,
      se_is_subscribed = Some (wh_id w \<noteq> None)\<rparr>"

record cper_counts =
  cc_decoded :: int
  cc_failed :: int
  cc_backlog :: "(cper_status \<times> int) list"

record manager_stats =
  ms_active_subscriptions :: nat
  ms_sse_subscriptions :: nat
  ms_webhook_subscriptions :: nat
  ms_permanent_failure_retries :: "(target_id \<times> instant option) list"
  ms_queue_size :: int
  ms_alerts_received :: int
  ms_alerts_written :: int
  ms_alerts_dropped :: int
  ms_baseline_pulled :: int
  ms_baseline_jobs_active :: int
  ms_cper :: cper_counts
  ms_subscribers :: "sub_entry list"

text \<open>
  \<open>get_stats\<close>: \<open>order\<close> lists the targets the manager knows, in the order of its dictionaries, \<open>name\<close> their names. The
  failed targets are sorted; \<open>None\<close> is \<open>datetime.max\<close>, a target that is never tried again by itself.
\<close>

definition get_stats ::
  "target_id list \<Rightarrow> (target_id \<Rightarrow> string) \<Rightarrow> nat \<Rightarrow> cper_counts \<Rightarrow> subscriptions \<Rightarrow> alert_pipeline \<Rightarrow> manager_stats" where
  "get_stats order name pulled cper st p =
     (let sse = List.map_filter (\<lambda>t. map_option (sse_entry t (name t)) (am_sse st t)) order;
          webhooks = List.map_filter (\<lambda>t. map_option (webhook_entry t (name t)) (am_webhook st t)) order
      in \<lparr>ms_active_subscriptions = length sse + length webhooks, ms_sse_subscriptions = length sse,
          ms_webhook_subscriptions = length webhooks,
          ms_permanent_failure_retries =
            List.map_filter (\<lambda>t. map_option (Pair t) (am_failed st t)) (sorted_set order),
          ms_queue_size = int (length (pl_queue p)), ms_alerts_received = int (pl_received p), ms_alerts_written = pl_written p,
          ms_alerts_dropped = int (pl_dropped p), ms_baseline_pulled = int pulled,
          ms_baseline_jobs_active = int (length (am_baseline_jobs st)), ms_cper = cper, ms_subscribers = sse @ webhooks\<rparr>)"

section \<open>One view of all collectors\<close>

type_synonym stats_row = "instant \<times> manager_stats option"

record fleet_stats =
  fs_subscribers :: "sub_entry list"
  fs_permanent_failure_retries :: "(target_id \<times> instant option) list"
  fs_active_subscriptions :: nat
  fs_sse_subscriptions :: nat
  fs_webhook_subscriptions :: nat
  fs_permanently_failed :: nat
  fs_cper_backlog :: "(cper_status \<times> int) list"
  fs_sums :: "int list"
  fs_collector_count :: nat

text \<open>The cumulative counters, in the order of the tuple.\<close>

definition cumulative :: "manager_stats \<Rightarrow> int list" where
  "cumulative m =
     [ms_alerts_received m, ms_alerts_written m, ms_alerts_dropped m, ms_queue_size m, cc_decoded (ms_cper m),
      cc_failed (ms_cper m), ms_baseline_pulled m, ms_baseline_jobs_active m]"

definition add_counts :: "int list \<Rightarrow> int list \<Rightarrow> int list" where
  "add_counts xs ys = map2 (+) xs ys"

definition subscribers_by_tid :: "manager_stats list \<Rightarrow> (target_id \<times> sub_entry) list" where
  "subscribers_by_tid ms = fold (\<lambda>s. AList.update (se_target_id s) s) (concat (map ms_subscribers ms)) []"

definition retries_by_tid :: "manager_stats list \<Rightarrow> (target_id \<times> instant option) list" where
  "retries_by_tid ms = fold (\<lambda>(t, r). AList.update t r) (concat (map ms_permanent_failure_retries ms)) []"

definition merge_backlog :: "manager_stats list \<Rightarrow> (cper_status \<times> int) list" where
  "merge_backlog ms =
     fold (\<lambda>(s, n) b. AList.update s ((case map_of b s of None \<Rightarrow> 0 | Some k \<Rightarrow> k) + n) b) (concat (map (cc_backlog \<circ> ms_cper) ms)) []"

text \<open>
  \<open>_aggregate_collector_stats\<close>: \<open>Inl\<close> of the rows is a database error. The oldest row comes first, so that the newest
  owner of a target wins; \<open>None\<close> while nobody has published statistics.
\<close>

definition aggregate_collector_stats :: "unit + stats_row list \<Rightarrow> fleet_stats option" where
  "aggregate_collector_stats result =
     (case result of
        Inl _ \<Rightarrow> None
      | Inr rows \<Rightarrow>
          (let ms = List.map_filter snd (sort_key fst rows);
               subscribers = map snd (subscribers_by_tid ms);
               retries = retries_by_tid ms
           in if ms = [] then None
              else Some \<lparr>fs_subscribers = subscribers, fs_permanent_failure_retries = retries,
                     fs_active_subscriptions = length subscribers,
                     fs_sse_subscriptions = length (filter (\<lambda>s. se_subscription_type s = ''sse'') subscribers),
                     fs_webhook_subscriptions = length (filter (\<lambda>s. se_subscription_type s = ''webhook'') subscribers),
                     fs_permanently_failed = length retries, fs_cper_backlog = merge_backlog ms,
                     fs_sums = fold (\<lambda>m. add_counts (cumulative m)) ms (replicate 8 0), fs_collector_count = length rows\<rparr>))"

section \<open>The state of every subscription\<close>

record view_target =
  vt_id :: target_id
  vt_name :: string
  vt_host :: string
  vt_enabled :: bool
  vt_enable_alert_subscription :: bool

record sub_status =
  ss_target_id :: target_id
  ss_target_name :: string
  ss_target_bmc :: string
  ss_status :: string
  ss_consecutive_failures :: nat
  ss_next_retry_time :: "instant option"
  ss_auto_retry_disabled :: bool
  ss_alerts_24h :: int
  ss_critical_count :: int
  ss_warning_count :: int
  ss_ok_count :: int

datatype sub_class = Active | Disconnected | Failed

text \<open>An entry without a state counts as stopped.\<close>

definition shown_state :: "sub_entry \<Rightarrow> string" where
  "shown_state e = (case se_state e of None \<Rightarrow> ''stopped'' | Some s \<Rightarrow> s)"

definition class_of :: "string \<Rightarrow> sub_class" where
  "class_of state =
     (if state = ''connected'' then Active else if state \<in> {''reconnecting'', ''degraded''} then Disconnected else Failed)"

definition count_at :: "(target_id \<times> string \<rightharpoonup> int) \<Rightarrow> target_id \<Rightarrow> string \<Rightarrow> int" where
  "count_at grouped t sev = (case grouped (t, sev) of None \<Rightarrow> 0 | Some n \<Rightarrow> n)"

definition target_status ::
  "fleet_stats \<Rightarrow> (target_id \<times> string \<rightharpoonup> int) \<Rightarrow> view_target \<Rightarrow> sub_class \<times> sub_status" where
  "target_status fs grouped t =
     (case find (\<lambda>s. se_target_id s = vt_id t) (fs_subscribers fs) of
        Some e \<Rightarrow>
          (let critical = count_at grouped (vt_id t) ''Critical''; warning = count_at grouped (vt_id t) ''Warning'';
               ok = count_at grouped (vt_id t) ''OK''
           in (class_of (shown_state e),
               \<lparr>ss_target_id = vt_id t, ss_target_name = vt_name t, ss_target_bmc = vt_host t, ss_status = shown_state e,
                ss_consecutive_failures = (case se_consecutive_failures e of None \<Rightarrow> 0 | Some n \<Rightarrow> n),
                ss_next_retry_time = se_next_retry_time e, ss_auto_retry_disabled = False,
                ss_alerts_24h = critical + warning + ok, ss_critical_count = critical, ss_warning_count = warning,
                ss_ok_count = ok\<rparr>))
      | None \<Rightarrow>
          (let retry = map_of (fs_permanent_failure_retries fs) (vt_id t)
           in (Failed,
               \<lparr>ss_target_id = vt_id t, ss_target_name = vt_name t, ss_target_bmc = vt_host t,
                ss_status = (if retry \<noteq> None then ''failed_permanent'' else ''not_subscribed''),
                ss_consecutive_failures = 0, ss_next_retry_time = Option.bind retry id,
                ss_auto_retry_disabled = (retry = Some None), ss_alerts_24h = 0, ss_critical_count = 0,
                ss_warning_count = 0, ss_ok_count = 0\<rparr>)))"

record status_view =
  sv_subscriptions :: "sub_status list"
  sv_total_targets :: nat
  sv_active :: nat
  sv_disconnected :: nat
  sv_failed :: nat

text \<open>\<open>get_subscription_status_api\<close>; \<open>None\<close> is the answer that alerts are disabled.\<close>

definition subscription_status ::
  "instant \<Rightarrow> fleet_stats option \<Rightarrow> view_target list \<Rightarrow> alert_db \<Rightarrow> status_view option" where
  "subscription_status now stats ts db =
     map_option (\<lambda>fs.
       (let grouped = count_alerts_by_target_severity (Some (Aware (now - seconds 86400) 0)) db;
            alert_targets = filter (\<lambda>t. vt_enable_alert_subscription t \<and> vt_enabled t) ts;
            found = map (target_status fs grouped) alert_targets;
            number = (\<lambda>c. length (filter (\<lambda>x. fst x = c) found))
        in \<lparr>sv_subscriptions = sort_key (\<lambda>s. - ss_alerts_24h s) (map snd found), sv_total_targets = length alert_targets,
            sv_active = number Active, sv_disconnected = number Disconnected, sv_failed = number Failed\<rparr>)) stats"

section \<open>The pages of the alert list\<close>

definition PAGE_SIZE :: nat where
  "PAGE_SIZE = 100"

record page_query =
  pq_hours :: int
  pq_page :: int
  pq_severity :: "string option"
  pq_target_id :: "string option"
  pq_search :: "string option"

record alert_page =
  ap_alerts :: "(int \<times> alert_row) list"
  ap_critical :: int
  ap_warning :: int
  ap_count :: int
  ap_page :: int
  ap_total_pages :: int
  ap_page_start :: int
  ap_page_end :: int
  ap_store_error :: bool

definition base_filter :: "instant \<Rightarrow> page_query \<Rightarrow> alert_filter" where
  "base_filter now q =
     \<lparr>af_target_id = (case pq_target_id q of None \<Rightarrow> None | Some s \<Rightarrow> if py_strip s = [] then None else py_int10 s),
      af_severity = None,
      af_since = (if pq_hours q > 0 then Some (Aware (now - pq_hours q * seconds 3600) 0) else None),
      af_severity_in = [], af_severity_not_in = [], af_search = or_empty (pq_search q)\<rparr>"

definition page_filter :: "instant \<Rightarrow> page_query \<Rightarrow> alert_filter" where
  "page_filter now q =
     (if pq_severity q \<in> {Some ''Critical'', Some ''Warning''} then (base_filter now q)\<lparr>af_severity := pq_severity q\<rparr>
      else (base_filter now q)\<lparr>af_severity_in := [''Critical'', ''Warning'']\<rparr>)"

definition severity_count :: "instant \<Rightarrow> page_query \<Rightarrow> alert_db \<Rightarrow> string \<Rightarrow> int" where
  "severity_count now q db s = (case count_alerts_grouped_by_severity (base_filter now q) db s of None \<Rightarrow> 0 | Some n \<Rightarrow> n)"

definition selected_count :: "instant \<Rightarrow> page_query \<Rightarrow> alert_db \<Rightarrow> int" where
  "selected_count now q db =
     (if pq_severity q = Some ''Critical'' then severity_count now q db ''Critical''
      else if pq_severity q = Some ''Warning'' then severity_count now q db ''Warning''
      else severity_count now q db ''Critical'' + severity_count now q db ''Warning'')"

text \<open>The quotient of the code is exact up to 2 ^ 53 alerts.\<close>

definition page_total :: "int \<Rightarrow> int" where
  "page_total number = (if number = 0 then 1 else max 1 (ceil_div number (int PAGE_SIZE)))"

text \<open>\<open>alerts_page\<close>; \<open>up\<close>: the store answers.\<close>

definition alerts_page :: "instant \<Rightarrow> bool \<Rightarrow> page_query \<Rightarrow> alert_db \<Rightarrow> alert_page" where
  "alerts_page now up q db =
     (if \<not> up then
        \<lparr>ap_alerts = [], ap_critical = 0, ap_warning = 0, ap_count = 0, ap_page = 1, ap_total_pages = 1, ap_page_start = 0,
         ap_page_end = 0, ap_store_error = True\<rparr>
      else
        (let number = selected_count now q db;
             page = min (pq_page q) (page_total number);
             offset = (page - 1) * int PAGE_SIZE;
             found = get_alerts (page_filter now q) PAGE_SIZE (nat offset) db
         in \<lparr>ap_alerts = found, ap_critical = severity_count now q db ''Critical'', ap_warning = severity_count now q db ''Warning'',
             ap_count = number, ap_page = page, ap_total_pages = page_total number,
             ap_page_start = (if number = 0 then 0 else offset + 1), ap_page_end = offset + int (length found),
             ap_store_error = False\<rparr>))"

section \<open>The policy resource\<close>

datatype trigger_condition = Or_Events "string list" | Any_Event_At "string list"

definition trigger_condition_of :: "policy_config \<Rightarrow> trigger_condition" where
  "trigger_condition_of cfg =
     (if pc_trigger_message_ids cfg \<noteq> [] then Or_Events (pc_trigger_message_ids cfg) else Any_Event_At (pc_trigger_severities cfg))"

record policy_resource =
  pr_enabled :: bool
  pr_trigger :: trigger_condition
  pr_target_uri :: string
  pr_body :: "string dict"
  pr_rearm :: duration
  pr_severities :: "string list"

definition diagnostic_log_policy :: "app_config \<Rightarrow> policy_resource" where
  "diagnostic_log_policy c =
     \<lparr>pr_enabled = (pc_enabled (cfg_policy c) \<and> pc_operating_mode (cfg_policy c) = ''Enabled''),
      pr_trigger = trigger_condition_of (cfg_policy c), pr_target_uri = rf_collect_endpoint (cfg_redfish c),
      pr_body = rf_collect_body (cfg_redfish c), pr_rearm = pc_rearm_seconds (cfg_policy c),
      pr_severities = pc_trigger_severities (cfg_policy c)\<rparr>"

definition policy_service_mode :: "policy_config \<Rightarrow> string" where
  "policy_service_mode cfg = (if pc_enabled cfg then pc_operating_mode cfg else ''Disabled'')"

section \<open>The merged view\<close>

lemma fold_update_last:
  "map_of (fold (\<lambda>s. AList.update (f s) s) xs al) t
     = (case filter (\<lambda>s. f s = t) xs of [] \<Rightarrow> map_of al t | ys \<Rightarrow> Some (last ys))"
  by (induction xs arbitrary: al) (auto simp: map_of_update split: list.splits)

lemma fold_update_keyed:
  "distinct (map fst al) \<Longrightarrow> (\<forall>(k, v) \<in> set al. f v = k) \<Longrightarrow>
     distinct (map fst (fold (\<lambda>s. AList.update (f s) s) xs al)) \<and> (\<forall>(k, v) \<in> set (fold (\<lambda>s. AList.update (f s) s) xs al). f v = k)"
proof (induction xs arbitrary: al)
  case (Cons x xs)
  have "\<forall>(k, v) \<in> set (AList.update (f x) x al). f v = k"
  proof safe
    fix k v assume "(k, v) \<in> set (AList.update (f x) x al)"
    then have "map_of (AList.update (f x) x al) k = Some v" using Cons.prems(1) by (simp add: distinct_update map_of_eq_Some_iff)
    then show "f v = k" using Cons.prems by (auto simp: map_of_update map_of_eq_Some_iff split: if_splits)
  qed
  then show ?case using Cons.IH [of "AList.update (f x) x al"] distinct_update [OF Cons.prems(1)] by simp
qed simp

lemma find_keyed: "(\<forall>(k, v) \<in> set al. f v = k) \<Longrightarrow> find (\<lambda>s. f s = t) (map snd al) = map_of al t"
  by (induction al) auto

definition published :: "stats_row list \<Rightarrow> manager_stats list" where
  "published rows = List.map_filter snd (sort_key fst rows)"

lemma subscribers_by_tid_keyed:
  "distinct (map fst (subscribers_by_tid ms))" "\<forall>(k, v) \<in> set (subscribers_by_tid ms). se_target_id v = k"
  using fold_update_keyed [of "[]" se_target_id "concat (map ms_subscribers ms)"] by (simp_all add: subscribers_by_tid_def)

lemma shown_subscriber:
  assumes "aggregate_collector_stats (Inr rows) = Some fs"
  shows "find (\<lambda>s. se_target_id s = t) (fs_subscribers fs)
    = (case filter (\<lambda>s. se_target_id s = t) (concat (map ms_subscribers (published rows))) of [] \<Rightarrow> None | xs \<Rightarrow> Some (last xs))"
proof -
  have "fs_subscribers fs = map snd (subscribers_by_tid (published rows))"
    using assms by (auto simp: aggregate_collector_stats_def published_def Let_def split: if_splits)
  then show ?thesis
    using find_keyed [OF subscribers_by_tid_keyed(2), of t "published rows"] 
    by (simp add: subscribers_by_tid_def fold_update_last split: list.splits)
qed

lemma add_counts_nth: "length xs = length ys \<Longrightarrow> i < length ys \<Longrightarrow> add_counts xs ys ! i = xs ! i + ys ! i"
  by (simp add: add_counts_def)

lemma length_cumulative [simp]: "length (cumulative m) = 8"
  by (simp add: cumulative_def)

lemma sums_nth:
  "length acc = 8 \<Longrightarrow> i < 8 \<Longrightarrow>
     fold (\<lambda>m. add_counts (cumulative m)) ms acc ! i = acc ! i + sum_list (map (\<lambda>m. cumulative m ! i) ms)"
proof (induction ms arbitrary: acc)
  case (Cons m ms)
  have "length (add_counts (cumulative m) acc) = 8" using Cons.prems by (simp add: add_counts_def)
  then show ?case using Cons by (simp add: add_counts_nth)
qed simp

text \<open>
  The view of the whole fleet shows every target once: while a target changes hands and two collectors report it,
  the entry of the collector that published last is shown; the number of active subscriptions is the number of
  different targets reported, and each cumulative counter is the sum over the collectors.
\<close>

lemma fleet_view_newest:
  assumes "aggregate_collector_stats (Inr rows) = Some fs"
  shows "distinct (map se_target_id (fs_subscribers fs))
    \<and> find (\<lambda>s. se_target_id s = t) (fs_subscribers fs)
      = (case filter (\<lambda>s. se_target_id s = t) (concat (map ms_subscribers (published rows))) of [] \<Rightarrow> None | xs \<Rightarrow> Some (last xs))
    \<and> fs_active_subscriptions fs = card (se_target_id ` set (concat (map ms_subscribers (published rows))))
    \<and> (\<forall>i < 8. fs_sums fs ! i = sum_list (map (\<lambda>m. cumulative m ! i) (published rows)))"
proof -
  let ?al = "subscribers_by_tid (published rows)"
  have fs: "fs_subscribers fs = map snd ?al" "fs_active_subscriptions fs = length ?al"
      "fs_sums fs = fold (\<lambda>m. add_counts (cumulative m)) (published rows) (replicate 8 0)"
    using assms by (auto simp: aggregate_collector_stats_def published_def Let_def split: if_splits)
  have ids: "map se_target_id (map snd ?al) = map fst ?al" using subscribers_by_tid_keyed(2) [of "published rows"] by auto
  have "k \<in> fst ` set ?al \<longleftrightarrow> k \<in> se_target_id ` set (concat (map ms_subscribers (published rows)))" for k
  proof -
    have "k \<in> fst ` set ?al \<longleftrightarrow> map_of ?al k \<noteq> None" by (metis map_of_eq_None_iff)
    also have "\<dots> \<longleftrightarrow> filter (\<lambda>s. se_target_id s = k) (concat (map ms_subscribers (published rows))) \<noteq> []"
      by (simp add: subscribers_by_tid_def fold_update_last split: list.splits)
    finally show ?thesis by (auto simp: filter_empty_conv)
  qed
  then have "set (map fst ?al) = se_target_id ` set (concat (map ms_subscribers (published rows)))"
    by (simp only: set_map set_eq_iff simp_thms)
  then have "length ?al = card (se_target_id ` set (concat (map ms_subscribers (published rows))))"
    using distinct_card [OF subscribers_by_tid_keyed(1) [of "published rows"]] by simp
  moreover have "distinct (map se_target_id (fs_subscribers fs))"
    using subscribers_by_tid_keyed(1) [of "published rows"] by (simp only: fs(1) ids)
  moreover have "\<forall>i < 8. fs_sums fs ! i = sum_list (map (\<lambda>m. cumulative m ! i) (published rows))"
    unfolding fs(3) using sums_nth [of "replicate 8 0" _ "published rows"] by simp
  ultimately show ?thesis using shown_subscriber [OF assms, of t] fs(2) by simp
qed

definition sample_entry :: "string \<Rightarrow> sub_entry" where
  "sample_entry state = \<lparr>se_target_id = 1, se_target_name = ''n1'', se_subscription_type = ''sse'', se_state = Some state,
     se_consecutive_failures = Some 0, se_failure_reason = None, se_next_retry_time = None, se_is_subscribed = None\<rparr>"

definition sample_stats :: "int \<Rightarrow> string \<Rightarrow> manager_stats" where
  "sample_stats n state = \<lparr>ms_active_subscriptions = 1, ms_sse_subscriptions = 1, ms_webhook_subscriptions = 0,
     ms_permanent_failure_retries = [], ms_queue_size = 0, ms_alerts_received = n, ms_alerts_written = n, ms_alerts_dropped = 0,
     ms_baseline_pulled = 0, ms_baseline_jobs_active = 0, ms_cper = \<lparr>cc_decoded = 0, cc_failed = 0, cc_backlog = [(Pending, n)]\<rparr>,
     ms_subscribers = [sample_entry state]\<rparr>"

definition sample_rows :: "stats_row list" where
  "sample_rows = [(20, Some (sample_stats 3 ''connected'')), (10, Some (sample_stats 4 ''stopped'')), (15, None)]"

lemma fleet_view_newest_witness:
  "\<exists>fs. aggregate_collector_stats (Inr sample_rows) = Some fs \<and> fs_active_subscriptions fs = 1
     \<and> find (\<lambda>s. se_target_id s = 1) (fs_subscribers fs) = Some (sample_entry ''connected'') \<and> fs_sums fs ! 0 = 7"
proof -
  have rows: "published sample_rows = [sample_stats 4 ''stopped'', sample_stats 3 ''connected'']" by code_simp
  have "aggregate_collector_stats (Inr sample_rows) \<noteq> None" by code_simp
  then obtain fs where fs: "aggregate_collector_stats (Inr sample_rows) = Some fs" by blast
  have "cumulative (sample_stats 4 ''stopped'') ! 0 = 4" "cumulative (sample_stats 3 ''connected'') ! 0 = 3"
    "ms_subscribers (sample_stats 4 ''stopped'') = [sample_entry ''stopped'']"
    "ms_subscribers (sample_stats 3 ''connected'') = [sample_entry ''connected'']" "se_target_id (sample_entry s) = 1" for s
    by (simp_all add: cumulative_def sample_stats_def sample_entry_def)
  then show ?thesis using fs fleet_view_newest [OF fs, of 1, unfolded rows] by (simp del: nth_Cons_0)
qed

section \<open>Webhook subscriptions\<close>

lemma webhook_reported:
  assumes "subscriptions_ok st" "am_webhook st t = Some w" "t \<in> set order"
  shows "filter (\<lambda>s. se_target_id s = t) (ms_subscribers (get_stats order name pulled cper st p)) \<noteq> []
    \<and> (\<forall>e \<in> set (ms_subscribers (get_stats order name pulled cper st p)). se_target_id e = t \<longrightarrow> se_state e = None)"
proof -
  have "am_sse st t = None"
    using assms(1, 2) by (auto simp: subscriptions_ok_def view_ok_def view_def dest: spec [of _ t])
  moreover have "webhook_entry t (name t) w \<in> set (ms_subscribers (get_stats order name pulled cper st p))"
    using assms(2, 3) by (force simp: get_stats_def Let_def List.map_filter_def)
  ultimately show ?thesis
    by (auto simp: get_stats_def Let_def List.map_filter_def filter_empty_conv sse_entry_def webhook_entry_def)
qed

text \<open>
  (C39) A working webhook subscription is shown as failed: the entry the manager publishes for it has no state, the view
  reads that as stopped, and stopped counts as failed. This holds for every target subscribed by webhook, whatever its
  state, once its collector has published.
\<close>

theorem webhook_shown_as_failed:
  assumes "subscriptions_ok st" "am_webhook st (vt_id t) = Some w" "vt_id t \<in> set order"
    and "aggregate_collector_stats (Inr [(u, Some (get_stats order name pulled cper st p))]) = Some fs"
  shows "fst (target_status fs grouped t) = Failed \<and> ss_status (snd (target_status fs grouped t)) = ''stopped''"
proof -
  let ?es = "ms_subscribers (get_stats order name pulled cper st p)"
  let ?found = "filter (\<lambda>s. se_target_id s = vt_id t) ?es"
  have es: "?found \<noteq> []" and stateless: "\<forall>e \<in> set ?es. se_target_id e = vt_id t \<longrightarrow> se_state e = None"
    using webhook_reported [OF assms(1-3), of name pulled cper p] by auto
  have "published [(u, Some (get_stats order name pulled cper st p))] = [get_stats order name pulled cper st p]"
    by (simp add: published_def List.map_filter_def)
  then have "find (\<lambda>s. se_target_id s = vt_id t) (fs_subscribers fs) = Some (last ?found)"
    using shown_subscriber [OF assms(4), of "vt_id t"] es by (simp split: list.splits)
  moreover have "se_state (last ?found) = None" using last_in_set [OF es] stateless by auto
  ultimately show ?thesis by (simp add: target_status_def shown_state_def class_of_def Let_def)
qed

definition sample_hooks :: subscriptions where
  "sample_hooks =
     \<lparr>am_sse = Map.empty,
      am_webhook = [5 \<mapsto> \<lparr>wh_target = 5, wh_base_url = ''https://b'', wh_url = ''http://c/5'', wh_id = Some ''1'', wh_sub_url = Some ''/s/1''\<rparr>],
      am_types = [5 \<mapsto> WEBHOOK_TYPE], am_failed = Map.empty, am_fingerprints = [5 \<mapsto> ''f''], am_verified_at = Map.empty,
      am_baseline_jobs = []\<rparr>"

definition sample_view_target :: view_target where
  "sample_view_target = \<lparr>vt_id = 5, vt_name = ''n5'', vt_host = ''b'', vt_enabled = True, vt_enable_alert_subscription = True\<rparr>"

theorem webhook_shown_as_failed_witness:
  "\<exists>fs. aggregate_collector_stats (Inr [(10, Some (get_stats [5] (\<lambda>_. ''n5'') 0 \<lparr>cc_decoded = 0, cc_failed = 0, cc_backlog = []\<rparr>
          sample_hooks (new_pipeline 0)))]) = Some fs
     \<and> fst (target_status fs Map.empty sample_view_target) = Failed
     \<and> ss_status (snd (target_status fs Map.empty sample_view_target)) = ''stopped''"
proof -
  let ?row = "[(10, Some (get_stats [5] (\<lambda>_. ''n5'') 0 \<lparr>cc_decoded = 0, cc_failed = 0, cc_backlog = []\<rparr> sample_hooks (new_pipeline 0)))] :: stats_row list"
  have ok: "subscriptions_ok sample_hooks"
    by (simp add: subscriptions_ok_def view_ok_def view_def sample_hooks_def)
  obtain w where w: "am_webhook sample_hooks (vt_id sample_view_target) = Some w"
    by (simp add: sample_hooks_def sample_view_target_def)
  obtain fs where fs: "aggregate_collector_stats (Inr ?row) = Some fs"
    by (simp add: aggregate_collector_stats_def List.map_filter_def Let_def)
  have "vt_id sample_view_target \<in> set [5]" by (simp add: sample_view_target_def)
  then show ?thesis using fs webhook_shown_as_failed [OF ok w _ fs, of Map.empty] by blast
qed

section \<open>Pages\<close>

lemma concat_pages: "concat (map (\<lambda>k. take s (drop (k * s) xs)) [0..<n]) = take (n * s) xs"
proof (induction n)
  case (Suc n)
  then show ?case using take_add [of "n * s" s xs] by (simp add: add.commute)
qed simp

text \<open>All alerts the filters of a query select, newest first.\<close>

definition matching_alerts :: "instant \<Rightarrow> page_query \<Rightarrow> alert_db \<Rightarrow> (int \<times> alert_row) list" where
  "matching_alerts now q db =
     sort_key (\<lambda>(i, r). (- al_occurred_at r, - i)) (rows_where (\<lambda>_ r. alert_filters (page_filter now q) r) (alerts db))"

lemma severity_count_length:
  "severity_count now q db s = int (length (filter (\<lambda>x. alert_filters (base_filter now q) (snd x) \<and> al_severity (snd x) = s) (alerts db)))"
  by (simp add: severity_count_def count_alerts_grouped_by_severity_def count_where_def rows_where_def Let_def case_prod_unfold)

lemma page_filter_iff:
  "alert_filters (page_filter now q) r \<longleftrightarrow> alert_filters (base_filter now q) r
     \<and> (if pq_severity q = Some ''Critical'' then al_severity r = ''Critical''
        else if pq_severity q = Some ''Warning'' then al_severity r = ''Warning''
        else al_severity r = ''Critical'' \<or> al_severity r = ''Warning'')"
proof -
  have "alert_filters (f\<lparr>af_severity := Some s\<rparr>) r \<longleftrightarrow> alert_filters f r \<and> al_severity r = s" if "af_severity f = None" "s \<noteq> []" for f s
    using that by (auto simp: alert_filters_def)
  moreover have "alert_filters (f\<lparr>af_severity_in := [s, t]\<rparr>) r \<longleftrightarrow> alert_filters f r \<and> (al_severity r = s \<or> al_severity r = t)"
    if "af_severity_in f = []" for f s t using that by (auto simp: alert_filters_def)
  moreover have "af_severity (base_filter now q) = None" "af_severity_in (base_filter now q) = []" by (simp_all add: base_filter_def)
  ultimately show ?thesis by (simp add: page_filter_def)
qed

lemma two_severities:
  "s \<noteq> t \<Longrightarrow> length (filter (\<lambda>x. P x \<and> f x = s) xs) + length (filter (\<lambda>x. P x \<and> f x = t) xs)
     = length (filter (\<lambda>x. P x \<and> (f x = s \<or> f x = t)) xs)"
  by (induction xs) auto

lemma selected_count_length: "selected_count now q db = int (length (matching_alerts now q db))"
  using two_severities [of "''Critical''" "''Warning''" "\<lambda>x. alert_filters (base_filter now q) (snd x)" "\<lambda>x. al_severity (snd x)" "alerts db"]
  by (auto simp: selected_count_def severity_count_length matching_alerts_def rows_where_def page_filter_iff case_prod_unfold)

lemma pages_enough: "0 \<le> n \<Longrightarrow> n \<le> page_total n * int PAGE_SIZE" "1 \<le> page_total n"
proof -
  show "n \<le> page_total n * int PAGE_SIZE" if "0 \<le> n"
  proof -
    have "n \<le> ceil_div n (int PAGE_SIZE) * int PAGE_SIZE" by (rule ceil_div_ge) (simp add: PAGE_SIZE_def)
    also have "\<dots> \<le> max 1 (ceil_div n (int PAGE_SIZE)) * int PAGE_SIZE" by (rule mult_right_mono) simp_all
    finally show ?thesis using that by (simp add: page_total_def)
  qed
qed (simp add: page_total_def)

lemma pages_needed: "0 \<le> n \<Longrightarrow> (page_total n - 1) * int PAGE_SIZE < max 1 n"
proof -
  have pos: "0 < int PAGE_SIZE" by (simp add: PAGE_SIZE_def)
  have "(ceil_div n (int PAGE_SIZE) - 1) * int PAGE_SIZE < n"
    using ceil_div_least [OF pos, of n "ceil_div n (int PAGE_SIZE) - 1"] by linarith
  then show "0 \<le> n \<Longrightarrow> (page_total n - 1) * int PAGE_SIZE < max 1 n" by (simp add: page_total_def max_def)
qed

text \<open>The filters of a query do not depend on the page that is asked for.\<close>

lemma page_irrelevant:
  "page_filter now (q\<lparr>pq_page := k\<rparr>) = page_filter now q" "selected_count now (q\<lparr>pq_page := k\<rparr>) db = selected_count now q db"
proof -
  have "base_filter now (q\<lparr>pq_page := k\<rparr>) = base_filter now q" by (simp add: base_filter_def)
  then show "page_filter now (q\<lparr>pq_page := k\<rparr>) = page_filter now q" "selected_count now (q\<lparr>pq_page := k\<rparr>) db = selected_count now q db"
    by (simp_all add: page_filter_def selected_count_def severity_count_def fun_eq_iff)
qed

lemma alerts_page_contents:
  assumes "int k < page_total (selected_count now q db)" and p: "p = alerts_page now True (q\<lparr>pq_page := int k + 1\<rparr>) db"
  shows "ap_page p = int k + 1 \<and> ap_alerts p = take PAGE_SIZE (drop (k * PAGE_SIZE) (matching_alerts now q db))
    \<and> ap_page_start p = (if matching_alerts now q db = [] then 0 else int (k * PAGE_SIZE) + 1)
    \<and> ap_page_end p = int (k * PAGE_SIZE) + int (length (ap_alerts p))"
proof -
  have "min (int k + 1) (page_total (selected_count now q db)) = int k + 1" using assms(1) by simp
  moreover have "nat (int k * int PAGE_SIZE) = k * PAGE_SIZE" by (simp add: nat_mult_distrib)
  moreover have "selected_count now q db = 0 \<longleftrightarrow> matching_alerts now q db = []" by (simp add: selected_count_length)
  moreover have "get_alerts (page_filter now q) PAGE_SIZE n db = take PAGE_SIZE (drop n (matching_alerts now q db))" for n
    by (simp add: get_alerts_def matching_alerts_def)
  ultimately show ?thesis by (simp add: p alerts_page_def page_irrelevant Let_def)
qed

text \<open>
  (C38) The pages of the alert list show every matching alert exactly once: with the filters unchanged, the pages from
  the first to the last one offered, put together, are all alerts the filters select, newest first. Page \<open>k\<close> holds the
  alerts number \<open>100 (k - 1) + 1\<close> to \<open>100 k\<close> of them, or to the last one, and shows the numbers of its first and last
  alert as its bounds. No page too many is offered: none but the first is ever empty. The number shown
  is that of all the alerts, and a page number past the end gives the last page.
\<close>

theorem alert_pages_complete:
  "concat (map (\<lambda>k. ap_alerts (alerts_page now True (q\<lparr>pq_page := int k + 1\<rparr>) db)) [0..<nat (ap_total_pages (alerts_page now True q db))])
      = matching_alerts now q db
    \<and> map (\<lambda>k. let p = alerts_page now True (q\<lparr>pq_page := int k + 1\<rparr>) db in (ap_page p, ap_alerts p, ap_page_start p, ap_page_end p))
        [0..<nat (ap_total_pages (alerts_page now True q db))]
      = map (\<lambda>k. let shown = take PAGE_SIZE (drop (k * PAGE_SIZE) (matching_alerts now q db))
                 in (int k + 1, shown, if matching_alerts now q db = [] then 0 else int (k * PAGE_SIZE) + 1,
                     int (k * PAGE_SIZE) + int (length shown)))
          [0..<nat (ap_total_pages (alerts_page now True q db))]
    \<and> 1 \<le> ap_total_pages (alerts_page now True q db)
    \<and> (ap_total_pages (alerts_page now True q db) - 1) * int PAGE_SIZE < max 1 (int (length (matching_alerts now q db)))
    \<and> ap_count (alerts_page now True q db) = int (length (matching_alerts now q db))
    \<and> ap_page (alerts_page now True q db) \<le> ap_total_pages (alerts_page now True q db)
    \<and> alerts_page now True (q\<lparr>pq_page := ap_total_pages (alerts_page now True q db) + int j\<rparr>) db
      = alerts_page now True (q\<lparr>pq_page := ap_total_pages (alerts_page now True q db)\<rparr>) db"
proof -
  let ?n = "page_total (selected_count now q db)"
  have total: "ap_total_pages (alerts_page now True q db) = ?n" "ap_count (alerts_page now True q db) = selected_count now q db"
    "ap_page (alerts_page now True q db) \<le> ?n"
    by (simp_all add: alerts_page_def Let_def)
  note page = alerts_page_contents [where now = now and q = q and db = db, OF _ refl]
  have "concat (map (\<lambda>k. ap_alerts (alerts_page now True (q\<lparr>pq_page := int k + 1\<rparr>) db)) [0..<nat ?n])
      = concat (map (\<lambda>k. take PAGE_SIZE (drop (k * PAGE_SIZE) (matching_alerts now q db))) [0..<nat ?n])"
    using page by (intro arg_cong [where f = concat] map_cong) auto
  also have "\<dots> = matching_alerts now q db"
  proof -
    have "int (length (matching_alerts now q db)) \<le> int (nat ?n * PAGE_SIZE)"
      using pages_enough [of "selected_count now q db"] by (simp add: selected_count_length)
    then have "length (matching_alerts now q db) \<le> nat ?n * PAGE_SIZE" by (simp only: of_nat_le_iff)
    then show ?thesis by (simp add: concat_pages)
  qed
  finally have "concat (map (\<lambda>k. ap_alerts (alerts_page now True (q\<lparr>pq_page := int k + 1\<rparr>) db)) [0..<nat ?n]) = matching_alerts now q db" .
  moreover have "map (\<lambda>k. let p = alerts_page now True (q\<lparr>pq_page := int k + 1\<rparr>) db in (ap_page p, ap_alerts p, ap_page_start p, ap_page_end p)) [0..<nat ?n]
      = map (\<lambda>k. let shown = take PAGE_SIZE (drop (k * PAGE_SIZE) (matching_alerts now q db))
                 in (int k + 1, shown, if matching_alerts now q db = [] then 0 else int (k * PAGE_SIZE) + 1,
                     int (k * PAGE_SIZE) + int (length shown))) [0..<nat ?n]"
  proof (rule map_cong [OF refl])
    fix k assume "k \<in> set [0..<nat ?n]"
    then have "int k < ?n" by simp
    from page [OF this] show "(let p = alerts_page now True (q\<lparr>pq_page := int k + 1\<rparr>) db in (ap_page p, ap_alerts p, ap_page_start p, ap_page_end p))
      = (let shown = take PAGE_SIZE (drop (k * PAGE_SIZE) (matching_alerts now q db))
         in (int k + 1, shown, if matching_alerts now q db = [] then 0 else int (k * PAGE_SIZE) + 1, int (k * PAGE_SIZE) + int (length shown)))"
      by (simp only: Let_def)
  qed
  moreover have "alerts_page now True (q\<lparr>pq_page := ?n + int j\<rparr>) db = alerts_page now True (q\<lparr>pq_page := ?n\<rparr>) db"
    by (simp add: alerts_page_def page_irrelevant severity_count_def base_filter_def Let_def)
  moreover have "(?n - 1) * int PAGE_SIZE < max 1 (int (length (matching_alerts now q db)))"
    using pages_needed [of "selected_count now q db"] by (simp add: selected_count_length)
  ultimately show ?thesis unfolding total
    using pages_enough(2) total(3) selected_count_length by blast
qed

section \<open>What the policy resource promises\<close>

text \<open>The engine collects only when the resource says that the policy is enabled.\<close>

lemma exposed_policy_enabled:
  "policy_target (cfg_policy c) a now logs = Some t \<Longrightarrow>
     pr_enabled (diagnostic_log_policy c) \<and> policy_service_mode (cfg_policy c) = ''Enabled''"
  by (auto simp: policy_target_def diagnostic_log_policy_def policy_service_mode_def split: if_splits option.splits)

end
