(* ===== verification/Sse_Telemetry.thy ===== *)
theory Sse_Telemetry
  imports Poller Alert_Subscriptions
begin

text \<open>
  Event streams of BMCs beside the alerts: the check whether a BMC supports them at all,
  \<open>collector/src/redfish/sse_capability_check.py\<close>, whose verdict decides how \<open>Alert_Subscriptions\<close> subscribes, and
  the streams that deliver metric reports without polling, \<open>redfish/sse_subscriber.py\<close>. What a BMC answers and
  what the database gives are arguments. Decoding JSON gives \<open>None\<close> when it raises. Delays are seconds.
\<close>

section \<open>Does the BMC support event streams?\<close>

datatype service_reply = Service_Timeout | Service_Raises | Service_Reply int "json option"

datatype stream_end = Listened | Read_Timeout | Read_Connect_Error | Read_Error

text \<open>The reply to opening the stream, with the lines that arrive within the test and how the reading ends.\<close>

datatype stream_reply = Open_Connect_Error | Open_Timeout | Open_Raises | Stream int string "string list" stream_end

text \<open>A keep-alive comment, or data.\<close>

definition useful_line :: "string \<Rightarrow> bool" where
  "useful_line line \<longleftrightarrow> (let l = py_strip line in l \<noteq> [] \<and> (starts_with l '':'' \<or> starts_with l ''data:''))"

definition test_sse_endpoint :: "stream_reply \<Rightarrow> sse_support" where
  "test_sse_endpoint reply =
     (case reply of
        Open_Connect_Error \<Rightarrow> UNKNOWN
      | Open_Timeout \<Rightarrow> UNKNOWN
      | Open_Raises \<Rightarrow> BROKEN
      | Stream status content_type lines end_ \<Rightarrow>
          if status = 404 \<or> status = 501 then NOT_SUPPORTED
          else if status \<noteq> 200 then BROKEN
          else if \<not> contains (py_lower content_type) ''text/event-stream'' then BROKEN
          else (case end_ of
                  Read_Connect_Error \<Rightarrow> UNKNOWN
                | Read_Timeout \<Rightarrow> UNKNOWN
                | Read_Error \<Rightarrow> BROKEN
                | Listened \<Rightarrow> if list_ex useful_line lines then SUPPORTED else BROKEN))"

definition stream_url :: "string \<Rightarrow> string \<Rightarrow> string" where
  "stream_url base_url sse_uri = (if starts_with sse_uri ''http'' then sse_uri else base_url @ sse_uri)"

definition check_sse_capability :: "string \<Rightarrow> service_reply \<Rightarrow> (string \<Rightarrow> stream_reply) \<Rightarrow> sse_support" where
  "check_sse_capability base_url service stream =
     (case service of
        Service_Timeout \<Rightarrow> UNKNOWN
      | Service_Raises \<Rightarrow> UNKNOWN
      | Service_Reply status body \<Rightarrow>
          if status = 404 then NOT_SUPPORTED
          else if status \<noteq> 200 then UNKNOWN
          else (case body of
                  Some (JObj d) \<Rightarrow>
                    (let uri = dict_get d ''ServerSentEventUri''
                     in if \<not> json_truthy uri then NOT_SUPPORTED
                        else (case uri of JStr u \<Rightarrow> test_sse_endpoint (stream (stream_url base_url u)) | _ \<Rightarrow> UNKNOWN))
                | _ \<Rightarrow> UNKNOWN))"

text \<open>
  A BMC counts as supporting streams exactly when it advertises one, serves it as an event stream, and at least a
  keep-alive or a data line came before the test time ran out without an error.
\<close>

lemma capability_exact:
  "check_sse_capability base_url service stream = SUPPORTED \<longleftrightarrow>
     (\<exists>d u content_type lines. service = Service_Reply 200 (Some (JObj d)) \<and> dict_get d ''ServerSentEventUri'' = JStr u \<and> u \<noteq> []
        \<and> stream (stream_url base_url u) = Stream 200 content_type lines Listened
        \<and> contains (py_lower content_type) ''text/event-stream'' \<and> (\<exists>l \<in> set lines. useful_line l))"
  by (auto simp: check_sse_capability_def test_sse_endpoint_def Let_def list_ex_iff
      split: service_reply.splits option.splits json.splits stream_reply.splits stream_end.splits if_splits)

section \<open>One stream of metric reports\<close>

record stream_target = target_config +
  pt_sse_endpoint :: "string option"
  pt_access :: string

text \<open>
  A connection holds the target as it was when it was made: address and credentials (\<open>pt_access\<close>) and tags.
\<close>

record sse_connection =
  sc_target :: stream_target
  sc_endpoint :: string
  sc_tags :: "(string \<times> string) list"
  sc_reconnect_delay :: rat
  sc_max_reconnect_delay :: rat
  sc_current_delay :: rat
  sc_consecutive_errors :: nat
  sc_last_status_update :: rat

text \<open>\<open>x in v\<close> for a text \<open>x\<close>.\<close>

fun text_in :: "string \<Rightarrow> json \<Rightarrow> py_error + bool" where
  "text_in x (JStr s) = Inr (contains s x)"
| "text_in x (JList vs) = Inr (JStr x \<in> set vs)"
| "text_in x (JObj d) = Inr (x \<in> fst ` set d)"
| "text_in x _ = Inl TypeError"

fun first_in :: "(string \<times> string) list \<Rightarrow> json \<Rightarrow> py_error + string option" where
  "first_in [] v = Inr None"
| "first_in ((x, t) # rest) v =
     (case text_in x v of Inl e \<Rightarrow> Inl e | Inr True \<Rightarrow> Inr (Some t) | Inr False \<Rightarrow> first_in rest v)"

definition TYPE_HINTS :: "(string \<times> string) list" where
  "TYPE_HINTS =
     [(''ProcessorMetrics'', ''processor''), (''MemoryMetrics'', ''memory''), (''ProcessorPortMetrics'', ''interconnect''),
      (''PlatformSensors'', ''platform''), (''HealthRollup'', ''health'')]"

definition event_report_type :: "json dict \<Rightarrow> py_error + string" where
  "event_report_type payload =
     (let odata_id = dict_get_default payload ''@odata.id'' (JStr [])
      in case first_in TYPE_HINTS odata_id of
           Inl e \<Rightarrow> Inl e
         | Inr (Some t) \<Rightarrow> Inr t
         | Inr None \<Rightarrow>
             (case odata_id of
                JStr s \<Rightarrow> Inr (if ends_with s ''/All'' then ''comprehensive'' else ''sse'')
              | _ \<Rightarrow> Inl AttributeError))"

definition event_result :: "sse_connection \<Rightarrow> string \<Rightarrow> string \<Rightarrow> json dict \<Rightarrow> poll_result" where
  "event_result c raw_data report_type payload =
     \<lparr>pr_target_id = pt_id (sc_target c), pr_target_name = pt_name (sc_target c), pr_target_host = pt_host (sc_target c),
      pr_success = True, pr_content = raw_data, pr_error = None, pr_tags = sc_tags c,
      pr_data = Some [(report_type, JObj payload)], pr_method = ''sse'', pr_reports_succeeded = 0, pr_reports_expected = 0\<rparr>"

type_synonym stream_state = "sse_connection \<times> poll_result list \<times> (target_id, status_row) db_table"

text \<open>\<open>_process_event\<close>: a full queue drops the result; the status is written at most once a minute, and a failing write raises.\<close>

definition process_event ::
  "(string \<Rightarrow> json option) \<Rightarrow> rat \<Rightarrow> bool \<Rightarrow> string list \<Rightarrow> stream_state \<Rightarrow> py_error option \<times> stream_state" where
  "process_event loads now status_up data_lines = (\<lambda>(c, queue, rows).
     let raw_data = py_join [CHR 0x0A] data_lines
     in case loads raw_data of
          None \<Rightarrow> (None, c, queue, rows)
        | Some (JObj payload) \<Rightarrow>
            (case event_report_type payload of
               Inl e \<Rightarrow> (Some e, c, queue, rows)
             | Inr t \<Rightarrow>
                 if \<not> length queue < QUEUE_SIZE then (None, c, queue, rows)
                 else (let queue' = queue @ [event_result c raw_data t payload]
                       in if now - sc_last_status_update c < 60 then (None, c, queue', rows)
                          else if \<not> status_up then (Some ValueError, c, queue', rows)
                          else (None, c\<lparr>sc_last_status_update := now\<rparr>, queue',
                                update_poll_status (pt_id (sc_target c)) (''success'', None) rows)))
        | Some _ \<Rightarrow> (Some AttributeError, c, queue, rows))"

text \<open>
  \<open>_stream_events\<close> on the lines of an open stream, each with its time and whether the database answers then: the type and
  the data lines of the event being read, until the stream ends or an event raises.
\<close>

fun stream_lines ::
  "(string \<Rightarrow> json option) \<Rightarrow> (rat \<times> bool \<times> string) list \<Rightarrow> string \<Rightarrow> string list \<Rightarrow> stream_state \<Rightarrow> py_error option \<times> stream_state" where
  "stream_lines loads [] event_type event_data s = (None, s)"
| "stream_lines loads ((now, up, raw) # ls) event_type event_data s =
     (let line = rstrip_eol raw
      in if starts_with line ''event:'' then stream_lines loads ls (py_strip (drop 6 line)) event_data s
         else if starts_with line ''data:'' then stream_lines loads ls event_type (event_data @ [py_strip (drop 5 line)]) s
         else if line = [] then
           (if event_data \<noteq> [] \<and> event_type = ''MetricReport'' then
              (case process_event loads now up event_data s of
                 (Some e, s') \<Rightarrow> (Some e, s')
               | (None, c, rest) \<Rightarrow>
                   stream_lines loads ls [] [] (c\<lparr>sc_current_delay := sc_reconnect_delay c, sc_consecutive_errors := 0\<rparr>, rest))
            else stream_lines loads ls [] [] s)
         else stream_lines loads ls event_type event_data s)"

text \<open>One round of \<open>_connection_loop\<close>: what the stream did, then the sleep, \<open>jitter\<close> between 0 and 1. \<open>None\<close>: connecting raised.\<close>

definition connection_round ::
  "(string \<Rightarrow> json option) \<Rightarrow> rat \<Rightarrow> (rat \<times> bool \<times> string) list option \<Rightarrow> stream_state \<Rightarrow> rat \<times> stream_state" where
  "connection_round loads jitter attempt s =
     (let (c, rest) = (case attempt of None \<Rightarrow> s | Some ls \<Rightarrow> snd (stream_lines loads ls [] [] s));
          slept = sc_current_delay c + jitter * (sc_current_delay c * 3 / 10)
      in (slept, c\<lparr>sc_consecutive_errors := Suc (sc_consecutive_errors c),
                   sc_current_delay := min (sc_current_delay c * 2) (sc_max_reconnect_delay c)\<rparr>, rest))"

section \<open>The manager\<close>

type_synonym connections = "(target_id \<times> sse_connection) list"

text \<open>\<open>_start_connection\<close>: \<open>decrypts\<close> says whether password and token can be decrypted; the tags have to be readable.\<close>

definition start_connection ::
  "rat \<times> rat \<times> string \<Rightarrow> (target_id \<Rightarrow> bool) \<Rightarrow> stream_target \<Rightarrow> connections \<Rightarrow> (poll_exception + unit) \<times> connections" where
  "start_connection cfg decrypts t conns = (case cfg of (delay, max_delay, default_endpoint) \<Rightarrow>
     if \<not> decrypts (pt_id t) then (Inl Decrypt_Error, conns)
     else (case get_target_tags (target_config.truncate t) of
             Inl e \<Rightarrow> (Inl e, conns)
           | Inr tags \<Rightarrow>
               (Inr (), AList.update (pt_id t)
                  \<lparr>sc_target = t, sc_endpoint = (case pt_sse_endpoint t of Some e \<Rightarrow> if e \<noteq> [] then e else default_endpoint | None \<Rightarrow> default_endpoint),
                   sc_tags = tags, sc_reconnect_delay = delay, sc_max_reconnect_delay = max_delay, sc_current_delay = delay,
                   sc_consecutive_errors = 0, sc_last_status_update = 0\<rparr> conns)))"

definition sse_targets :: "stream_target list \<Rightarrow> stream_target list" where
  "sse_targets ts = filter (\<lambda>t. pt_connection_mode t = ''sse'') ts"

fun start_new ::
  "rat \<times> rat \<times> string \<Rightarrow> (target_id \<Rightarrow> bool) \<Rightarrow> stream_target list \<Rightarrow> connections \<Rightarrow> (poll_exception + unit) \<times> connections" where
  "start_new cfg decrypts [] conns = (Inr (), conns)"
| "start_new cfg decrypts (t # ts) conns =
     (if map_of conns (pt_id t) \<noteq> None then start_new cfg decrypts ts conns
      else (case start_connection cfg decrypts t conns of
              (Inl e, conns') \<Rightarrow> (Inl e, conns')
            | (Inr _, conns') \<Rightarrow> start_new cfg decrypts ts conns'))"

text \<open>\<open>_sync_connections\<close>; the identifiers of the targets are distinct.\<close>

definition sync_connections ::
  "rat \<times> rat \<times> string \<Rightarrow> (target_id \<Rightarrow> bool) \<Rightarrow> stream_target list \<Rightarrow> connections \<Rightarrow> (poll_exception + unit) \<times> connections" where
  "sync_connections cfg decrypts ts conns =
     start_new cfg decrypts (sse_targets ts) (filter (\<lambda>(i, _). i \<in> pt_id ` set (sse_targets ts)) conns)"

section \<open>The manager follows the targets\<close>

definition startable :: "(target_id \<Rightarrow> bool) \<Rightarrow> stream_target \<Rightarrow> bool" where
  "startable decrypts t \<longleftrightarrow> decrypts (pt_id t) \<and> (\<exists>tags. get_target_tags (target_config.truncate t) = Inr tags)"

lemma start_connection_cases:
  obtains (started) c where "startable decrypts t" "start_connection cfg decrypts t conns = (Inr (), AList.update (pt_id t) c conns)" "sc_target c = t"
  | (failed) e where "\<not> startable decrypts t" "start_connection cfg decrypts t conns = (Inl e, conns)"
proof (cases "get_target_tags (target_config.truncate t)")
  case (Inl e)
  then have "\<not> startable decrypts t" by (simp add: startable_def)
  moreover have "\<exists>e. start_connection cfg decrypts t conns = (Inl e, conns)"
    using Inl by (cases cfg) (simp add: start_connection_def)
  ultimately show thesis using failed by blast
next
  case (Inr tags)
  then show thesis
    using started failed by (cases cfg; cases "decrypts (pt_id t)") (auto simp: startable_def start_connection_def)
qed

lemma start_new_spec:
  "start_new cfg decrypts ts conns = (r, conns') \<Longrightarrow> distinct (map pt_id ts) \<Longrightarrow>
     (\<forall>i c. map_of conns i = Some c \<longrightarrow> map_of conns' i = Some c)
     \<and> (\<forall>i. i \<notin> pt_id ` set ts \<longrightarrow> map_of conns' i = map_of conns i)
     \<and> (\<forall>t \<in> set ts. map_of conns (pt_id t) = None \<longrightarrow> (case map_of conns' (pt_id t) of None \<Rightarrow> \<exists>e. r = Inl e | Some c \<Rightarrow> sc_target c = t))"
proof (induction ts arbitrary: conns)
  case (Cons t ts)
  show ?case
  proof (cases "map_of conns (pt_id t)")
    case (Some c)
    then show ?thesis using Cons by auto
  next
    case None
    show ?thesis
    proof (rule start_connection_cases [of decrypts t cfg conns])
      fix c assume c: "startable decrypts t" "start_connection cfg decrypts t conns = (Inr (), AList.update (pt_id t) c conns)" "sc_target c = t"
      let ?conns = "AList.update (pt_id t) c conns"
      have run: "start_new cfg decrypts ts ?conns = (r, conns')" using Cons.prems(1) None c(2) by simp
      have new: "pt_id t \<notin> pt_id ` set ts" using Cons.prems(2) by auto
      note ih = Cons.IH [OF run] 
      have d: "distinct (map pt_id ts)" using Cons.prems(2) by simp
      have here: "map_of conns' (pt_id t) = Some c" using ih [OF d] new by (simp add: map_of_update)
      have keep: "map_of conns' i = Some c'" if "map_of conns i = Some c'" for i c'
        using ih [OF d] that None by (cases "i = pt_id t") (auto simp: map_of_update)
      have out: "map_of conns' i = map_of conns i" if "i \<notin> pt_id ` set (t # ts)" for i
        using ih [OF d] that by (simp add: map_of_update)
      have rest: "case map_of conns' (pt_id u) of None \<Rightarrow> \<exists>e. r = Inl e | Some c \<Rightarrow> sc_target c = u"
        if "u \<in> set ts" "map_of conns (pt_id u) = None" for u
      proof -
        have "pt_id u \<noteq> pt_id t" using new that(1) by (metis image_eqI)
        then show ?thesis using ih [OF d] that by (simp add: map_of_update)
      qed
      show ?thesis using here keep out rest c(3) by auto
    next
      fix e assume "\<not> startable decrypts t" "start_connection cfg decrypts t conns = (Inl e, conns)"
      then have "r = Inl e" "conns' = conns" using Cons.prems(1) None by auto
      then show ?thesis by (auto split: option.splits)
    qed
  qed
qed simp

lemma map_of_filter_keys: "map_of (filter (\<lambda>(i, _). P i) al) i = (if P i then map_of al i else None)"
  by (induction al) auto

text \<open>
  After a pass in which every start worked the streams are those of the targets in stream mode, and a target that
  had no stream is connected with its current data. A connection that was there is kept as it is, whatever has changed in
  its target since: new credentials or a new address are not used before a restart.
\<close>

lemma sync_exact:
  assumes "sync_connections cfg decrypts ts conns = (Inr (), conns')" "distinct (map pt_id ts)"
  shows "fst ` set conns' = pt_id ` set (sse_targets ts)"
    and "t \<in> set (sse_targets ts) \<Longrightarrow> map_of conns' (pt_id t)
      = (case map_of conns (pt_id t) of Some c \<Rightarrow> Some c | None \<Rightarrow> map_of conns' (pt_id t))"
    and "t \<in> set (sse_targets ts) \<Longrightarrow> map_of conns (pt_id t) = None \<Longrightarrow> \<exists>c. map_of conns' (pt_id t) = Some c \<and> sc_target c = t"
proof -
  let ?kept = "filter (\<lambda>(i, _). i \<in> pt_id ` set (sse_targets ts)) conns"
  have run: "start_new cfg decrypts (sse_targets ts) ?kept = (Inr (), conns')" using assms(1) by (simp add: sync_connections_def)
  have d: "distinct (map pt_id (sse_targets ts))" using assms(2) by (simp add: sse_targets_def distinct_map_filter)
  note spec = start_new_spec [OF run d]
  have kept: "map_of ?kept i = (if i \<in> pt_id ` set (sse_targets ts) then map_of conns i else None)" for i
    by (rule map_of_filter_keys)
  show new: "\<exists>c. map_of conns' (pt_id t) = Some c \<and> sc_target c = t"
    if "t \<in> set (sse_targets ts)" "map_of conns (pt_id t) = None" for t
  proof -
    have "map_of ?kept (pt_id t) = None" using that by (simp add: kept)
    then have "case map_of conns' (pt_id t) of None \<Rightarrow> \<exists>e. Inr () = (Inl e :: poll_exception + unit) | Some c \<Rightarrow> sc_target c = t"
      using spec that(1) by blast
    then show ?thesis by (auto split: option.splits)
  qed
  show old: "map_of conns' (pt_id t) = (case map_of conns (pt_id t) of Some c \<Rightarrow> Some c | None \<Rightarrow> map_of conns' (pt_id t))"
    if "t \<in> set (sse_targets ts)" for t
    using spec that by (auto simp: kept split: option.splits)
  have "map_of conns' i \<noteq> None \<longleftrightarrow> i \<in> pt_id ` set (sse_targets ts)" for i
  proof (cases "i \<in> pt_id ` set (sse_targets ts)")
    case True
    then obtain t where t: "t \<in> set (sse_targets ts)" "i = pt_id t" by auto
    then show ?thesis using new [OF t(1)] old [OF t(1)] True by (cases "map_of conns (pt_id t)") auto
  next
    case False
    then have "map_of conns' i = None" using spec by (simp add: kept)
    then show ?thesis using False by simp
  qed
  then show "fst ` set conns' = pt_id ` set (sse_targets ts)" by (auto simp: map_of_eq_None_iff)
qed

text \<open>
  One target that cannot be started, because its password does not decrypt or its tags are no JSON, keeps every
  new target behind it in the list without a stream, in every pass: the exception leaves the loop over the targets.
\<close>

lemma start_new_blocked:
  "\<not> startable decrypts bad \<Longrightarrow> map_of conns (pt_id bad) = None \<Longrightarrow> distinct (map pt_id (us @ bad # vs)) \<Longrightarrow>
     start_new cfg decrypts (us @ bad # vs) conns = (r, conns') \<Longrightarrow>
     (\<exists>e. r = Inl e) \<and> map_of conns' (pt_id bad) = None \<and> (\<forall>v \<in> set vs. map_of conns' (pt_id v) = map_of conns (pt_id v))"
proof (induction us arbitrary: conns)
  case Nil
  show ?case
    by (rule start_connection_cases [of decrypts bad cfg conns]) (use Nil in auto)
next
  case (Cons u us)
  have ne: "pt_id bad \<noteq> pt_id u" "\<forall>v \<in> set vs. pt_id v \<noteq> pt_id u" "distinct (map pt_id (us @ bad # vs))"
    using Cons.prems(3) by (auto simp: image_iff)
  show ?case
  proof (cases "map_of conns (pt_id u)")
    case (Some c)
    then show ?thesis using Cons.IH [OF Cons.prems(1, 2) ne(3)] Cons.prems(4) by simp
  next
    case None
    show ?thesis
    proof (rule start_connection_cases [of decrypts u cfg conns])
      fix c assume c: "start_connection cfg decrypts u conns = (Inr (), AList.update (pt_id u) c conns)"
      have free: "map_of (AList.update (pt_id u) c conns) (pt_id bad) = None" using Cons.prems(2) ne(1) by (simp add: map_of_update)
      have run: "start_new cfg decrypts (us @ bad # vs) (AList.update (pt_id u) c conns) = (r, conns')"
        using Cons.prems(4) None c by simp
      show ?thesis using Cons.IH [OF Cons.prems(1) free ne(3) run] ne(2) by (simp add: map_of_update)
    next
      fix e assume "start_connection cfg decrypts u conns = (Inl e, conns)"
      then show ?thesis using Cons.prems(2, 4) None by auto
    qed
  qed
qed

lemma sync_blocked:
  assumes "sse_targets ts = us @ bad # vs" "distinct (map pt_id ts)" "\<not> startable decrypts bad" "map_of conns (pt_id bad) = None"
    and "sync_connections cfg decrypts ts conns = (r, conns')"
  shows "(\<exists>e. r = Inl e) \<and> map_of conns' (pt_id bad) = None \<and> (\<forall>v \<in> set vs. map_of conns' (pt_id v) = map_of conns (pt_id v))"
proof -
  let ?kept = "filter (\<lambda>(i, _). i \<in> pt_id ` set (sse_targets ts)) conns"
  have d: "distinct (map pt_id (us @ bad # vs))" using assms(1, 2) by (metis distinct_map_filter sse_targets_def)
  have kept: "map_of ?kept i = (if i \<in> pt_id ` set (sse_targets ts) then map_of conns i else None)" for i
    by (rule map_of_filter_keys)
  have "map_of ?kept (pt_id bad) = None" using assms(4) by (simp add: kept)
  moreover have "start_new cfg decrypts (us @ bad # vs) ?kept = (r, conns')" using assms(1, 5) by (simp add: sync_connections_def)
  ultimately have "(\<exists>e. r = Inl e) \<and> map_of conns' (pt_id bad) = None \<and> (\<forall>v \<in> set vs. map_of conns' (pt_id v) = map_of ?kept (pt_id v))"
    by (rule start_new_blocked [OF assms(3) _ d])
  moreover have "\<forall>v \<in> set vs. pt_id v \<in> pt_id ` set (sse_targets ts)" by (simp add: assms(1))
  ultimately show ?thesis by (simp add: kept)
qed

text \<open>
  (C40) A pass of the manager never connects a new target that stands in the list behind one it cannot start, and
  every pass meets the same obstacle: over any number of passes with the same targets neither the bad target nor the new
  ones behind it get a stream, and as targets in stream mode are not polled either, nothing is collected from them.
\<close>

theorem bad_target_blocks_streams:
  assumes "sse_targets ts = us @ bad # vs" "distinct (map pt_id ts)" "\<not> startable decrypts bad"
    and "map_of conns (pt_id bad) = None" "v \<in> set (bad # vs)" "map_of conns (pt_id v) = None"
  shows "map_of (((\<lambda>cs. snd (sync_connections cfg decrypts ts cs)) ^^ n) conns) (pt_id v) = None
    \<and> target_config.truncate v \<notin> set (candidates (map target_config.truncate ts) p)"
proof -
  let ?pass = "\<lambda>cs. snd (sync_connections cfg decrypts ts cs)"
  have "map_of ((?pass ^^ n) conns) (pt_id bad) = None \<and> map_of ((?pass ^^ n) conns) (pt_id v) = None"
  proof (induction n)
    case 0
    show ?case using assms(4, 6) by simp
  next
    case (Suc n)
    obtain r conns' where run: "sync_connections cfg decrypts ts ((?pass ^^ n) conns) = (r, conns')" by fastforce
    have "map_of ((?pass ^^ n) conns) (pt_id bad) = None" using Suc by blast
    from sync_blocked [OF assms(1-3) this run] Suc assms(5) run show ?case by auto
  qed
  moreover have "v \<in> set (sse_targets ts)" using assms(1, 5) by auto
  then have "pt_connection_mode (target_config.truncate v) = ''sse''" by (simp add: sse_targets_def target_config.truncate_def)
  then have "target_config.truncate v \<notin> set (candidates (map target_config.truncate ts) p)" by (simp add: candidates_def)
  ultimately show ?thesis by blast
qed

definition sample_stream_target :: "target_id \<Rightarrow> stream_target" where
  "sample_stream_target i =
     \<lparr>pt_id = i, pt_name = ''n'', pt_host = ''h'', pt_connection_mode = ''sse'', pt_poll_interval_override = None,
      pt_consecutive_failures = 0, pt_tags = NoText, pt_metric_reports_override = NoText, pt_metric_discovery_mode = ''auto'',
      pt_discovered_reports = NoText, pt_sse_endpoint = None, pt_access = ''a''\<rparr>"

theorem bad_target_blocks_streams_witness:
  "map_of (((\<lambda>cs. snd (sync_connections (5, 300, ''/sse'') (\<lambda>i. i \<noteq> 1) [sample_stream_target 1, sample_stream_target 2] cs)) ^^ 7) []) 2 = None
   \<and> target_config.truncate (sample_stream_target 2)
       \<notin> set (candidates (map target_config.truncate [sample_stream_target 1, sample_stream_target 2])
           \<lparr>po_next = [], po_inflight = [], po_pending = [], po_queue = [], po_clients = [], po_started = 0, po_completed = 0,
            po_last_completed = None, po_dropped = 0, po_starts = []\<rparr>)"
proof -
  have "sse_targets [sample_stream_target 1, sample_stream_target 2] = [] @ sample_stream_target 1 # [sample_stream_target 2]"
    "distinct (map pt_id [sample_stream_target 1, sample_stream_target 2])" "\<not> startable (\<lambda>i. i \<noteq> 1) (sample_stream_target 1)"
    "map_of ([] :: connections) (pt_id (sample_stream_target 1)) = None" "sample_stream_target 2 \<in> set (sample_stream_target 1 # [sample_stream_target 2])"
    "map_of ([] :: connections) (pt_id (sample_stream_target 2)) = None" "pt_id (sample_stream_target 2) = 2"
    by (simp_all add: sse_targets_def sample_stream_target_def startable_def)
  then show ?thesis
    using bad_target_blocks_streams [where cfg = "(5, 300, ''/sse'')" and n = 7 and decrypts = "\<lambda>i. i \<noteq> 1" and conns = "[]"
        and ts = "[sample_stream_target 1, sample_stream_target 2]" and us = "[]" and bad = "sample_stream_target 1"
        and vs = "[sample_stream_target 2]" and v = "sample_stream_target 2"] by simp
qed

section \<open>Reconnecting\<close>

lemma process_event_keeps:
  "process_event loads now up ls (c, q, rows) = (e, c', q', rows') \<Longrightarrow>
     sc_current_delay c' = sc_current_delay c \<and> sc_reconnect_delay c' = sc_reconnect_delay c \<and> sc_max_reconnect_delay c' = sc_max_reconnect_delay c
     \<and> (\<exists>new. q' = q @ new)"
  by (auto simp: process_event_def Let_def split: option.splits json.splits sum.splits if_splits)

lemma stream_lines_delay:
  "stream_lines loads ls ty da (c, q, rows) = (e, c', q', rows') \<Longrightarrow>
     sc_current_delay c' \<in> {sc_current_delay c, sc_reconnect_delay c} \<and> sc_reconnect_delay c' = sc_reconnect_delay c
     \<and> sc_max_reconnect_delay c' = sc_max_reconnect_delay c"
proof (induction ls arbitrary: ty da c q rows)
  case (Cons l ls)
  obtain now up raw where l: "l = (now, up, raw)" by (cases l)
  obtain e1 c1 q1 rows1 where ev: "process_event loads now up da (c, q, rows) = (e1, c1, q1, rows1)" by (metis prod.collapse)
  note keeps = process_event_keeps [OF ev]
  show ?case
  proof (cases "starts_with (rstrip_eol raw) ''event:'' \<or> starts_with (rstrip_eol raw) ''data:''
      \<or> rstrip_eol raw \<noteq> [] \<or> \<not> (da \<noteq> [] \<and> ty = ''MetricReport'')")
    case True
    then have "\<exists>ty' da'. stream_lines loads ls ty' da' (c, q, rows) = (e, c', q', rows')"
      using Cons.prems by (auto simp: l Let_def split: if_splits)
    then show ?thesis using Cons.IH by blast
  next
    case False
    then have empty: "rstrip_eol raw = []" "da \<noteq> []" "ty = ''MetricReport''" by auto
    show ?thesis
    proof (cases e1)
      case None
      then have "stream_lines loads ls [] [] (c1\<lparr>sc_current_delay := sc_reconnect_delay c1, sc_consecutive_errors := 0\<rparr>, q1, rows1) = (e, c', q', rows')"
        using Cons.prems empty ev by (simp add: l)
      from Cons.IH [OF this] keeps show ?thesis by auto
    next
      case (Some err)
      then show ?thesis using Cons.prems empty ev keeps by (simp add: l)
    qed
  qed
qed simp

text \<open>
  The pause before a reconnect is never shorter than the configured delay and never longer than the maximum with
  its jitter, and the delay stays in its range, whatever the stream does.
\<close>

definition delay_ok :: "sse_connection \<Rightarrow> bool" where
  "delay_ok c \<longleftrightarrow> 0 < sc_reconnect_delay c \<and> sc_reconnect_delay c \<le> sc_current_delay c \<and> sc_current_delay c \<le> sc_max_reconnect_delay c"

lemma reconnects_paced:
  assumes "delay_ok c" "0 \<le> jitter" "jitter \<le> 1" "connection_round loads jitter attempt (c, q, rows) = (slept, c', rest)"
  shows "delay_ok c' \<and> sc_reconnect_delay c \<le> slept \<and> slept \<le> sc_max_reconnect_delay c * 13 / 10"
proof -
  obtain c1 q1 rows1 where s1: "(case attempt of None \<Rightarrow> (c, q, rows) | Some ls \<Rightarrow> snd (stream_lines loads ls [] [] (c, q, rows))) = (c1, q1, rows1)"
    by (metis prod.collapse)
  have "sc_current_delay c1 \<in> {sc_current_delay c, sc_reconnect_delay c} \<and> sc_reconnect_delay c1 = sc_reconnect_delay c
      \<and> sc_max_reconnect_delay c1 = sc_max_reconnect_delay c"
  proof (cases attempt)
    case (Some ls)
    then show ?thesis using s1 stream_lines_delay [of loads ls "[]" "[]" c q rows] by (metis option.simps(5) prod.collapse)
  qed (use s1 in auto)
  then have c1: "delay_ok c1" "sc_reconnect_delay c1 = sc_reconnect_delay c" "sc_max_reconnect_delay c1 = sc_max_reconnect_delay c"
    using assms(1) by (auto simp: delay_ok_def)
  have out: "slept = sc_current_delay c1 + jitter * (sc_current_delay c1 * 3 / 10)"
      "c' = c1\<lparr>sc_consecutive_errors := Suc (sc_consecutive_errors c1), sc_current_delay := min (sc_current_delay c1 * 2) (sc_max_reconnect_delay c1)\<rparr>"
    using assms(4) s1 by (simp_all add: connection_round_def Let_def)
  define y where "y = jitter * sc_current_delay c1"
  have "0 \<le> y" "y \<le> sc_current_delay c1"
    using assms(2, 3) c1(1) mult_right_mono [of jitter 1 "sc_current_delay c1"] by (simp_all add: y_def delay_ok_def)
  moreover have "slept = sc_current_delay c1 + 3 * y / 10" using out(1) by (simp add: y_def)
  ultimately have "sc_current_delay c1 \<le> slept" "slept \<le> sc_current_delay c1 * 13 / 10" by simp_all
  moreover have "sc_reconnect_delay c \<le> sc_current_delay c1" "sc_current_delay c1 \<le> sc_max_reconnect_delay c"
    using c1 by (simp_all add: delay_ok_def)
  moreover have "delay_ok c'" using c1(1) unfolding out(2) by (auto simp: delay_ok_def)
  ultimately show ?thesis by simp
qed

end
