(* ===== verification/Spec2Isabelle.thy ===== *)
theory Spec2Isabelle
  imports Shard_Manager Cper_Worker Influx_Exporter Alert_Subscriptions Log_Baseline Data_Hall Log_Collection Metric_Pipeline Redfish_Client Target_Admin Inventory_Collector Collector_Service Operator_Views Sse_Telemetry
begin

text \<open>
  A verification development for Gyanam, the GPU observability assistant: the collector service under
  \<open>collector/src/\<close> and the web interface that configures it.

  \<^bold>\<open>The program.\<close> A fleet of collectors polls the BMCs of GPU servers over Redfish, listens to their
  events and keeps what it learns. \<^emph>\<open>Sharding\<close> decides which collector serves which target: a pure
  allocation, leases and slots in a shared database, and a manager that claims and renews them. The
  \<^emph>\<open>poller\<close> asks each owned target for metric reports, or has it collect diagnostic data by a Redfish task that
  the \<^emph>\<open>client\<close> starts, follows, downloads and deletes; the \<^emph>\<open>parser\<close> unpacks and reads what came back, and the
  \<^emph>\<open>exporter\<close> buffers the metrics and writes them to InfluxDB, with a cache for the heatmap beside it. The
  \<^emph>\<open>alert\<close> side subscribes to every target (an event stream, or a webhook that the BMC calls), reads the
  events, limits and batches them, stores them without duplicates, pulls the log entries that predate a
  subscription, and decodes the CPER records attached to alerts in a background worker; a policy collects
  diagnostic bundles when alerts ask for it. The \<^emph>\<open>web interface\<close> authenticates users, manages targets, and
  shows where each system stands in the data hall.

  \<^bold>\<open>How it is modelled.\<close> Every function of the source becomes a HOL function with its arguments, the state it
  reads and writes passed explicitly as a \<open>record\<close>, and its exceptions and early returns as values of
  \<open>option\<close> or a sum. A database table is an association list under its primary key (\<open>db_table\<close>), a transaction a
  function on it. What lies outside the source is an argument: the replies of a BMC, of InfluxDB and
  of the database, the clock, random draws, the archive, JSONPath, regular expression, encryption and
  bcrypt libraries. Times are microseconds (\<open>int\<close>) or seconds (\<open>rat\<close>), texts are UTF-8 bytes, machine
  words appear where the code works on bytes (SHA-256, CPER registers).

  \<^bold>\<open>Shared theories.\<close>
  \<^item> \<open>Gy_Prelude\<close>: types for times and identifiers, keyed tables and the collection \<open>table_simps\<close>.
  \<^item> \<open>Py_Text\<close>, \<open>Py_Float\<close>, \<open>Py_Json\<close>, \<open>Py_Time\<close>, \<open>Py_Csv\<close>: the parts of Python that the code uses, executable:
    number formats and scanning, IEEE doubles with their printing and reading, JSON values, the Gregorian
    calendar, and the \<open>csv\<close> reader and writer, with the round trip \<open>csv_round_trip\<close>.
  \<^item> \<open>Sha256\<close>: \<open>hashlib.sha256\<close>, used by the allocation, the keys of alerts and the signatures of cookies.

  \<^bold>\<open>Sharding.\<close>
  \<^item> \<open>Shard_Alloc\<close> (\<open>shard_alloc.py\<close>): rendezvous allocation. The locale \<open>preference\<close> states what an order of collectors
    per target must give and proves the allocation a capacity-bounded partition that covers the
    fleet; \<open>rendezvous\<close> adds that removing a collector keeps the order of the others and proves minimal movement;
    \<open>hrw\<close> interprets both on the code's order.
  \<^item> \<open>Shard_Leases\<close> (\<open>database/repository.py\<close>): lease, slot and membership tables. The locale \<open>lease_pass\<close> is the
    contract of a claim pass; \<open>static_pass\<close> and \<open>dynamic_pass\<close> interpret it on the two passes of the code.
  \<^item> \<open>Shard_Manager\<close> (\<open>shard_manager.py\<close>, \<open>_init_sharding\<close>): start-up checks, and the fleet as a step
    relation in which any collectors interleave: fresh leases and slots are exclusive, and a round of passes covers the fleet.

  \<^bold>\<open>Polling and metrics.\<close>
  \<^item> \<open>Poller\<close> (\<open>redfish/poller.py\<close>): which reports a target is asked for, one poll with its fallback, the schedule with
    jitter and circuit breaker as a step relation over a changing fleet (scheduled polls are paced and do not overlap),
    polls on demand, the batched status updates.
  \<^item> \<open>Sse_Telemetry\<close> (\<open>redfish/sse_subscriber.py\<close>, \<open>redfish/sse_capability_check.py\<close>): targets that stream their reports
    instead of being polled, with the manager that keeps a stream per target, and the check whether a BMC can stream.
  \<^item> \<open>Redfish_Client\<close> (\<open>redfish/client.py\<close>): sessions and task-based collection against a BMC that answers
    arbitrarily; the collection ends, and a started task is deleted on every way out where the configuration asks for it.
  \<^item> \<open>Blob_Unpacker\<close>, \<open>Metric_Discovery\<close>, \<open>Metric_Pipeline\<close> (\<open>parser/\<close>, \<open>collector_main.py\<close>): unpacking within its
    directory and size limit, discovery as an exact search, and the path from a poll to the buffer of the exporter.
  \<^item> \<open>Influx_Exporter\<close> (\<open>exporters/influxdb.py\<close>), \<open>Heatmap\<close> (\<open>metrics_cache.py\<close>): the locale \<open>bounded_buffer\<close> is the
    contract of a buffer with a cap, interpreted on writing (\<open>write_buf\<close>) and on putting back (\<open>retry_buf\<close>); no point is
    lost uncounted in a flush, bisection isolates the points the server refuses, a dead connection recovers.

  \<^bold>\<open>Alerts.\<close>
  \<^item> \<open>Redfish_Events\<close> (\<open>alert_subscriber.py\<close>, \<open>webhook_subscriber.py\<close>): timestamps, framing of the event stream, events.
  \<^item> \<open>Alert_Subscriber\<close>: the reconnecting stream of one target as a state machine. \<open>Alert_Subscriptions\<close>
    (\<open>alert_manager.py\<close>, \<open>webhook_subscriber.py\<close>): the refresh that brings subscriptions in line with the targets.
  \<^item> \<open>Alert_Pipeline\<close> (\<open>alert_manager.py\<close>): rate limiter, queue, batches and shutdown; the locale \<open>item_accounting\<close> states
    what it means that every item offered is held, delivered or counted, and \<open>alert_accounting\<close> interprets it.
  \<^item> \<open>Alert_Store\<close> (\<open>database/repository.py\<close>): deduplicated ingestion, queries, retention, log cursors and the bookkeeping
    of CPER decoding. \<open>Log_Baseline\<close> (\<open>log_baseline.py\<close>): the pull of existing entries.
  \<^item> \<open>Amd_Cper\<close>, \<open>Cper_Decoder\<close>, \<open>Cper_Worker\<close>: the AMD sections of a CPER record, fetching and decoding one, and
    the worker, which refines a status machine with bounded attempts.
  \<^item> \<open>Log_Collection\<close> (\<open>log_collector.py\<close>, \<open>policy/engine.py\<close>): diagnostic bundles and the policy that starts
    them, as a run of overlapping collections in two processes that may fail or be cut off anywhere.

  \<^bold>\<open>Web interface.\<close>
  \<^item> \<open>Web_Auth\<close> (\<open>api/auth.py\<close>, \<open>api/csrf.py\<close>, the login of \<open>api_main.py\<close>): exactly who is let in, and for how long.
  \<^item> \<open>Target_Admin\<close> (\<open>api/routes/targets.py\<close>, \<open>database/repository.py\<close>): all requests that change targets, as a step
    relation that keeps every stored target valid; CSV import and export.
  \<^item> \<open>Inventory_Collector\<close> (\<open>inventory/\<close>, \<open>redfish/report_discovery.py\<close>): what is read once from each BMC, its hardware and
    the metric reports it offers, and the task that stores it.
  \<^item> \<open>Location\<close>, \<open>Data_Hall\<close> (\<open>location/\<close>, \<open>inventory/\<close>, \<open>api/routes/datahall.py\<close>): placement by operator, BMC and name,
    with its precedence, and the view that seats every system once.

  This theory adds when the identifier of a deleted target is given again, which decides what the tables that refer
  to targets by identifier (alerts, log cursors, leases, collected logs) show for the next one.

  \<^bold>\<open>The service.\<close>
  \<^item> \<open>App_Config\<close> (\<open>config.py\<close>, \<open>run\<close> of \<open>collector_main.py\<close>): the sections of the configuration with defaults and
    constraints, variables in the file, the overrides of the environment, which never leave an invalid configuration, and the
    checks before the start.
  \<^item> \<open>Collector_Service\<close> (\<open>collector_main.py\<close>): what the control port answers, exactly when the collector calls itself
    healthy, and the ordered shutdown with the flush loop running beside it, which accounts for every point still held and
    shows which are lost; it composes the poller, the
    pipeline of results, the exporter, the shard manager and the alert pipeline.
  \<^item> \<open>Operator_Views\<close> (\<open>api/routes/alerts.py\<close>, \<open>api/routes/redfish.py\<close>, \<open>AlertManager.get_stats\<close>): the statistics of all
    collectors in one view, the state of every subscription, and pages of alerts that together show every alert once.

  \<^bold>\<open>Bounds and fuel.\<close> The task poll of \<open>Redfish_Client\<close> is a partial function, whose value is \<open>None\<close> when it does not
  return; it returns when a status round takes time (\<open>collection_ends\<close>). Other loops whose end the code does not force
  are given fuel that is proved to be enough or that is the code's own limit: a log is read for at most 20 pages, as in the code; the reconnects of
  \<open>Alert_Subscriber\<close> end after the time limits of its configuration (\<open>refused_gives_up\<close>). All other recursion is
  structural or has a termination proof.

  \<^bold>\<open>Not modelled.\<close> \<open>redfish/ssh_transport.py\<close>, \<open>http_client.py\<close>, \<open>api/collector_client.py\<close> and \<open>api/dependencies.py\<close> are
  glue around network libraries. The routes that hand out stored rows unchanged or only render, templates, and the
  application set-up of \<open>api_main.py\<close> have no logic beyond formatting. Of \<open>run_collector\<close> the wiring is left out: it calls
  the modelled constructors with the fields of the configuration. \<open>parser/redfish_log_parser.py\<close> and \<open>exporters/prometheus.py\<close> are not used by
  the collector; \<open>scripts/\<close> holds programs of their own. YAML reading with pydantic's
  conversions, engine set-up and schema migration of the database, and logging are library calls. Cancellation of
  coroutines is modelled only where the shutdown relies on it; time limits of single requests are left out.
\<close>

section \<open>Identifiers of deleted targets\<close>

lemma next_rowid_reused:
  assumes pos: "\<forall>i \<in> fst ` set db. 0 < i" and tid: "tid \<in> fst ` set db"
  shows "next_rowid (filter (\<lambda>(i, _). i \<noteq> tid) db) = tid \<longleftrightarrow>
    (\<forall>i \<in> fst ` set db. i \<le> tid) \<and> (tid = 1 \<or> tid - 1 \<in> fst ` set db)"
proof -
  let ?rest = "filter (\<lambda>(i, _). i \<noteq> tid) db"
  have keys: "fst ` set ?rest = fst ` set db - {tid}" by force
  show ?thesis
  proof (cases "?rest = []")
    case True
    then have "fst ` set db = {tid}" using keys tid by auto
    then show ?thesis using True by (auto simp: next_rowid_def)
  next
    case False
    have "Max (fst ` set ?rest) = tid - 1 \<longleftrightarrow> tid - 1 \<in> fst ` set ?rest \<and> (\<forall>i \<in> fst ` set ?rest. i \<le> tid - 1)"
      using False by (subst Max_eq_iff) (auto simp: filter_empty_conv)
    also have "\<dots> \<longleftrightarrow> (\<forall>i \<in> fst ` set db. i \<le> tid) \<and> tid - 1 \<in> fst ` set db"
    proof -
      have "i \<le> tid - 1 \<longleftrightarrow> i \<le> tid \<and> i \<noteq> tid" for i using tid by auto
      then show ?thesis unfolding keys by auto
    qed
    also have "\<dots> \<longleftrightarrow> (\<forall>i \<in> fst ` set db. i \<le> tid) \<and> (tid = 1 \<or> tid - 1 \<in> fst ` set db)"
    proof -
      have "fst ` set ?rest \<noteq> {}" using False by blast
      then obtain i where "i \<in> fst ` set db" "i \<noteq> tid" unfolding keys by blast
      then have "\<not> (tid = 1 \<and> (\<forall>i \<in> fst ` set db. i \<le> tid))" using pos by force
      then show ?thesis by blast
    qed
    finally show ?thesis using False by (auto simp: next_rowid_def)
  qed
qed

text \<open>
  (C34) When the identifier of a deleted target is given again: the target created next after a
  deletion gets a new identifier exactly if the deleted target was not the newest, or the
  identifier before it is not in use (and it was not the first). Otherwise it is the same
  target as before to every table that refers to targets by identifier.
\<close>

theorem deleted_id_reused:
  assumes "delete_target_api tid db = (Inr (), db1)" "create_target_api env f db1 = (Inr new, db2)"
    "unique_key db" "\<forall>i \<in> fst ` set db. 0 < i"
  shows "(\<exists>t. db2 = db1 @ [(new, t)]) \<and> new \<notin> fst ` set db1 \<and>
    (new = tid \<longleftrightarrow> (\<forall>i \<in> fst ` set db. i \<le> tid) \<and> (tid = 1 \<or> tid - 1 \<in> fst ` set db))"
proof -
  have db1: "db1 = filter (\<lambda>(i, _). i \<noteq> tid) db" and tid: "tid \<in> fst ` set db"
    using assms(1) by (auto simp: delete_target_api_def delete_target_def split: if_splits dest!: map_of_SomeD intro: rev_image_eqI)
  obtain g where g: "new = next_rowid db1"
    "db2 = seed_location env new (tf_name g) (tf_host g) (snd (create_target env g db1))"
    using assms(2) by (auto simp: create_target_api_def create_target_def split: sum.splits option.splits prod.splits)
  have "unique_key db1" unfolding db1 using assms(3) by (rule distinct_map_filter)
  then have "\<exists>t. db2 = db1 @ [(new, t)]" unfolding g using created_seeded by blast
  then show ?thesis using next_rowid_fresh [of db1] next_rowid_reused [OF assms(4) tid] by (simp add: g(1) db1)
qed

definition demo_fields :: target_fields where
  "demo_fields =
     \<lparr>tf_name = ''B'', tf_host = ''10.0.0.2'', tf_port = 443, tf_use_ssl = True, tf_verify_ssl = False, tf_telemetry_endpoint = TELEMETRY_ENDPOINT,
      tf_username = ''u'', tf_password = ''p'', tf_token = None, tf_enabled = True, tf_enable_alert_subscription = True,
      tf_poll_interval_override = None, tf_tags = JNull, tf_metric_reports_override = JNull, tf_metric_discovery_mode = ''auto'',
      tf_connection_mode = ''direct'', tf_sse_endpoint = None\<rparr>"

theorem deleted_id_reused_witness:
  "\<exists>db2. delete_target_api 2 [(1, demo_row), (2, demo_row)] = (Inr (), [(1, demo_row)])
     \<and> create_target_api demo_admin demo_fields [(1, demo_row)] = (Inr 2, db2) \<and> fst ` set db2 = {1, 2}"
proof -
  let ?db2 = "snd (create_target_api demo_admin demo_fields [(1, demo_row)])"
  have d: "delete_target_api 2 [(1, demo_row), (2, demo_row)] = (Inr (), [(1, demo_row)])"
    by (simp add: delete_target_api_def delete_target_def)
  have "fst (create_target_api demo_admin demo_fields [(1, demo_row)]) = Inr 2" by code_simp
  then have c: "create_target_api demo_admin demo_fields [(1, demo_row)] = (Inr 2, ?db2)" by (metis prod.collapse)
  have "\<exists>t. ?db2 = [(1, demo_row)] @ [(2, t)]" using deleted_id_reused [OF d c] by simp
  then have "fst ` set ?db2 = {1, 2}" by force
  with d c show ?thesis by blast
qed

end
